(* ===== verification/Prelude.thy ===== *)
theory Prelude
  imports Complex_Main "HOL-Library.AList" "HOL-Library.Multiset"
begin

text \<open>
  Shared vocabulary of the development: the types that stand for the Rust types of the program, the
  association lists that stand for its hash maps, the theorem collections the component proofs use,
  and the generic lemmas on lists and maps they share.
\<close>

section \<open>Types and collections\<close>

text \<open>
  Times are integers: \<open>ms\<close> counts milliseconds since the epoch (\<open>timestamp_millis\<close>). A machine,
  container or message identifier is a \<open>string\<close>.
\<close>

type_synonym ms = int
type_synonym secs = int

text \<open>
  \<open>arr\<close>: reading an updated array. \<open>hm\<close>: reading an updated hash map.
\<close>

named_theorems arr \<open>how an array reads after a write\<close>
named_theorems hm \<open>how a hash map reads after an operation\<close>

section \<open>Arrays\<close>

lemma nth_upd_if [arr]: "xs[i := x] ! j = (if i = j \<and> i < length xs then x else xs ! j)"
  by (cases "i < length xs") (auto simp: nth_list_update list_update_beyond)

lemma sum_nth_set: "distinct f \<Longrightarrow> (\<Sum>r < length f. g (f ! r)) = (\<Sum>c \<in> set f. (g c :: int))"
  using sum.reindex_bij_betw[OF bij_betw_nth[of f "{..<length f}" "set f"], of g] by simp

section \<open>Options and hash maps\<close>

definition is_some_and :: "'a option \<Rightarrow> ('a \<Rightarrow> bool) \<Rightarrow> bool" where
  "is_some_and x p = (case x of None \<Rightarrow> False | Some a \<Rightarrow> p a)"

lemma is_some_and_simps [simp]: "is_some_and None p = False" "is_some_and (Some a) p = p a"
  by (simp_all add: is_some_and_def)

lemma is_some_and_iff: "is_some_and x p \<longleftrightarrow> (\<exists>a. x = Some a \<and> p a)"
  by (cases x) auto

lemma set_map_filter: "set (List.map_filter f xs) = {y. \<exists>x \<in> set xs. f x = Some y}"
  unfolding map_filter_def by force

lemma map_filter_Cons: "List.map_filter f (x # xs) = (case f x of None \<Rightarrow> List.map_filter f xs | Some y \<Rightarrow> y # List.map_filter f xs)"
  unfolding map_filter_def by (simp split: option.splits)

lemma map_filter_Nil [simp]: "List.map_filter f [] = []"
  unfolding map_filter_def by simp

text \<open>
  A hash map is an association list whose keys are distinct; the order of the list is the iteration
  order, over which the program makes no assumption.
\<close>

definition hm_ok :: "('k \<times> 'v) list \<Rightarrow> bool" where
  "hm_ok m \<longleftrightarrow> distinct (map fst m)"

lemma hm_ok_Nil [simp]: "hm_ok []"
  by (simp add: hm_ok_def)

lemma hm_ok_insert [intro, simp]: "hm_ok m \<Longrightarrow> hm_ok (AList.update k v m)"
  by (simp add: hm_ok_def distinct_update)

lemma hm_get_insert [hm]: "map_of (AList.update k v m) k' = (if k' = k then Some v else map_of m k')"
  by (simp add: update_conv')

lemma hm_insert_new: "k \<notin> fst ` set m \<Longrightarrow> AList.update k v m = m @ [(k, v)]"
  by (induction m) auto

lemma hm_ok_retain [intro]: "hm_ok m \<Longrightarrow> hm_ok (filter P m)"
  by (simp add: hm_ok_def distinct_map_filter)

lemma hm_mem: "hm_ok m \<Longrightarrow> (k, v) \<in> set m \<longleftrightarrow> map_of m k = Some v"
  by (simp add: hm_ok_def)

lemma hm_get_retain [hm]:
  "hm_ok m \<Longrightarrow> map_of (filter (\<lambda>(k, v). P k v) m) k = (case map_of m k of Some v \<Rightarrow> if P k v then Some v else None | None \<Rightarrow> None)"
proof (induction m)
  case (Cons x m)
  obtain a b where "x = (a, b)" by (cases x)
  moreover have "map_of m a = None" using Cons.prems calculation by (simp add: hm_ok_def map_of_eq_None_iff)
  ultimately show ?case using Cons by (auto simp: hm_ok_def split: option.splits)
qed simp

section \<open>Transition systems\<close>

text \<open>The states a program can be in, and the rule that an invariant of every step holds in all of them.\<close>

inductive reachable :: "('s \<Rightarrow> bool) \<Rightarrow> ('s \<Rightarrow> 's \<Rightarrow> bool) \<Rightarrow> 's \<Rightarrow> bool" for init step where
  reachable_init: "init s \<Longrightarrow> reachable init step s"
| reachable_step: "reachable init step s \<Longrightarrow> step s s' \<Longrightarrow> reachable init step s'"

locale invariant_system =
  fixes init :: "'s \<Rightarrow> bool" and step :: "'s \<Rightarrow> 's \<Rightarrow> bool" and inv :: "'s \<Rightarrow> bool"
  assumes inv_init: "init s \<Longrightarrow> inv s"
    and inv_step: "inv s \<Longrightarrow> step s s' \<Longrightarrow> inv s'"
begin

lemma inv_reachable: "reachable init step s \<Longrightarrow> inv s"
  by (induction rule: reachable.induct) (auto intro: inv_init inv_step)

lemma inv_steps: "inv s \<Longrightarrow> step\<^sup>*\<^sup>* s s' \<Longrightarrow> inv s'"
  by (rotate_tac 1, induction rule: rtranclp_induct) (auto intro: inv_step)

end

end
