(* ===== verification/Hungarian.thy ===== *)
theory Hungarian
  imports Prelude
begin

text \<open>
  The minimum-cost assignment solver \<open>hungarian\<close> of \<open>crates/api/src/livemap.rs\<close>: Kuhn-Munkres with
  row potentials \<open>u\<close>, column potentials \<open>v\<close>, the matching \<open>p\<close> (column to row, rows and columns
  counted from 1, 0 for none) and the search tree \<open>way\<close>. The arrays are lists, the two inner
  \<open>loop\<close>s are \<open>partial_function\<close>s (\<open>None\<close> is a panic or a loop that never ends), and \<open>i64\<close> values
  are integers. The main lemma \<open>hungarian_correct\<close> shows that the solver returns, and that what it
  returns is a cheapest assignment, by LP duality on the final potentials.
\<close>

section \<open>The program\<close>

definition INF_I64 :: int where
  "INF_I64 = 9223372036854775807 div 4"

text \<open>One round of \<open>for j in 1..=m\<close>: relax column \<open>j\<close> from row \<open>i0\<close>, and track the least \<open>minv\<close>.\<close>

definition scan_col ::
  "int list list \<Rightarrow> int list \<Rightarrow> int list \<Rightarrow> bool list \<Rightarrow> nat \<Rightarrow> nat \<Rightarrow> nat \<Rightarrow>
   int list \<times> nat list \<times> int \<times> nat \<Rightarrow> int list \<times> nat list \<times> int \<times> nat" where
  "scan_col a u v used i0 j0 j = (\<lambda>(minv, way, delta, j1).
     if used ! j then (minv, way, delta, j1)
     else
       let cur = a ! (i0 - 1) ! (j - 1) - u ! i0 - v ! j;
           minv' = (if cur < minv ! j then minv[j := cur] else minv);
           way' = (if cur < minv ! j then way[j := j0] else way)
       in if minv' ! j < delta then (minv', way', minv' ! j, j)
          else (minv', way', delta, j1))"

text \<open>One round of \<open>for j in 0..=m\<close>: shift the potentials of a used column, else lower its \<open>minv\<close>.\<close>

definition shift_col ::
  "nat list \<Rightarrow> bool list \<Rightarrow> int \<Rightarrow> nat \<Rightarrow>
   int list \<times> int list \<times> int list \<Rightarrow> int list \<times> int list \<times> int list" where
  "shift_col p used delta j = (\<lambda>(u, v, minv).
     if used ! j then (u[p ! j := u ! (p ! j) + delta], v[j := v ! j - delta], minv)
     else (u, v, minv[j := minv ! j - delta]))"

record hsearch =
  h_u :: "int list"
  h_v :: "int list"
  h_way :: "nat list"
  h_minv :: "int list"
  h_used :: "bool list"
  h_j0 :: nat

definition search_body :: "int list list \<Rightarrow> nat \<Rightarrow> nat list \<Rightarrow> hsearch \<Rightarrow> hsearch" where
  "search_body a m p s =
     (let used = (h_used s)[h_j0 s := True];
          i0 = p ! h_j0 s;
          (minv, way, delta, j1) =
            fold (scan_col a (h_u s) (h_v s) used i0 (h_j0 s)) [1..<Suc m]
              (h_minv s, h_way s, INF_I64, 0);
          (u, v, minv) = fold (shift_col p used delta) [0..<Suc m] (h_u s, h_v s, minv)
      in \<lparr>h_u = u, h_v = v, h_way = way, h_minv = minv, h_used = used, h_j0 = j1\<rparr>)"

partial_function (option) search_loop ::
  "int list list \<Rightarrow> nat \<Rightarrow> nat list \<Rightarrow> hsearch \<Rightarrow> hsearch option" where
  "search_loop a m p s =
     (let s' = search_body a m p s
      in if p ! h_j0 s' = 0 then Some s' else search_loop a m p s')"

partial_function (option) augment_loop :: "nat list \<Rightarrow> nat list \<Rightarrow> nat \<Rightarrow> nat list option" where
  "augment_loop way p j0 =
     (let j1 = way ! j0; p' = p[j0 := p ! j1]
      in if j1 = 0 then Some p' else augment_loop way p' j1)"

declare search_loop.simps [code] augment_loop.simps [code]

record hstate =
  s_u :: "int list"
  s_v :: "int list"
  s_p :: "nat list"
  s_way :: "nat list"

definition search_init :: "nat \<Rightarrow> hstate \<Rightarrow> hsearch" where
  "search_init m s =
     \<lparr>h_u = s_u s, h_v = s_v s, h_way = s_way s, h_minv = replicate (m + 1) INF_I64,
      h_used = replicate (m + 1) False, h_j0 = 0\<rparr>"

definition phase :: "int list list \<Rightarrow> nat \<Rightarrow> nat \<Rightarrow> hstate \<Rightarrow> hstate option" where
  "phase a m i s =
     (let p = (s_p s)[0 := i] in
      case search_loop a m p (search_init m s) of
        None \<Rightarrow> None
      | Some r \<Rightarrow>
          (case augment_loop (h_way r) p (h_j0 r) of
             None \<Rightarrow> None
           | Some p' \<Rightarrow> Some \<lparr>s_u = h_u r, s_v = h_v r, s_p = p', s_way = h_way r\<rparr>))"

fun phases :: "int list list \<Rightarrow> nat \<Rightarrow> nat list \<Rightarrow> hstate \<Rightarrow> hstate option" where
  "phases a m [] s = Some s"
| "phases a m (i # is) s =
     (case phase a m i s of None \<Rightarrow> None | Some s' \<Rightarrow> phases a m is s')"

definition read_ans :: "nat list \<Rightarrow> nat \<Rightarrow> nat \<Rightarrow> nat list" where
  "read_ans p n m =
     fold (\<lambda>j ans. if p ! j \<noteq> 0 then ans[p ! j - 1 := j - 1] else ans) [1..<Suc m] (replicate n 0)"

text \<open>
  The \<open>assert!\<close> panics when there are more rows than columns. Phase \<open>i\<close> reads every one of the \<open>m\<close>
  entries of row \<open>i\<close>, so a row shorter than the first one panics too; a longer row is only read up
  to \<open>m\<close>.
\<close>

definition hungarian :: "int list list \<Rightarrow> nat list option" where
  "hungarian a =
     (let n = length a in
      if n = 0 then Some []
      else
        let m = length (a ! 0) in
        if m < n \<or> (\<exists>row \<in> set a. length row < m) then None
        else
          (case phases a m [1..<Suc n]
                 \<lparr>s_u = replicate (n + 1) 0, s_v = replicate (m + 1) 0,
                  s_p = replicate (m + 1) 0, s_way = replicate (m + 1) 0\<rparr> of
             None \<Rightarrow> None
           | Some s \<Rightarrow> Some (read_ans (s_p s) n m)))"

section \<open>Specification\<close>

definition is_assignment :: "nat \<Rightarrow> nat \<Rightarrow> nat list \<Rightarrow> bool" where
  "is_assignment n m f \<longleftrightarrow> length f = n \<and> distinct f \<and> (\<forall>c \<in> set f. c < m)"

definition assignment_cost :: "int list list \<Rightarrow> nat list \<Rightarrow> int" where
  "assignment_cost a f = (\<Sum>r < length f. a ! r ! (f ! r))"

text \<open>
  The inputs the solver is called with: at least as many columns as rows, entries bounded by \<open>C\<close>,
  and \<open>C\<close> small enough that no potential or reduced cost reaches the sentinel \<open>i64::MAX / 4\<close>.
\<close>

definition matrix_ok :: "int list list \<Rightarrow> nat \<Rightarrow> nat \<Rightarrow> int \<Rightarrow> bool" where
  "matrix_ok a n m C \<longleftrightarrow>
     length a = n \<and> n \<le> m \<and> (\<forall>row \<in> set a. m \<le> length row) \<and>
     (\<forall>r < n. \<forall>j < m. \<bar>a ! r ! j\<bar> \<le> C) \<and> 0 \<le> C \<and> 2 * C * (int n + 1) < INF_I64"

definition red_cost :: "int list list \<Rightarrow> int list \<Rightarrow> int list \<Rightarrow> nat \<Rightarrow> nat \<Rightarrow> int" where
  "red_cost a u v i0 j = a ! (i0 - 1) ! (j - 1) - u ! i0 - v ! j"

lemma matrix_ok_entry:
  assumes "matrix_ok a n m C" "1 \<le> r" "r \<le> n" "1 \<le> j" "j \<le> m"
  shows "- C \<le> a ! (r - 1) ! (j - 1) \<and> a ! (r - 1) ! (j - 1) \<le> C"
proof -
  have "r - 1 < n" "j - 1 < m" using assms by auto
  with assms(1) have "\<bar>a ! (r - 1) ! (j - 1)\<bar> \<le> C" by (auto simp: matrix_ok_def)
  then show ?thesis by linarith
qed

lemma matrix_ok_2C:
  assumes "matrix_ok a n m C"
  shows "2 * C < INF_I64"
proof -
  have "2 * C * 1 \<le> 2 * C * (int n + 1)"
    using assms by (intro mult_left_mono) (auto simp: matrix_ok_def)
  with assms show ?thesis by (auto simp: matrix_ok_def)
qed

section \<open>The two scans over the columns\<close>

lemma scan_spec:
  assumes k: "k \<le> m" and len: "length minv = Suc m" "length way = Suc m"
    and r: "fold (scan_col a u v used i0 j0) [1..<Suc k] (minv, way, INF_I64, 0) = (minv', way', delta, j1)"
  shows "length minv' = Suc m \<and> length way' = Suc m \<and>
    (\<forall>j \<le> m. minv' ! j = (if 1 \<le> j \<and> j \<le> k \<and> \<not> used ! j then min (minv ! j) (red_cost a u v i0 j) else minv ! j)) \<and>
    (\<forall>j \<le> m. way' ! j = (if 1 \<le> j \<and> j \<le> k \<and> \<not> used ! j \<and> red_cost a u v i0 j < minv ! j then j0 else way ! j)) \<and>
    (\<forall>j. 1 \<le> j \<and> j \<le> k \<and> \<not> used ! j \<longrightarrow> delta \<le> minv' ! j) \<and>
    (delta = INF_I64 \<and> j1 = 0 \<or> delta < INF_I64 \<and> 1 \<le> j1 \<and> j1 \<le> k \<and> \<not> used ! j1 \<and> delta = minv' ! j1)"
  using k r
proof (induction k arbitrary: minv' way' delta j1)
  case 0
  then show ?case using len by auto
next
  case (Suc k)
  obtain mk wk dk jk where f: "fold (scan_col a u v used i0 j0) [1..<Suc k] (minv, way, INF_I64, 0) = (mk, wk, dk, jk)"
    by (metis prod_cases4)
  note IH = Suc.IH[OF _ f]
  have st: "scan_col a u v used i0 j0 (Suc k) (mk, wk, dk, jk) = (minv', way', delta, j1)"
    using Suc.prems(2) f by (simp add: upt_Suc_append)
  from IH Suc.prems(1) have len': "length mk = Suc m" "length wk = Suc m"
    and mk: "\<forall>j\<le>m. mk ! j = (if 1 \<le> j \<and> j \<le> k \<and> \<not> used ! j then min (minv ! j) (red_cost a u v i0 j) else minv ! j)"
    and wk: "\<forall>j\<le>m. wk ! j = (if 1 \<le> j \<and> j \<le> k \<and> \<not> used ! j \<and> red_cost a u v i0 j < minv ! j then j0 else way ! j)"
    and dk: "\<forall>j. 1 \<le> j \<and> j \<le> k \<and> \<not> used ! j \<longrightarrow> dk \<le> mk ! j"
    and jk: "dk = INF_I64 \<and> jk = 0 \<or> dk < INF_I64 \<and> 1 \<le> jk \<and> jk \<le> k \<and> \<not> used ! jk \<and> dk = mk ! jk"
    by auto
  show ?case
  proof (cases "used ! Suc k")
    case True
    with st have "minv' = mk" "way' = wk" "delta = dk" "j1 = jk" by (auto simp: scan_col_def)
    with True len' mk wk dk jk show ?thesis by (auto simp: le_Suc_eq)
  next
    case False
    let ?cur = "red_cost a u v i0 (Suc k)"
    have mkS: "mk ! Suc k = minv ! Suc k" and wkS: "wk ! Suc k = way ! Suc k"
      using mk wk Suc.prems(1) by auto
    have m': "minv' = (if ?cur < mk ! Suc k then mk[Suc k := ?cur] else mk)"
      and w': "way' = (if ?cur < mk ! Suc k then wk[Suc k := j0] else wk)"
      and dj: "(delta, j1) = (if minv' ! Suc k < dk then (minv' ! Suc k, Suc k) else (dk, jk))"
      using st False by (auto simp: scan_col_def red_cost_def Let_def split: if_splits)
    have A: "length minv' = Suc m" "length way' = Suc m" using m' w' len' by auto
    have B: "\<forall>j\<le>m. minv' ! j = (if 1 \<le> j \<and> j \<le> Suc k \<and> \<not> used ! j then min (minv ! j) (red_cost a u v i0 j) else minv ! j)"
      using m' mk mkS False len' by (auto simp: arr le_Suc_eq)
    have C: "\<forall>j\<le>m. way' ! j = (if 1 \<le> j \<and> j \<le> Suc k \<and> \<not> used ! j \<and> red_cost a u v i0 j < minv ! j then j0 else way ! j)"
      using w' wk wkS mkS False len' by (auto simp: arr le_Suc_eq)
    have old: "minv' ! j = mk ! j" if "j \<le> k" for j using m' that by auto
    have D: "\<forall>j. 1 \<le> j \<and> j \<le> Suc k \<and> \<not> used ! j \<longrightarrow> delta \<le> minv' ! j"
    proof (intro allI impI)
      fix j assume j: "1 \<le> j \<and> j \<le> Suc k \<and> \<not> used ! j"
      show "delta \<le> minv' ! j"
      proof (cases "j = Suc k")
        case True then show ?thesis using dj by (auto split: if_splits)
      next
        case ne: False
        then have "dk \<le> minv' ! j" using j dk old by auto
        then show ?thesis using dj by (auto split: if_splits)
      qed
    qed
    have E: "delta = INF_I64 \<and> j1 = 0 \<or> delta < INF_I64 \<and> 1 \<le> j1 \<and> j1 \<le> Suc k \<and> \<not> used ! j1 \<and> delta = minv' ! j1"
      using dj jk old False by (auto split: if_splits)
    show ?thesis using A B C D E by blast
  qed
qed

lemma shift_spec:
  assumes k: "k \<le> Suc m"
    and len: "length u = Suc n" "length v = Suc m" "length minv = Suc m"
    and pn: "\<forall>j\<le>m. p ! j \<le> n"
    and inj: "inj_on ((!) p) {j. j \<le> m \<and> used ! j}"
    and r: "fold (shift_col p used delta) [0..<k] (u, v, minv) = (u', v', minv')"
  shows "length u' = Suc n \<and> length v' = Suc m \<and> length minv' = Suc m \<and>
    (\<forall>r \<le> n. u' ! r = u ! r + (if \<exists>j<k. used ! j \<and> p ! j = r then delta else 0)) \<and>
    (\<forall>j \<le> m. v' ! j = v ! j - (if j < k \<and> used ! j then delta else 0)) \<and>
    (\<forall>j \<le> m. minv' ! j = minv ! j - (if j < k \<and> \<not> used ! j then delta else 0))"
  using k r
proof (induction k arbitrary: u' v' minv')
  case 0
  then show ?case using len by auto
next
  case (Suc k)
  obtain uk vk mk where f: "fold (shift_col p used delta) [0..<k] (u, v, minv) = (uk, vk, mk)"
    by (metis prod_cases3)
  have st: "shift_col p used delta k (uk, vk, mk) = (u', v', minv')"
    using Suc.prems(2) f by simp
  have IH: "length uk = Suc n" "length vk = Suc m" "length mk = Suc m"
    "\<forall>r\<le>n. uk ! r = u ! r + (if \<exists>j<k. used ! j \<and> p ! j = r then delta else 0)"
    "\<forall>j\<le>m. vk ! j = v ! j - (if j < k \<and> used ! j then delta else 0)"
    "\<forall>j\<le>m. mk ! j = minv ! j - (if j < k \<and> \<not> used ! j then delta else 0)"
    using Suc.IH[OF _ f] Suc.prems(1) by auto
  have km: "k \<le> m" using Suc.prems(1) by simp
  show ?case
  proof (cases "used ! k")
    case True
    have no: "\<not> (\<exists>j<k. used ! j \<and> p ! j = p ! k)"
      using inj True km by (auto dest!: inj_onD[where y = k])
    have u': "u' = uk[p ! k := uk ! (p ! k) + delta]" "v' = vk[k := vk ! k - delta]" "minv' = mk"
      using st True by (auto simp: shift_col_def)
    have "\<forall>r\<le>n. u' ! r = u ! r + (if \<exists>j<Suc k. used ! j \<and> p ! j = r then delta else 0)"
      using u' IH(1,4) no True pn km by (fastforce simp: arr less_Suc_eq)
    moreover have "\<forall>j\<le>m. v' ! j = v ! j - (if j < Suc k \<and> used ! j then delta else 0)"
      using u' IH(2,5) True km by (auto simp: arr less_Suc_eq)
    moreover have "\<forall>j\<le>m. minv' ! j = minv ! j - (if j < Suc k \<and> \<not> used ! j then delta else 0)"
      using u' IH(6) True by (auto simp: less_Suc_eq)
    ultimately show ?thesis using u' IH(1-3) by auto
  next
    case False
    have u': "u' = uk" "v' = vk" "minv' = mk[k := mk ! k - delta]"
      using st False by (auto simp: shift_col_def)
    show ?thesis using u' IH False km by (auto simp: arr less_Suc_eq)
  qed
qed


section \<open>One round of the column search\<close>

text \<open>
  \<open>match_ok m i p\<close>: the matching while row \<open>i\<close> is being placed. Row \<open>i\<close> sits in the dummy column
  0, and the earlier rows are matched to distinct columns.
\<close>

definition match_ok :: "nat \<Rightarrow> nat \<Rightarrow> nat list \<Rightarrow> bool" where
  "match_ok m i p \<longleftrightarrow>
     length p = Suc m \<and> p ! 0 = i \<and> 0 < i \<and> (\<forall>j. 1 \<le> j \<and> j \<le> m \<longrightarrow> p ! j < i) \<and>
     inj_on ((!) p) {j. j \<le> m \<and> p ! j \<noteq> 0}"

lemma match_ok_le: "match_ok m i p \<Longrightarrow> j \<le> m \<Longrightarrow> p ! j \<le> i"
  by (cases "j = 0") (auto simp: match_ok_def Suc_le_eq less_imp_le)

lemma match_ok_free_col:
  assumes "match_ok m i p" "i \<le> m"
  shows "\<exists>j. 1 \<le> j \<and> j \<le> m \<and> p ! j = 0"
proof (rule ccontr)
  assume "\<not> ?thesis"
  then have nz: "\<forall>j. 1 \<le> j \<and> j \<le> m \<longrightarrow> p ! j \<noteq> 0" by auto
  have "inj_on ((!) p) {1..m}"
    using assms(1) nz by (auto simp: match_ok_def intro: inj_on_subset)
  moreover have "(!) p ` {1..m} \<subseteq> {1..<i}"
    using assms(1) nz by (auto simp: match_ok_def Suc_le_eq)
  ultimately have "card {1..m} \<le> card {1..<i}"
    by (rule card_inj_on_le) simp
  then show False using assms by (auto simp: match_ok_def)
qed

text \<open>
  What one round does, over the arrays: column \<open>j0\<close> joins the used ones, every unused column is
  relaxed from its row, and the potentials move by the least relaxed value \<open>de\<close>.
\<close>

definition relaxed :: "int list list \<Rightarrow> nat list \<Rightarrow> hsearch \<Rightarrow> nat \<Rightarrow> int" where
  "relaxed a p s j = min (h_minv s ! j) (red_cost a (h_u s) (h_v s) (p ! h_j0 s) j)"

definition round_effect ::
  "int list list \<Rightarrow> nat \<Rightarrow> nat \<Rightarrow> nat list \<Rightarrow> hsearch \<Rightarrow> hsearch \<Rightarrow> int \<Rightarrow> bool" where
  "round_effect a n m p s s' de \<longleftrightarrow>
     (let used' = (h_used s)[h_j0 s := True]; M = relaxed a p s in
      h_used s' = used' \<and> length (h_u s') = Suc n \<and> length (h_v s') = Suc m \<and>
      length (h_way s') = Suc m \<and> length (h_minv s') = Suc m \<and>
      (\<forall>j. 1 \<le> j \<and> j \<le> m \<and> \<not> used' ! j \<longrightarrow> de \<le> M j) \<and>
      1 \<le> h_j0 s' \<and> h_j0 s' \<le> m \<and> \<not> used' ! h_j0 s' \<and> M (h_j0 s') = de \<and>
      (\<forall>j. 1 \<le> j \<and> j \<le> m \<and> \<not> used' ! j \<longrightarrow> h_minv s' ! j = M j - de) \<and>
      (\<forall>j. 1 \<le> j \<and> j \<le> m \<and> \<not> used' ! j \<longrightarrow>
         h_way s' ! j =
           (if red_cost a (h_u s) (h_v s) (p ! h_j0 s) j < h_minv s ! j then h_j0 s else h_way s ! j)) \<and>
      (\<forall>j\<le>m. used' ! j \<longrightarrow> h_way s' ! j = h_way s ! j) \<and>
      (\<forall>r\<le>n. h_u s' ! r = h_u s ! r + (if \<exists>j\<le>m. used' ! j \<and> p ! j = r then de else 0)) \<and>
      (\<forall>j\<le>m. h_v s' ! j = h_v s ! j - (if used' ! j then de else 0)))"

lemma round_effect_exists:
  assumes len: "length (h_u s) = Suc n" "length (h_v s) = Suc m" "length (h_way s) = Suc m"
      "length (h_minv s) = Suc m" "length (h_used s) = Suc m" "h_j0 s \<le> m"
    and p: "match_ok m i p" "i \<le> n"
    and unz: "\<forall>j\<le>m. h_used s ! j \<longrightarrow> p ! j \<noteq> 0" "p ! h_j0 s \<noteq> 0"
    and fin: "1 \<le> jf" "jf \<le> m" "\<not> (h_used s)[h_j0 s := True] ! jf" "relaxed a p s jf < INF_I64"
  shows "\<exists>de. round_effect a n m p s (search_body a m p s) de"
proof -
  define used' where "used' = (h_used s)[h_j0 s := True]"
  define M where "M = relaxed a p s"
  obtain mv wy de j1 where f: "fold (scan_col a (h_u s) (h_v s) used' (p ! h_j0 s) (h_j0 s)) [1..<Suc m]
      (h_minv s, h_way s, INF_I64, 0) = (mv, wy, de, j1)" by (metis prod_cases4)
  obtain u2 v2 m2 where g: "fold (shift_col p used' de) [0..<Suc m] (h_u s, h_v s, mv) = (u2, v2, m2)"
    by (metis prod_cases3)
  have s': "search_body a m p s =
      \<lparr>h_u = u2, h_v = v2, h_way = wy, h_minv = m2, h_used = used', h_j0 = j1\<rparr>"
    using f g used'_def by (simp add: search_body_def)
  have pn: "\<forall>j\<le>m. p ! j \<le> n" using match_ok_le[OF p(1)] p(2) by (meson le_trans)
  have "{j. j \<le> m \<and> used' ! j} \<subseteq> {j. j \<le> m \<and> p ! j \<noteq> 0}"
    using unz used'_def len by (auto simp: arr split: if_splits)
  then have inj: "inj_on ((!) p) {j. j \<le> m \<and> used' ! j}"
    using p(1) by (auto simp: match_ok_def intro: inj_on_subset)
  note S = scan_spec[OF le_refl len(4,3) f]
  have lenmv: "length mv = Suc m" using S by blast
  note T = shift_spec[OF le_refl len(1,2) lenmv pn inj g]
  have Mmv: "mv ! j = M j" if "1 \<le> j" "j \<le> m" "\<not> used' ! j" for j
    using S that by (auto simp: M_def relaxed_def)
  have deM: "\<forall>j. 1 \<le> j \<and> j \<le> m \<and> \<not> used' ! j \<longrightarrow> de \<le> M j"
    using S Mmv by (metis (no_types, lifting))
  then have "de < INF_I64" using fin by (force simp: used'_def M_def)
  then have j1: "1 \<le> j1" "j1 \<le> m" "\<not> used' ! j1" "M j1 = de" using S Mmv by auto
  have "\<forall>r\<le>n. u2 ! r = h_u s ! r + (if \<exists>j\<le>m. used' ! j \<and> p ! j = r then de else 0)"
    "\<forall>j\<le>m. v2 ! j = h_v s ! j - (if used' ! j then de else 0)"
    using T by (auto simp: less_Suc_eq_le)
  then show ?thesis
    using S T j1 deM Mmv
    unfolding round_effect_def s' Let_def used'_def[symmetric] M_def[symmetric]
    by (intro exI[of _ de]) auto
qed

text \<open>
  The invariant of the search between two rounds. The used columns form a tree rooted in column 0
  (ranked by \<open>rk\<close>) of tight edges, \<open>minv\<close> is the least reduced cost from the tree to each other
  column, and no potential has moved further than row \<open>i\<close>'s own.
\<close>

definition search_inv ::
  "int list list \<Rightarrow> nat \<Rightarrow> nat \<Rightarrow> nat \<Rightarrow> int \<Rightarrow> int list \<Rightarrow> nat list \<Rightarrow> hsearch \<Rightarrow> bool" where
  "search_inv a n m i C v0 p s \<longleftrightarrow>
     (let rc = red_cost a (h_u s) (h_v s); used = h_used s; way = h_way s in
     length (h_u s) = Suc n \<and> length (h_v s) = Suc m \<and> length way = Suc m \<and>
     length (h_minv s) = Suc m \<and> length used = Suc m \<and>
     used ! 0 \<and> 1 \<le> h_j0 s \<and> h_j0 s \<le> m \<and> \<not> used ! h_j0 s \<and> h_minv s ! h_j0 s = 0 \<and>
     (\<forall>j\<le>m. used ! j \<longrightarrow> p ! j \<noteq> 0) \<and>
     (\<forall>r j. 1 \<le> r \<and> r \<le> i \<and> 1 \<le> j \<and> j \<le> m \<longrightarrow> 0 \<le> rc r j) \<and>
     (\<forall>j. 1 \<le> j \<and> j \<le> m \<and> p ! j \<noteq> 0 \<longrightarrow> rc (p ! j) j = 0) \<and>
     (\<forall>j. 1 \<le> j \<and> j \<le> m \<and> \<not> used ! j \<longrightarrow>
        way ! j \<le> m \<and> used ! (way ! j) \<and> h_minv s ! j = rc (p ! (way ! j)) j \<and>
        (\<forall>k\<le>m. used ! k \<longrightarrow> h_minv s ! j \<le> rc (p ! k) j)) \<and>
     (\<exists>rk. (\<forall>j\<le>m. used ! j \<longrightarrow> rk j < card {j. j \<le> m \<and> used ! j}) \<and>
        (\<forall>j. 1 \<le> j \<and> j \<le> m \<and> used ! j \<longrightarrow>
           way ! j \<le> m \<and> used ! (way ! j) \<and> (rk (way ! j) :: nat) < rk j \<and> rc (p ! (way ! j)) j = 0)) \<and>
     (\<forall>j. 1 \<le> j \<and> j \<le> m \<longrightarrow>
        h_v s ! j \<le> 0 \<and> v0 ! j - (h_u s ! i + C) \<le> h_v s ! j \<and> (p ! j = 0 \<longrightarrow> h_v s ! j = 0)) \<and>
     (\<forall>r. i < r \<and> r \<le> n \<longrightarrow> h_u s ! r = 0))"

lemma search_invI:
  assumes "length (h_u s) = Suc n" "length (h_v s) = Suc m" "length (h_way s) = Suc m"
    "length (h_minv s) = Suc m" "length (h_used s) = Suc m" "h_j0 s \<le> m"
    and "1 \<le> h_j0 s" "\<not> h_used s ! h_j0 s" "h_minv s ! h_j0 s = 0" "h_used s ! 0"
    and "\<forall>j\<le>m. h_used s ! j \<longrightarrow> p ! j \<noteq> 0"
    and "\<And>r j. 1 \<le> r \<Longrightarrow> r \<le> i \<Longrightarrow> 1 \<le> j \<Longrightarrow> j \<le> m \<Longrightarrow> 0 \<le> red_cost a (h_u s) (h_v s) r j"
    and "\<And>j. 1 \<le> j \<Longrightarrow> j \<le> m \<Longrightarrow> p ! j \<noteq> 0 \<Longrightarrow> red_cost a (h_u s) (h_v s) (p ! j) j = 0"
    and "\<And>j. 1 \<le> j \<Longrightarrow> j \<le> m \<Longrightarrow> \<not> h_used s ! j \<Longrightarrow>
      h_way s ! j \<le> m \<and> h_used s ! (h_way s ! j) \<and>
      h_minv s ! j = red_cost a (h_u s) (h_v s) (p ! (h_way s ! j)) j \<and>
      (\<forall>k\<le>m. h_used s ! k \<longrightarrow> h_minv s ! j \<le> red_cost a (h_u s) (h_v s) (p ! k) j)"
    and "\<And>j. 1 \<le> j \<Longrightarrow> j \<le> m \<Longrightarrow> h_v s ! j \<le> 0 \<and> v0 ! j - (h_u s ! i + C) \<le> h_v s ! j \<and>
      (p ! j = 0 \<longrightarrow> h_v s ! j = 0)"
    and "\<And>r. i < r \<Longrightarrow> r \<le> n \<Longrightarrow> h_u s ! r = 0"
    and "\<exists>rk. (\<forall>j\<le>m. h_used s ! j \<longrightarrow> rk j < card {j. j \<le> m \<and> h_used s ! j}) \<and>
      (\<forall>j. 1 \<le> j \<and> j \<le> m \<and> h_used s ! j \<longrightarrow> h_way s ! j \<le> m \<and> h_used s ! (h_way s ! j) \<and>
         (rk (h_way s ! j) :: nat) < rk j \<and> red_cost a (h_u s) (h_v s) (p ! (h_way s ! j)) j = 0)"
  shows "search_inv a n m i C v0 p s"
  unfolding search_inv_def Let_def
proof (intro conjI)
  show "\<exists>rk. (\<forall>j\<le>m. h_used s ! j \<longrightarrow> rk j < card {j. j \<le> m \<and> h_used s ! j}) \<and>
      (\<forall>j. 1 \<le> j \<and> j \<le> m \<and> h_used s ! j \<longrightarrow> h_way s ! j \<le> m \<and> h_used s ! (h_way s ! j) \<and>
         (rk (h_way s ! j) :: nat) < rk j \<and> red_cost a (h_u s) (h_v s) (p ! (h_way s ! j)) j = 0)" by fact
  show "\<forall>j. 1 \<le> j \<and> j \<le> m \<and> \<not> h_used s ! j \<longrightarrow>
      h_way s ! j \<le> m \<and> h_used s ! (h_way s ! j) \<and>
      h_minv s ! j = red_cost a (h_u s) (h_v s) (p ! (h_way s ! j)) j \<and>
      (\<forall>k\<le>m. h_used s ! k \<longrightarrow> h_minv s ! j \<le> red_cost a (h_u s) (h_v s) (p ! k) j)"
    by (intro allI impI, elim conjE) (rule assms(14))
qed (use assms(1-11) in \<open>simp_all add: assms(12-16)\<close>)

lemma search_invD:
  assumes "search_inv a n m i C v0 p s"
  shows "length (h_u s) = Suc n" "length (h_v s) = Suc m" "length (h_way s) = Suc m"
    "length (h_minv s) = Suc m" "length (h_used s) = Suc m" "h_j0 s \<le> m"
    and "1 \<le> h_j0 s" "\<not> h_used s ! h_j0 s" "h_minv s ! h_j0 s = 0" "h_used s ! 0"
    and "\<forall>j\<le>m. h_used s ! j \<longrightarrow> p ! j \<noteq> 0"
    and "\<And>r j. 1 \<le> r \<Longrightarrow> r \<le> i \<Longrightarrow> 1 \<le> j \<Longrightarrow> j \<le> m \<Longrightarrow> 0 \<le> red_cost a (h_u s) (h_v s) r j"
    and "\<And>j. 1 \<le> j \<Longrightarrow> j \<le> m \<Longrightarrow> p ! j \<noteq> 0 \<Longrightarrow> red_cost a (h_u s) (h_v s) (p ! j) j = 0"
    and "\<And>j. 1 \<le> j \<Longrightarrow> j \<le> m \<Longrightarrow> \<not> h_used s ! j \<Longrightarrow>
      h_way s ! j \<le> m \<and> h_used s ! (h_way s ! j) \<and>
      h_minv s ! j = red_cost a (h_u s) (h_v s) (p ! (h_way s ! j)) j \<and>
      (\<forall>k\<le>m. h_used s ! k \<longrightarrow> h_minv s ! j \<le> red_cost a (h_u s) (h_v s) (p ! k) j)"
    and "\<And>j. 1 \<le> j \<Longrightarrow> j \<le> m \<Longrightarrow> h_v s ! j \<le> 0 \<and> v0 ! j - (h_u s ! i + C) \<le> h_v s ! j \<and>
      (p ! j = 0 \<longrightarrow> h_v s ! j = 0)"
    and "\<forall>r. i < r \<and> r \<le> n \<longrightarrow> h_u s ! r = 0"
  using assms by (auto simp: search_inv_def Let_def)

text \<open>A round from a state with the invariant, in which column \<open>j0\<close> is still matched.\<close>

definition round_ctx ::
  "int list list \<Rightarrow> nat \<Rightarrow> nat \<Rightarrow> nat \<Rightarrow> int \<Rightarrow> int list \<Rightarrow> nat list \<Rightarrow> hsearch \<Rightarrow> hsearch \<Rightarrow> int \<Rightarrow> bool" where
  "round_ctx a n m i C v0 p s s' de \<longleftrightarrow>
     match_ok m i p \<and> i \<le> n \<and> search_inv a n m i C v0 p s \<and> p ! h_j0 s \<noteq> 0 \<and>
     round_effect a n m p s s' de"

lemma round_ctx_exists:
  assumes mok: "matrix_ok a n m C" and p: "match_ok m i p" "i \<le> n"
    and inv: "search_inv a n m i C v0 p s" and cont: "p ! h_j0 s \<noteq> 0"
  shows "\<exists>de. round_ctx a n m i C v0 p s (search_body a m p s) de"
proof -
  note I = search_invD[OF inv]
  let ?rc = "red_cost a (h_u s) (h_v s)"
  obtain jf where jf: "1 \<le> jf" "jf \<le> m" "p ! jf = 0"
    using match_ok_free_col[OF p(1)] p(2) mok by (auto simp: matrix_ok_def)
  have jfu: "\<not> (h_used s)[h_j0 s := True] ! jf" using jf I(11) cont by (auto simp: arr)
  have j0row: "1 \<le> p ! h_j0 s" "p ! h_j0 s \<le> n" using cont match_ok_le[OF p(1) I(6)] p(2) by auto
  have "?rc (p ! h_j0 s) jf \<le> 2 * C"
  proof -
    have "h_u s ! (p ! h_j0 s) = a ! (p ! h_j0 s - 1) ! (h_j0 s - 1) - h_v s ! h_j0 s"
      using I(13)[OF I(7,6) cont] by (simp add: red_cost_def)
    then have "- C \<le> h_u s ! (p ! h_j0 s)"
      using matrix_ok_entry[OF mok j0row I(7,6)] I(15)[OF I(7,6)] by linarith
    then show ?thesis
      using matrix_ok_entry[OF mok j0row jf(1,2)] I(15)[OF jf(1,2)] jf(3) by (simp add: red_cost_def)
  qed
  then have "relaxed a p s jf < INF_I64" using matrix_ok_2C[OF mok] by (simp add: relaxed_def)
  with round_effect_exists[OF I(1-6) p I(11) cont jf(1,2) jfu] show ?thesis
    using p inv cont by (auto simp: round_ctx_def)
qed

lemma round_used:
  assumes "round_ctx a n m i C v0 p s s' de" "j \<le> m"
  shows "h_used s' ! j \<longleftrightarrow> h_used s ! j \<or> j = h_j0 s"
  using assms search_invD(5,6)[of a n m i C v0 p s]
  by (auto simp: round_ctx_def round_effect_def Let_def arr)

lemma round_row:
  assumes ctx: "round_ctx a n m i C v0 p s s' de" and j: "j \<le> m" "h_used s' ! j"
  shows "1 \<le> p ! j \<and> p ! j \<le> i \<and> p ! j \<le> n"
proof -
  have "p ! j \<noteq> 0"
    using round_used[OF ctx j(1)] ctx j search_invD(11)[of a n m i C v0 p s] by (auto simp: round_ctx_def)
  moreover have "p ! j \<le> i" "i \<le> n" using ctx match_ok_le[OF _ j(1)] by (auto simp: round_ctx_def)
  ultimately show ?thesis by simp
qed

text \<open>How reduced costs move: down in the rows of the tree, up in its columns.\<close>

lemma round_rc:
  assumes "round_ctx a n m i C v0 p s s' de" "r \<le> n" "j \<le> m"
  shows "red_cost a (h_u s') (h_v s') r j =
    red_cost a (h_u s) (h_v s) r j - (if \<exists>k\<le>m. h_used s' ! k \<and> p ! k = r then de else 0)
      + (if h_used s' ! j then de else 0)"
  using assms by (auto simp: round_ctx_def round_effect_def Let_def red_cost_def)

lemma round_rc_in:
  assumes "round_ctx a n m i C v0 p s s' de" "k \<le> m" "h_used s' ! k" "j \<le> m" "h_used s' ! j"
  shows "red_cost a (h_u s') (h_v s') (p ! k) j = red_cost a (h_u s) (h_v s) (p ! k) j"
  using round_rc[OF assms(1), of "p ! k" j] round_row[OF assms(1,2,3)] assms by auto

lemma round_rc_out:
  assumes "round_ctx a n m i C v0 p s s' de" "k \<le> m" "h_used s' ! k" "j \<le> m" "\<not> h_used s' ! j"
  shows "red_cost a (h_u s') (h_v s') (p ! k) j = red_cost a (h_u s) (h_v s) (p ! k) j - de"
  using round_rc[OF assms(1), of "p ! k" j] round_row[OF assms(1,2,3)] assms by auto

lemma round_relaxed:
  assumes ctx: "round_ctx a n m i C v0 p s s' de" and j: "1 \<le> j" "j \<le> m" "\<not> h_used s' ! j"
  shows "\<forall>k\<le>m. h_used s' ! k \<longrightarrow> relaxed a p s j \<le> red_cost a (h_u s) (h_v s) (p ! k) j"
    and "h_way s' ! j \<le> m \<and> h_used s' ! (h_way s' ! j) \<and>
      relaxed a p s j = red_cost a (h_u s) (h_v s) (p ! (h_way s' ! j)) j"
    and "0 \<le> relaxed a p s j"
proof -
  have inv: "search_inv a n m i C v0 p s" using ctx by (simp add: round_ctx_def)
  have nu: "\<not> h_used s ! j" using round_used[OF ctx j(2)] j(3) by simp
  note W = search_invD(14)[OF inv j(1,2) nu]
  have wy: "h_way s' ! j =
      (if red_cost a (h_u s) (h_v s) (p ! h_j0 s) j < h_minv s ! j then h_j0 s else h_way s ! j)"
    using ctx j by (auto simp: round_ctx_def round_effect_def Let_def)
  show "\<forall>k\<le>m. h_used s' ! k \<longrightarrow> relaxed a p s j \<le> red_cost a (h_u s) (h_v s) (p ! k) j"
    using W round_used[OF ctx] by (auto simp: relaxed_def)
  show w: "h_way s' ! j \<le> m \<and> h_used s' ! (h_way s' ! j) \<and>
      relaxed a p s j = red_cost a (h_u s) (h_v s) (p ! (h_way s' ! j)) j"
    using W wy round_used[OF ctx] search_invD(6)[OF inv] by (auto simp: relaxed_def)
  show "0 \<le> relaxed a p s j"
    using w round_row[OF ctx] search_invD(12)[OF inv _ _ j(1,2)] by metis
qed

lemma round_delta:
  assumes ctx: "round_ctx a n m i C v0 p s s' de"
  shows "0 \<le> de" "\<And>j. 1 \<le> j \<Longrightarrow> j \<le> m \<Longrightarrow> \<not> h_used s' ! j \<Longrightarrow> de \<le> relaxed a p s j"
    "h_u s' ! i = h_u s ! i + de"
proof -
  have E: "1 \<le> h_j0 s'" "h_j0 s' \<le> m" "\<not> h_used s' ! h_j0 s'" "relaxed a p s (h_j0 s') = de"
    using ctx by (auto simp: round_ctx_def round_effect_def Let_def)
  show "0 \<le> de" using round_relaxed(3)[OF ctx E(1-3)] E(4) by simp
  show "de \<le> relaxed a p s j" if "1 \<le> j" "j \<le> m" "\<not> h_used s' ! j" for j
    using ctx that by (auto simp: round_ctx_def round_effect_def Let_def)
  have "h_used s' ! 0" "p ! 0 = i" "i \<le> n"
    using round_used[OF ctx, of 0] search_invD(10)[of a n m i C v0 p s] ctx
    by (auto simp: round_ctx_def match_ok_def)
  moreover have "\<forall>r\<le>n. h_u s' ! r = h_u s ! r + (if \<exists>j\<le>m. h_used s' ! j \<and> p ! j = r then de else 0)"
    using ctx by (auto simp: round_ctx_def round_effect_def Let_def)
  ultimately show "h_u s' ! i = h_u s ! i + de" by auto
qed

lemma round_feasible:
  assumes ctx: "round_ctx a n m i C v0 p s s' de" and h: "1 \<le> r" "r \<le> i" "1 \<le> j" "j \<le> m"
  shows "0 \<le> red_cost a (h_u s') (h_v s') r j"
proof -
  let ?R = "\<exists>k\<le>m. h_used s' ! k \<and> p ! k = r"
  have inv: "search_inv a n m i C v0 p s" and "r \<le> n" using ctx h by (auto simp: round_ctx_def)
  note rc = round_rc[OF ctx \<open>r \<le> n\<close> h(4)] and old = search_invD(12)[OF inv h]
  show ?thesis
  proof (cases "?R \<and> \<not> h_used s' ! j")
    case True
    then have "de \<le> red_cost a (h_u s) (h_v s) r j"
      using round_relaxed(1)[OF ctx h(3,4)] round_delta(2)[OF ctx h(3,4)] by force
    then show ?thesis using rc True by auto
  next
    case False
    then show ?thesis using rc old round_delta(1)[OF ctx] by auto
  qed
qed

lemma round_tight:
  assumes ctx: "round_ctx a n m i C v0 p s s' de" and h: "1 \<le> j" "j \<le> m" "p ! j \<noteq> 0"
  shows "red_cost a (h_u s') (h_v s') (p ! j) j = 0"
proof -
  have inv: "search_inv a n m i C v0 p s" and mk: "match_ok m i p" "i \<le> n"
    using ctx by (auto simp: round_ctx_def)
  have pn: "p ! j \<le> n" using match_ok_le[OF mk(1) h(2)] mk(2) by simp
  have "(\<exists>k\<le>m. h_used s' ! k \<and> p ! k = p ! j) \<longleftrightarrow> h_used s' ! j"
  proof
    assume "\<exists>k\<le>m. h_used s' ! k \<and> p ! k = p ! j"
    then obtain k where k: "k \<le> m" "h_used s' ! k" "p ! k = p ! j" by blast
    then have "k = j" using mk(1) h by (auto simp: match_ok_def dest!: inj_onD)
    then show "h_used s' ! j" using k by simp
  qed (use h in auto)
  then show ?thesis using round_rc[OF ctx pn h(2)] search_invD(13)[OF inv h] by simp
qed

lemma round_tree:
  assumes ctx: "round_ctx a n m i C v0 p s s' de"
  shows "card {j. j \<le> m \<and> h_used s' ! j} = Suc (card {j. j \<le> m \<and> h_used s ! j})"
    and "\<exists>rk. (\<forall>j\<le>m. h_used s' ! j \<longrightarrow> rk j < card {j. j \<le> m \<and> h_used s' ! j}) \<and>
      (\<forall>j. 1 \<le> j \<and> j \<le> m \<and> h_used s' ! j \<longrightarrow> h_way s' ! j \<le> m \<and> h_used s' ! (h_way s' ! j) \<and>
         (rk (h_way s' ! j) :: nat) < rk j \<and> red_cost a (h_u s') (h_v s') (p ! (h_way s' ! j)) j = 0)"
proof -
  let ?rc = "red_cost a (h_u s) (h_v s)" and ?U = "{j. j \<le> m \<and> h_used s ! j}"
  have inv: "search_inv a n m i C v0 p s" using ctx by (simp add: round_ctx_def)
  note I = search_invD[OF inv] and U' = round_used[OF ctx]
  have "{j. j \<le> m \<and> h_used s' ! j} = insert (h_j0 s) ?U" using U' I(6) by auto
  then show cardU: "card {j. j \<le> m \<and> h_used s' ! j} = Suc (card ?U)" using I(8) by simp
  obtain rk where rk1: "\<forall>j\<le>m. h_used s ! j \<longrightarrow> rk j < card ?U"
    and rk2: "\<forall>j. 1 \<le> j \<and> j \<le> m \<and> h_used s ! j \<longrightarrow> h_way s ! j \<le> m \<and> h_used s ! (h_way s ! j) \<and>
           (rk (h_way s ! j) :: nat) < rk j \<and> ?rc (p ! (h_way s ! j)) j = 0"
    using inv by (auto simp: search_inv_def Let_def)
  define rk' where "rk' = rk(h_j0 s := card ?U)"
  have old: "h_way s ! j \<le> m \<and> h_used s ! (h_way s ! j) \<and> rk' (h_way s ! j) < rk' j \<and>
      ?rc (p ! (h_way s ! j)) j = 0" if "1 \<le> j" "j \<le> m" "h_used s' ! j" for j
  proof (cases "j = h_j0 s")
    case True
    then show ?thesis using I(14)[OF I(7,6,8)] I(8,9) rk1 by (auto simp: rk'_def)
  next
    case False
    then show ?thesis using rk2 that U' I(8) by (auto simp: rk'_def)
  qed
  have wyu: "\<forall>j\<le>m. h_used s' ! j \<longrightarrow> h_way s' ! j = h_way s ! j"
    using ctx by (auto simp: round_ctx_def round_effect_def Let_def)
  have B: "\<forall>j\<le>m. h_used s' ! j \<longrightarrow> rk' j < card {j. j \<le> m \<and> h_used s' ! j}"
    using rk1 U' cardU by (auto simp: rk'_def less_Suc_eq)
  have D: "\<forall>j. 1 \<le> j \<and> j \<le> m \<and> h_used s' ! j \<longrightarrow> h_way s' ! j \<le> m \<and> h_used s' ! (h_way s' ! j) \<and>
         rk' (h_way s' ! j) < rk' j \<and> red_cost a (h_u s') (h_v s') (p ! (h_way s' ! j)) j = 0"
    using old wyu round_rc_in[OF ctx] U' by auto
  show "\<exists>rk. (\<forall>j\<le>m. h_used s' ! j \<longrightarrow> rk j < card {j. j \<le> m \<and> h_used s' ! j}) \<and>
      (\<forall>j. 1 \<le> j \<and> j \<le> m \<and> h_used s' ! j \<longrightarrow> h_way s' ! j \<le> m \<and> h_used s' ! (h_way s' ! j) \<and>
         (rk (h_way s' ! j) :: nat) < rk j \<and> red_cost a (h_u s') (h_v s') (p ! (h_way s' ! j)) j = 0)"
    using B D by (intro exI[of _ rk'] conjI)
qed

lemma search_next:
  assumes ctx: "round_ctx a n m i C v0 p s s' de"
  shows "search_inv a n m i C v0 p s'"
proof -
  have inv: "search_inv a n m i C v0 p s" and eff: "round_effect a n m p s s' de"
    using ctx by (auto simp: round_ctx_def)
  note I = search_invD[OF inv] and E = eff[unfolded round_effect_def Let_def]
  have used': "h_used s' = (h_used s)[h_j0 s := True]" using E by simp
  have V: "h_v s' ! j \<le> 0 \<and> v0 ! j - (h_u s' ! i + C) \<le> h_v s' ! j \<and> (p ! j = 0 \<longrightarrow> h_v s' ! j = 0)"
    if j: "1 \<le> j" "j \<le> m" for j
  proof -
    have "h_v s' ! j = h_v s ! j - (if h_used s' ! j then de else 0)" using E used' j by simp
    moreover have "h_used s' ! j \<longrightarrow> p ! j \<noteq> 0" using round_row[OF ctx j(2)] by auto
    ultimately show ?thesis using I(15)[OF j] round_delta(1,3)[OF ctx] by auto
  qed
  have W: "h_way s' ! j \<le> m \<and> h_used s' ! (h_way s' ! j) \<and>
      h_minv s' ! j = red_cost a (h_u s') (h_v s') (p ! (h_way s' ! j)) j \<and>
      (\<forall>k\<le>m. h_used s' ! k \<longrightarrow> h_minv s' ! j \<le> red_cost a (h_u s') (h_v s') (p ! k) j)"
    if j: "1 \<le> j" "j \<le> m" "\<not> h_used s' ! j" for j
  proof -
    have "h_minv s' ! j = relaxed a p s j - de" using E used' j by simp
    then show ?thesis using round_relaxed[OF ctx j] round_rc_out[OF ctx _ _ j(2,3)] by auto
  qed
  have Z: "h_u s' ! r = 0" if "i < r" "r \<le> n" for r
  proof -
    have "\<not> (\<exists>j\<le>m. h_used s' ! j \<and> p ! j = r)" using round_row[OF ctx] that by force
    then show ?thesis using E used' I(16) that by auto
  qed
  have J: "1 \<le> h_j0 s'" "h_j0 s' \<le> m" "\<not> h_used s' ! h_j0 s'" "h_minv s' ! h_j0 s' = 0" using E by auto
  have "h_used s' ! 0" using round_used[OF ctx, of 0] I(10) by simp
  moreover have "\<forall>j\<le>m. h_used s' ! j \<longrightarrow> p ! j \<noteq> 0" using round_row[OF ctx] by fastforce
  moreover have "length (h_used s') = Suc m" using used' I(5) by simp
  moreover have "length (h_u s') = Suc n" "length (h_v s') = Suc m" "length (h_way s') = Suc m"
    "length (h_minv s') = Suc m" using E by auto
  ultimately show ?thesis
    using J by (intro search_invI V W Z round_feasible[OF ctx] round_tight[OF ctx] round_tree(2)[OF ctx])
qed

section \<open>Placing one row\<close>

text \<open>
  The invariant between two rows: the first \<open>i\<close> rows are matched to distinct columns along tight
  edges, the potentials are feasible for them, an unmatched column has potential 0, and column
  potentials stay above \<open>- 2 C i\<close>.
\<close>

definition phase_inv :: "int list list \<Rightarrow> nat \<Rightarrow> nat \<Rightarrow> int \<Rightarrow> nat \<Rightarrow> hstate \<Rightarrow> bool" where
  "phase_inv a n m C i s \<longleftrightarrow>
     (let rc = red_cost a (s_u s) (s_v s); p = s_p s in
     length (s_u s) = Suc n \<and> length (s_v s) = Suc m \<and> length p = Suc m \<and> length (s_way s) = Suc m \<and>
     (\<forall>j. 1 \<le> j \<and> j \<le> m \<longrightarrow> p ! j \<le> i) \<and>
     inj_on ((!) p) {j. 1 \<le> j \<and> j \<le> m \<and> p ! j \<noteq> 0} \<and>
     (\<forall>r. 1 \<le> r \<and> r \<le> i \<longrightarrow> (\<exists>j. 1 \<le> j \<and> j \<le> m \<and> p ! j = r)) \<and>
     (\<forall>r j. 1 \<le> r \<and> r \<le> i \<and> 1 \<le> j \<and> j \<le> m \<longrightarrow> 0 \<le> rc r j) \<and>
     (\<forall>j. 1 \<le> j \<and> j \<le> m \<and> p ! j \<noteq> 0 \<longrightarrow> rc (p ! j) j = 0) \<and>
     (\<forall>j. 1 \<le> j \<and> j \<le> m \<longrightarrow>
        s_v s ! j \<le> 0 \<and> - (2 * C * int i) \<le> s_v s ! j \<and> (p ! j = 0 \<longrightarrow> s_v s ! j = 0)) \<and>
     (\<forall>r. i < r \<and> r \<le> n \<longrightarrow> s_u s ! r = 0))"

lemma phase_match_ok:
  assumes "phase_inv a n m C i s"
  shows "match_ok m (Suc i) ((s_p s)[0 := Suc i])"
proof -
  let ?p = "(s_p s)[0 := Suc i]"
  have I: "length (s_p s) = Suc m" "\<forall>j. 1 \<le> j \<and> j \<le> m \<longrightarrow> s_p s ! j \<le> i"
     "inj_on ((!) (s_p s)) {j. 1 \<le> j \<and> j \<le> m \<and> s_p s ! j \<noteq> 0}"
    using assms by (auto simp: phase_inv_def Let_def)
  have p: "?p ! 0 = Suc i" "\<And>j. 1 \<le> j \<Longrightarrow> ?p ! j = s_p s ! j" using I by (auto simp: arr)
  have "inj_on ((!) ?p) {j. j \<le> m \<and> ?p ! j \<noteq> 0}"
  proof (rule inj_onI)
    fix x y assume xy: "x \<in> {j. j \<le> m \<and> ?p ! j \<noteq> 0}" "y \<in> {j. j \<le> m \<and> ?p ! j \<noteq> 0}" "?p ! x = ?p ! y"
    show "x = y"
    proof (cases "x = 0 \<or> y = 0")
      case True
      then show ?thesis using xy p I(2) by (metis (no_types, lifting) One_nat_def Suc_leI Suc_n_not_le_n mem_Collect_eq neq0_conv)
    next
      case False
      then show ?thesis using xy p I(3) by (auto simp: inj_on_def Suc_le_eq)
    qed
  qed
  then show ?thesis using I p by (auto simp: match_ok_def less_Suc_eq_le)
qed

lemma first_red_cost:
  assumes mok: "matrix_ok a n m C" and inv: "phase_inv a n m C i s" and i: "Suc i \<le> n"
    and j: "1 \<le> j" "j \<le> m"
  shows "red_cost a (s_u s) (s_v s) (Suc i) j < INF_I64" "- C \<le> red_cost a (s_u s) (s_v s) (Suc i) j"
proof -
  have "s_u s ! Suc i = 0" "- (2 * C * int i) \<le> s_v s ! j" "s_v s ! j \<le> 0"
    using inv i j by (auto simp: phase_inv_def Let_def)
  then have *: "red_cost a (s_u s) (s_v s) (Suc i) j \<le> C + 2 * C * int i"
    and "- C \<le> red_cost a (s_u s) (s_v s) (Suc i) j"
    using matrix_ok_entry[OF mok _ i j] by (auto simp: red_cost_def)
  then show "- C \<le> red_cost a (s_u s) (s_v s) (Suc i) j" by simp
  have "C * int i \<le> C * int n" using mok i by (intro mult_left_mono) (auto simp: matrix_ok_def)
  then have "C + 2 * C * int i \<le> 2 * C * (int n + 1)"
    using mok by (simp add: matrix_ok_def algebra_simps)
  then show "red_cost a (s_u s) (s_v s) (Suc i) j < INF_I64" using * mok by (auto simp: matrix_ok_def)
qed

lemma search_init_fields:
  "h_u (search_init m s) = s_u s" "h_v (search_init m s) = s_v s" "h_way (search_init m s) = s_way s"
  "h_j0 (search_init m s) = 0" "h_minv (search_init m s) = replicate (m + 1) INF_I64"
  "h_used (search_init m s) = replicate (m + 1) False"
  by (simp_all add: search_init_def)

lemma first_effect:
  assumes mok: "matrix_ok a n m C" and inv: "phase_inv a n m C i s" and i: "Suc i \<le> n"
    and p_def: "p = (s_p s)[0 := Suc i]" and t_def: "t = search_init m s"
  shows "\<exists>de. round_effect a n m p t (search_body a m p t) de"
    and "\<And>j. 1 \<le> j \<Longrightarrow> j \<le> m \<Longrightarrow> relaxed a p t j = red_cost a (s_u s) (s_v s) (Suc i) j"
    and "\<And>j. j \<le> m \<Longrightarrow> (h_used t)[h_j0 t := True] ! j \<longleftrightarrow> j = 0"
proof -
  note t = search_init_fields[of m s, folded t_def]
  have mk: "match_ok m (Suc i) p" using phase_match_ok[OF inv] p_def by simp
  have p0: "p ! 0 = Suc i" using mk by (auto simp: match_ok_def)
  have len: "length (h_u t) = Suc n" "length (h_v t) = Suc m" "length (h_way t) = Suc m"
      "length (h_minv t) = Suc m" "length (h_used t) = Suc m" "h_j0 t \<le> m"
    using inv t by (auto simp: phase_inv_def Let_def)
  show M: "relaxed a p t j = red_cost a (s_u s) (s_v s) (Suc i) j" if "1 \<le> j" "j \<le> m" for j
    using first_red_cost(1)[OF mok inv i that] that t p0
    by (auto simp: relaxed_def less_Suc_eq_le simp del: replicate_Suc)
  show U: "(h_used t)[h_j0 t := True] ! j \<longleftrightarrow> j = 0" if "j \<le> m" for j
    using that t by (auto simp: arr simp del: replicate_Suc)
  have unz: "\<forall>j\<le>m. h_used t ! j \<longrightarrow> p ! j \<noteq> 0" using t by (auto simp: less_Suc_eq_le simp del: replicate_Suc)
  have "1 \<le> m" using mok i by (auto simp: matrix_ok_def)
  then show "\<exists>de. round_effect a n m p t (search_body a m p t) de"
    using M[of m] first_red_cost(1)[OF mok inv i, of m] U[of m] p0 t
    by (intro round_effect_exists[OF len mk i unz, of m]) auto
qed

lemma search_first:
  assumes mok: "matrix_ok a n m C" and inv: "phase_inv a n m C i s" and i: "Suc i \<le> n"
    and p_def: "p = (s_p s)[0 := Suc i]" and t_def: "t = search_init m s"
    and eff: "round_effect a n m p t t' de"
  shows "search_inv a n m (Suc i) C (s_v s) p t'"
proof -
  let ?rc = "red_cost a (s_u s) (s_v s)" and ?rc' = "red_cost a (h_u t') (h_v t')"
  note t = search_init_fields[of m s, folded t_def] and I = inv[unfolded phase_inv_def Let_def]
  note E = eff[unfolded round_effect_def Let_def]
  note M = first_effect(2)[OF mok inv i p_def t_def] and U0 = first_effect(3)[OF mok inv i p_def t_def]
  have used': "h_used t' = (h_used t)[h_j0 t := True]" using E by simp
  have U: "h_used t' ! j \<longleftrightarrow> j = 0" if "j \<le> m" for j using U0[OF that] used' by simp
  have mk: "match_ok m (Suc i) p" using phase_match_ok[OF inv] p_def by simp
  have p0: "p ! 0 = Suc i" using mk by (auto simp: match_ok_def)
  have pj: "p ! j = s_p s ! j" if "1 \<le> j" for j using that p_def by (auto simp: arr)
  have R: "(\<exists>j\<le>m. h_used t' ! j \<and> p ! j = r) \<longleftrightarrow> r = Suc i" for r using U p0 by auto
  have nu: "\<forall>r\<le>n. h_u t' ! r = s_u s ! r + (if r = Suc i then de else 0)"
  proof -
    have "\<forall>r\<le>n. h_u t' ! r = h_u t ! r + (if \<exists>j\<le>m. h_used t' ! j \<and> p ! j = r then de else 0)"
      using E used' by simp
    then show ?thesis by (simp only: R t)
  qed
  have nv: "\<forall>j. 1 \<le> j \<and> j \<le> m \<longrightarrow> h_v t' ! j = s_v s ! j" using E t used' U by simp
  have rc: "?rc' r j = ?rc r j - (if r = Suc i then de else 0)" if "r \<le> n" "1 \<le> j" "j \<le> m" for r j
    using nu nv that by (auto simp: red_cost_def)
  have J: "1 \<le> h_j0 t'" "h_j0 t' \<le> m" "\<not> h_used t' ! h_j0 t'" "h_minv t' ! h_j0 t' = 0"
    using E used' by auto
  have de: "de \<le> ?rc (Suc i) j" if "1 \<le> j" "j \<le> m" for j using E used' U M that by force
  have deC: "- C \<le> de"
    using E M[OF J(1,2)] first_red_cost(2)[OF mok inv i J(1,2)] by metis
  have ui: "h_u t' ! Suc i = de" using nu i I by auto
  have way0: "h_way t' ! j = 0" "h_minv t' ! j = ?rc (Suc i) j - de" if "1 \<le> j" "j \<le> m" for j
  proof -
    have "h_minv t ! j = INF_I64" "\<not> h_used t' ! j" using t U that by (auto simp: less_Suc_eq_le simp del: replicate_Suc)
    then show "h_way t' ! j = 0" "h_minv t' ! j = ?rc (Suc i) j - de"
      using E t p0 M first_red_cost(1)[OF mok inv i that] that used' by auto
  qed
  show ?thesis
  proof (rule search_invI)
    show "0 \<le> ?rc' r j" if "1 \<le> r" "r \<le> Suc i" "1 \<le> j" "j \<le> m" for r j
      using rc[of r j] that i de[of j] I by (cases "r = Suc i") auto
    show "?rc' (p ! j) j = 0" if "1 \<le> j" "j \<le> m" "p ! j \<noteq> 0" for j
    proof -
      have "p ! j \<le> i" "?rc (p ! j) j = 0" using pj I that by auto
      then show ?thesis using rc[of "p ! j" j] that i by auto
    qed
    show "h_way t' ! j \<le> m \<and> h_used t' ! (h_way t' ! j) \<and> h_minv t' ! j = ?rc' (p ! (h_way t' ! j)) j \<and>
        (\<forall>k\<le>m. h_used t' ! k \<longrightarrow> h_minv t' ! j \<le> ?rc' (p ! k) j)" if "1 \<le> j" "j \<le> m" for j
      using way0[OF that] U p0 rc[of "Suc i" j] i that by auto
    show "h_v t' ! j \<le> 0 \<and> s_v s ! j - (h_u t' ! Suc i + C) \<le> h_v t' ! j \<and> (p ! j = 0 \<longrightarrow> h_v t' ! j = 0)"
      if "1 \<le> j" "j \<le> m" for j
      using nv I ui deC pj that by auto
    show "\<exists>rk. (\<forall>j\<le>m. h_used t' ! j \<longrightarrow> rk j < card {j. j \<le> m \<and> h_used t' ! j}) \<and>
        (\<forall>j. 1 \<le> j \<and> j \<le> m \<and> h_used t' ! j \<longrightarrow> h_way t' ! j \<le> m \<and> h_used t' ! (h_way t' ! j) \<and>
           (rk (h_way t' ! j) :: nat) < rk j \<and> ?rc' (p ! (h_way t' ! j)) j = 0)"
    proof -
      have "{j. j \<le> m \<and> h_used t' ! j} = {0}" using U by auto
      then show ?thesis using U by (intro exI[of _ "\<lambda>_. 0"]) auto
    qed
    show "length (h_used t') = Suc m" using used' t by simp
    show "h_u t' ! r = 0" if "Suc i < r" "r \<le> n" for r using nu I that by auto
  qed (use E J U p0 in auto)
qed

lemma search_loop_total:
  assumes mok: "matrix_ok a n m C" and p: "match_ok m i p" "i \<le> n"
    and inv: "search_inv a n m i C v0 p (search_body a m p s)"
  shows "\<exists>r. search_loop a m p s = Some r \<and> search_inv a n m i C v0 p r \<and> p ! h_j0 r = 0"
  using inv
proof (induction "Suc m - card {j. j \<le> m \<and> h_used (search_body a m p s) ! j}" arbitrary: s rule: less_induct)
  case less
  let ?s' = "search_body a m p s" and ?U = "\<lambda>s. {j. j \<le> m \<and> h_used s ! j}"
  show ?case
  proof (cases "p ! h_j0 ?s' = 0")
    case True
    then show ?thesis using less.prems by (subst search_loop.simps) (simp add: Let_def)
  next
    case False
    obtain de where ctx: "round_ctx a n m i C v0 p ?s' (search_body a m p ?s') de"
      using round_ctx_exists[OF mok p less.prems False] by blast
    have "?U (search_body a m p ?s') \<subseteq> {..m}" by auto
    then have "card (?U (search_body a m p ?s')) \<le> Suc m"
      by (metis card_atMost card_mono finite_atMost)
    then have "Suc m - card (?U (search_body a m p ?s')) < Suc m - card (?U ?s')"
      using round_tree(1)[OF ctx] by simp
    from less.hyps[OF this search_next[OF ctx]] obtain r where
      "search_loop a m p ?s' = Some r \<and> search_inv a n m i C v0 p r \<and> p ! h_j0 r = 0" by auto
    then show ?thesis using False by (subst search_loop.simps) (simp add: Let_def)
  qed
qed

text \<open>
  Augmenting moves a hole up the tree: every column but the hole carries its row, and moving the row
  of the parent into the hole keeps that. It ends with the hole in the dummy column 0.
\<close>

definition hole_inv :: "(nat \<Rightarrow> nat \<Rightarrow> int) \<Rightarrow> nat \<Rightarrow> nat \<Rightarrow> nat list \<Rightarrow> nat \<Rightarrow> bool" where
  "hole_inv rc m i p h \<longleftrightarrow>
     length p = Suc m \<and> h \<le> m \<and> (\<forall>j\<le>m. p ! j \<le> i) \<and>
     inj_on ((!) p) {j. j \<le> m \<and> j \<noteq> h \<and> p ! j \<noteq> 0} \<and>
     (\<forall>r. 1 \<le> r \<and> r \<le> i \<longrightarrow> (\<exists>j\<le>m. j \<noteq> h \<and> p ! j = r)) \<and>
     (\<forall>j. 1 \<le> j \<and> j \<le> m \<and> j \<noteq> h \<and> p ! j \<noteq> 0 \<longrightarrow> rc (p ! j) j = 0)"

lemma hole_move:
  assumes h: "hole_inv rc m i p h" and h0: "1 \<le> h" and w: "w \<le> m" "w \<noteq> h" "p ! w \<noteq> 0" "rc (p ! w) h = 0"
  shows "hole_inv rc m i (p[h := p ! w]) w"
proof -
  let ?q = "p[h := p ! w]"
  have q: "?q ! j = (if j = h then p ! w else p ! j)" for j
    using h by (auto simp: hole_inv_def nth_upd_if)
  have inj: "p ! x = p ! y \<Longrightarrow> x = y" if "x \<le> m" "x \<noteq> h" "p ! x \<noteq> 0" "y \<le> m" "y \<noteq> h" "p ! y \<noteq> 0" for x y
    using h that by (auto simp: hole_inv_def inj_on_def)
  have A: "inj_on ((!) ?q) {j. j \<le> m \<and> j \<noteq> w \<and> ?q ! j \<noteq> 0}"
  proof (rule inj_onI, goal_cases)
    case (1 x y)
    then have x: "x \<le> m" "x \<noteq> w" "?q ! x \<noteq> 0" and y: "y \<le> m" "y \<noteq> w" "?q ! y \<noteq> 0" and e: "?q ! x = ?q ! y" by auto
    consider "x = h" "y = h" | "x = h" "y \<noteq> h" | "x \<noteq> h" "y = h" | "x \<noteq> h" "y \<noteq> h" by blast
    then show ?case
    proof cases
      case 2
      then have "p ! w = p ! y" "p ! y \<noteq> 0" using e y q by simp_all
      then show ?thesis using inj[of w y] w y 2 by simp
    next
      case 3
      then have "p ! x = p ! w" "p ! x \<noteq> 0" using e x q by simp_all
      then show ?thesis using inj[of x w] w x 3 by simp
    next
      case 4 then show ?thesis using e x y inj[of x y] q by auto
    qed simp
  qed
  have B: "\<exists>j\<le>m. j \<noteq> w \<and> ?q ! j = r" if r: "1 \<le> r" "r \<le> i" for r
  proof -
    obtain j where j: "j \<le> m" "j \<noteq> h" "p ! j = r" using h r by (auto simp: hole_inv_def)
    show ?thesis
    proof (cases "j = w")
      case True then show ?thesis using j w h q by (auto simp: hole_inv_def intro!: exI[of _ h])
    next
      case False then show ?thesis using j q by (intro exI[of _ j]) auto
    qed
  qed
  show ?thesis using h A B w h0 q by (auto simp: hole_inv_def)
qed

lemma augment_total:
  assumes "hole_inv rc m i p h" "1 \<le> h" "h \<in> T"
    and "\<forall>j\<in>T. 1 \<le> j \<and> rk j \<le> rk h \<longrightarrow>
      way ! j \<le> m \<and> way ! j \<in> T \<and> (rk (way ! j) :: nat) < rk j \<and> p ! (way ! j) \<noteq> 0 \<and> rc (p ! (way ! j)) j = 0"
  shows "\<exists>p'. augment_loop way p h = Some p' \<and> hole_inv rc m i p' 0 \<and> (\<forall>j\<le>m. p ! j \<noteq> 0 \<longrightarrow> p' ! j \<noteq> 0)"
  using assms
proof (induction "rk h" arbitrary: p h rule: less_induct)
  case less
  let ?w = "way ! h" and ?q = "p[h := p ! (way ! h)]"
  from less.prems have w: "?w \<le> m" "?w \<in> T" "rk ?w < rk h" "p ! ?w \<noteq> 0" "rc (p ! ?w) h = 0" by auto
  then have wh: "?w \<noteq> h" by auto
  have q: "hole_inv rc m i ?q ?w" using hole_move[OF less.prems(1,2) w(1) wh w(4,5)] .
  have nz: "\<forall>j\<le>m. p ! j \<noteq> 0 \<longrightarrow> ?q ! j \<noteq> 0" using w by (auto simp: arr)
  show ?case
  proof (cases "?w = 0")
    case True
    have "augment_loop way p h = Some ?q"
      using True by (subst augment_loop.simps) (simp add: Let_def)
    with q nz show ?thesis by (simp only: True) blast
  next
    case False
    have pa: "\<forall>j\<in>T. 1 \<le> j \<and> rk j \<le> rk ?w \<longrightarrow>
      way ! j \<le> m \<and> way ! j \<in> T \<and> rk (way ! j) < rk j \<and> ?q ! (way ! j) \<noteq> 0 \<and> rc (?q ! (way ! j)) j = 0"
    proof (intro ballI impI)
      fix j assume j: "j \<in> T" "1 \<le> j \<and> rk j \<le> rk ?w"
      then have jj: "way ! j \<le> m" "way ! j \<in> T" "rk (way ! j) < rk j" "p ! (way ! j) \<noteq> 0" "rc (p ! (way ! j)) j = 0"
        using less.prems(4) w(3) by auto
      have "way ! j \<noteq> h" using jj(3) j w(3) by auto
      then show "way ! j \<le> m \<and> way ! j \<in> T \<and> rk (way ! j) < rk j \<and> ?q ! (way ! j) \<noteq> 0 \<and> rc (?q ! (way ! j)) j = 0"
        using jj by (auto simp: arr)
    qed
    from less.hyps[OF w(3) q _ w(2) pa] False obtain p' where
      p': "augment_loop way ?q ?w = Some p'" "hole_inv rc m i p' 0" "\<forall>j\<le>m. ?q ! j \<noteq> 0 \<longrightarrow> p' ! j \<noteq> 0" by auto
    have "augment_loop way p h = Some p'"
      using False p'(1) by (subst augment_loop.simps) (simp add: Let_def)
    then show ?thesis using p' nz by blast
  qed
qed


lemma search_end_hole:
  assumes inv: "phase_inv a n m C i s" and p_def: "p = (s_p s)[0 := Suc i]"
    and rinv: "search_inv a n m (Suc i) C v0 p r" and free: "p ! h_j0 r = 0"
  shows "hole_inv (red_cost a (h_u r) (h_v r)) m (Suc i) p (h_j0 r)"
proof -
  note R = search_invD[OF rinv]
  have mk: "match_ok m (Suc i) p" using phase_match_ok[OF inv] p_def by simp
  have pj: "p ! j = s_p s ! j" if "1 \<le> j" for j using that p_def by (auto simp: arr)
  have rows: "1 \<le> x \<and> x \<le> i \<longrightarrow> (\<exists>j. 1 \<le> j \<and> j \<le> m \<and> s_p s ! j = x)" for x
    using inv by (auto simp: phase_inv_def Let_def)
  have "\<exists>j\<le>m. j \<noteq> h_j0 r \<and> p ! j = x" if x: "1 \<le> x" "x \<le> Suc i" for x
  proof (cases "x = Suc i")
    case True
    then show ?thesis using mk R(7) by (intro exI[of _ 0]) (auto simp: match_ok_def)
  next
    case False
    then obtain j where "1 \<le> j" "j \<le> m" "s_p s ! j = x" using rows[of x] x by auto
    then show ?thesis using pj free x by (intro exI[of _ j]) auto
  qed
  moreover have "inj_on ((!) p) {j. j \<le> m \<and> j \<noteq> h_j0 r \<and> p ! j \<noteq> 0}"
    using mk by (auto simp: match_ok_def intro: inj_on_subset)
  ultimately show ?thesis
    using R(6,13) mk match_ok_le[OF mk] by (auto simp: hole_inv_def match_ok_def)
qed

lemma search_end_augment:
  assumes inv: "phase_inv a n m C i s" and p_def: "p = (s_p s)[0 := Suc i]"
    and rinv: "search_inv a n m (Suc i) C v0 p r" and free: "p ! h_j0 r = 0"
  shows "\<exists>p'. augment_loop (h_way r) p (h_j0 r) = Some p' \<and>
    hole_inv (red_cost a (h_u r) (h_v r)) m (Suc i) p' 0 \<and> (\<forall>j\<le>m. p ! j \<noteq> 0 \<longrightarrow> p' ! j \<noteq> 0)"
proof -
  let ?rc = "red_cost a (h_u r) (h_v r)" and ?U = "{j. j \<le> m \<and> h_used r ! j}"
  note R = search_invD[OF rinv]
  obtain rk where rk1: "\<forall>j\<le>m. h_used r ! j \<longrightarrow> rk j < card ?U"
    and rk2: "\<forall>j. 1 \<le> j \<and> j \<le> m \<and> h_used r ! j \<longrightarrow> h_way r ! j \<le> m \<and> h_used r ! (h_way r ! j) \<and>
           (rk (h_way r ! j) :: nat) < rk j \<and> ?rc (p ! (h_way r ! j)) j = 0"
    using rinv by (auto simp: search_inv_def Let_def)
  define rk' where "rk' = rk(h_j0 r := card ?U)"
  define T where "T = insert (h_j0 r) ?U"
  have "h_way r ! j \<le> m \<and> h_way r ! j \<in> T \<and> rk' (h_way r ! j) < rk' j \<and>
      p ! (h_way r ! j) \<noteq> 0 \<and> ?rc (p ! (h_way r ! j)) j = 0" if j: "j \<in> T" "1 \<le> j" for j
  proof (cases "j = h_j0 r")
    case True
    then show ?thesis using R(14)[OF R(7,6,8)] R(8,9,11) rk1 by (auto simp: rk'_def T_def)
  next
    case False
    then show ?thesis using rk2 j R(8,11) by (auto simp: rk'_def T_def)
  qed
  then show ?thesis
    by (intro augment_total[OF search_end_hole[OF assms] R(7), of T rk']) (auto simp: T_def)
qed

lemma phase_total:
  assumes mok: "matrix_ok a n m C" and inv: "phase_inv a n m C i s" and i: "Suc i \<le> n"
  shows "\<exists>s'. phase a m (Suc i) s = Some s' \<and> phase_inv a n m C (Suc i) s'"
proof -
  define p where "p = (s_p s)[0 := Suc i]"
  define t where "t = search_init m s"
  have mk: "match_ok m (Suc i) p" using phase_match_ok[OF inv] p_def by simp
  obtain de where "round_effect a n m p t (search_body a m p t) de"
    using first_effect(1)[OF mok inv i p_def t_def] by blast
  from search_loop_total[OF mok mk i search_first[OF mok inv i p_def t_def this]] obtain r where
    r: "search_loop a m p t = Some r" and rinv: "search_inv a n m (Suc i) C (s_v s) p r"
    and free: "p ! h_j0 r = 0" by blast
  let ?rc = "red_cost a (h_u r) (h_v r)"
  note R = search_invD[OF rinv]
  obtain p' where aug: "augment_loop (h_way r) p (h_j0 r) = Some p'"
    and hp': "hole_inv ?rc m (Suc i) p' 0" and nz: "\<forall>j\<le>m. p ! j \<noteq> 0 \<longrightarrow> p' ! j \<noteq> 0"
    using search_end_augment[OF inv p_def rinv free] by blast
  have "h_u r ! Suc i \<le> C"
    using R(12)[OF _ le_refl R(7,6)] R(15)[OF R(7,6)] free matrix_ok_entry[OF mok _ i R(7,6)]
    by (auto simp: red_cost_def)
  then have vb: "h_v r ! j \<le> 0 \<and> - (2 * C * int (Suc i)) \<le> h_v r ! j \<and> (p' ! j = 0 \<longrightarrow> h_v r ! j = 0)"
    if j: "1 \<le> j" "j \<le> m" for j
  proof -
    have "- (2 * C * int i) \<le> s_v s ! j" using inv j by (auto simp: phase_inv_def Let_def)
    then show ?thesis using \<open>h_u r ! Suc i \<le> C\<close> R(15)[OF j] nz j by (auto simp: algebra_simps)
  qed
  define s' where "s' = \<lparr>s_u = h_u r, s_v = h_v r, s_p = p', s_way = h_way r\<rparr>"
  have rows: "\<exists>j. 1 \<le> j \<and> j \<le> m \<and> p' ! j = x" if x: "1 \<le> x" "x \<le> Suc i" for x
  proof -
    obtain j where "j \<le> m" "j \<noteq> 0" "p' ! j = x" using hp' x by (auto simp: hole_inv_def)
    then show ?thesis by (intro exI[of _ j]) auto
  qed
  have inj: "inj_on ((!) p') {j. 1 \<le> j \<and> j \<le> m \<and> p' ! j \<noteq> 0}"
    using hp' by (auto simp: hole_inv_def intro: inj_on_subset)
  have tight: "?rc (p' ! j) j = 0" if "1 \<le> j" "j \<le> m" "p' ! j \<noteq> 0" for j
    using hp' that by (auto simp: hole_inv_def)
  have "phase_inv a n m C (Suc i) s'"
    unfolding phase_inv_def Let_def s'_def hstate.simps
    using hp' R(1-3,12,16) vb rows inj tight by (auto simp: hole_inv_def)
  moreover have "phase a m (Suc i) s = Some s'"
    using r aug by (simp add: phase_def Let_def p_def[symmetric] t_def[symmetric] s'_def)
  ultimately show ?thesis by blast
qed

section \<open>Optimality\<close>

lemma phases_total:
  assumes mok: "matrix_ok a n m C" and inv: "phase_inv a n m C i s" and "i + k \<le> n"
  shows "\<exists>s'. phases a m [Suc i..<Suc (i + k)] s = Some s' \<and> phase_inv a n m C (i + k) s'"
  using inv assms(3)
proof (induction k arbitrary: i s)
  case 0
  then show ?case by simp
next
  case (Suc k)
  obtain s1 where s1: "phase a m (Suc i) s = Some s1" "phase_inv a n m C (Suc i) s1"
    using phase_total[OF mok Suc.prems(1)] Suc.prems(2) by auto
  obtain s' where s': "phases a m [Suc (Suc i)..<Suc (Suc i + k)] s1 = Some s'" "phase_inv a n m C (Suc i + k) s'"
    using Suc.IH[OF s1(2)] Suc.prems(2) by auto
  have "[Suc i..<Suc (i + Suc k)] = Suc i # [Suc (Suc i)..<Suc (Suc i + k)]"
    by (subst upt_rec) simp
  then show ?case using s1(1) s' by simp
qed

lemma read_ans_spec:
  assumes pn: "\<forall>j. 1 \<le> j \<and> j \<le> m \<longrightarrow> p ! j \<le> n"
    and inj: "inj_on ((!) p) {j. 1 \<le> j \<and> j \<le> m \<and> p ! j \<noteq> 0}" and k: "k \<le> m"
    and A: "A = fold (\<lambda>j ans. if p ! j \<noteq> 0 then ans[p ! j - 1 := j - 1] else ans) [1..<Suc k] (replicate n 0)"
  shows "length A = n \<and> (\<forall>r<n. \<forall>j. 1 \<le> j \<and> j \<le> k \<and> p ! j = Suc r \<longrightarrow> A ! r = j - 1)"
  using k A
proof (induction k arbitrary: A)
  case 0
  then show ?case by simp
next
  case (Suc k)
  define B where "B = fold (\<lambda>j ans. if p ! j \<noteq> 0 then ans[p ! j - 1 := j - 1] else ans) [1..<Suc k] (replicate n 0)"
  have IH: "length B = n" "\<forall>r<n. \<forall>j. 1 \<le> j \<and> j \<le> k \<and> p ! j = Suc r \<longrightarrow> B ! r = j - 1"
    using Suc.IH[OF _ B_def] Suc.prems(1) by auto
  have AB: "A = (if p ! Suc k \<noteq> 0 then B[p ! Suc k - 1 := k] else B)"
    using Suc.prems(2) by (simp add: B_def)
  have "A ! r = j - 1" if h: "r < n" "1 \<le> j" "j \<le> Suc k" "p ! j = Suc r" for r j
  proof (cases "j = Suc k")
    case True then show ?thesis using AB h IH(1) by auto
  next
    case False
    then have "p ! Suc k \<noteq> p ! j" using inj h Suc.prems(1) by (auto simp: inj_on_def)
    then show ?thesis using AB IH h False by (auto simp: arr)
  qed
  then show ?case using AB IH(1) by auto
qed

text \<open>Weak duality: feasible potentials bound the cost of every assignment from below.\<close>

lemma dual_lower:
  assumes f: "is_assignment n m f"
    and feas: "\<forall>r j. 1 \<le> r \<and> r \<le> n \<and> 1 \<le> j \<and> j \<le> m \<longrightarrow> 0 \<le> red_cost a u v r j"
    and v0: "\<forall>j. 1 \<le> j \<and> j \<le> m \<longrightarrow> v ! j \<le> 0"
  shows "(\<Sum>r<n. u ! Suc r) + (\<Sum>c<m. v ! Suc c) \<le> assignment_cost a f"
proof -
  have F: "length f = n" "distinct f" "set f \<subseteq> {..<m}" using f by (auto simp: is_assignment_def)
  have "(\<Sum>c<m. v ! Suc c) \<le> (\<Sum>c \<in> set f. v ! Suc c)"
    using v0 F(3) sum_mono2[of "{..<m}" "set f" "\<lambda>c. - v ! Suc c"] by (simp add: sum_negf Suc_le_eq)
  also have "\<dots> = (\<Sum>r<n. v ! Suc (f ! r))" using sum_nth_set[OF F(2), of "\<lambda>c. v ! Suc c"] F(1) by simp
  finally have "(\<Sum>r<n. u ! Suc r) + (\<Sum>c<m. v ! Suc c) \<le> (\<Sum>r<n. u ! Suc r + v ! Suc (f ! r))"
    by (simp add: sum.distrib)
  also have "\<dots> \<le> (\<Sum>r<n. a ! r ! (f ! r))"
  proof (rule sum_mono)
    fix r assume "r \<in> {..<n}"
    then have "f ! r \<in> set f" "r < n" using F by auto
    then have "f ! r < m" "r < n" using F(3) by auto
    then have "0 \<le> red_cost a u v (Suc r) (Suc (f ! r))" using feas by auto
    then show "u ! Suc r + v ! Suc (f ! r) \<le> a ! r ! (f ! r)" by (simp add: red_cost_def)
  qed
  finally show ?thesis using F by (simp add: assignment_cost_def)
qed

text \<open>Strong duality: the answer read off the matching costs exactly the dual value.\<close>

lemma read_ans_column:
  assumes inv: "phase_inv a n m C n s"
  shows "length (read_ans (s_p s) n m) = n"
    and "\<And>r. r < n \<Longrightarrow> read_ans (s_p s) n m ! r < m \<and> s_p s ! Suc (read_ans (s_p s) n m ! r) = Suc r"
    and "\<And>c. c < m \<Longrightarrow> s_p s ! Suc c \<noteq> 0 \<Longrightarrow> c \<in> set (read_ans (s_p s) n m)"
proof -
  let ?p = "s_p s" and ?f = "read_ans (s_p s) n m"
  note I = inv[unfolded phase_inv_def Let_def]
  have P: "\<forall>j. 1 \<le> j \<and> j \<le> m \<longrightarrow> ?p ! j \<le> n" "inj_on ((!) ?p) {j. 1 \<le> j \<and> j \<le> m \<and> ?p ! j \<noteq> 0}"
    using I by auto
  note R = read_ans_spec[OF P le_refl refl, folded read_ans_def]
  show len: "length ?f = n" using R by simp
  show "?f ! r < m \<and> ?p ! Suc (?f ! r) = Suc r" if r: "r < n" for r
  proof -
    obtain j where j: "1 \<le> j" "j \<le> m" "?p ! j = Suc r" using I r by (metis Suc_leI le_add1 plus_1_eq_Suc)
    then have "?f ! r = j - 1" using R r by auto
    then show ?thesis using j by auto
  qed
  show "c \<in> set ?f" if c: "c < m" "?p ! Suc c \<noteq> 0" for c
  proof -
    obtain r where r: "?p ! Suc c = Suc r" using c(2) by (cases "?p ! Suc c") auto
    then have "r < n" using P(1) c by (auto simp: Suc_le_eq)
    then have "?f ! r = Suc c - 1" using R r c by (metis Suc_leI le_add1 plus_1_eq_Suc)
    then show ?thesis using len \<open>r < n\<close> nth_mem[of r ?f] by simp
  qed
qed

lemma phase_inv_answer:
  assumes inv: "phase_inv a n m C n s"
  shows "is_assignment n m (read_ans (s_p s) n m)"
    and "assignment_cost a (read_ans (s_p s) n m) = (\<Sum>r<n. s_u s ! Suc r) + (\<Sum>c<m. s_v s ! Suc c)"
proof -
  let ?p = "s_p s" and ?f = "read_ans (s_p s) n m"
  note I = inv[unfolded phase_inv_def Let_def] and len = read_ans_column(1)[OF inv] and col = read_ans_column(2)[OF inv]
  have tight: "red_cost a (s_u s) (s_v s) (?p ! j) j = 0" if "1 \<le> j" "j \<le> m" "?p ! j \<noteq> 0" for j
    using I that by blast
  have dist: "distinct ?f" unfolding distinct_conv_nth using col len by (metis nat.inject)
  show asg: "is_assignment n m ?f"
    using len dist col by (auto simp: is_assignment_def in_set_conv_nth)
  have "assignment_cost a ?f = (\<Sum>r<n. s_u s ! Suc r + s_v s ! Suc (?f ! r))"
    unfolding assignment_cost_def len
  proof (rule sum.cong)
    fix r assume "r \<in> {..<n}"
    then have c: "?f ! r < m" "?p ! Suc (?f ! r) = Suc r" using col by auto
    have "red_cost a (s_u s) (s_v s) (?p ! Suc (?f ! r)) (Suc (?f ! r)) = 0"
      by (rule tight) (use c in auto)
    then show "a ! r ! (?f ! r) = s_u s ! Suc r + s_v s ! Suc (?f ! r)" using c by (simp add: red_cost_def)
  qed simp
  also have "\<dots> = (\<Sum>r<n. s_u s ! Suc r) + (\<Sum>c \<in> set ?f. s_v s ! Suc c)"
    using sum_nth_set[OF dist, of "\<lambda>c. s_v s ! Suc c"] len by (simp add: sum.distrib)
  also have "(\<Sum>c \<in> set ?f. s_v s ! Suc c) = (\<Sum>c<m. s_v s ! Suc c)"
  proof (rule sum.mono_neutral_left)
    show "set ?f \<subseteq> {..<m}" using asg by (auto simp: is_assignment_def)
    show "\<forall>c\<in>{..<m} - set ?f. s_v s ! Suc c = 0" using read_ans_column(3)[OF inv] I by fastforce
  qed simp
  finally show "assignment_cost a ?f = (\<Sum>r<n. s_u s ! Suc r) + (\<Sum>c<m. s_v s ! Suc c)" .
qed

lemma phase_inv_init:
  "phase_inv a n m C 0 \<lparr>s_u = replicate (n + 1) 0, s_v = replicate (m + 1) 0,
     s_p = replicate (m + 1) 0, s_way = replicate (m + 1) 0\<rparr>"
  by (auto simp: phase_inv_def Let_def less_Suc_eq_le inj_on_def simp del: replicate_Suc)

lemma hungarian_correct:
  assumes mok: "matrix_ok a n m C" and m: "n = 0 \<or> m = length (a ! 0)"
  shows "\<exists>ans. hungarian a = Some ans \<and> is_assignment n m ans \<and>
     (\<forall>f. is_assignment n m f \<longrightarrow> assignment_cost a ans \<le> assignment_cost a f)"
proof (cases "n = 0")
  case True
  then show ?thesis using mok by (auto simp: matrix_ok_def hungarian_def is_assignment_def assignment_cost_def)
next
  case False
  from phases_total[OF mok phase_inv_init, of n] obtain s where
    s: "phases a m [1..<Suc n] \<lparr>s_u = replicate (n + 1) 0, s_v = replicate (m + 1) 0,
     s_p = replicate (m + 1) 0, s_way = replicate (m + 1) 0\<rparr> = Some s" "phase_inv a n m C n s" by auto
  have h: "hungarian a = Some (read_ans (s_p s) n m)"
    using False m mok s(1) by (auto simp: hungarian_def Let_def matrix_ok_def)
  show ?thesis
    using h phase_inv_answer[OF s(2)] dual_lower[of n m _ a "s_u s" "s_v s"] s(2)
    by (auto simp: phase_inv_def Let_def)
qed

text \<open>
  Between two rows every potential is far inside the \<open>i64\<close> range, so neither the potentials nor
  the reduced costs of the next scan can overflow.
\<close>

lemma phase_inv_bounds:
  assumes mok: "matrix_ok a n m C" and inv: "phase_inv a n m C i s" and i: "i \<le> n"
  shows "\<And>j. 1 \<le> j \<Longrightarrow> j \<le> m \<Longrightarrow> - INF_I64 < s_v s ! j \<and> s_v s ! j \<le> 0"
    and "\<And>r. 1 \<le> r \<Longrightarrow> r \<le> n \<Longrightarrow> - C \<le> s_u s ! r \<and> s_u s ! r < INF_I64"
proof -
  note I = inv[unfolded phase_inv_def Let_def]
  have C0: "0 \<le> C" and big: "2 * C * (int n + 1) < INF_I64" using mok by (auto simp: matrix_ok_def)
  have "C * int i \<le> C * int n" using C0 i by (intro mult_left_mono) auto
  then have Ci: "2 * C * int i + 2 * C < INF_I64" using big by (simp add: algebra_simps)
  have v: "- (2 * C * int i) \<le> s_v s ! j \<and> s_v s ! j \<le> 0" if "1 \<le> j" "j \<le> m" for j using I that by blast
  show "- INF_I64 < s_v s ! j \<and> s_v s ! j \<le> 0" if "1 \<le> j" "j \<le> m" for j
    using v[OF that] Ci C0 by linarith
  show "- C \<le> s_u s ! r \<and> s_u s ! r < INF_I64" if r: "1 \<le> r" "r \<le> n" for r
  proof (cases "r \<le> i")
    case True
    then obtain j where j: "1 \<le> j" "j \<le> m" "s_p s ! j = r" using I r by blast
    have "red_cost a (s_u s) (s_v s) r j = 0" using I j r by force
    then have "s_u s ! r = a ! (r - 1) ! (j - 1) - s_v s ! j" by (simp add: red_cost_def)
    then show ?thesis using v[OF j(1,2)] matrix_ok_entry[OF mok r j(1,2)] Ci C0 by linarith
  next
    case False
    then have "s_u s ! r = 0" using I r by auto
    then show ?thesis using C0 Ci by (simp add: INF_I64_def)
  qed
qed

section \<open>The solver interface\<close>

text \<open>
  What a client of the solver relies on: on a well-formed matrix it returns a cheapest assignment.
\<close>

locale assignment_solver =
  fixes solve :: "int list list \<Rightarrow> nat list option"
  assumes solve_optimal: "matrix_ok a n m C \<Longrightarrow> n = 0 \<or> m = length (a ! 0) \<Longrightarrow>
    \<exists>ans. solve a = Some ans \<and> is_assignment n m ans \<and>
      (\<forall>f. is_assignment n m f \<longrightarrow> assignment_cost a ans \<le> assignment_cost a f)"
begin

lemma solve_returns:
  assumes "matrix_ok a n m C" "n = 0 \<or> m = length (a ! 0)"
  obtains ans where "solve a = Some ans" "is_assignment n m ans"
    "\<And>f. is_assignment n m f \<Longrightarrow> assignment_cost a ans \<le> assignment_cost a f"
  using solve_optimal[OF assms] by blast

end

interpretation hung: assignment_solver hungarian
  by unfold_locales (rule hungarian_correct)

section \<open>Properties\<close>

text \<open>
  C2. On a matrix with no more rows than columns and entries that keep the potentials below the
  sentinel, the solver returns, and what it returns is a cheapest assignment of rows to columns.
\<close>

theorem hungarian_optimal:
  assumes "matrix_ok a n m C" "n = 0 \<or> m = length (a ! 0)"
  shows "\<exists>ans. hungarian a = Some ans \<and> is_assignment n m ans \<and>
    (\<forall>f. is_assignment n m f \<longrightarrow> assignment_cost a ans \<le> assignment_cost a f)"
  using assms by (rule hungarian_correct)

theorem hungarian_optimal_witness:
  "\<exists>ans. hungarian [[4, 1, 3], [2, 0, 5]] = Some ans \<and> is_assignment 2 3 ans \<and>
    (\<forall>f. is_assignment 2 3 f \<longrightarrow> assignment_cost [[4, 1, 3], [2, 0, 5]] ans \<le> assignment_cost [[4, 1, 3], [2, 0, 5]] f)"
proof -
  have "matrix_ok [[4, 1, 3], [2, 0, 5]] 2 3 5"
    by (auto simp: matrix_ok_def INF_I64_def less_Suc_eq numeral_2_eq_2 numeral_3_eq_3)
  then show ?thesis using hungarian_optimal[of "[[4, 1, 3], [2, 0, 5]]" 2 3 5] by simp
qed

text \<open>
  C37. The arithmetic stays in range: after any number of rows the column potentials lie between
  minus the sentinel and zero and the row potentials below the sentinel, so the \<open>i64\<close> sums of the
  next scan cannot overflow.
\<close>

theorem hungarian_potentials_bounded:
  assumes "matrix_ok a n m C" "k \<le> n"
  shows "\<exists>s. phases a m [1..<Suc k] \<lparr>s_u = replicate (n + 1) 0, s_v = replicate (m + 1) 0,
       s_p = replicate (m + 1) 0, s_way = replicate (m + 1) 0\<rparr> = Some s \<and>
     (\<forall>j. 1 \<le> j \<and> j \<le> m \<longrightarrow> - INF_I64 < s_v s ! j \<and> s_v s ! j \<le> 0) \<and>
     (\<forall>r. 1 \<le> r \<and> r \<le> n \<longrightarrow> - C \<le> s_u s ! r \<and> s_u s ! r < INF_I64)"
proof -
  obtain s where "phases a m [1..<Suc k] \<lparr>s_u = replicate (n + 1) 0, s_v = replicate (m + 1) 0,
       s_p = replicate (m + 1) 0, s_way = replicate (m + 1) 0\<rparr> = Some s" "phase_inv a n m C k s"
    using phases_total[OF assms(1) phase_inv_init, of k] assms by auto
  then show ?thesis using phase_inv_bounds[OF assms(1) _ assms(2)] by blast
qed

theorem hungarian_potentials_bounded_witness:
  "\<exists>s. phases [[4, 1, 3], [2, 0, 5]] 3 [1..<Suc 1] \<lparr>s_u = replicate 3 0, s_v = replicate 4 0,
       s_p = replicate 4 0, s_way = replicate 4 0\<rparr> = Some s \<and>
     (\<forall>j. 1 \<le> j \<and> j \<le> 3 \<longrightarrow> - INF_I64 < s_v s ! j \<and> s_v s ! j \<le> 0) \<and>
     (\<forall>r. 1 \<le> r \<and> r \<le> 2 \<longrightarrow> - 5 \<le> s_u s ! r \<and> s_u s ! r < INF_I64)"
proof -
  have "matrix_ok [[4, 1, 3], [2, 0, 5]] 2 3 5"
    by (auto simp: matrix_ok_def INF_I64_def less_Suc_eq numeral_2_eq_2 numeral_3_eq_3)
  then show ?thesis using hungarian_potentials_bounded[of "[[4, 1, 3], [2, 0, 5]]" 2 3 5 1] by simp
qed

end
