(* ===== verification/Cover.thy ===== *)
theory Cover
  imports Prelude
begin

text \<open>
  The deadline cover of the dispatch round (\<^verbatim>\<open>deadline_cover\<close> in
  \<^verbatim>\<open>src/crates/api/src/livemap.rs\<close>): slots are looked at in the given order, earliest deadline
  first, and a slot is covered when an augmenting path (Kuhn) finds a truck for it.

  The inner \<^verbatim>\<open>try_slot\<close> is a loop over the trucks of a slot whose body calls \<^verbatim>\<open>try_slot\<close> again for the
  slot that holds the truck; \<^verbatim>\<open>try_trucks\<close> is that loop, carrying the rest of the trucks, and passes
  the two mutable slices \<^verbatim>\<open>truck_slot\<close> and \<^verbatim>\<open>seen\<close> as arguments and results. An index past the end of
  \<^verbatim>\<open>seen\<close> is the result \<^verbatim>\<open>None\<close>; the theorems show that it never happens.
  It terminates because every nested call has marked one more truck as seen.

  Shown: the covered slots can be served together, a slot is covered exactly when it can be served
  together with the earlier covered ones (so the cover is the lexicographically first one), and no
  set of slots that can be served together is larger than the cover.
\<close>

function (sequential) try_trucks ::
  "nat list \<Rightarrow> nat list list \<Rightarrow> nat \<Rightarrow> nat list \<Rightarrow> nat option list \<Rightarrow> bool list \<Rightarrow>
   (bool \<times> nat option list \<times> bool list) option" where
  "try_trucks wp adj s [] tsl seen = Some (False, tsl, seen)"
| "try_trucks wp adj s (t # ts) tsl seen =
     (if length seen \<le> t then None
      else if seen ! t then try_trucks wp adj s ts tsl seen
      else
        let seen1 = seen[t := True] in
        (case tsl ! t of
           None \<Rightarrow> Some (True, tsl[t := Some s], seen1)
         | Some other \<Rightarrow>
             (case try_trucks wp adj other (adj ! (wp ! other)) tsl seen1 of
                None \<Rightarrow> None
              | Some (free, tsl2, seen2) \<Rightarrow>
                  if free then Some (True, tsl2[t := Some s], seen2)
                  else try_trucks wp adj s ts tsl2 seen2)))"
  by pat_completeness auto

definition n_unseen :: "bool list \<Rightarrow> nat" where
  "n_unseen seen = length (filter Not seen)"

lemma n_unseen_mark: "t < length seen \<Longrightarrow> \<not> seen ! t \<Longrightarrow> Suc (n_unseen (seen[t := True])) = n_unseen seen"
proof (induction seen arbitrary: t)
  case Nil
  then show ?case by simp
next
  case (Cons x xs)
  then show ?case by (cases t) (auto simp: n_unseen_def)
qed

lemma try_trucks_unseen:
  "try_trucks_dom (wp, adj, s, ts, tsl, seen) \<Longrightarrow> try_trucks wp adj s ts tsl seen = Some (b, tsl', seen') \<Longrightarrow>
   n_unseen seen' \<le> n_unseen seen"
proof (induction wp adj s ts tsl seen arbitrary: b tsl' seen' rule: try_trucks.pinduct)
  case (1 wp adj s tsl seen)
  then show ?case by (simp add: try_trucks.psimps)
next
  case (2 wp adj s t ts tsl seen)
  show ?case
  proof (cases "length seen \<le> t \<or> seen ! t")
    case True
    then show ?thesis using 2 by (auto simp: try_trucks.psimps split: if_splits)
  next
    case False
    then have c: "\<not> length seen \<le> t" "\<not> seen ! t" by auto
    have m: "n_unseen (seen[t := True]) \<le> n_unseen seen" using n_unseen_mark c by (metis Suc_leD linorder_not_le order_refl)
    show ?thesis
    proof (cases "tsl ! t")
      case None
      then show ?thesis using 2 c m by (auto simp: try_trucks.psimps Let_def)
    next
      case (Some other)
      let ?r = "try_trucks wp adj other (adj ! (wp ! other)) tsl (seen[t := True])"
      obtain free tsl2 seen2 where r: "?r = Some (free, tsl2, seen2)"
        using 2(1,5) Some c by (auto simp: try_trucks.psimps Let_def split: option.splits)
      have "n_unseen seen2 \<le> n_unseen (seen[t := True])"
        using 2(3)[OF c refl Some r] .
      then show ?thesis
        using 2(1,5) 2(4)[OF c refl Some r refl refl] m r Some c
        by (fastforce simp: try_trucks.psimps Let_def split: if_splits)
    qed
  qed
qed

lemma n_unseen_mark_less: "\<not> length seen \<le> t \<Longrightarrow> \<not> seen ! t \<Longrightarrow> n_unseen (seen[t := True]) < n_unseen seen"
  using n_unseen_mark[of t seen] by simp

termination try_trucks
proof (relation "measures [\<lambda>(wp, adj, s, ts, tsl, seen). n_unseen seen, \<lambda>(wp, adj, s, ts, tsl, seen). length ts]",
    goal_cases)
  case 4
  then show ?case
    using n_unseen_mark_less[OF 4(1,2)] by (auto dest!: try_trucks_unseen)
qed (simp_all add: n_unseen_mark_less)


definition adj_ok :: "nat list \<Rightarrow> nat list list \<Rightarrow> nat \<Rightarrow> bool" where
  "adj_ok wp adj n \<longleftrightarrow> (\<forall>w \<in> set wp. w < length adj) \<and> (\<forall>ts \<in> set adj. set ts \<subseteq> {..<n})"

definition slot_of :: "nat option list \<Rightarrow> nat set \<Rightarrow> nat set" where
  "slot_of tsl A = {s. \<exists>t\<in>A. tsl ! t = Some s}"

definition slots_ok :: "nat list \<Rightarrow> nat list list \<Rightarrow> nat \<Rightarrow> nat option list \<Rightarrow> bool" where
  "slots_ok wp adj n tsl \<longleftrightarrow> length tsl = n \<and>
     (\<forall>t<n. \<forall>s. tsl ! t = Some s \<longrightarrow> s < length wp \<and> t \<in> set (adj ! (wp ! s)))"

definition inj_slots :: "nat option list \<Rightarrow> nat set \<Rightarrow> bool" where
  "inj_slots tsl A \<longleftrightarrow> (\<forall>t\<in>A. \<forall>t'\<in>A. \<forall>s. tsl ! t = Some s \<and> tsl ! t' = Some s \<longrightarrow> t = t')"

definition unseen :: "nat \<Rightarrow> bool list \<Rightarrow> nat set" where
  "unseen n seen = {t. t < n \<and> \<not> seen ! t}"

definition found :: "nat list \<Rightarrow> nat list list \<Rightarrow> nat \<Rightarrow> nat \<Rightarrow> nat option list \<Rightarrow> bool list \<Rightarrow> nat option list \<Rightarrow> bool" where
  "found wp adj n s tsl seen tsl' \<longleftrightarrow>
     slots_ok wp adj n tsl' \<and> (\<forall>t<n. seen ! t \<longrightarrow> tsl' ! t = tsl ! t) \<and>
     inj_slots tsl' (unseen n seen) \<and> slot_of tsl' (unseen n seen) = insert s (slot_of tsl (unseen n seen))"

definition stuck :: "nat list \<Rightarrow> nat list list \<Rightarrow> nat \<Rightarrow> nat list \<Rightarrow> nat option list \<Rightarrow> bool list \<Rightarrow> bool list \<Rightarrow> bool" where
  "stuck wp adj n ts tsl seen seen' \<longleftrightarrow>
     (\<forall>t \<in> set ts. seen' ! t) \<and>
     (\<forall>t<n. seen' ! t \<and> \<not> seen ! t \<longrightarrow> (\<exists>s. tsl ! t = Some s \<and> (\<forall>t' \<in> set (adj ! (wp ! s)). seen' ! t')))"

lemma unseen_mark: "t < n \<Longrightarrow> length seen = n \<Longrightarrow> unseen n (seen[t := True]) = unseen n seen - {t}"
  by (auto simp: unseen_def nth_upd_if)

lemma slot_of_update:
  "t < length tsl \<Longrightarrow> t \<in> A \<Longrightarrow> slot_of (tsl[t := Some s]) A = insert s (slot_of tsl (A - {t}))"
  by (auto simp: slot_of_def nth_upd_if)

lemma slot_of_remove: "tsl ! t = Some s \<Longrightarrow> t \<in> A \<Longrightarrow> slot_of tsl A = insert s (slot_of tsl (A - {t}))"
  by (auto simp: slot_of_def)

lemma inj_slots_subset: "inj_slots tsl B \<Longrightarrow> A \<subseteq> B \<Longrightarrow> inj_slots tsl A"
  unfolding inj_slots_def by blast

lemma inj_slots_update:
  assumes "inj_slots tsl (A - {t})" "s \<notin> slot_of tsl (A - {t})" "t < length tsl"
  shows "inj_slots (tsl[t := Some s]) A"
  unfolding inj_slots_def
proof (intro ballI allI impI)
  fix x y k assume h: "x \<in> A" "y \<in> A" "tsl[t := Some s] ! x = Some k \<and> tsl[t := Some s] ! y = Some k"
  show "x = y"
  proof (cases "x = t \<or> y = t")
    case True
    then show ?thesis using h assms by (auto simp: nth_upd_if slot_of_def split: if_splits)
  next
    case False
    then have "x \<in> A - {t}" "y \<in> A - {t}" "tsl ! x = Some k" "tsl ! y = Some k" using h by (auto simp: nth_upd_if)
    then show ?thesis using assms(1) unfolding inj_slots_def by blast
  qed
qed

lemma found_here:
  assumes "slots_ok wp adj n tsl" "inj_slots tsl (unseen n seen)" "s \<notin> slot_of tsl (unseen n seen)" "s < length wp"
    and t: "t \<in> unseen n seen" "t \<in> set (adj ! (wp ! s))" "tsl ! t = None"
  shows "found wp adj n s tsl seen (tsl[t := Some s])"
proof -
  have tl: "t < length tsl" using assms by (auto simp: slots_ok_def unseen_def)
  have e: "slot_of tsl (unseen n seen - {t}) = slot_of tsl (unseen n seen)" using t(3) by (force simp: slot_of_def)
  have "inj_slots (tsl[t := Some s]) (unseen n seen)"
    using assms e tl by (intro inj_slots_update inj_slots_subset[OF assms(2)]) auto
  moreover have "slots_ok wp adj n (tsl[t := Some s])"
    using assms by (auto simp: slots_ok_def nth_upd_if)
  ultimately show ?thesis
    using slot_of_update[OF tl t(1), of s] e t(1) by (auto simp: found_def unseen_def nth_upd_if)
qed

lemma found_moved:
  assumes inj: "inj_slots tsl (unseen n seen)" and s: "s \<notin> slot_of tsl (unseen n seen)" "s < length wp"
    and t: "t \<in> unseen n seen" "t \<in> set (adj ! (wp ! s))" "tsl ! t = Some other" and len: "length seen = n"
    and f: "found wp adj n other tsl (seen[t := True]) tsl2"
  shows "found wp adj n s tsl seen (tsl2[t := Some s])"
proof -
  let ?A = "unseen n seen"
  have tn: "t < n" "\<not> seen ! t" using t by (auto simp: unseen_def)
  have F: "slots_ok wp adj n tsl2" "\<forall>x<n. seen[t := True] ! x \<longrightarrow> tsl2 ! x = tsl ! x"
    "inj_slots tsl2 (?A - {t})" "slot_of tsl2 (?A - {t}) = insert other (slot_of tsl (?A - {t}))"
    using f tn len by (auto simp: found_def unseen_mark)
  have tl: "t < length tsl2" using F tn by (auto simp: slots_ok_def)
  have e: "slot_of tsl2 (?A - {t}) = slot_of tsl ?A" using F(4) slot_of_remove[of tsl t other ?A] t by simp
  have "inj_slots (tsl2[t := Some s]) ?A" using F(3) e s tl by (intro inj_slots_update) auto
  moreover have "slots_ok wp adj n (tsl2[t := Some s])"
    using F(1) s(2) t(2) by (auto simp: slots_ok_def nth_upd_if)
  moreover have "\<forall>x<n. seen ! x \<longrightarrow> tsl2[t := Some s] ! x = tsl ! x"
    using F(2) tn by (auto simp: nth_upd_if)
  ultimately show ?thesis
    using slot_of_update[OF tl t(1), of s] e by (auto simp: found_def)
qed

lemma found_later:
  assumes inj: "inj_slots tsl (unseen n seen)" and s: "s \<notin> slot_of tsl (unseen n seen)"
    and mono: "\<forall>t<n. seen ! t \<longrightarrow> seen2 ! t"
    and f: "found wp adj n s tsl seen2 tsl'"
  shows "found wp adj n s tsl seen tsl'"
proof -
  let ?A = "unseen n seen" and ?B = "unseen n seen2"
  have BA: "?B \<subseteq> ?A" using mono by (auto simp: unseen_def)
  have F: "slots_ok wp adj n tsl'" "\<forall>t<n. seen2 ! t \<longrightarrow> tsl' ! t = tsl ! t" "inj_slots tsl' ?B"
    "slot_of tsl' ?B = insert s (slot_of tsl ?B)" using f by (auto simp: found_def)
  have old: "tsl' ! t = tsl ! t" if "t \<in> ?A - ?B" for t using F(2) that by (auto simp: unseen_def)
  have split: "slot_of x ?A = slot_of x ?B \<union> slot_of x (?A - ?B)" for x using BA by (auto simp: slot_of_def)
  have eq: "slot_of tsl' (?A - ?B) = slot_of tsl (?A - ?B)" using old by (auto simp: slot_of_def)
  have sl: "slot_of tsl' ?A = insert s (slot_of tsl ?A)" using split eq F(4) by auto
  have "inj_slots tsl' ?A" unfolding inj_slots_def
  proof (intro ballI allI impI)
    fix x y k assume h: "x \<in> ?A" "y \<in> ?A" "tsl' ! x = Some k \<and> tsl' ! y = Some k"
    have cross: False if "x \<in> ?B" "y \<in> ?A - ?B" "tsl' ! x = Some k" "tsl' ! y = Some k" for x y
    proof -
      have y: "tsl ! y = Some k" using old that by simp
      have "k \<in> insert s (slot_of tsl ?B)" using F(4) that by (auto simp: slot_of_def)
      then obtain z where "k = s \<or> (z \<in> ?B \<and> tsl ! z = Some k)" by (auto simp: slot_of_def)
      then show False using y that s inj BA unfolding inj_slots_def slot_of_def by blast
    qed
    consider "x \<in> ?B" "y \<in> ?B" | "x \<in> ?A - ?B" "y \<in> ?A - ?B" | "x \<in> ?B" "y \<in> ?A - ?B" | "y \<in> ?B" "x \<in> ?A - ?B"
      using h BA by blast
    then show "x = y"
    proof cases
      case 1 then show ?thesis using h F(3) unfolding inj_slots_def by blast
    next
      case 2 then show ?thesis using h old inj unfolding inj_slots_def by (metis DiffD1)
    qed (use cross h in blast)+
  qed
  then show ?thesis using F(1,2) mono sl by (auto simp: found_def)
qed

lemma adj_ok_range: "adj_ok wp adj n \<Longrightarrow> s < length wp \<Longrightarrow> t \<in> set (adj ! (wp ! s)) \<Longrightarrow> t < n"
  unfolding adj_ok_def by (meson in_mono lessThan_iff nth_mem)

lemma stuck_chain:
  assumes st: "stuck wp adj n (adj ! (wp ! other)) tsl (seen[t := True]) seen2"
    and st': "stuck wp adj n ts tsl seen2 seen'"
    and mono: "\<forall>x<n. seen2 ! x \<longrightarrow> seen' ! x"
    and ok: "adj_ok wp adj n" "slots_ok wp adj n tsl"
    and t: "tsl ! t = Some other" "t < n" "other < length wp" "seen2 ! t" "length seen = n"
  shows "stuck wp adj n (t # ts) tsl seen seen'"
  unfolding stuck_def
proof (intro conjI ballI allI impI)
  fix x assume "x \<in> set (t # ts)"
  then show "seen' ! x" using st' mono t by (auto simp: stuck_def)
next
  fix x assume x: "x < n" "seen' ! x \<and> \<not> seen ! x"
  have lift: "\<forall>t' \<in> set (adj ! (wp ! s)). seen' ! t'"
    if "s < length wp" "\<forall>t' \<in> set (adj ! (wp ! s)). seen2 ! t'" for s
    using that mono adj_ok_range[OF ok(1)] by blast
  consider "x = t" | "x \<noteq> t" "seen2 ! x" | "\<not> seen2 ! x" by blast
  then show "\<exists>s. tsl ! x = Some s \<and> (\<forall>t' \<in> set (adj ! (wp ! s)). seen' ! t')"
  proof cases
    case 1
    then show ?thesis using t st lift[of other] by (auto simp: stuck_def)
  next
    case 2
    then obtain s where s: "tsl ! x = Some s" "\<forall>t' \<in> set (adj ! (wp ! s)). seen2 ! t'"
      using st x by (auto simp: stuck_def)
    then have "s < length wp" using ok(2) x by (auto simp: slots_ok_def)
    then show ?thesis using s lift by blast
  next
    case 3
    then show ?thesis using st' x by (auto simp: stuck_def)
  qed
qed

lemma try_trucks_spec:
  assumes "adj_ok wp adj n" "slots_ok wp adj n tsl" "length seen = n" "s < length wp"
    "set ts \<subseteq> set (adj ! (wp ! s))" "inj_slots tsl (unseen n seen)" "s \<notin> slot_of tsl (unseen n seen)"
  shows "\<exists>b tsl' seen'. try_trucks wp adj s ts tsl seen = Some (b, tsl', seen') \<and> length seen' = n \<and>
     (\<forall>t<n. seen ! t \<longrightarrow> seen' ! t) \<and>
     (if b then found wp adj n s tsl seen tsl' else tsl' = tsl \<and> stuck wp adj n ts tsl seen seen')"
  using assms
proof (induction wp adj s ts tsl seen rule: try_trucks.induct)
  case (1 wp adj s tsl seen)
  then show ?case by (auto simp: stuck_def)
next
  case (2 wp adj s t ts tsl seen)
  have "adj ! (wp ! s) \<in> set adj" using 2 by (auto simp: adj_ok_def)
  then have tn: "t < n" using 2(4,8) by (auto simp: adj_ok_def)
  then have nl: "\<not> length seen \<le> t" using 2 by simp
  show ?case
  proof (cases "seen ! t")
    case True
    have sub: "set ts \<subseteq> set (adj ! (wp ! s))" using 2(8) by simp
    obtain b tsl' seen' where r: "try_trucks wp adj s ts tsl seen = Some (b, tsl', seen')" "length seen' = n"
      "\<forall>x<n. seen ! x \<longrightarrow> seen' ! x"
      "if b then found wp adj n s tsl seen tsl' else tsl' = tsl \<and> stuck wp adj n ts tsl seen seen'"
      using 2(1)[OF nl True 2(4-7) sub 2(9,10)] by auto
    then have "if b then found wp adj n s tsl seen tsl' else tsl' = tsl \<and> stuck wp adj n (t # ts) tsl seen seen'"
      using True tn by (auto simp: stuck_def split: if_splits)
    then show ?thesis using r nl True by auto
  next
    case ns: False
    let ?seen1 = "seen[t := True]"
    have tU: "t \<in> unseen n seen" using tn ns by (simp add: unseen_def)
    have tadj: "t \<in> set (adj ! (wp ! s))" using 2(8) by simp
    show ?thesis
    proof (cases "tsl ! t")
      case None
      then show ?thesis using found_here[OF 2(5,9,10,7) tU tadj None] ns nl 2(6)
        by (auto simp: Let_def nth_upd_if)
    next
      case (Some other)
      have o: "other < length wp" using 2(5) Some tn by (auto simp: slots_ok_def)
      have U1: "unseen n ?seen1 = unseen n seen - {t}" using unseen_mark[OF tn 2(6)] .
      have io: "inj_slots tsl (unseen n ?seen1)" using inj_slots_subset[OF 2(9)] U1 by auto
      have oo: "other \<notin> slot_of tsl (unseen n ?seen1)"
        using 2(9) U1 Some tU unfolding inj_slots_def slot_of_def by blast
      obtain b tsl2 seen2 where r: "try_trucks wp adj other (adj ! (wp ! other)) tsl ?seen1 = Some (b, tsl2, seen2)"
        and l2: "length seen2 = n" and mono: "\<forall>x<n. ?seen1 ! x \<longrightarrow> seen2 ! x"
        and res: "if b then found wp adj n other tsl ?seen1 tsl2
                  else tsl2 = tsl \<and> stuck wp adj n (adj ! (wp ! other)) tsl ?seen1 seen2"
        using 2(2)[OF nl ns refl Some 2(4,5) _ o _ io oo] 2(6) by auto
      have mono': "\<forall>x<n. seen ! x \<longrightarrow> seen2 ! x" "seen2 ! t" using mono tn 2(6) by (auto simp: nth_upd_if)
      show ?thesis
      proof (cases b)
        case True
        then have "found wp adj n s tsl seen (tsl2[t := Some s])"
          using found_moved[OF 2(9,10,7) tU tadj Some 2(6)] res by simp
        then show ?thesis using True r ns nl Some mono' l2 by (auto simp: Let_def)
      next
        case False
        then have t2: "tsl2 = tsl" and st: "stuck wp adj n (adj ! (wp ! other)) tsl ?seen1 seen2" using res by auto
        have sub: "unseen n seen2 \<subseteq> unseen n seen" using mono' by (auto simp: unseen_def)
        have i2: "inj_slots tsl (unseen n seen2)" using inj_slots_subset[OF 2(9) sub] .
        have s2: "s \<notin> slot_of tsl (unseen n seen2)" using 2(10) sub by (auto simp: slot_of_def)
        obtain b' tsl' seen' where r': "try_trucks wp adj s ts tsl seen2 = Some (b', tsl', seen')"
          and l': "length seen' = n" and mono2: "\<forall>x<n. seen2 ! x \<longrightarrow> seen' ! x"
          and res': "if b' then found wp adj n s tsl seen2 tsl' else tsl' = tsl \<and> stuck wp adj n ts tsl seen2 seen'"
          using 2(3)[OF nl ns refl Some r refl refl False 2(4) _ l2 2(7) _ ] 2(5,8) i2 s2 t2 by auto
        have call: "try_trucks wp adj s (t # ts) tsl seen = Some (b', tsl', seen')"
          using r r' False ns nl Some t2 by (simp add: Let_def)
        have m: "\<forall>x<n. seen ! x \<longrightarrow> seen' ! x" using mono' mono2 by auto
        show ?thesis
        proof (cases b')
          case True
          then show ?thesis using call l' m res' found_later[OF 2(9,10) mono'(1)] by auto
        next
          case F2: False
          have "stuck wp adj n (t # ts) tsl seen seen'"
            using stuck_chain[OF st _ mono2 2(4,5) Some tn o mono'(2) 2(6)] res' F2 by simp
          then show ?thesis using call l' m res' F2 by auto
        qed
      qed
    qed
  qed
qed


definition try_slot ::
  "nat list \<Rightarrow> nat list list \<Rightarrow> nat \<Rightarrow> nat option list \<Rightarrow> bool list \<Rightarrow> (bool \<times> nat option list \<times> bool list) option" where
  "try_slot wp adj s tsl seen = try_trucks wp adj s (adj ! (wp ! s)) tsl seen"

definition add_edge :: "nat \<Rightarrow> nat \<Rightarrow> nat list list \<Rightarrow> nat \<times> nat \<times> int \<Rightarrow> nat list list" where
  "add_edge n_trucks n_w adj e =
     (case e of (t, w, _) \<Rightarrow>
        if t < n_trucks \<and> w < n_w \<and> t \<notin> set (adj ! w) then adj[w := adj ! w @ [t]] else adj)"

definition n_work :: "nat list \<Rightarrow> nat" where
  "n_work slot_wpos = (if slot_wpos = [] then 0 else Max (set slot_wpos) + 1)"

definition build_adj :: "nat \<Rightarrow> nat list \<Rightarrow> (nat \<times> nat \<times> int) list \<Rightarrow> nat list list" where
  "build_adj n_trucks slot_wpos edges =
     foldl (add_edge n_trucks (n_work slot_wpos)) (replicate (n_work slot_wpos) []) edges"

primrec cover_loop ::
  "nat list \<Rightarrow> nat list list \<Rightarrow> nat \<Rightarrow> nat list \<Rightarrow> nat option list \<Rightarrow> bool list \<Rightarrow> (nat option list \<times> bool list) option" where
  "cover_loop wp adj n [] tsl covered = Some (tsl, covered)"
| "cover_loop wp adj n (s # ss) tsl covered =
     (case try_slot wp adj s tsl (replicate n False) of
        None \<Rightarrow> None
      | Some (b, tsl', seen') \<Rightarrow> cover_loop wp adj n ss tsl' (covered[s := b]))"

definition deadline_cover :: "nat \<Rightarrow> nat list \<Rightarrow> (nat \<times> nat \<times> int) list \<Rightarrow> bool list option" where
  "deadline_cover n_trucks slot_wpos edges =
     map_option snd (cover_loop slot_wpos (build_adj n_trucks slot_wpos edges) n_trucks [0..<length slot_wpos]
       (replicate n_trucks None) (replicate (length slot_wpos) False))"

text \<open>The specification: sets of slots that distinct trucks can serve at the same time.\<close>

definition connects :: "nat \<Rightarrow> nat list \<Rightarrow> (nat \<times> nat \<times> int) list \<Rightarrow> nat \<Rightarrow> nat \<Rightarrow> bool" where
  "connects n wp edges s t \<longleftrightarrow> t < n \<and> (\<exists>c. (t, wp ! s, c) \<in> set edges)"

definition coverable :: "nat \<Rightarrow> nat list \<Rightarrow> (nat \<times> nat \<times> int) list \<Rightarrow> nat set \<Rightarrow> bool" where
  "coverable n wp edges X \<longleftrightarrow> X \<subseteq> {..<length wp} \<and>
     (\<exists>f. inj_on f X \<and> (\<forall>s\<in>X. connects n wp edges s (f s)))"

definition marked :: "bool list \<Rightarrow> nat \<Rightarrow> nat set" where
  "marked cov k = {s. s < k \<and> cov ! s}"

lemma coverable_mono: "coverable n wp edges Y \<Longrightarrow> X \<subseteq> Y \<Longrightarrow> coverable n wp edges X"
  unfolding coverable_def by (meson inj_on_subset subset_trans in_mono)

lemma add_edges_length: "length (foldl (add_edge n m) adj edges) = length adj"
  by (induction edges arbitrary: adj) (auto simp: add_edge_def)

lemma add_edges_set:
  "length adj = m \<Longrightarrow> w < m \<Longrightarrow>
   set (foldl (add_edge n m) adj edges ! w) = set (adj ! w) \<union> {t. t < n \<and> (\<exists>c. (t, w, c) \<in> set edges)}"
proof (induction edges arbitrary: adj)
  case Nil
  then show ?case by simp
next
  case (Cons e es)
  obtain t v c where e: "e = (t, v, c)" by (cases e) auto
  have "set (add_edge n m adj e ! w) = set (adj ! w) \<union> (if t < n \<and> v = w then {t} else {})"
    using Cons.prems e by (auto simp: add_edge_def nth_upd_if)
  moreover have "length (add_edge n m adj e) = m" using Cons.prems e by (auto simp: add_edge_def)
  ultimately show ?case using Cons.IH[of "add_edge n m adj e"] Cons.prems e by (auto split: if_splits)
qed

lemma n_work_bound: "s < length wp \<Longrightarrow> wp ! s < n_work wp"
  by (auto simp: n_work_def le_imp_less_Suc)

lemma build_adj_set: "s < length wp \<Longrightarrow> t \<in> set (build_adj n wp edges ! (wp ! s)) \<longleftrightarrow> connects n wp edges s t"
  using add_edges_set[of "replicate (n_work wp) []" "n_work wp" "wp ! s" n edges] n_work_bound[of s wp]
  by (auto simp: build_adj_def connects_def)

lemma build_adj_ok: "adj_ok wp (build_adj n wp edges) n"
  unfolding adj_ok_def
proof (intro conjI ballI)
  have len: "length (build_adj n wp edges) = n_work wp" by (simp add: build_adj_def add_edges_length)
  fix w assume "w \<in> set wp"
  then show "w < length (build_adj n wp edges)" using n_work_bound len by (metis in_set_conv_nth)
next
  fix ts assume "ts \<in> set (build_adj n wp edges)"
  then obtain w where "w < n_work wp" "ts = build_adj n wp edges ! w"
    by (auto simp: in_set_conv_nth build_adj_def add_edges_length)
  then show "set ts \<subseteq> {..<n}"
    using add_edges_set[of "replicate (n_work wp) []" "n_work wp" w n edges] by (auto simp: build_adj_def)
qed

text \<open>A tight set of trucks: all taken, by slots that no truck outside could serve.\<close>

definition tight :: "nat list \<Rightarrow> nat list list \<Rightarrow> nat option list \<Rightarrow> nat set \<Rightarrow> bool" where
  "tight wp adj tsl T \<longleftrightarrow> (\<forall>t\<in>T. \<exists>r. tsl ! t = Some r \<and> set (adj ! (wp ! r)) \<subseteq> T)"

lemma tight_Un: "tight wp adj tsl T \<Longrightarrow> tight wp adj tsl D \<Longrightarrow> tight wp adj tsl (T \<union> D)"
  unfolding tight_def by blast

lemma card_slot_of:
  assumes "finite T" "inj_slots tsl T" "tight wp adj tsl T"
  shows "card (slot_of tsl T) = card T" "finite (slot_of tsl T)"
proof -
  have e: "slot_of tsl T = (\<lambda>t. the (tsl ! t)) ` T"
    using assms(3) by (force simp: slot_of_def tight_def image_iff)
  have "inj_on (\<lambda>t. the (tsl ! t)) T"
    using assms(2,3) unfolding inj_on_def inj_slots_def tight_def by (metis option.sel)
  then show "card (slot_of tsl T) = card T" "finite (slot_of tsl T)" using e assms(1) by (simp_all add: card_image)
qed

lemma tight_kept:
  assumes T: "T \<subseteq> {..<n}" "tight wp adj tsl T" "inj_slots tsl {..<n}"
    and ok': "slots_ok wp adj n tsl'" and sub: "slot_of tsl {..<n} \<subseteq> slot_of tsl' {..<n}"
  shows "tight wp adj tsl' T"
proof -
  let ?R = "slot_of tsl T"
  let ?A = "{t\<in>T. \<exists>r\<in>?R. tsl' ! t = Some r}"
  have fin: "finite T" using T(1) finite_subset by blast
  have card: "card ?R = card T" using card_slot_of[OF fin inj_slots_subset[OF T(3,1)] T(2)] by simp
  have nbr: "set (adj ! (wp ! r)) \<subseteq> T" if "r \<in> ?R" for r
    using that T(2) by (force simp: slot_of_def tight_def)
  have "?R \<subseteq> (\<lambda>t. the (tsl' ! t)) ` ?A"
  proof
    fix r assume r: "r \<in> ?R"
    then have "r \<in> slot_of tsl' {..<n}" using sub T(1) by (auto simp: slot_of_def)
    then obtain t where t: "t < n" "tsl' ! t = Some r" by (auto simp: slot_of_def)
    then have "t \<in> T" using ok' nbr[OF r] by (auto simp: slots_ok_def)
    then show "r \<in> (\<lambda>t. the (tsl' ! t)) ` ?A" using t r by (force simp: image_iff)
  qed
  then have "card ?R \<le> card ?A" using fin by (intro surj_card_le) auto
  then have "?A = T" using card fin by (intro card_seteq) auto
  then show ?thesis using nbr unfolding tight_def by blast
qed


lemma uncovered_blocked:
  assumes D: "D \<subseteq> {..<n}" "tight wp adj tsl D" "inj_slots tsl {..<n}" and s: "set (adj ! (wp ! s)) \<subseteq> D"
    and "s \<notin> slot_of tsl {..<n}" "slot_of tsl D \<subseteq> X" "s < length wp" "X \<subseteq> {..<length wp}"
    and adj: "\<And>r t. r < length wp \<Longrightarrow> t \<in> set (adj ! (wp ! r)) \<longleftrightarrow> connects n wp edges r t"
  shows "\<not> coverable n wp edges (insert s X)"
proof
  assume "coverable n wp edges (insert s X)"
  then obtain f where f: "inj_on f (insert s X)" "\<forall>r\<in>insert s X. connects n wp edges r (f r)"
    by (auto simp: coverable_def)
  let ?R = "slot_of tsl D"
  have fin: "finite D" using D(1) finite_subset by blast
  have card: "card ?R = card D" "finite ?R" using card_slot_of[OF fin inj_slots_subset[OF D(3,1)] D(2)] by simp_all
  have nbr: "set (adj ! (wp ! r)) \<subseteq> D" if "r \<in> ?R" for r using that D(2) by (force simp: slot_of_def tight_def)
  have "f ` insert s ?R \<subseteq> D"
  proof
    fix t assume "t \<in> f ` insert s ?R"
    then obtain r where r: "r \<in> insert s ?R" "t = f r" by blast
    then have "connects n wp edges r t" "r < length wp" using f(2) assms(6-8) by auto
    then show "t \<in> D" using adj r s nbr by blast
  qed
  moreover have "inj_on f (insert s ?R)" using f(1) assms(6) by (meson inj_on_subset insert_mono)
  ultimately have "card (insert s ?R) \<le> card D" using fin by (metis card_image card_mono)
  moreover have "s \<notin> ?R" using assms(5) D(1) by (auto simp: slot_of_def)
  ultimately show False using card by simp
qed

definition cover_inv ::
  "nat \<Rightarrow> nat list \<Rightarrow> (nat \<times> nat \<times> int) list \<Rightarrow> nat \<Rightarrow> nat option list \<Rightarrow> bool list \<Rightarrow> nat set \<Rightarrow> bool" where
  "cover_inv n wp edges k tsl cov T \<longleftrightarrow>
     (let adj = build_adj n wp edges in
      k \<le> length wp \<and> length cov = length wp \<and> slots_ok wp adj n tsl \<and> inj_slots tsl {..<n} \<and>
      slot_of tsl {..<n} = marked cov k \<and> T \<subseteq> {..<n} \<and> tight wp adj tsl T \<and>
      (\<forall>s<k. \<not> cov ! s \<longrightarrow> set (adj ! (wp ! s)) \<subseteq> T \<and> \<not> coverable n wp edges (insert s (marked cov s))))"

lemma marked_Suc: "marked cov (Suc k) = (if cov ! k then insert k (marked cov k) else marked cov k)"
  by (auto simp: marked_def less_Suc_eq)

lemma marked_upd: "j \<le> k \<Longrightarrow> marked (cov[k := b]) j = marked cov j"
  by (auto simp: marked_def)

lemma cover_step:
  assumes inv: "cover_inv n wp edges k tsl cov T" and k: "k < length wp"
  shows "\<exists>b tsl' seen' T'. try_slot wp (build_adj n wp edges) k tsl (replicate n False) = Some (b, tsl', seen') \<and>
     cover_inv n wp edges (Suc k) tsl' (cov[k := b]) T'"
proof -
  let ?adj = "build_adj n wp edges" and ?seen = "replicate n False"
  have U: "unseen n ?seen = {..<n}" by (auto simp: unseen_def)
  have I: "length cov = length wp" "slots_ok wp ?adj n tsl" "inj_slots tsl {..<n}" "slot_of tsl {..<n} = marked cov k"
    "T \<subseteq> {..<n}" "tight wp ?adj tsl T"
    and H: "\<forall>s<k. \<not> cov ! s \<longrightarrow> set (?adj ! (wp ! s)) \<subseteq> T \<and> \<not> coverable n wp edges (insert s (marked cov s))"
    using inv by (auto simp: cover_inv_def Let_def)
  have kn: "k \<notin> slot_of tsl {..<n}" using I(4) by (auto simp: marked_def)
  obtain b tsl' seen' where r: "try_slot wp ?adj k tsl ?seen = Some (b, tsl', seen')"
    and res: "if b then found wp ?adj n k tsl ?seen tsl' else tsl' = tsl \<and> stuck wp ?adj n (?adj ! (wp ! k)) tsl ?seen seen'"
    using try_trucks_spec[OF build_adj_ok I(2) _ k subset_refl, where seen = ?seen] I(3) kn U
    unfolding try_slot_def by auto
  let ?cov = "cov[k := b]"
  have old: "?cov ! s = cov ! s" "marked ?cov s = marked cov s" if "s < k" for s
    using that by (simp_all add: marked_upd)
  show ?thesis
  proof (cases b)
    case True
    then have F: "slots_ok wp ?adj n tsl'" "inj_slots tsl' {..<n}" "slot_of tsl' {..<n} = insert k (marked cov k)"
      using res U I(4) by (auto simp: found_def)
    have "tight wp ?adj tsl' T" using tight_kept[OF I(5,6,3) F(1)] F(3) I(4) by auto
    then have "cover_inv n wp edges (Suc k) tsl' ?cov T"
      using F I k H True old by (auto simp: cover_inv_def Let_def marked_Suc marked_upd less_Suc_eq)
    then show ?thesis using r by blast
  next
    case False
    let ?D = "{t. t < n \<and> seen' ! t}"
    have st: "tsl' = tsl" "stuck wp ?adj n (?adj ! (wp ! k)) tsl ?seen seen'" using res False by auto
    have D: "set (?adj ! (wp ! k)) \<subseteq> ?D" using st adj_ok_range[OF build_adj_ok k] by (auto simp: stuck_def)
    have tD: "tight wp ?adj tsl ?D" unfolding tight_def
    proof
      fix t assume "t \<in> ?D"
      then obtain s where s: "tsl ! t = Some s" "\<forall>t' \<in> set (?adj ! (wp ! s)). seen' ! t'" "t < n"
        using st by (auto simp: stuck_def)
      then have "s < length wp" using I(2) by (auto simp: slots_ok_def)
      then show "\<exists>r. tsl ! t = Some r \<and> set (?adj ! (wp ! r)) \<subseteq> ?D"
        using s adj_ok_range[OF build_adj_ok] by blast
    qed
    have "\<not> coverable n wp edges (insert k (marked cov k))"
    proof (rule uncovered_blocked[OF _ tD I(3) D kn])
      show "slot_of tsl ?D \<subseteq> marked cov k" using I(4) by (auto simp: slot_of_def)
    qed (use k in \<open>auto simp: marked_def build_adj_set\<close>)
    moreover have "tight wp ?adj tsl (T \<union> ?D)" using tight_Un[OF I(6) tD] .
    ultimately have "cover_inv n wp edges (Suc k) tsl' ?cov (T \<union> ?D)"
      using I k H False st(1) D old by (auto simp: cover_inv_def Let_def marked_Suc marked_upd less_Suc_eq)
    then show ?thesis using r by blast
  qed
qed

lemma cover_loop_inv:
  "cover_inv n wp edges k tsl cov T \<Longrightarrow> k \<le> m \<Longrightarrow> m \<le> length wp \<Longrightarrow>
   \<exists>tsl' cov' T'. cover_loop wp (build_adj n wp edges) n [k..<m] tsl cov = Some (tsl', cov') \<and>
     cover_inv n wp edges m tsl' cov' T'"
proof (induction "m - k" arbitrary: k tsl cov T)
  case 0
  then show ?case by auto
next
  case (Suc d)
  then have k: "k < m" "k < length wp" by auto
  obtain b tsl1 seen1 T1 where s: "try_slot wp (build_adj n wp edges) k tsl (replicate n False) = Some (b, tsl1, seen1)"
    "cover_inv n wp edges (Suc k) tsl1 (cov[k := b]) T1" using cover_step[OF Suc.prems(1) k(2)] by blast
  show ?case using Suc.hyps(1)[OF _ s(2)] Suc.hyps(2) Suc.prems k s(1) by (simp add: upt_conv_Cons)
qed

lemma cover_inv_init: "cover_inv n wp edges 0 (replicate n None) (replicate (length wp) False) {}"
  by (auto simp: cover_inv_def slots_ok_def inj_slots_def slot_of_def marked_def tight_def Let_def)

lemma deadline_cover_final:
  "\<exists>tsl cov T. deadline_cover n wp edges = Some cov \<and> cover_inv n wp edges (length wp) tsl cov T"
  using cover_loop_inv[OF cover_inv_init, of "length wp" wp n edges] by (auto simp: deadline_cover_def)

lemma slots_coverable:
  assumes "slots_ok wp (build_adj n wp edges) n tsl"
  shows "coverable n wp edges (slot_of tsl {..<n})"
  unfolding coverable_def
proof (intro conjI exI)
  let ?f = "\<lambda>s. SOME t. t < n \<and> tsl ! t = Some s"
  have f: "?f s < n \<and> tsl ! (?f s) = Some s" if "s \<in> slot_of tsl {..<n}" for s
    using that by (intro someI_ex[where P = "\<lambda>t. t < n \<and> tsl ! t = Some s"]) (auto simp: slot_of_def)
  show "slot_of tsl {..<n} \<subseteq> {..<length wp}" using assms by (auto simp: slot_of_def slots_ok_def)
  show "inj_on ?f (slot_of tsl {..<n})" using f by (metis (no_types, lifting) inj_onI option.inject)
  show "\<forall>s\<in>slot_of tsl {..<n}. connects n wp edges s (?f s)"
  proof
    fix s assume "s \<in> slot_of tsl {..<n}"
    then have "?f s \<in> set (build_adj n wp edges ! (wp ! s)) \<and> s < length wp"
      using f[of s] assms unfolding slots_ok_def by blast
    then show "connects n wp edges s (?f s)" using build_adj_set by blast
  qed
qed

lemma deadline_cover_greedy:
  "\<exists>cov. deadline_cover n wp edges = Some cov \<and> length cov = length wp \<and>
     coverable n wp edges (marked cov (length wp)) \<and>
     (\<forall>s<length wp. cov ! s \<longleftrightarrow> coverable n wp edges (insert s (marked cov s)))"
proof -
  obtain tsl cov T where d: "deadline_cover n wp edges = Some cov" "cover_inv n wp edges (length wp) tsl cov T"
    using deadline_cover_final by blast
  then have c: "coverable n wp edges (marked cov (length wp))"
    using slots_coverable[of wp n edges tsl] by (auto simp: cover_inv_def Let_def)
  have "coverable n wp edges (insert s (marked cov s))" if "s < length wp" "cov ! s" for s
    using that by (intro coverable_mono[OF c]) (auto simp: marked_def)
  then show ?thesis using d c by (auto simp: cover_inv_def Let_def)
qed

lemma deadline_cover_maximum:
  assumes d: "deadline_cover n wp edges = Some cov" and X: "coverable n wp edges X"
  shows "card X \<le> card (marked cov (length wp))"
proof -
  let ?adj = "build_adj n wp edges" and ?C = "marked cov (length wp)"
  obtain tsl T where I: "slots_ok wp ?adj n tsl" "inj_slots tsl {..<n}" "slot_of tsl {..<n} = ?C" "T \<subseteq> {..<n}"
    "tight wp ?adj tsl T" "\<forall>s<length wp. \<not> cov ! s \<longrightarrow> set (?adj ! (wp ! s)) \<subseteq> T"
    using deadline_cover_final[of n wp edges] d by (auto simp: cover_inv_def Let_def)
  obtain f where f: "inj_on f X" "\<forall>s\<in>X. connects n wp edges s (f s)" "X \<subseteq> {..<length wp}"
    using X by (auto simp: coverable_def)
  let ?R = "slot_of tsl T"
  let ?K = "{s\<in>X. \<not> cov ! s \<or> s \<in> ?R}"
  have fin: "finite T" "finite X" "finite ?C" using I(4) f(3) finite_subset by (auto simp: marked_def)
  have card: "card ?R = card T" "finite ?R" using card_slot_of[OF fin(1) inj_slots_subset[OF I(2,4)] I(5)] by simp_all
  have RC: "?R \<subseteq> ?C" using I(3,4) by (force simp: slot_of_def)
  have "f ` ?K \<subseteq> T"
  proof
    fix t assume "t \<in> f ` ?K"
    then obtain s where s: "s \<in> X" "\<not> cov ! s \<or> s \<in> ?R" "t = f s" by blast
    then have "t \<in> set (?adj ! (wp ! s))" using f build_adj_set by blast
    then show "t \<in> T" using s f(3) I(5,6) by (force simp: slot_of_def tight_def)
  qed
  moreover have "inj_on f ?K" using f(1) by (rule inj_on_subset) auto
  ultimately have K: "card ?K \<le> card ?R" using fin card by (metis card_image card_mono)
  have "X - ?K \<subseteq> ?C - ?R" using f(3) by (auto simp: marked_def)
  then have "card (X - ?K) \<le> card ?C - card ?R" using fin card RC by (metis card_Diff_subset card_mono finite_Diff)
  moreover have "card X = card ?K + card (X - ?K)"
    using card_Int_Diff[OF fin(2), of ?K] by (simp add: Int_absorb1)
  ultimately show ?thesis using K card_mono[OF fin(3) RC] by linarith
qed

section \<open>Properties\<close>

text \<open>
  C11. The deadline cover returns for every input. The covered slots can be served together, and a
  slot is covered exactly when it can be served together with the covered slots before it: the cover
  is the greedy one in deadline order, and a later slot never costs an earlier one its truck.
\<close>

theorem deadline_cover_is_greedy:
  "\<exists>cov. deadline_cover n_trucks slot_wpos edges = Some cov \<and> length cov = length slot_wpos \<and>
     coverable n_trucks slot_wpos edges (marked cov (length slot_wpos)) \<and>
     (\<forall>s < length slot_wpos. cov ! s \<longleftrightarrow> coverable n_trucks slot_wpos edges (insert s (marked cov s)))"
  by (rule deadline_cover_greedy)

theorem deadline_cover_is_greedy_witness:
  "\<exists>cov. deadline_cover 2 [0, Suc 0, 0] [(0, 0, 5), (Suc 0, 0, 7), (0, Suc 0, 3)] = Some cov \<and>
     (cov ! 2 \<longleftrightarrow> coverable 2 [0, Suc 0, 0] [(0, 0, 5), (Suc 0, 0, 7), (0, Suc 0, 3)] (insert 2 (marked cov 2)))"
  using deadline_cover_is_greedy[of 2 "[0, Suc 0, 0]" "[(0, 0, 5), (Suc 0, 0, 7), (0, Suc 0, 3)]"] by auto

text \<open>
  C12. The number of covered slots is the size of a maximum matching: no set of slots that distinct
  trucks could serve together is larger.
\<close>

theorem deadline_cover_is_maximum:
  assumes "deadline_cover n_trucks slot_wpos edges = Some cov" "coverable n_trucks slot_wpos edges X"
  shows "card X \<le> card (marked cov (length slot_wpos))"
  using assms by (rule deadline_cover_maximum)

theorem deadline_cover_is_maximum_witness:
  "card {0, Suc 0} \<le> card (marked [True, True, False] (length [0, Suc 0, 0]))"
proof (rule deadline_cover_is_maximum)
  show "deadline_cover 2 [0, Suc 0, 0] [(0, 0, 5), (Suc 0, 0, 7), (0, Suc 0, 3)] = Some [True, True, False]"
    by code_simp
  show "coverable 2 [0, Suc 0, 0] [(0, 0, 5), (Suc 0, 0, 7), (0, Suc 0, 3)] {0, Suc 0}"
    unfolding coverable_def
    by (intro conjI exI[of _ "\<lambda>s. 1 - s"]) (auto simp: connects_def inj_on_def less_Suc_eq numeral_2_eq_2 numeral_3_eq_3)
qed

end
