(* ===== verification/AssignSlots.thy ===== *)
theory AssignSlots
  imports Hungarian Cover
begin

text \<open>
  The truck to slot matching of the dispatch round (\<^verbatim>\<open>assign_slots\<close> in
  \<^verbatim>\<open>src/crates/api/src/livemap.rs\<close>), written over the solver it calls, so that its correctness is
  proved once from the solver's contract \<^verbatim>\<open>assignment_solver\<close>.
\<close>

section \<open>The code\<close>

definition FORBIDDEN_COST :: int where
  "FORBIDDEN_COST = 1000000000"

definition add_cost :: "nat \<Rightarrow> (nat \<times> nat \<rightharpoonup> int) \<Rightarrow> nat \<times> nat \<times> int \<Rightarrow> (nat \<times> nat \<rightharpoonup> int)" where
  "add_cost n_trucks cost e =
     (case e of (t, w, c) \<Rightarrow>
        if t < n_trucks
        then (case cost (t, w) of None \<Rightarrow> cost((t, w) \<mapsto> c) | Some old \<Rightarrow> cost((t, w) \<mapsto> min old c))
        else cost)"

definition cost_map :: "nat \<Rightarrow> (nat \<times> nat \<times> int) list \<Rightarrow> (nat \<times> nat \<rightharpoonup> int)" where
  "cost_map n_trucks edges = foldl (add_cost n_trucks) Map.empty edges"

definition c_of :: "(nat \<times> nat \<rightharpoonup> int) \<Rightarrow> nat list \<Rightarrow> nat \<Rightarrow> nat \<Rightarrow> int" where
  "c_of cost slot_wpos t s = (case cost (t, slot_wpos ! s) of None \<Rightarrow> FORBIDDEN_COST | Some c \<Rightarrow> c)"

definition cost_matrix :: "nat \<Rightarrow> nat \<Rightarrow> (nat \<Rightarrow> nat \<Rightarrow> int) \<Rightarrow> int list list" where
  "cost_matrix n m c = map (\<lambda>r. map (c r) [0..<m]) [0..<n]"

definition slot_pairs_with ::
  "(int list list \<Rightarrow> nat list option) \<Rightarrow> nat \<Rightarrow> nat list \<Rightarrow> (nat \<times> nat \<times> int) list \<Rightarrow> (nat \<times> nat) list option" where
  "slot_pairs_with solve n_trucks slot_wpos edges =
     (let n_slots = length slot_wpos; c = c_of (cost_map n_trucks edges) slot_wpos in
      if n_trucks = 0 \<or> n_slots = 0 then Some []
      else
        map_option (filter (\<lambda>(t, s). c t s < FORBIDDEN_COST))
          (if n_trucks \<le> n_slots
           then map_option (\<lambda>ans. zip [0..<length ans] ans) (solve (cost_matrix n_trucks n_slots c))
           else map_option (\<lambda>ans. map (\<lambda>(s, t). (t, s)) (zip [0..<length ans] ans))
                  (solve (cost_matrix n_slots n_trucks (\<lambda>s t. c t s)))))"

definition assign_slots_with ::
  "(int list list \<Rightarrow> nat list option) \<Rightarrow> nat \<Rightarrow> nat list \<Rightarrow> (nat \<times> nat \<times> int) list \<Rightarrow> (nat \<times> nat) list option" where
  "assign_slots_with solve n_trucks slot_wpos edges =
     map_option (map (\<lambda>(t, s). (t, slot_wpos ! s))) (slot_pairs_with solve n_trucks slot_wpos edges)"

definition assign_slots :: "nat \<Rightarrow> nat list \<Rightarrow> (nat \<times> nat \<times> int) list \<Rightarrow> (nat \<times> nat) list option" where
  "assign_slots = assign_slots_with hungarian"

section \<open>The specification\<close>

text \<open>The price of a truck for a work group: its cheapest edge.\<close>

definition edge_cost :: "(nat \<times> nat \<times> int) list \<Rightarrow> nat \<Rightarrow> nat \<Rightarrow> int" where
  "edge_cost edges t w = Min {c. (t, w, c) \<in> set edges}"

definition is_matching :: "nat \<Rightarrow> nat list \<Rightarrow> (nat \<times> nat \<times> int) list \<Rightarrow> (nat \<times> nat) set \<Rightarrow> bool" where
  "is_matching n wp edges M \<longleftrightarrow>
     inj_on fst M \<and> inj_on snd M \<and> (\<forall>(t, s) \<in> M. s < length wp \<and> connects n wp edges s t)"

definition matching_cost :: "nat list \<Rightarrow> (nat \<times> nat \<times> int) list \<Rightarrow> (nat \<times> nat) set \<Rightarrow> int" where
  "matching_cost wp edges M = (\<Sum>(t, s) \<in> M. edge_cost edges t (wp ! s))"

definition costs_ok :: "nat \<Rightarrow> nat list \<Rightarrow> (nat \<times> nat \<times> int) list \<Rightarrow> int \<Rightarrow> bool" where
  "costs_ok n wp edges B \<longleftrightarrow> (\<forall>(t, w, c) \<in> set edges. 0 \<le> c \<and> c \<le> B) \<and>
     int (min n (length wp)) * B < FORBIDDEN_COST \<and> B < FORBIDDEN_COST \<and>
     2 * FORBIDDEN_COST * (int (min n (length wp)) + 1) < INF_I64"

section \<open>The cost map\<close>

lemma cost_map_fold:
  "foldl (add_cost n) m edges (t, w) =
    (let S = set_option (m (t, w)) \<union> {c. t < n \<and> (t, w, c) \<in> set edges} in if S = {} then None else Some (Min S))"
proof (induction edges arbitrary: m)
  case Nil
  then show ?case by (cases "m (t, w)") auto
next
  case (Cons e es)
  obtain t' w' c' where e: "e = (t', w', c')" by (cases e) auto
  show ?case
  proof (cases "t' = t \<and> w' = w \<and> t < n")
    case False
    then have "add_cost n m e (t, w) = m (t, w)" by (auto simp: add_cost_def e split: option.splits)
    moreover have "{c. t < n \<and> (t, w, c) \<in> set (e # es)} = {c. t < n \<and> (t, w, c) \<in> set es}" using False e by auto
    ultimately show ?thesis using Cons.IH[of "add_cost n m e"] by simp
  next
    case True
    let ?T = "{c. t < n \<and> (t, w, c) \<in> set es}"
    have "?T \<subseteq> (\<lambda>(t, w, c). c) ` set es" by force
    then have finT: "finite ?T" by (rule finite_subset) simp
    have T': "{c. t < n \<and> (t, w, c) \<in> set (e # es)} = insert c' ?T" using True e by auto
    show ?thesis
    proof (cases "m (t, w)")
      case None
      then have "add_cost n m e (t, w) = Some c'" using True by (simp add: add_cost_def e)
      then show ?thesis using Cons.IH[of "add_cost n m e"] None T' by simp
    next
      case (Some old)
      then have "add_cost n m e (t, w) = Some (min old c')" using True by (simp add: add_cost_def e)
      then show ?thesis using Cons.IH[of "add_cost n m e"] Some T' finT
        by (cases "?T = {}") (auto simp: min.assoc min.commute)
    qed
  qed
qed

lemma cost_map_eq:
  "cost_map n edges (t, w) =
     (if t < n \<and> (\<exists>c. (t, w, c) \<in> set edges) then Some (edge_cost edges t w) else None)"
  unfolding cost_map_def cost_map_fold edge_cost_def Let_def by auto

lemma c_of_eq:
  "c_of (cost_map n edges) wp t s = (if connects n wp edges s t then edge_cost edges t (wp ! s) else FORBIDDEN_COST)"
  by (auto simp: c_of_def cost_map_eq connects_def)

lemma edge_cost_mem:
  assumes "\<exists>c. (t, w, c) \<in> set edges"
  shows "(t, w, edge_cost edges t w) \<in> set edges"
proof -
  have "{c. (t, w, c) \<in> set edges} \<subseteq> (\<lambda>(t, w, c). c) ` set edges" by force
  then have "finite {c. (t, w, c) \<in> set edges}" using finite_subset by blast
  then have "edge_cost edges t w \<in> {c. (t, w, c) \<in> set edges}" unfolding edge_cost_def using assms by (intro Min_in) auto
  then show ?thesis by simp
qed

lemma c_of_bounds:
  assumes "costs_ok n wp edges B"
  shows "0 \<le> c_of (cost_map n edges) wp t s" "c_of (cost_map n edges) wp t s \<le> FORBIDDEN_COST"
    "c_of (cost_map n edges) wp t s < FORBIDDEN_COST \<longleftrightarrow> connects n wp edges s t"
    "connects n wp edges s t \<Longrightarrow> c_of (cost_map n edges) wp t s \<le> B"
proof -
  have e: "0 \<le> edge_cost edges t (wp ! s) \<and> edge_cost edges t (wp ! s) \<le> B" if "connects n wp edges s t"
    using edge_cost_mem[of t "wp ! s" edges] that assms by (auto simp: connects_def costs_ok_def)
  have B: "B < FORBIDDEN_COST" using assms by (simp add: costs_ok_def)
  have F: "(0::int) < FORBIDDEN_COST" by (simp add: FORBIDDEN_COST_def)
  show "0 \<le> c_of (cost_map n edges) wp t s" "c_of (cost_map n edges) wp t s \<le> FORBIDDEN_COST"
    "c_of (cost_map n edges) wp t s < FORBIDDEN_COST \<longleftrightarrow> connects n wp edges s t"
    "connects n wp edges s t \<Longrightarrow> c_of (cost_map n edges) wp t s \<le> B"
    using e B F by (auto simp: c_of_eq)
qed


section \<open>The optimum\<close>

text \<open>A partial assignment extends to a full one when there are at least as many columns as rows.\<close>

lemma extend_assignment:
  assumes M: "inj_on fst M" "inj_on snd M" "M \<subseteq> {..<n} \<times> {..<m}" and nm: "n \<le> m"
  shows "\<exists>f. is_assignment n m f \<and> (\<forall>(r, j) \<in> M. f ! r = j)"
proof -
  have fin: "finite M" using M(3) by (meson finite_SigmaI finite_lessThan finite_subset)
  let ?R = "{..<n} - fst ` M" and ?J = "{..<m} - snd ` M"
  have sub: "fst ` M \<subseteq> {..<n}" "snd ` M \<subseteq> {..<m}" using M(3) by auto
  have "card ?R = n - card M" "card ?J = m - card M"
    using M sub fin by (simp_all add: card_Diff_subset card_image)
  then have "card ?R \<le> card ?J" using nm by simp
  then obtain h where h: "h ` ?R \<subseteq> ?J" "inj_on h ?R" using card_le_inj[of ?R ?J] by auto
  define g where "g r = (if r \<in> fst ` M then snd (the_inv_into M fst r) else h r)" for r
  have gM: "g r = j" if "(r, j) \<in> M" for r j
  proof -
    have "r \<in> fst ` M" using that by force
    moreover have "the_inv_into M fst (fst (r, j)) = (r, j)" by (rule the_inv_into_f_f[OF M(1) that])
    ultimately show ?thesis by (simp add: g_def)
  qed
  have g1: "g r \<in> snd ` M" if "r \<in> fst ` M" for r using that gM by force
  have g2: "g r \<in> ?J" if "r \<in> ?R" for r using that h(1) by (auto simp: g_def)
  have "inj_on g {..<n}"
  proof (rule inj_onI)
    fix x y assume xy: "x \<in> {..<n}" "y \<in> {..<n}" "g x = g y"
    consider "x \<in> fst ` M" "y \<in> fst ` M" | "x \<in> ?R" "y \<in> ?R" | "x \<in> fst ` M" "y \<in> ?R" | "x \<in> ?R" "y \<in> fst ` M"
      using xy by blast
    then show "x = y"
    proof cases
      case 1
      then obtain j k where jk: "(x, j) \<in> M" "(y, k) \<in> M" by force
      then show ?thesis using gM[OF jk(1)] gM[OF jk(2)] xy(3) inj_onD[OF M(2) _ jk] by simp
    next
      case 2
      then show ?thesis using xy(3) inj_onD[OF h(2)] by (auto simp: g_def)
    next
      case 3
      then show ?thesis using g1[of x] g2[of y] g1[of y] g2[of x] xy(3) by simp
    next
      case 4
      then show ?thesis using g1[of x] g2[of y] g1[of y] g2[of x] xy(3) by simp
    qed
  qed
  moreover have "g r < m" if "r < n" for r using that g1[of r] g2[of r] sub by (cases "r \<in> fst ` M") auto
  ultimately have "is_assignment n m (map g [0..<n])"
    by (auto simp: is_assignment_def distinct_map atLeast0LessThan)
  moreover have "map g [0..<n] ! r = j" if "(r, j) \<in> M" for r j
    using that gM M(3) by auto
  ultimately show ?thesis by blast
qed

lemma assignment_cost_sum:
  "length f = n \<Longrightarrow> (\<forall>c \<in> set f. c < m) \<Longrightarrow> assignment_cost (cost_matrix n m c) f = (\<Sum>r<n. c r (f ! r))"
  unfolding assignment_cost_def cost_matrix_def by (rule sum.cong) auto

lemma sum_split_by:
  fixes h :: "nat \<Rightarrow> int"
  assumes "A \<subseteq> {..<n}" "\<And>r. r < n \<Longrightarrow> r \<notin> A \<Longrightarrow> h r \<le> F"
  shows "(\<Sum>r<n. h r) \<le> (\<Sum>r\<in>A. h r) + (int n - int (card A)) * F"
    and "(\<And>r. r < n \<Longrightarrow> r \<notin> A \<Longrightarrow> h r = F) \<Longrightarrow> (\<Sum>r<n. h r) = (\<Sum>r\<in>A. h r) + (int n - int (card A)) * F"
proof -
  have fin: "finite A" using assms(1) finite_subset by blast
  have s: "(\<Sum>r<n. h r) = (\<Sum>r\<in>A. h r) + (\<Sum>r\<in>{..<n} - A. h r)"
    using sum.subset_diff[OF assms(1), of h] by simp
  have c: "int (card ({..<n} - A)) = int n - int (card A)"
    using assms(1) fin card_mono[OF _ assms(1)] by (simp add: card_Diff_subset)
  have "(\<Sum>r\<in>{..<n} - A. h r) \<le> (\<Sum>r\<in>{..<n} - A. F)" using assms(2) by (intro sum_mono) auto
  then show "(\<Sum>r<n. h r) \<le> (\<Sum>r\<in>A. h r) + (int n - int (card A)) * F" using s c by simp
  assume "\<And>r. r < n \<Longrightarrow> r \<notin> A \<Longrightarrow> h r = F"
  then have "(\<Sum>r\<in>{..<n} - A. h r) = (\<Sum>r\<in>{..<n} - A. F)" by (intro sum.cong) auto
  then show "(\<Sum>r<n. h r) = (\<Sum>r\<in>A. h r) + (int n - int (card A)) * F" using s c by simp
qed

text \<open>
  The matrix lemma: filtering the forbidden entries out of an optimal assignment leaves a set of
  allowed entries that is as large as possible and, among the largest, as cheap as possible.
\<close>

definition allowed_entries :: "nat \<Rightarrow> nat \<Rightarrow> (nat \<Rightarrow> nat \<Rightarrow> int) \<Rightarrow> (nat \<times> nat) set \<Rightarrow> bool" where
  "allowed_entries n m c M \<longleftrightarrow> inj_on fst M \<and> inj_on snd M \<and> M \<subseteq> {..<n} \<times> {..<m} \<and>
     (\<forall>(r, j) \<in> M. c r j < FORBIDDEN_COST)"

definition entries_cost :: "(nat \<Rightarrow> nat \<Rightarrow> int) \<Rightarrow> (nat \<times> nat) set \<Rightarrow> int" where
  "entries_cost c M = (\<Sum>(r, j) \<in> M. c r j)"

definition entry_costs_ok :: "nat \<Rightarrow> (nat \<Rightarrow> nat \<Rightarrow> int) \<Rightarrow> int \<Rightarrow> bool" where
  "entry_costs_ok n c B \<longleftrightarrow>
     (\<forall>r j. 0 \<le> c r j \<and> c r j \<le> FORBIDDEN_COST \<and> (c r j < FORBIDDEN_COST \<longrightarrow> c r j \<le> B)) \<and> int n * B < FORBIDDEN_COST"

lemma entries_cost_rows:
  assumes "inj_on fst M" "\<forall>(r, j) \<in> M. f ! r = j"
  shows "entries_cost c M = (\<Sum>r \<in> fst ` M. c r (f ! r))"
  unfolding entries_cost_def sum.reindex[OF assms(1)] using assms(2) by (intro sum.cong) auto

lemma optimal_entries:
  assumes f: "is_assignment n m f"
    and opt: "\<And>g. is_assignment n m g \<Longrightarrow> assignment_cost (cost_matrix n m c) f \<le> assignment_cost (cost_matrix n m c) g"
    and c: "entry_costs_ok n c B" and nm: "n \<le> m" and M: "allowed_entries n m c M"
    and P: "P = {(r, f ! r) |r. r < n \<and> c r (f ! r) < FORBIDDEN_COST}"
  shows "card M \<le> card P \<and> (card M = card P \<longrightarrow> entries_cost c P \<le> entries_cost c M)"
proof -
  let ?F = "FORBIDDEN_COST"
  obtain g where g: "is_assignment n m g" "\<forall>(r, j) \<in> M. g ! r = j"
    using extend_assignment[of M n m] M nm by (auto simp: allowed_entries_def)
  have fP: "fst ` P = {r. r < n \<and> c r (f ! r) < ?F}" "inj_on fst P" by (force simp: P inj_on_def)+
  have iM: "inj_on fst M" and subM: "fst ` M \<subseteq> {..<n}" using M by (auto simp: allowed_entries_def)
  have finM: "finite M" using iM subM by (metis finite_imageD finite_lessThan finite_subset)
  have cards: "card (fst ` P) = card P" "card (fst ` M) = card M" using fP(2) iM by (simp_all add: card_image)
  have "(\<Sum>r<n. c r (f ! r)) = (\<Sum>r\<in>fst ` P. c r (f ! r)) + (int n - int (card (fst ` P))) * ?F"
  proof (rule sum_split_by(2))
    have "c r j = ?F" if "\<not> c r j < ?F" for r j using c that by (auto simp: entry_costs_ok_def order_le_less)
    then show "\<And>r. r < n \<Longrightarrow> r \<notin> fst ` P \<Longrightarrow> c r (f ! r) = ?F" using fP(1) by simp
    then show "\<And>r. r < n \<Longrightarrow> r \<notin> fst ` P \<Longrightarrow> c r (f ! r) \<le> ?F" by (metis order_refl)
  qed (use fP(1) in auto)
  then have cf: "(\<Sum>r<n. c r (f ! r)) = entries_cost c P + (int n - int (card P)) * ?F"
    using entries_cost_rows[of P f c] fP(2) cards by (simp add: P)
  have cg: "(\<Sum>r<n. c r (g ! r)) \<le> entries_cost c M + (int n - int (card M)) * ?F"
    using sum_split_by(1)[OF subM, of "\<lambda>r. c r (g ! r)" ?F] entries_cost_rows[OF iM g(2), of c] c cards
    by (simp add: entry_costs_ok_def)
  have le: "(\<Sum>r<n. c r (f ! r)) \<le> (\<Sum>r<n. c r (g ! r))"
    using opt[OF g(1)] f g(1) by (simp add: is_assignment_def assignment_cost_sum)
  have key: "entries_cost c P + (int (card M) - int (card P)) * ?F \<le> entries_cost c M"
    using le cf cg by (simp add: algebra_simps)
  have P0: "0 \<le> entries_cost c P" unfolding entries_cost_def using c by (intro sum_nonneg) (auto simp: entry_costs_ok_def)
  have "entries_cost c M \<le> int (card M) * B"
    unfolding entries_cost_def using M c by (intro sum_bounded_above) (auto simp: allowed_entries_def entry_costs_ok_def)
  moreover have "int (card M) \<le> int n" using cards subM card_mono[OF _ subM] by simp
  moreover have "int n * B < ?F" using c by (simp add: entry_costs_ok_def)
  moreover have "0 \<le> B \<or> M = {}"
  proof (cases "M = {}")
    case False
    then obtain r j where "(r, j) \<in> M" by auto
    then have "c r j < ?F" using M by (auto simp: allowed_entries_def)
    then show ?thesis using c unfolding entry_costs_ok_def by (meson order_trans)
  qed simp
  ultimately have MF: "entries_cost c M < ?F"
    by (smt (verit) card.empty mult_right_mono entries_cost_def sum.empty FORBIDDEN_COST_def)
  have "card M \<le> card P"
  proof (rule ccontr)
    assume "\<not> card M \<le> card P"
    then have "1 * ?F \<le> (int (card M) - int (card P)) * ?F" by (intro mult_right_mono) (auto simp: FORBIDDEN_COST_def)
    then show False using key P0 MF by linarith
  qed
  then show ?thesis using key by auto
qed


section \<open>From the solver to the matching\<close>

context assignment_solver
begin

lemma solve_entries:
  assumes "n \<le> m" "0 < n" "entry_costs_ok n c B" "2 * FORBIDDEN_COST * (int n + 1) < INF_I64"
  shows "\<exists>ans. solve (cost_matrix n m c) = Some ans \<and>
    (let ps = filter (\<lambda>(r, j). c r j < FORBIDDEN_COST) (zip [0..<length ans] ans) in
     distinct ps \<and> allowed_entries n m c (set ps) \<and>
     (\<forall>M. allowed_entries n m c M \<longrightarrow> card M \<le> length ps \<and>
        (card M = length ps \<longrightarrow> entries_cost c (set ps) \<le> entries_cost c M)))"
proof -
  have "matrix_ok (cost_matrix n m c) n m FORBIDDEN_COST"
    using assms by (auto simp: matrix_ok_def cost_matrix_def entry_costs_ok_def FORBIDDEN_COST_def abs_of_nonneg)
  moreover have "n = 0 \<or> m = length (cost_matrix n m c ! 0)" using assms(2) by (simp add: cost_matrix_def)
  ultimately obtain ans where ans: "solve (cost_matrix n m c) = Some ans" "is_assignment n m ans"
    "\<And>f. is_assignment n m f \<Longrightarrow> assignment_cost (cost_matrix n m c) ans \<le> assignment_cost (cost_matrix n m c) f"
    using solve_returns by metis
  define ps where "ps = filter (\<lambda>(r, j). c r j < FORBIDDEN_COST) (zip [0..<length ans] ans)"
  have len: "length ans = n" and dist: "distinct ans" and rng: "\<forall>j\<in>set ans. j < m"
    using ans(2) by (auto simp: is_assignment_def)
  have sp: "set ps = {(r, ans ! r) |r. r < n \<and> c r (ans ! r) < FORBIDDEN_COST}"
    using len by (force simp: ps_def set_zip)
  have d: "distinct ps" unfolding ps_def by (intro distinct_filter distinct_zipI1) simp
  have "inj_on snd (set ps)" using dist len by (auto simp: sp inj_on_def nth_eq_iff_index_eq)
  moreover have "set ps \<subseteq> {..<n} \<times> {..<m}" using len rng by (auto simp: sp)
  moreover have "inj_on fst (set ps)" by (auto simp: sp inj_on_def)
  ultimately have "allowed_entries n m c (set ps)" by (auto simp: allowed_entries_def sp)
  then have "distinct ps \<and> allowed_entries n m c (set ps) \<and>
     (\<forall>M. allowed_entries n m c M \<longrightarrow> card M \<le> length ps \<and>
        (card M = length ps \<longrightarrow> entries_cost c (set ps) \<le> entries_cost c M))"
    using d optimal_entries[OF ans(2,3) assms(3,1) _ sp] distinct_card[OF d] by simp
  then show ?thesis using ans(1) unfolding ps_def Let_def by blast
qed

end

lemma allowed_swap: "allowed_entries m n (\<lambda>s t. c t s) (prod.swap ` M) \<longleftrightarrow> allowed_entries n m c M"
proof -
  have "inj_on fst (prod.swap ` M) \<longleftrightarrow> inj_on snd M" "inj_on snd (prod.swap ` M) \<longleftrightarrow> inj_on fst M"
    by (simp_all add: inj_on_def Ball_def) blast+
  then show ?thesis unfolding allowed_entries_def by fastforce
qed

lemma entries_cost_swap: "entries_cost (\<lambda>s t. c t s) (prod.swap ` M) = entries_cost c M"
  unfolding entries_cost_def by (subst sum.reindex) (auto intro: sum.cong)

lemma card_swap: "card (prod.swap ` M) = card M"
  by (simp add: card_image)

lemma matching_entries:
  assumes "costs_ok n wp edges B"
  shows "is_matching n wp edges M \<longleftrightarrow> allowed_entries n (length wp) (c_of (cost_map n edges) wp) M"
  using c_of_bounds(3)[OF assms]
  by (auto simp: is_matching_def allowed_entries_def connects_def)

lemma matching_entries_cost:
  "is_matching n wp edges M \<Longrightarrow> matching_cost wp edges M = entries_cost (c_of (cost_map n edges) wp) M"
  unfolding matching_cost_def entries_cost_def is_matching_def
  by (intro sum.cong) (auto simp: c_of_eq)

lemma matching_empty: "is_matching n wp edges M \<Longrightarrow> n = 0 \<or> wp = [] \<Longrightarrow> M = {}"
  by (auto simp: is_matching_def connects_def)

lemma swapped_pairs:
  "filter (\<lambda>(t, s). c t s < F) (map (\<lambda>(s, t). (t, s)) xs) = map prod.swap (filter (\<lambda>(s, t). c t s < F) xs)"
  by (induction xs) auto

context assignment_solver
begin

lemma slot_pairs_optimal:
  assumes ok: "costs_ok n wp edges B"
  shows "\<exists>ps. slot_pairs_with solve n wp edges = Some ps \<and> distinct ps \<and> is_matching n wp edges (set ps) \<and>
    (\<forall>M. is_matching n wp edges M \<longrightarrow> card M \<le> length ps \<and>
       (card M = length ps \<longrightarrow> matching_cost wp edges (set ps) \<le> matching_cost wp edges M))"
proof -
  let ?c = "c_of (cost_map n edges) wp" and ?m = "length wp"
  have ec: "entry_costs_ok k ?c B" "entry_costs_ok k (\<lambda>s t. ?c t s) B" if "k = min n ?m" for k
    using c_of_bounds[OF ok] ok that by (auto simp: entry_costs_ok_def costs_ok_def)
  have inf: "2 * FORBIDDEN_COST * (int (min n ?m) + 1) < INF_I64" using ok by (simp add: costs_ok_def)
  have "\<exists>ps. slot_pairs_with solve n wp edges = Some ps \<and> distinct ps \<and> allowed_entries n ?m ?c (set ps) \<and>
    (\<forall>M. allowed_entries n ?m ?c M \<longrightarrow> card M \<le> length ps \<and>
       (card M = length ps \<longrightarrow> entries_cost ?c (set ps) \<le> entries_cost ?c M))"
  proof -
    consider "n = 0 \<or> ?m = 0" | "0 < n" "n \<le> ?m" | "0 < ?m" "?m < n" by linarith
    then show ?thesis
    proof cases
      case 1
      then have "M = {}" if "allowed_entries n ?m ?c M" for M using that by (auto simp: allowed_entries_def)
      then show ?thesis using 1 by (force simp: slot_pairs_with_def allowed_entries_def)
    next
      case 2
      then obtain ans where ans: "solve (cost_matrix n ?m ?c) = Some ans"
        "let ps = filter (\<lambda>(r, j). ?c r j < FORBIDDEN_COST) (zip [0..<length ans] ans) in
         distinct ps \<and> allowed_entries n ?m ?c (set ps) \<and>
         (\<forall>M. allowed_entries n ?m ?c M \<longrightarrow> card M \<le> length ps \<and>
            (card M = length ps \<longrightarrow> entries_cost ?c (set ps) \<le> entries_cost ?c M))"
        using solve_entries[OF 2(2,1) ec(1)] inf 2 by auto
      moreover have "slot_pairs_with solve n wp edges =
          Some (filter (\<lambda>(r, j). ?c r j < FORBIDDEN_COST) (zip [0..<length ans] ans))"
        using 2 ans(1) by (auto simp: slot_pairs_with_def Let_def)
      ultimately show ?thesis unfolding Let_def by blast
    next
      case 3
      let ?d = "\<lambda>s t. ?c t s"
      obtain ans where ans: "solve (cost_matrix ?m n ?d) = Some ans"
        "let ps = filter (\<lambda>(r, j). ?d r j < FORBIDDEN_COST) (zip [0..<length ans] ans) in
         distinct ps \<and> allowed_entries ?m n ?d (set ps) \<and>
         (\<forall>M. allowed_entries ?m n ?d M \<longrightarrow> card M \<le> length ps \<and>
            (card M = length ps \<longrightarrow> entries_cost ?d (set ps) \<le> entries_cost ?d M))"
        using solve_entries[OF _ 3(1) ec(2), of n] inf 3 by auto
      define qs where "qs = filter (\<lambda>(r, j). ?d r j < FORBIDDEN_COST) (zip [0..<length ans] ans)"
      define ps where "ps = map prod.swap qs"
      have q: "distinct qs" "allowed_entries ?m n ?d (set qs)"
        "\<And>M. allowed_entries ?m n ?d M \<Longrightarrow> card M \<le> length qs \<and>
            (card M = length qs \<longrightarrow> entries_cost ?d (set qs) \<le> entries_cost ?d M)"
        using ans(2) unfolding qs_def[symmetric] Let_def by blast+
      have sp: "set ps = prod.swap ` set qs" "length ps = length qs" "distinct ps"
        using q(1) by (simp_all add: ps_def distinct_map)
      have "slot_pairs_with solve n wp edges = Some ps"
        using 3 ans(1) by (simp add: slot_pairs_with_def Let_def swapped_pairs ps_def qs_def)
      moreover have "allowed_entries n ?m ?c (set ps)" using q(2) allowed_swap[of n ?m ?d "set qs"] sp by simp
      moreover have "card M \<le> length ps \<and> (card M = length ps \<longrightarrow> entries_cost ?c (set ps) \<le> entries_cost ?c M)"
        if "allowed_entries n ?m ?c M" for M
      proof -
        have "allowed_entries ?m n ?d (prod.swap ` M)" using that allowed_swap[of ?m n ?c M] by simp
        from q(3)[OF this] show ?thesis
          using sp entries_cost_swap[of ?c M] entries_cost_swap[of ?d "set qs"] card_swap[of M] by simp
      qed
      ultimately show ?thesis using sp(3) by blast
    qed
  qed
  then show ?thesis using matching_entries[OF ok] matching_entries_cost by metis
qed

end

section \<open>Properties\<close>

text \<open>
  C6. With edge costs between 0 and a bound that, times the number of pairs, stays below the price of
  a forbidden pair, the matching handed out has as many pairs as any matching over the given edges
  and, among the largest, the least total cost; what is returned is the truck and the work group of
  each of its pairs.
\<close>

theorem assign_slots_optimal:
  assumes "costs_ok n_trucks slot_wpos edges B"
  shows "\<exists>ps. assign_slots n_trucks slot_wpos edges = Some (map (\<lambda>(t, s). (t, slot_wpos ! s)) ps) \<and> distinct ps \<and>
    is_matching n_trucks slot_wpos edges (set ps) \<and>
    (\<forall>M. is_matching n_trucks slot_wpos edges M \<longrightarrow> card M \<le> length ps \<and>
       (card M = length ps \<longrightarrow> matching_cost slot_wpos edges (set ps) \<le> matching_cost slot_wpos edges M))"
  using hung.slot_pairs_optimal[OF assms] by (auto simp: assign_slots_def assign_slots_with_def)

theorem assign_slots_optimal_witness:
  "\<exists>ps. assign_slots 2 [0, 0] [(0, 0, 30), (1, 0, 20)] = Some (map (\<lambda>(t, s). (t, [0, 0] ! s)) ps) \<and> distinct ps \<and>
    is_matching 2 [0, 0] [(0, 0, 30), (1, 0, 20)] (set ps) \<and>
    (\<forall>M. is_matching 2 [0, 0] [(0, 0, 30), (1, 0, 20)] M \<longrightarrow> card M \<le> length ps \<and>
       (card M = length ps \<longrightarrow>
         matching_cost [0, 0] [(0, 0, 30), (1, 0, 20)] (set ps) \<le> matching_cost [0, 0] [(0, 0, 30), (1, 0, 20)] M))"
proof -
  have "costs_ok 2 [0, 0] [(0, 0, 30), (1, 0, 20)] 30" by (simp add: costs_ok_def FORBIDDEN_COST_def INF_I64_def)
  then show ?thesis by (rule assign_slots_optimal)
qed

end
