(* ===== verification/MatchRound.thy ===== *)
theory MatchRound
  imports AssignSlots
begin

text \<open>
  The matching step of one dispatch tick (\<^verbatim>\<open>spawn_stage2_shadow\<close> in
  \<^verbatim>\<open>src/crates/api/src/livemap.rs\<close>): the candidate work groups are expanded into slots, the deadline
  cover says which slots get a truck, and the solver is given the covered slots only.
\<close>

definition slot_all :: "int list \<Rightarrow> nat list" where
  "slot_all caps = concat (map (\<lambda>(wp, c). replicate (nat (max c 0)) wp) (enumerate 0 caps))"

definition covered_slots :: "nat list \<Rightarrow> bool list \<Rightarrow> nat list" where
  "covered_slots slots covered = map fst (filter snd (zip slots covered))"

definition match_round :: "nat \<Rightarrow> int list \<Rightarrow> (nat \<times> nat \<times> int) list \<Rightarrow> (nat list \<times> (nat \<times> nat) list) option" where
  "match_round n_v caps edges =
     (case deadline_cover n_v (slot_all caps) edges of
        None \<Rightarrow> None
      | Some covered \<Rightarrow>
          (let slot_wpos = covered_slots (slot_all caps) covered in
           map_option (\<lambda>assign. (slot_wpos, assign)) (assign_slots n_v slot_wpos edges)))"

lemma covered_slots_nth:
  "length cov = length wp \<Longrightarrow> covered_slots wp cov = map (nth wp) (filter (nth cov) [0..<length wp])"
proof (induction wp arbitrary: cov rule: rev_induct)
  case Nil
  then show ?case by (simp add: covered_slots_def)
next
  case (snoc x xs)
  then obtain ys b where c: "cov = ys @ [b]" "length ys = length xs"
    by (metis append_butlast_last_id length_append_singleton length_butlast diff_Suc_1 length_0_conv nat.distinct(1))
  have "map (nth (xs @ [x])) (filter (nth (ys @ [b])) [0..<length xs]) = map (nth xs) (filter (nth ys) [0..<length xs])"
  proof -
    have "filter (nth (ys @ [b])) [0..<length xs] = filter (nth ys) [0..<length xs]"
      using c(2) by (intro filter_cong) (auto simp: nth_append)
    then show ?thesis by (auto simp: nth_append)
  qed
  moreover have "(ys @ [b]) ! length xs = b" using c(2) by (metis nth_append_length)
  ultimately show ?case using snoc.IH[of ys] c by (simp add: covered_slots_def)
qed

lemma covered_slots_matching:
  assumes cov: "coverable n wp edges (marked cov (length wp))" and len: "length cov = length wp"
  defines "sw \<equiv> covered_slots wp cov"
  shows "\<exists>M. is_matching n sw edges M \<and> card M = length sw"
proof -
  let ?idx = "filter (nth cov) [0..<length wp]"
  have sw: "sw = map (nth wp) ?idx" unfolding sw_def by (rule covered_slots_nth[OF len])
  obtain f where f: "inj_on f (marked cov (length wp))" "\<forall>s\<in>marked cov (length wp). connects n wp edges s (f s)"
    using cov by (auto simp: coverable_def)
  have mem: "?idx ! i \<in> marked cov (length wp)" if "i < length ?idx" for i
    using nth_mem[OF that] by (auto simp: marked_def)
  let ?M = "(\<lambda>i. (f (?idx ! i), i)) ` {..<length ?idx}"
  have "inj_on fst ?M"
  proof (rule inj_onI, clarsimp)
    fix i j assume ij: "i < length ?idx" "j < length ?idx" "f (?idx ! i) = f (?idx ! j)"
    then have "?idx ! i = ?idx ! j" using inj_onD[OF f(1) ij(3)] mem by blast
    then show "i = j" using ij nth_eq_iff_index_eq[of ?idx i j] by simp
  qed
  moreover have "inj_on snd ?M" by (auto simp: inj_on_def)
  moreover have "connects n sw edges i (f (?idx ! i))" if "i < length ?idx" for i
    using f(2) mem[OF that] that sw by (auto simp: connects_def)
  ultimately have "is_matching n sw edges ?M" using sw by (auto simp: is_matching_def)
  moreover have "card ?M = length sw" using sw by (simp add: card_image inj_on_def)
  ultimately show ?thesis by blast
qed

lemma matching_full:
  assumes ps: "distinct ps" "is_matching n sw edges (set ps)" and len: "length ps = length sw"
  shows "mset (map (\<lambda>(t, s). sw ! s) ps) = mset sw" "distinct (map fst ps)"
proof -
  have inj: "inj_on snd (set ps)" "inj_on fst (set ps)" "\<forall>p\<in>set ps. snd p < length sw"
    using ps(2) by (auto simp: is_matching_def)
  have d: "distinct (map snd ps)" "distinct (map fst ps)" using ps(1) inj by (simp_all add: distinct_map)
  have "set (map snd ps) \<subseteq> set [0..<length sw]" using inj(3) by auto
  moreover have "card (set (map snd ps)) = length sw" using distinct_card[OF d(1)] len by simp
  ultimately have "set (map snd ps) = set [0..<length sw]" by (intro card_subset_eq) auto
  then have "mset (map snd ps) = mset [0..<length sw]" using d(1) by (intro set_eq_iff_mset_eq_distinct[THEN iffD1]) auto
  then have "mset (map (nth sw) (map snd ps)) = mset (map (nth sw) [0..<length sw])" by (simp only: mset_map)
  then show "mset (map (\<lambda>(t, s). sw ! s) ps) = mset sw" by (simp add: map_nth case_prod_beta' comp_def)
  show "distinct (map fst ps)" by (rule d(2))
qed

lemma costs_ok_shorter: "costs_ok n wp edges B \<Longrightarrow> length sw \<le> length wp \<Longrightarrow> 0 \<le> B \<Longrightarrow> costs_ok n sw edges B"
proof -
  assume a: "costs_ok n wp edges B" "length sw \<le> length wp" "0 \<le> B"
  have m: "int (min n (length sw)) \<le> int (min n (length wp))" using a(2) by simp
  then have "int (min n (length sw)) * B \<le> int (min n (length wp)) * B" using a(3) by (rule mult_right_mono)
  moreover have "2 * FORBIDDEN_COST * (int (min n (length sw)) + 1) \<le> 2 * FORBIDDEN_COST * (int (min n (length wp)) + 1)"
    using m by (intro mult_left_mono) (auto simp: FORBIDDEN_COST_def)
  ultimately show ?thesis using a unfolding costs_ok_def by (metis order.strict_trans1)
qed

lemma covered_slots_length: "length (covered_slots wp cov) \<le> length wp"
  unfolding covered_slots_def by (simp add: length_filter_le[THEN order_trans])

lemma match_round_full:
  assumes ok: "costs_ok n_v (slot_all caps) edges B" and B: "0 \<le> B"
  shows "\<exists>cov slot_wpos assign. match_round n_v caps edges = Some (slot_wpos, assign) \<and>
    deadline_cover n_v (slot_all caps) edges = Some cov \<and> slot_wpos = covered_slots (slot_all caps) cov \<and>
    mset (map snd assign) = mset slot_wpos \<and> distinct (map fst assign) \<and>
    (\<forall>(t, w) \<in> set assign. t < n_v \<and> (\<exists>c. (t, w, c) \<in> set edges))"
proof -
  obtain cov where cov: "deadline_cover n_v (slot_all caps) edges = Some cov" "length cov = length (slot_all caps)"
    "coverable n_v (slot_all caps) edges (marked cov (length (slot_all caps)))"
    using deadline_cover_greedy[of n_v "slot_all caps" edges] by blast
  define sw where "sw = covered_slots (slot_all caps) cov"
  have "costs_ok n_v sw edges B" using costs_ok_shorter[OF ok _ B] covered_slots_length unfolding sw_def by blast
  then obtain ps where ps: "slot_pairs_with hungarian n_v sw edges = Some ps" "distinct ps" "is_matching n_v sw edges (set ps)"
    "\<And>M. is_matching n_v sw edges M \<Longrightarrow> card M \<le> length ps"
    using hung.slot_pairs_optimal[of n_v sw edges B] by blast
  obtain M where "is_matching n_v sw edges M" "card M = length sw"
    using covered_slots_matching[OF cov(3,2)] unfolding sw_def by blast
  then have "length sw \<le> length ps" using ps(4) by fastforce
  moreover have "length ps \<le> length sw"
  proof -
    have "inj_on snd (set ps)" "snd ` set ps \<subseteq> {..<length sw}" using ps(3) by (auto simp: is_matching_def)
    then show ?thesis using distinct_card[OF ps(2)] by (metis card_image card_lessThan card_mono finite_lessThan)
  qed
  ultimately have full: "mset (map (\<lambda>(t, s). sw ! s) ps) = mset sw" "distinct (map fst ps)"
    using matching_full[OF ps(2,3)] by simp_all
  let ?assign = "map (\<lambda>(t, s). (t, sw ! s)) ps"
  have "map snd ?assign = map (\<lambda>(t, s). sw ! s) ps" "map fst ?assign = map fst ps" by auto
  moreover have "match_round n_v caps edges = Some (sw, ?assign)"
    using cov(1) ps(1) by (simp add: match_round_def assign_slots_def assign_slots_with_def sw_def Let_def)
  moreover have "\<forall>(t, w) \<in> set ?assign. t < n_v \<and> (\<exists>c. (t, w, c) \<in> set edges)"
    using ps(3) by (auto simp: is_matching_def connects_def)
  ultimately have "mset (map snd ?assign) = mset sw" "distinct (map fst ?assign)"
    "match_round n_v caps edges = Some (sw, ?assign)"
    "\<forall>(t, w) \<in> set ?assign. t < n_v \<and> (\<exists>c. (t, w, c) \<in> set edges)"
    using full by (simp_all only:)
  then show ?thesis using cov(1) sw_def by blast
qed

section \<open>Properties\<close>

text \<open>
  C5. The matching step never drops a covered slot: the solver is given exactly the slots the
  deadline cover kept, and it hands out one distinct truck for each of them, along allowed edges.
  The branch that logs \<open>assign.len() != slot_wpos.len()\<close> cannot be taken.
\<close>

theorem match_round_serves_cover:
  assumes "costs_ok n_v (slot_all caps) edges B" "0 \<le> B"
  shows "\<exists>cov slot_wpos assign. match_round n_v caps edges = Some (slot_wpos, assign) \<and>
    deadline_cover n_v (slot_all caps) edges = Some cov \<and> slot_wpos = covered_slots (slot_all caps) cov \<and>
    mset (map snd assign) = mset slot_wpos \<and> distinct (map fst assign) \<and>
    (\<forall>(t, w) \<in> set assign. t < n_v \<and> (\<exists>c. (t, w, c) \<in> set edges))"
  using assms by (rule match_round_full)

theorem match_round_serves_cover_witness:
  "\<exists>cov slot_wpos assign. match_round 2 [2, 1] [(0, 0, 9), (0, 1, 4)] = Some (slot_wpos, assign) \<and>
    deadline_cover 2 (slot_all [2, 1]) [(0, 0, 9), (0, 1, 4)] = Some cov \<and> slot_wpos = covered_slots (slot_all [2, 1]) cov \<and>
    mset (map snd assign) = mset slot_wpos \<and> distinct (map fst assign) \<and>
    (\<forall>(t, w) \<in> set assign. t < 2 \<and> (\<exists>c. (t, w, c) \<in> set [(0, 0, 9 :: int), (0, 1, 4)]))"
proof -
  have "costs_ok 2 (slot_all [2, 1]) [(0, 0, 9), (0, 1, 4)] 9"
    by (simp add: costs_ok_def FORBIDDEN_COST_def INF_I64_def min_def)
  then show ?thesis by (rule match_round_serves_cover) simp
qed

end
