(* ===== verification/Holds.thy ===== *)
theory Holds
  imports Prelude "HOL-Library.List_Lexorder" "HOL-Library.Char_ord" "HOL-Library.Product_Lexorder"
begin

text \<open>
  The holds on sent orders (\<^verbatim>\<open>src/crates/api/src/livemap.rs\<close>, the in-memory map \<^verbatim>\<open>held\<close> and the table
  \<^verbatim>\<open>dispatch_sent\<close> behind it). A truck that was given a box stays tied to that box, and the box to
  that truck, until evidence from the terminal system releases the hold. The rows of \<^verbatim>\<open>dispatch_sent\<close>
  are written before the hold is made, so that a restart can rebuild the map.

  Database timestamps are microseconds, the program's clock readings milliseconds. A hash map is an
  association list in an arbitrary iteration order with distinct keys.
\<close>

section \<open>Signals about one truck\<close>

type_synonym us = int

definition timestamp_millis :: "us \<Rightarrow> ms" where
  "timestamp_millis t = t div 1000"

record tos_sig =
  sig_free :: "us option"
  sig_dis :: "us option"
  sig_jobtype :: "string option"
  sig_free_jt :: "string option"
  sig_topos :: "string option"
  sig_listed_at :: "us option"
  sig_picked :: "us option"
  sig_avail_since :: "us option"

definition dispatched_since_free :: "tos_sig \<Rightarrow> us \<Rightarrow> bool" where
  "dispatched_since_free sg f =
     (let listed = is_some_and (sig_listed_at sg)
                     (\<lambda>a. a \<ge> f \<and> \<not> is_some_and (sig_avail_since sg) (\<lambda>v. v > a))
      in is_some_and (sig_dis sg) (\<lambda>d. d > f) \<or> listed)"

definition is_free_tos :: "tos_sig \<Rightarrow> bool" where
  "is_free_tos sg =
     (case sig_free sg of
        None \<Rightarrow> False
      | Some f \<Rightarrow> if is_some_and (sig_picked sg) (\<lambda>p. p > f) then False else \<not> dispatched_since_free sg f)"

section \<open>Holds\<close>

datatype hold_kind = Assign | Swap

definition kind_str :: "hold_kind \<Rightarrow> string" where
  "kind_str k = (case k of Assign \<Rightarrow> ''assign'' | Swap \<Rightarrow> ''swap'')"

record hold =
  h_contno :: string
  h_sent_ms :: ms
  h_msg_id :: string
  h_kind :: hold_kind

type_synonym held_map = "(string \<times> hold) list"

definition HOLD_RELEASE_MARGIN_MS :: ms where
  "HOLD_RELEASE_MARGIN_MS = 2000"

definition RESTORE_MAX_AGE_MS :: ms where
  "RESTORE_MAX_AGE_MS = 3600000"

definition SENT_MODE :: string where
  "SENT_MODE = ''shadow''"

definition edge_allowed_by_hold :: "string option \<Rightarrow> string option \<Rightarrow> bool \<Rightarrow> bool" where
  "edge_allowed_by_hold truck_hold w_contno box_held =
     (case truck_hold of Some c \<Rightarrow> w_contno = Some c | None \<Rightarrow> \<not> box_held)"

definition truck_busy_after :: "tos_sig option \<Rightarrow> hold_kind \<Rightarrow> ms \<Rightarrow> bool" where
  "truck_busy_after sg0 kind sent_ms =
     (case sg0 of
        None \<Rightarrow> False
      | Some sg \<Rightarrow>
          (let after = (\<lambda>t. is_some_and t (\<lambda>t. timestamp_millis t > sent_ms));
               loaded = (case (sig_picked sg, sig_free sg) of
                           (Some p, Some f) \<Rightarrow> p > f | (Some _, None) \<Rightarrow> True | _ \<Rightarrow> False)
           in case kind of
                Assign \<Rightarrow> loaded \<or> is_some_and (sig_free sg) (dispatched_since_free sg) \<or>
                          after (sig_picked sg) \<or> after (sig_dis sg) \<or> after (sig_listed_at sg)
              | Swap \<Rightarrow> loaded \<or> after (sig_picked sg)))"

section \<open>Rows to send, applying them, releasing, restoring\<close>

record sent_row =
  r_kind :: hold_kind
  r_ytno :: string
  r_contno :: string
  r_jobtype :: "string option"
  r_qc :: "string option"
  r_peer :: "nat option"

fun apply_rows :: "held_map \<Rightarrow> (sent_row \<times> string) list \<Rightarrow> ms \<Rightarrow> held_map \<times> (string \<times> string) list" where
  "apply_rows held [] sent_ms = (held, [])"
| "apply_rows held ((r, i) # rs) sent_ms =
     (let h = \<lparr>h_contno = r_contno r, h_sent_ms = sent_ms, h_msg_id = i, h_kind = r_kind r\<rparr>;
          (held', repl) = apply_rows (AList.update (r_ytno r) h held) rs sent_ms
      in (held', case map_of held (r_ytno r) of
                   Some old \<Rightarrow> (h_msg_id old, ''superseded'') # repl | None \<Rightarrow> repl))"

definition apply_written ::
  "held_map \<Rightarrow> sent_row list \<Rightarrow> 'e + (string list \<times> ms) \<Rightarrow> held_map \<times> ('e + (string \<times> string) list)" where
  "apply_written held rows written =
     (case written of
        Inl e \<Rightarrow> (held, Inl e)
      | Inr (ids, sent_ms) \<Rightarrow> (let (held', repl) = apply_rows held (zip rows ids) sent_ms in (held', Inr repl)))"

definition release_why ::
  "ms option \<Rightarrow> (string \<Rightarrow> string \<Rightarrow> bool) \<Rightarrow> (string \<Rightarrow> hold \<Rightarrow> bool) \<Rightarrow> string \<Rightarrow> hold \<Rightarrow> string option" where
  "release_why list_as_of_ms listed busy yt h =
     (if is_some_and list_as_of_ms (\<lambda>a. h_sent_ms h + HOLD_RELEASE_MARGIN_MS < a)
      then Some (if listed yt (h_contno h) then ''listed'' else ''not_listed'')
      else if busy yt h then Some ''truck_busy''
      else None)"

definition release_held ::
  "held_map \<Rightarrow> ms option \<Rightarrow> (string \<Rightarrow> string \<Rightarrow> bool) \<Rightarrow> (string \<Rightarrow> hold \<Rightarrow> bool) \<Rightarrow> held_map \<times> (string \<times> string) list" where
  "release_held held list_as_of_ms listed busy =
     (filter (\<lambda>(yt, h). release_why list_as_of_ms listed busy yt h = None) held,
      sort (List.map_filter (\<lambda>(yt, h).
              map_option (\<lambda>w. (h_msg_id h, w)) (release_why list_as_of_ms listed busy yt h)) held))"

record open_sent =
  o_msg_id :: string
  o_kind :: hold_kind
  o_ytno :: string
  o_contno :: string
  o_sent_ms :: ms

fun restore_loop :: "open_sent list \<Rightarrow> ms \<Rightarrow> held_map \<Rightarrow> (string \<times> string) list \<Rightarrow> held_map \<times> (string \<times> string) list" where
  "restore_loop [] now_ms held close = (held, close)"
| "restore_loop (r # rs) now_ms held close =
     (if now_ms - o_sent_ms r > RESTORE_MAX_AGE_MS
      then restore_loop rs now_ms held (close @ [(o_msg_id r, ''expired_on_restore'')])
      else if map_of held (o_ytno r) \<noteq> None
      then restore_loop rs now_ms held (close @ [(o_msg_id r, ''superseded'')])
      else restore_loop rs now_ms
             (AList.update (o_ytno r)
                \<lparr>h_contno = o_contno r, h_sent_ms = o_sent_ms r, h_msg_id = o_msg_id r, h_kind = o_kind r\<rparr> held)
             close)"

definition restore_holds :: "'e + open_sent list \<Rightarrow> ms \<Rightarrow> (held_map \<times> (string \<times> string) list) option" where
  "restore_holds rows now_ms =
     (case rows of
        Inl _ \<Rightarrow> None
      | Inr rs \<Rightarrow>
          (let (held, close) = restore_loop (sort_key (\<lambda>r. (- o_sent_ms r, o_msg_id r)) rs) now_ms [] []
           in Some (held, sort close)))"

section \<open>The table\<close>

record db_row =
  d_msg_id :: string
  d_kind :: string
  d_ytno :: string
  d_contno :: string
  d_jobtype :: "string option"
  d_qc :: "string option"
  d_swap_peer :: "string option"
  d_tick :: nat
  d_basis_as_of :: "us option"
  d_written_at :: us
  d_sent_at :: "us option"
  d_mode :: string
  d_released_at :: "us option"
  d_release_why :: "string option"

definition peer_id :: "string list \<Rightarrow> nat \<Rightarrow> string option" where
  "peer_id ids i = (if i < length ids then Some (ids ! i) else None)"

definition new_row :: "string list \<Rightarrow> us \<Rightarrow> nat \<Rightarrow> ms option \<Rightarrow> sent_row \<Rightarrow> string \<Rightarrow> db_row" where
  "new_row ids written tick basis_as_of_ms r i =
     \<lparr>d_msg_id = i, d_kind = kind_str (r_kind r), d_ytno = r_ytno r, d_contno = r_contno r,
      d_jobtype = r_jobtype r, d_qc = r_qc r, d_swap_peer = Option.bind (r_peer r) (peer_id ids), d_tick = tick,
      d_basis_as_of = map_option (\<lambda>m. m * 1000) basis_as_of_ms, d_written_at = written, d_sent_at = None,
      d_mode = SENT_MODE, d_released_at = None, d_release_why = None\<rparr>"

text \<open>
  One transaction. The database answers with the generated identifiers, one per row, and its clock,
  or with an error, and then nothing was written.
\<close>

definition write_sent ::
  "'e + (string list \<times> us) \<Rightarrow> sent_row list \<Rightarrow> nat \<Rightarrow> ms option \<Rightarrow> db_row list \<Rightarrow> db_row list \<times> ('e + (string list \<times> ms))" where
  "write_sent answer rows tick basis_as_of_ms db =
     (case answer of
        Inl e \<Rightarrow> (db, Inl e)
      | Inr (ids, written) \<Rightarrow>
          (db @ map (\<lambda>(r, i). new_row ids written tick basis_as_of_ms r i) (zip rows ids),
           Inr (ids, timestamp_millis written)))"

definition close_row :: "(string \<times> string) list \<Rightarrow> us \<Rightarrow> db_row \<Rightarrow> db_row" where
  "close_row closes clock d =
     (case (d_released_at d, map_of closes (d_msg_id d)) of
        (None, Some why) \<Rightarrow> d\<lparr>d_released_at := Some clock, d_release_why := Some why\<rparr>
      | _ \<Rightarrow> d)"

text \<open>The update may fail, and then only a warning is logged: the table keeps its open rows.\<close>

definition close_sent :: "us option \<Rightarrow> (string \<times> string) list \<Rightarrow> db_row list \<Rightarrow> db_row list" where
  "close_sent clock closes db =
     (if closes = [] then db else case clock of None \<Rightarrow> db | Some c \<Rightarrow> map (close_row closes c) db)"

definition is_open :: "db_row \<Rightarrow> bool" where
  "is_open d \<longleftrightarrow> d_mode d = SENT_MODE \<and> d_released_at d = None"

text \<open>The cast of the epoch in milliseconds to \<^verbatim>\<open>int8\<close> rounds to the nearest integer, half away from zero.\<close>

definition round_ms :: "us \<Rightarrow> ms" where
  "round_ms t = (if 0 \<le> t then (t + 500) div 1000 else - ((- t + 500) div 1000))"

definition open_of_row :: "db_row \<Rightarrow> open_sent" where
  "open_of_row d =
     \<lparr>o_msg_id = d_msg_id d, o_kind = (if d_kind d = ''swap'' then Swap else Assign), o_ytno = d_ytno d,
      o_contno = d_contno d,
      o_sent_ms = round_ms (case d_sent_at d of Some s \<Rightarrow> s | None \<Rightarrow> d_written_at d)\<rparr>"

definition load_open_sent :: "db_row list \<Rightarrow> open_sent list" where
  "load_open_sent db = map open_of_row (filter is_open db)"

definition cancel_open :: "us \<Rightarrow> db_row list \<Rightarrow> db_row list" where
  "cancel_open clock db =
     map (\<lambda>d. if is_open d then d\<lparr>d_released_at := Some clock, d_release_why := Some ''cancelled''\<rparr> else d) db"

section \<open>What one tick does with the holds\<close>

record hold_state =
  st_hold_sent :: bool
  st_restored :: bool
  st_held :: held_map
  st_db :: "db_row list"

text \<open>
  The start of a tick. \<^verbatim>\<open>cancel\<close> is the database's answer to closing every open row (its clock, or
  \<^verbatim>\<open>None\<close> when the update fails), \<^verbatim>\<open>read_ok\<close> whether the open rows could be read, \<^verbatim>\<open>close\<close> the answer to
  closing rows one by one. The result \<^verbatim>\<open>None\<close> is the \<^verbatim>\<open>continue\<close> that skips the tick.
\<close>

definition tick_start ::
  "us option \<Rightarrow> bool \<Rightarrow> ms \<Rightarrow> us option \<Rightarrow> hold_state \<Rightarrow> hold_state option" where
  "tick_start cancel read_ok now_ms close st =
     (if \<not> st_hold_sent st then
        (let st' = (if \<not> st_restored st
                    then (case cancel of
                            Some c \<Rightarrow> st\<lparr>st_db := cancel_open c (st_db st), st_restored := True\<rparr>
                          | None \<Rightarrow> st)
                    else st)
         in Some (st'\<lparr>st_held := []\<rparr>))
      else if \<not> st_restored st then
        (case restore_holds (if read_ok then Inr (load_open_sent (st_db st)) else Inl ()) now_ms of
           Some (h, cl) \<Rightarrow>
             Some (st\<lparr>st_db := close_sent close cl (st_db st), st_held := h, st_restored := True\<rparr>)
         | None \<Rightarrow> None)
      else Some st)"

text \<open>Writing rows, then holding them and closing what they replace (the swap step and the assign step).\<close>

definition send_rows ::
  "unit + (string list \<times> us) \<Rightarrow> us option \<Rightarrow> sent_row list \<Rightarrow> nat \<Rightarrow> ms option \<Rightarrow> hold_state \<Rightarrow> hold_state" where
  "send_rows answer close rows tick basis st =
     (if \<not> st_hold_sent st \<or> rows = [] then st
      else
        (let (db, written) = write_sent answer rows tick basis (st_db st);
             (held, res) = apply_written (st_held st) rows written
         in case res of
              Inl _ \<Rightarrow> st\<lparr>st_db := db, st_held := held\<rparr>
            | Inr repl \<Rightarrow> st\<lparr>st_db := close_sent close repl db, st_held := held\<rparr>))"

definition release_step ::
  "us option \<Rightarrow> ms option \<Rightarrow> (string \<Rightarrow> string \<Rightarrow> bool) \<Rightarrow> (string \<Rightarrow> tos_sig option) \<Rightarrow> hold_state \<Rightarrow> hold_state" where
  "release_step close list_as_of_ms listed sigs st =
     (if \<not> st_hold_sent st then st
      else
        (let (held, closes) = release_held (st_held st) list_as_of_ms listed
               (\<lambda>yt h. truck_busy_after (sigs yt) (h_kind h) (h_sent_ms h))
         in st\<lparr>st_held := held, st_db := close_sent close closes (st_db st)\<rparr>))"

text \<open>The rows of the swap step: one per truck, each naming the other as its peer.\<close>

record swap_cand =
  c_ytno :: string
  c_jobtype :: string
  c_qc :: string
  c_contno :: "string option"

definition swap_pair_rows :: "swap_cand list \<Rightarrow> nat \<Rightarrow> nat \<times> nat \<Rightarrow> sent_row list" where
  "swap_pair_rows cands k p =
     (let a = cands ! fst p; b = cands ! snd p in
      [\<lparr>r_kind = Swap, r_ytno = c_ytno a, r_contno = (case c_contno b of Some c \<Rightarrow> c | None \<Rightarrow> []),
        r_jobtype = Some (c_jobtype b), r_qc = Some (c_qc b), r_peer = Some (2 * k + 1)\<rparr>,
       \<lparr>r_kind = Swap, r_ytno = c_ytno b, r_contno = (case c_contno a of Some c \<Rightarrow> c | None \<Rightarrow> []),
        r_jobtype = Some (c_jobtype a), r_qc = Some (c_qc a), r_peer = Some (2 * k)\<rparr>])"

definition swap_rows :: "swap_cand list \<Rightarrow> (nat \<times> nat) list \<Rightarrow> sent_row list" where
  "swap_rows cands picks =
     (let ok = filter (\<lambda>(i, j). c_contno (cands ! i) \<noteq> None \<and> c_contno (cands ! j) \<noteq> None) picks in
      concat (map (\<lambda>(k, p). swap_pair_rows cands k p) (enumerate 0 ok)))"

text \<open>
  The rows of the assign step: the matched pairs whose truck is free now, whose work names a box and
  whose truck has no hold. A work is (box, job type, crane).
\<close>

definition assign_row ::
  "held_map \<Rightarrow> (nat \<Rightarrow> bool) \<Rightarrow> (nat \<Rightarrow> string) \<Rightarrow> (nat \<Rightarrow> string option \<times> string \<times> string) \<Rightarrow> nat \<Rightarrow> nat \<Rightarrow> sent_row option" where
  "assign_row held is_free ytno wk vi wpos =
     (if \<not> is_free vi then None
      else (case wk wpos of
              (None, _) \<Rightarrow> None
            | (Some c, jt, qc) \<Rightarrow>
                if map_of held (ytno vi) \<noteq> None then None
                else Some \<lparr>r_kind = Assign, r_ytno = ytno vi, r_contno = c, r_jobtype = Some jt,
                           r_qc = Some qc, r_peer = None\<rparr>))"

definition assign_rows ::
  "held_map \<Rightarrow> (nat \<Rightarrow> bool) \<Rightarrow> (nat \<Rightarrow> string) \<Rightarrow> (nat \<Rightarrow> string option \<times> string \<times> string) \<Rightarrow> (nat \<times> nat) list \<Rightarrow> sent_row list" where
  "assign_rows held is_free ytno wk pairs = List.map_filter (\<lambda>(vi, wpos). assign_row held is_free ytno wk vi wpos) pairs"

section \<open>What counts as evidence\<close>

lemma busy_assign_cases:
  assumes "truck_busy_after (Some sg) Assign sent_ms"
  shows "\<not> is_free_tos sg \<or>
    (\<exists>t. t \<in> set_option (sig_picked sg) \<union> set_option (sig_dis sg) \<union> set_option (sig_listed_at sg) \<and> timestamp_millis t > sent_ms)"
  using assms
  by (auto simp: truck_busy_after_def is_free_tos_def Let_def is_some_and_iff split: option.splits if_splits)

lemma swap_busy_mono: "truck_busy_after sg Swap sent_ms \<Longrightarrow> truck_busy_after sg Assign sent_ms"
  by (auto simp: truck_busy_after_def Let_def split: option.splits)

section \<open>Applying written rows\<close>

definition hold_of :: "ms \<Rightarrow> sent_row \<Rightarrow> string \<Rightarrow> hold" where
  "hold_of sent_ms r i = \<lparr>h_contno = r_contno r, h_sent_ms = sent_ms, h_msg_id = i, h_kind = r_kind r\<rparr>"

lemma apply_rows_ok: "hm_ok held \<Longrightarrow> hm_ok (fst (apply_rows held rs sent_ms))"
  by (induction held rs sent_ms rule: apply_rows.induct) (auto simp: Let_def split_beta)

lemma apply_rows_other:
  "yt \<notin> (\<lambda>(r, i). r_ytno r) ` set rs \<Longrightarrow> map_of (fst (apply_rows held rs sent_ms)) yt = map_of held yt"
  by (induction held rs sent_ms rule: apply_rows.induct) (auto simp: Let_def split_beta hm)

lemma apply_rows_new:
  "distinct (map (\<lambda>(r, i). r_ytno r) rs) \<Longrightarrow> (r, i) \<in> set rs \<Longrightarrow>
   map_of (fst (apply_rows held rs sent_ms)) (r_ytno r) = Some (hold_of sent_ms r i)"
proof (induction held rs sent_ms rule: apply_rows.induct)
  case (2 held r' i' rs sent_ms)
  show ?case
  proof (cases "(r, i) = (r', i')")
    case True
    then have "r_ytno r \<notin> (\<lambda>(r, i). r_ytno r) ` set rs" using 2(2) by auto
    then show ?thesis using True by (simp add: Let_def split_beta apply_rows_other hm hold_of_def)
  next
    case False
    then show ?thesis using 2 by (auto simp: Let_def split_beta)
  qed
qed simp

lemma apply_rows_replaced:
  "distinct (map (\<lambda>(r, i). r_ytno r) rs) \<Longrightarrow>
   set (snd (apply_rows held rs sent_ms)) =
     {(h_msg_id old, ''superseded'') |old r i. (r, i) \<in> set rs \<and> map_of held (r_ytno r) = Some old}"
proof (induction held rs sent_ms rule: apply_rows.induct)
  case (2 held r' i' rs sent_ms)
  let ?h = "\<lparr>h_contno = r_contno r', h_sent_ms = sent_ms, h_msg_id = i', h_kind = r_kind r'\<rparr>"
  have same: "map_of (AList.update (r_ytno r') ?h held) (r_ytno r) = map_of held (r_ytno r)" if "(r, i) \<in> set rs" for r i
  proof -
    have "r_ytno r \<noteq> r_ytno r'" using that 2(2) by (auto simp: image_iff)
    then show ?thesis by (simp add: hm)
  qed
  have "set (snd (apply_rows (AList.update (r_ytno r') ?h held) rs sent_ms)) =
     {(h_msg_id old, ''superseded'') |old r i. (r, i) \<in> set rs \<and> map_of held (r_ytno r) = Some old}"
    using 2(1)[OF refl] 2(2) same by (simp cong: conj_cong)
  then show ?case by (auto simp: Let_def split_beta split: option.splits)
qed simp

section \<open>Releasing\<close>

lemma release_held_ok: "hm_ok held \<Longrightarrow> hm_ok (fst (release_held held a listed busy))"
  by (auto simp: release_held_def)

lemma release_held_get:
  "hm_ok held \<Longrightarrow> map_of (fst (release_held held a listed busy)) yt =
     (case map_of held yt of Some h \<Rightarrow> if release_why a listed busy yt h = None then Some h else None | None \<Rightarrow> None)"
  by (simp add: release_held_def hm)

lemma release_held_closes:
  "set (snd (release_held held a listed busy)) =
     {(h_msg_id h, w) |yt h w. (yt, h) \<in> set held \<and> release_why a listed busy yt h = Some w}"
  by (force simp: release_held_def set_map_filter)

section \<open>Restoring\<close>

definition open_hold :: "open_sent \<Rightarrow> hold" where
  "open_hold r = \<lparr>h_contno = o_contno r, h_sent_ms = o_sent_ms r, h_msg_id = o_msg_id r, h_kind = o_kind r\<rparr>"

lemma restore_loop_ok: "hm_ok held \<Longrightarrow> hm_ok (fst (restore_loop rs now held cl))"
  by (induction rs now held cl rule: restore_loop.induct) auto

lemma restore_loop_get:
  "map_of (fst (restore_loop rs now held cl)) yt =
     (case map_of held yt of
        Some h \<Rightarrow> Some h
      | None \<Rightarrow> map_option open_hold (List.find (\<lambda>r. o_ytno r = yt \<and> now - o_sent_ms r \<le> RESTORE_MAX_AGE_MS) rs))"
proof (induction rs now held cl rule: restore_loop.induct)
  case (2 r rs now held cl)
  show ?case
  proof (cases "now - o_sent_ms r > RESTORE_MAX_AGE_MS \<or> map_of held (o_ytno r) \<noteq> None")
    case True
    then show ?thesis using 2 by (auto split: option.splits)
  next
    case False
    then show ?thesis using 2(3) by (auto simp: hm open_hold_def split: option.splits)
  qed
qed (simp split: option.splits)

lemma restore_loop_accounts:
  "mset (map (h_msg_id \<circ> snd) (fst (restore_loop rs now held cl))) + mset (map fst (snd (restore_loop rs now held cl))) =
   mset (map (h_msg_id \<circ> snd) held) + mset (map fst cl) + mset (map o_msg_id rs)"
proof (induction rs now held cl rule: restore_loop.induct)
  case (2 r rs now held cl)
  have "AList.update (o_ytno r) h held = held @ [(o_ytno r, h)]" if "map_of held (o_ytno r) = None" for h
    using that by (intro hm_insert_new) (simp add: map_of_eq_None_iff)
  then show ?case using 2 by auto
qed simp

lemma find_sorted:
  assumes "sorted (map f rs)" "List.find P rs = Some r"
  shows "r \<in> set rs \<and> P r \<and> (\<forall>r' \<in> set rs. P r' \<longrightarrow> f r \<le> (f r' :: 'b::linorder))"
  using assms by (induction rs) (auto split: if_splits)

lemma restore_get:
  assumes "restore_holds (Inr rs) now = Some (held, cl)"
  shows "hm_ok held"
    and "map_of held yt = Some h \<Longrightarrow> \<exists>r \<in> set rs. o_ytno r = yt \<and> h = open_hold r \<and> now - o_sent_ms r \<le> RESTORE_MAX_AGE_MS \<and>
      (\<forall>r' \<in> set rs. o_ytno r' = yt \<longrightarrow> o_sent_ms r' \<le> o_sent_ms r)"
    and "map_of held yt = None \<Longrightarrow> r \<in> set rs \<Longrightarrow> o_ytno r = yt \<Longrightarrow> now - o_sent_ms r > RESTORE_MAX_AGE_MS"
    and "mset (map (h_msg_id \<circ> snd) held) + mset (map fst cl) = mset (map o_msg_id rs)"
proof -
  let ?k = "\<lambda>r. (- o_sent_ms r, o_msg_id r)"
  let ?s = "sort_key ?k rs"
  have h: "held = fst (restore_loop ?s now [] [])" "cl = sort (snd (restore_loop ?s now [] []))"
    using assms by (auto simp: restore_holds_def Let_def split_beta)
  show "hm_ok held" using h restore_loop_ok by simp
  have get: "map_of held yt = map_option open_hold (List.find (\<lambda>r. o_ytno r = yt \<and> now - o_sent_ms r \<le> RESTORE_MAX_AGE_MS) ?s)" for yt
    using h restore_loop_get[of ?s now "[]" "[]" yt] by simp
  show "\<exists>r \<in> set rs. o_ytno r = yt \<and> h = open_hold r \<and> now - o_sent_ms r \<le> RESTORE_MAX_AGE_MS \<and>
      (\<forall>r' \<in> set rs. o_ytno r' = yt \<longrightarrow> o_sent_ms r' \<le> o_sent_ms r)" if a: "map_of held yt = Some h"
  proof -
    obtain r where r: "List.find (\<lambda>r. o_ytno r = yt \<and> now - o_sent_ms r \<le> RESTORE_MAX_AGE_MS) ?s = Some r" "h = open_hold r"
      using a get by auto
    from find_sorted[OF sorted_sort_key r(1)] have "r \<in> set rs" "o_ytno r = yt" "now - o_sent_ms r \<le> RESTORE_MAX_AGE_MS"
      "\<forall>r' \<in> set rs. o_ytno r' = yt \<and> now - o_sent_ms r' \<le> RESTORE_MAX_AGE_MS \<longrightarrow> ?k r \<le> ?k r'" by auto
    moreover from this have "o_sent_ms r' \<le> o_sent_ms r" if "r' \<in> set rs" "o_ytno r' = yt" for r'
      using that by (cases "now - o_sent_ms r' \<le> RESTORE_MAX_AGE_MS") (auto simp: less_eq_prod_def)
    ultimately show ?thesis using r(2) by blast
  qed
  show "now - o_sent_ms r > RESTORE_MAX_AGE_MS" if "map_of held yt = None" "r \<in> set rs" "o_ytno r = yt"
    using that get by (auto simp: find_None_iff)
  show "mset (map (h_msg_id \<circ> snd) held) + mset (map fst cl) = mset (map o_msg_id rs)"
    using restore_loop_accounts[of ?s now "[]" "[]"] h by (simp add: mset_map)
qed

section \<open>Properties\<close>

text \<open>
  C29. A hold is released on evidence only. It stays exactly when no list taken after the send (with
  the margin) has arrived and the truck has not become busy, however much time has passed; what is
  released is reported once, with its identifier and reason.
\<close>

theorem release_only_on_evidence:
  assumes "hm_ok held"
  shows "(\<forall>yt h. map_of (fst (release_held held list_as_of_ms listed busy)) yt = Some h \<longleftrightarrow>
      map_of held yt = Some h \<and> (\<forall>a. list_as_of_ms = Some a \<longrightarrow> a \<le> h_sent_ms h + HOLD_RELEASE_MARGIN_MS) \<and> \<not> busy yt h) \<and>
    set (map fst (snd (release_held held list_as_of_ms listed busy))) =
      {h_msg_id h |yt h. map_of held yt = Some h \<and>
        ((\<exists>a. list_as_of_ms = Some a \<and> h_sent_ms h + HOLD_RELEASE_MARGIN_MS < a) \<or> busy yt h)}"
proof (intro conjI allI)
  have w: "release_why list_as_of_ms listed busy yt h = None \<longleftrightarrow>
      (\<forall>a. list_as_of_ms = Some a \<longrightarrow> a \<le> h_sent_ms h + HOLD_RELEASE_MARGIN_MS) \<and> \<not> busy yt h" for yt h
    by (auto simp: release_why_def is_some_and_iff)
  show "map_of (fst (release_held held list_as_of_ms listed busy)) yt = Some h \<longleftrightarrow>
      map_of held yt = Some h \<and> (\<forall>a. list_as_of_ms = Some a \<longrightarrow> a \<le> h_sent_ms h + HOLD_RELEASE_MARGIN_MS) \<and> \<not> busy yt h" for yt h
    using w by (auto simp: release_held_get[OF assms] split: option.splits)
  have w': "release_why list_as_of_ms listed busy yt h \<noteq> None \<longleftrightarrow>
      (\<exists>a. list_as_of_ms = Some a \<and> h_sent_ms h + HOLD_RELEASE_MARGIN_MS < a) \<or> busy yt h" for yt h
    by (auto simp: release_why_def is_some_and_iff)
  have "set (map fst (snd (release_held held list_as_of_ms listed busy))) =
      {h_msg_id h |yt h. (yt, h) \<in> set held \<and> release_why list_as_of_ms listed busy yt h \<noteq> None}"
    by (force simp: release_held_closes)
  then show "set (map fst (snd (release_held held list_as_of_ms listed busy))) = {h_msg_id h |yt h. map_of held yt = Some h \<and>
        ((\<exists>a. list_as_of_ms = Some a \<and> h_sent_ms h + HOLD_RELEASE_MARGIN_MS < a) \<or> busy yt h)}"
    unfolding w' hm_mem[OF assms] .
qed

theorem release_only_on_evidence_witness:
  "map_of (fst (release_held [(''TT1'', \<lparr>h_contno = ''C1'', h_sent_ms = 5000, h_msg_id = ''m1'', h_kind = Assign\<rparr>)]
      (Some 7000) (\<lambda>_ _. True) (\<lambda>_ _. False))) ''TT1'' =
    Some \<lparr>h_contno = ''C1'', h_sent_ms = 5000, h_msg_id = ''m1'', h_kind = Assign\<rparr>"
  using release_only_on_evidence[of "[(''TT1'', \<lparr>h_contno = ''C1'', h_sent_ms = 5000, h_msg_id = ''m1'', h_kind = Assign\<rparr>)]"
      "Some 7000" "\<lambda>_ _. True" "\<lambda>_ _. False"]
  by (simp add: hm_ok_def HOLD_RELEASE_MARGIN_MS_def)

text \<open>
  Restoring: of the open rows of a truck the one sent last makes its hold, unless all of them are
  over the age limit; every open row ends up either as a hold or closed, and none as both.
\<close>

theorem restore_takes_latest:
  assumes "restore_holds (Inr rows) now_ms = Some (held, close)"
  shows "hm_ok held \<and>
    (\<forall>yt h. map_of held yt = Some h \<longrightarrow> (\<exists>r \<in> set rows. o_ytno r = yt \<and> h = open_hold r \<and>
       now_ms - o_sent_ms r \<le> RESTORE_MAX_AGE_MS \<and> (\<forall>r' \<in> set rows. o_ytno r' = yt \<longrightarrow> o_sent_ms r' \<le> o_sent_ms r))) \<and>
    (\<forall>r \<in> set rows. map_of held (o_ytno r) = None \<longrightarrow> now_ms - o_sent_ms r > RESTORE_MAX_AGE_MS) \<and>
    mset (map (h_msg_id \<circ> snd) held) + mset (map fst close) = mset (map o_msg_id rows)"
  using restore_get[OF assms] by (intro conjI allI ballI impI) blast+

theorem restore_takes_latest_witness:
  "\<exists>held close. restore_holds
      (Inr [\<lparr>o_msg_id = ''m1'', o_kind = Assign, o_ytno = ''TT1'', o_contno = ''C1'', o_sent_ms = 1000\<rparr>,
            \<lparr>o_msg_id = ''m2'', o_kind = Swap, o_ytno = ''TT1'', o_contno = ''C2'', o_sent_ms = 2000\<rparr>] :: unit + open_sent list) 3000 =
     Some (held, close) \<and> mset (map (h_msg_id \<circ> snd) held) + mset (map fst close) = {#''m1'', ''m2''#}"
proof -
  let ?rows = "[\<lparr>o_msg_id = ''m1'', o_kind = Assign, o_ytno = ''TT1'', o_contno = ''C1'', o_sent_ms = 1000\<rparr>,
            \<lparr>o_msg_id = ''m2'', o_kind = Swap, o_ytno = ''TT1'', o_contno = ''C2'', o_sent_ms = 2000\<rparr>]"
  obtain held close where r: "restore_holds (Inr ?rows :: unit + open_sent list) 3000 = Some (held, close)"
    by (simp add: restore_holds_def split_beta Let_def)
  then show ?thesis using restore_takes_latest[OF r] by simp
qed

text \<open>
  The busy rule for an ordinary order fires only when the truck is not a free candidate any more,
  or when a pickup, a dispatch or a listing is dated after the send; for a swap it never fires where
  it would not for an ordinary order.
\<close>

theorem busy_needs_signal:
  assumes "truck_busy_after (Some sg) kind sent_ms"
  shows "\<not> is_free_tos sg \<or>
    (\<exists>t. t \<in> set_option (sig_picked sg) \<union> set_option (sig_dis sg) \<union> set_option (sig_listed_at sg) \<and> timestamp_millis t > sent_ms)"
  using busy_assign_cases swap_busy_mono assms by (cases kind) blast+

theorem busy_needs_signal_witness:
  "\<not> is_free_tos \<lparr>sig_free = Some 100, sig_dis = None, sig_jobtype = None, sig_free_jt = None, sig_topos = None,
       sig_listed_at = None, sig_picked = Some 200, sig_avail_since = None\<rparr>"
  using busy_needs_signal[of "\<lparr>sig_free = Some 100, sig_dis = None, sig_jobtype = None, sig_free_jt = None, sig_topos = None,
       sig_listed_at = None, sig_picked = Some 200, sig_avail_since = None\<rparr>" Swap 5000]
  by (simp add: truck_busy_after_def Let_def timestamp_millis_def)

end
