(* ===== verification/HoldSystem.thy ===== *)
theory HoldSystem
  imports Holds
begin

text \<open>
  The holds as a state machine: the process starts and restarts, each tick restores the holds or
  cancels them, sends rows and releases holds, and every database call may fail. The invariant ties
  each hold in memory to an open row of the table, which is what makes a restart harmless.
\<close>

section \<open>The steps\<close>

definition hold_init :: "hold_state \<Rightarrow> bool" where
  "hold_init st \<longleftrightarrow> \<not> st_restored st \<and> st_held st = [] \<and> st_db st = []"

text \<open>
  A send writes rows for different trucks; the database gives each row a fresh identifier, and its
  clock has moved on by a millisecond at least since the last write.
\<close>

definition fresh_answer :: "db_row list \<Rightarrow> sent_row list \<Rightarrow> string list \<Rightarrow> us \<Rightarrow> bool" where
  "fresh_answer db rows ids written \<longleftrightarrow>
     length ids = length rows \<and> distinct ids \<and> set ids \<inter> d_msg_id ` set db = {} \<and>
     distinct (map r_ytno rows) \<and> 0 \<le> written \<and> (\<forall>d \<in> set db. d_written_at d + 1000 \<le> written)"

inductive hold_step :: "hold_state \<Rightarrow> hold_state \<Rightarrow> bool" where
  step_restart: "hold_step st (st\<lparr>st_hold_sent := flag, st_restored := False, st_held := []\<rparr>)"
| step_start: "tick_start cancel read_ok now close st = Some st' \<Longrightarrow> hold_step st st'"
| step_send: "st_restored st \<Longrightarrow> fresh_answer (st_db st) rows ids written \<Longrightarrow>
    hold_step st (send_rows (Inr (ids, written)) close rows tick basis st)"
| step_send_failed: "st_restored st \<Longrightarrow> hold_step st (send_rows (Inl ()) close rows tick basis st)"
| step_release: "st_restored st \<Longrightarrow> hold_step st (release_step close list_as_of listed sigs st)"

section \<open>The invariant\<close>

text \<open>The open row behind a hold: same identifier, truck, box and kind, and its time, read either way.\<close>

definition backs :: "db_row \<Rightarrow> string \<Rightarrow> hold \<Rightarrow> bool" where
  "backs d yt h \<longleftrightarrow> is_open d \<and> d_msg_id d = h_msg_id h \<and> d_ytno d = yt \<and> d_contno d = h_contno h \<and>
     d_kind d = kind_str (h_kind h) \<and>
     (h_sent_ms h = timestamp_millis (d_written_at d) \<or> h_sent_ms h = round_ms (d_written_at d))"

definition newest :: "db_row list \<Rightarrow> db_row \<Rightarrow> bool" where
  "newest db d \<longleftrightarrow> (\<forall>d' \<in> set db. is_open d' \<and> d_ytno d' = d_ytno d \<and> d' \<noteq> d \<longrightarrow> d_written_at d' + 1000 \<le> d_written_at d)"

definition table_ok :: "db_row list \<Rightarrow> bool" where
  "table_ok db \<longleftrightarrow> distinct (map d_msg_id db) \<and>
     (\<forall>d \<in> set db. 0 \<le> d_written_at d \<and> d_sent_at d = None \<and> d_kind d \<in> range kind_str) \<and>
     (\<forall>d \<in> set db. \<forall>d' \<in> set db. d \<noteq> d' \<and> d_ytno d = d_ytno d' \<longrightarrow>
        d_written_at d + 1000 \<le> d_written_at d' \<or> d_written_at d' + 1000 \<le> d_written_at d)"

definition hold_inv :: "hold_state \<Rightarrow> bool" where
  "hold_inv st \<longleftrightarrow> table_ok (st_db st) \<and> hm_ok (st_held st) \<and>
     (\<forall>yt h. (yt, h) \<in> set (st_held st) \<longrightarrow> (\<exists>d \<in> set (st_db st). backs d yt h \<and> newest (st_db st) d))"

section \<open>Closing rows\<close>

lemma close_row_simps [simp]:
  "d_msg_id (close_row cl c d) = d_msg_id d" "d_ytno (close_row cl c d) = d_ytno d"
  "d_contno (close_row cl c d) = d_contno d" "d_kind (close_row cl c d) = d_kind d"
  "d_written_at (close_row cl c d) = d_written_at d" "d_sent_at (close_row cl c d) = d_sent_at d"
  "d_mode (close_row cl c d) = d_mode d"
  by (simp_all add: close_row_def split: option.splits)

lemma close_row_same: "d_msg_id d \<notin> fst ` set cl \<Longrightarrow> close_row cl c d = d"
  by (simp add: close_row_def map_of_eq_None_iff[symmetric] split: option.splits)

lemma close_row_open: "is_open (close_row cl c d) \<longleftrightarrow> is_open d \<and> d_msg_id d \<notin> fst ` set cl"
  by (auto simp: is_open_def close_row_def map_of_eq_None_iff[symmetric] split: option.splits)

text \<open>
  What every update of the table does: rows keep their identity, truck, box, kind and time, and an
  open row was open before.
\<close>

definition narrows :: "(db_row \<Rightarrow> db_row) \<Rightarrow> bool" where
  "narrows f \<longleftrightarrow> (\<forall>d. d_msg_id (f d) = d_msg_id d \<and> d_ytno (f d) = d_ytno d \<and> d_kind (f d) = d_kind d \<and>
     d_written_at (f d) = d_written_at d \<and> d_sent_at (f d) = d_sent_at d \<and> (is_open (f d) \<longrightarrow> is_open d))"

lemma narrows_close: "narrows (close_row cl c)"
  by (auto simp: narrows_def close_row_open)

lemma narrows_cancel:
  "narrows (\<lambda>d. if is_open d then d\<lparr>d_released_at := Some c, d_release_why := Some why\<rparr> else d)"
  by (auto simp: narrows_def)

lemma table_ok_narrow: "table_ok db \<Longrightarrow> narrows f \<Longrightarrow> table_ok (map f db)"
proof -
  assume a: "table_ok db" "narrows f"
  then have "d_msg_id \<circ> f = d_msg_id" by (auto simp: narrows_def)
  moreover have "f d \<noteq> f d' \<Longrightarrow> d \<noteq> d'" for d d' by auto
  ultimately show ?thesis using a unfolding table_ok_def narrows_def by simp
qed

lemma newest_narrow: "newest db d \<Longrightarrow> narrows f \<Longrightarrow> f d = d \<Longrightarrow> newest (map f db) d"
  unfolding newest_def narrows_def by auto

lemma close_sent_cases:
  obtains "close_sent c cl db = db" | k where "close_sent c cl db = map (close_row cl k) db"
  by (cases "cl = []"; cases c) (auto simp: close_sent_def)

lemma table_ok_close: "table_ok db \<Longrightarrow> table_ok (close_sent c cl db)"
  by (rule close_sent_cases[of c cl db]) (auto intro: table_ok_narrow narrows_close)

lemma backed_close:
  assumes "d \<in> set db" "backs d yt h" "newest db d" "h_msg_id h \<notin> fst ` set cl"
  shows "d \<in> set (close_sent c cl db) \<and> newest (close_sent c cl db) d"
proof (rule close_sent_cases[of c cl db])
  fix k assume e: "close_sent c cl db = map (close_row cl k) db"
  have "close_row cl k d = d" using assms by (intro close_row_same) (auto simp: backs_def)
  then show ?thesis using assms e newest_narrow[OF _ narrows_close] by (metis image_eqI list.set_map)
qed (use assms in simp)


lemma row_unique: "table_ok db \<Longrightarrow> d \<in> set db \<Longrightarrow> d' \<in> set db \<Longrightarrow> d_msg_id d = d_msg_id d' \<Longrightarrow> d = d'"
  unfolding table_ok_def distinct_map inj_on_def by blast

lemma hold_ids_differ:
  assumes "hold_inv st" "(yt, h) \<in> set (st_held st)" "(yt', h') \<in> set (st_held st)" "yt \<noteq> yt'"
  shows "h_msg_id h \<noteq> h_msg_id h'"
proof
  assume e: "h_msg_id h = h_msg_id h'"
  obtain d d' where d: "d \<in> set (st_db st)" "backs d yt h" "d' \<in> set (st_db st)" "backs d' yt' h'"
    using assms(1-3) unfolding hold_inv_def by blast
  then have "d = d'" using e assms(1) row_unique unfolding hold_inv_def backs_def by metis
  then show False using d assms(4) by (simp add: backs_def)
qed

lemma hold_invI:
  assumes "table_ok (st_db st)" "hm_ok (st_held st)"
    "\<And>yt h. map_of (st_held st) yt = Some h \<Longrightarrow> \<exists>d \<in> set (st_db st). backs d yt h \<and> newest (st_db st) d"
  shows "hold_inv st"
  unfolding hold_inv_def using assms by (auto simp: hm_mem)

lemma hold_invD:
  assumes "hold_inv st" "map_of (st_held st) yt = Some h"
  obtains d where "d \<in> set (st_db st)" "backs d yt h" "newest (st_db st) d"
proof -
  have "(yt, h) \<in> set (st_held st)" using assms(2) by (rule map_of_SomeD)
  then show thesis using assms(1) that unfolding hold_inv_def by blast
qed

lemma release_step_inv:
  assumes inv: "hold_inv st"
  shows "hold_inv (release_step close list_as_of listed sigs st)"
proof (cases "st_hold_sent st")
  case True
  let ?busy = "\<lambda>yt h. truck_busy_after (sigs yt) (h_kind h) (h_sent_ms h)"
  let ?r = "release_held (st_held st) list_as_of listed ?busy"
  have ok: "hm_ok (st_held st)" "table_ok (st_db st)" using inv by (auto simp: hold_inv_def)
  have e: "release_step close list_as_of listed sigs st = st\<lparr>st_held := fst ?r, st_db := close_sent close (snd ?r) (st_db st)\<rparr>"
    using True by (simp add: release_step_def split_beta Let_def)
  show ?thesis unfolding e
  proof (rule hold_invI)
    fix yt h assume "map_of (st_held (st\<lparr>st_held := fst ?r, st_db := close_sent close (snd ?r) (st_db st)\<rparr>)) yt = Some h"
    then have h: "map_of (st_held st) yt = Some h" "release_why list_as_of listed ?busy yt h = None"
      by (auto simp: release_held_get[OF ok(1)] split: option.splits if_splits)
    have nc: "h_msg_id h \<notin> fst ` set (snd ?r)"
    proof
      assume "h_msg_id h \<in> fst ` set (snd ?r)"
      then obtain yt' h' w where o: "(yt', h') \<in> set (st_held st)" "release_why list_as_of listed ?busy yt' h' = Some w"
        "h_msg_id h' = h_msg_id h" by (auto simp: release_held_closes)
      have "(yt, h) \<in> set (st_held st)" using h(1) map_of_SomeD by fast
      then have "yt' = yt" using hold_ids_differ[OF inv o(1)] o(3) by metis
      then have "h' = h" using o(1) h(1) ok(1) by (simp add: hm_mem)
      then show False using o(2) h(2) \<open>yt' = yt\<close> by simp
    qed
    obtain d where d: "d \<in> set (st_db st)" "backs d yt h" "newest (st_db st) d" using hold_invD[OF inv h(1)] .
    show "\<exists>d\<in>set (st_db (st\<lparr>st_held := fst ?r, st_db := close_sent close (snd ?r) (st_db st)\<rparr>)).
        backs d yt h \<and> newest (st_db (st\<lparr>st_held := fst ?r, st_db := close_sent close (snd ?r) (st_db st)\<rparr>)) d"
      using backed_close[OF d nc, of close] d(2) by auto
  qed (use ok in \<open>auto intro: table_ok_close release_held_ok\<close>)
qed (use inv in \<open>simp add: release_step_def\<close>)

section \<open>Sending\<close>

lemma new_row_simps [simp]:
  "d_msg_id (new_row ids w t b r i) = i" "d_ytno (new_row ids w t b r i) = r_ytno r"
  "d_contno (new_row ids w t b r i) = r_contno r" "d_kind (new_row ids w t b r i) = kind_str (r_kind r)"
  "d_written_at (new_row ids w t b r i) = w" "d_sent_at (new_row ids w t b r i) = None"
  "is_open (new_row ids w t b r i)"
  by (simp_all add: new_row_def is_open_def)

definition added :: "sent_row list \<Rightarrow> string list \<Rightarrow> us \<Rightarrow> nat \<Rightarrow> ms option \<Rightarrow> db_row list" where
  "added rows ids written tick basis = map (\<lambda>(r, i). new_row ids written tick basis r i) (zip rows ids)"

lemma added_mem:
  "d \<in> set (added rows ids written tick basis) \<longleftrightarrow> (\<exists>r i. (r, i) \<in> set (zip rows ids) \<and> d = new_row ids written tick basis r i)"
  by (auto simp: added_def)

lemma zip_ytno_inj:
  "distinct (map r_ytno rows) \<Longrightarrow> (r, i) \<in> set (zip rows ids) \<Longrightarrow> (r', i') \<in> set (zip rows ids) \<Longrightarrow>
   r_ytno r = r_ytno r' \<Longrightarrow> r = r' \<and> i = i'"
  by (auto simp: set_zip distinct_conv_nth)

lemma table_ok_added:
  assumes ok: "table_ok db" and fr: "fresh_answer db rows ids written"
  shows "table_ok (db @ added rows ids written tick basis)"
proof -
  let ?new = "added rows ids written tick basis"
  have len: "length ids = length rows" "distinct ids" "set ids \<inter> d_msg_id ` set db = {}" "distinct (map r_ytno rows)"
    "0 \<le> written" "\<forall>d \<in> set db. d_written_at d + 1000 \<le> written" using fr by (auto simp: fresh_answer_def)
  have ids: "map d_msg_id ?new = ids" using len(1) by (auto simp: added_def intro: nth_equalityI)
  then have "distinct (map d_msg_id (db @ ?new))" using ok len(2,3) by (auto simp: table_ok_def)
  moreover have "\<forall>d \<in> set (db @ ?new). 0 \<le> d_written_at d \<and> d_sent_at d = None \<and> d_kind d \<in> range kind_str"
    using ok len(5) by (auto simp: table_ok_def added_mem)
  moreover have "d_ytno d \<noteq> d_ytno d'" if dd: "d \<in> set ?new" "d' \<in> set ?new" "d \<noteq> d'" for d d'
  proof
    assume e: "d_ytno d = d_ytno d'"
    obtain r i r' i' where "(r, i) \<in> set (zip rows ids)" "d = new_row ids written tick basis r i"
      "(r', i') \<in> set (zip rows ids)" "d' = new_row ids written tick basis r' i'"
      using dd(1,2) unfolding added_mem by blast
    then show False using dd(3) e zip_ytno_inj[OF len(4), of r i ids r' i'] by simp
  qed
  moreover have "d_written_at d' + 1000 \<le> d_written_at d" if "d \<in> set ?new" "d' \<in> set db" for d d'
    using that len(6) by (auto simp: added_mem)
  ultimately show ?thesis using ok unfolding table_ok_def set_append by (intro conjI) blast+
qed


lemma newest_append:
  assumes "newest db d" "\<And>d'. d' \<in> set new \<Longrightarrow> d_ytno d' \<noteq> d_ytno d"
  shows "newest (db @ new) d"
  using assms unfolding newest_def by auto

lemma newest_added:
  assumes fr: "fresh_answer db rows ids written" and ri: "(r, i) \<in> set (zip rows ids)"
  shows "newest (db @ added rows ids written tick basis) (new_row ids written tick basis r i)"
  unfolding newest_def
proof (intro ballI impI)
  fix d' assume d': "d' \<in> set (db @ added rows ids written tick basis)"
    "is_open d' \<and> d_ytno d' = d_ytno (new_row ids written tick basis r i) \<and> d' \<noteq> new_row ids written tick basis r i"
  show "d_written_at d' + 1000 \<le> d_written_at (new_row ids written tick basis r i)"
  proof (cases "d' \<in> set db")
    case True
    then show ?thesis using fr by (simp add: fresh_answer_def)
  next
    case False
    then obtain r' i' where "(r', i') \<in> set (zip rows ids)" "d' = new_row ids written tick basis r' i'"
      using d'(1) unfolding set_append Un_iff added_mem by blast
    moreover have "distinct (map r_ytno rows)" using fr by (simp add: fresh_answer_def)
    ultimately have False using d'(2) zip_ytno_inj[of rows r i ids r' i'] ri by simp
    then show ?thesis by simp
  qed
qed

lemma send_rows_inv:
  assumes inv: "hold_inv st" and fr: "fresh_answer (st_db st) rows ids written"
  shows "hold_inv (send_rows (Inr (ids, written)) close rows tick basis st)"
proof (cases "\<not> st_hold_sent st \<or> rows = []")
  case False
  let ?new = "added rows ids written tick basis" and ?a = "apply_rows (st_held st) (zip rows ids) (timestamp_millis written)"
  let ?db = "st_db st @ ?new"
  let ?st = "st\<lparr>st_db := close_sent close (snd ?a) ?db, st_held := fst ?a\<rparr>"
  have e: "send_rows (Inr (ids, written)) close rows tick basis st = ?st"
    using False by (simp add: send_rows_def write_sent_def apply_written_def added_def split_beta Let_def)
  have ok: "hm_ok (st_held st)" "table_ok (st_db st)" using inv by (auto simp: hold_inv_def)
  have F: "length ids = length rows" "set ids \<inter> d_msg_id ` set (st_db st) = {}" "distinct (map r_ytno rows)"
    using fr by (auto simp: fresh_answer_def)
  have "map (\<lambda>(r, i). r_ytno r) (zip rows ids) = map r_ytno rows"
    using F(1) by (auto intro: nth_equalityI)
  then have dz: "distinct (map (\<lambda>(r, i). r_ytno r) (zip rows ids))" using F(3) by simp
  have cl: "\<exists>yt h r i. (r, i) \<in> set (zip rows ids) \<and> yt = r_ytno r \<and> map_of (st_held st) yt = Some h \<and> m = h_msg_id h"
    if "m \<in> fst ` set (snd ?a)" for m
    using that by (force simp: apply_rows_replaced[OF dz])
  show ?thesis unfolding e
  proof (rule hold_invI)
    fix yt h assume "map_of (st_held ?st) yt = Some h"
    then have get: "map_of (fst ?a) yt = Some h" by simp
    show "\<exists>d\<in>set (st_db ?st). backs d yt h \<and> newest (st_db ?st) d"
    proof (cases "\<exists>(r, i) \<in> set (zip rows ids). r_ytno r = yt")
      case True
      then obtain r i where ri: "(r, i) \<in> set (zip rows ids)" "r_ytno r = yt" by auto
      then have h: "h = hold_of (timestamp_millis written) r i" using apply_rows_new[OF dz ri(1)] get by simp
      let ?d = "new_row ids written tick basis r i"
      have b: "backs ?d yt h" using h ri(2) by (simp add: backs_def hold_of_def)
      have "?d \<in> set ?db" using ri(1) unfolding set_append Un_iff added_mem by blast
      moreover have "h_msg_id h \<notin> fst ` set (snd ?a)"
      proof
        assume "h_msg_id h \<in> fst ` set (snd ?a)"
        then obtain yt' h' where "map_of (st_held st) yt' = Some h'" "h_msg_id h = h_msg_id h'" using cl by blast
        then obtain d' where "d' \<in> set (st_db st)" "d_msg_id d' = h_msg_id h" using hold_invD[OF inv] by (metis backs_def)
        moreover have "h_msg_id h \<in> set ids" using h ri(1) by (auto simp: hold_of_def dest: set_zip_rightD)
        ultimately show False using F(2) by (metis IntI empty_iff image_eqI)
      qed
      ultimately have "?d \<in> set (close_sent close (snd ?a) ?db) \<and> newest (close_sent close (snd ?a) ?db) ?d"
        using backed_close[OF _ b newest_added[OF fr ri(1)]] by simp
      then show ?thesis using b by auto
    next
      case False
      then have "yt \<notin> (\<lambda>(r, i). r_ytno r) ` set (zip rows ids)" by auto
      then have h: "map_of (st_held st) yt = Some h" using get apply_rows_other[of yt "zip rows ids"] by simp
      then obtain d where d: "d \<in> set (st_db st)" "backs d yt h" "newest (st_db st) d" using hold_invD[OF inv] by blast
      have "newest ?db d"
      proof (rule newest_append[OF d(3)])
        fix d' assume "d' \<in> set ?new"
        then show "d_ytno d' \<noteq> d_ytno d" using False d(2) unfolding added_mem backs_def by auto
      qed
      moreover have "h_msg_id h \<notin> fst ` set (snd ?a)"
      proof
        assume "h_msg_id h \<in> fst ` set (snd ?a)"
        then obtain yt' h' r i where o: "(r, i) \<in> set (zip rows ids)" "yt' = r_ytno r" "map_of (st_held st) yt' = Some h'"
          "h_msg_id h = h_msg_id h'" using cl by blast
        then have "yt' \<noteq> yt" using False by auto
        then show False using hold_ids_differ[OF inv map_of_SomeD[OF h] map_of_SomeD[OF o(3)]] o(4) by simp
      qed
      ultimately show ?thesis using backed_close[of d ?db yt h] d by auto
    qed
  qed (use ok fr in \<open>auto intro: table_ok_close table_ok_added apply_rows_ok\<close>)
qed (use inv in \<open>auto simp: send_rows_def\<close>)

section \<open>Restoring and cancelling\<close>

lemma round_ms_spaced: "0 \<le> a \<Longrightarrow> a + 1000 \<le> b \<Longrightarrow> round_ms a < round_ms b"
  by (auto simp: round_ms_def)

lemma round_ms_floor: "0 \<le> t \<Longrightarrow> timestamp_millis t \<le> round_ms t \<and> round_ms t \<le> timestamp_millis t + 1"
  by (auto simp: round_ms_def timestamp_millis_def)

lemma kind_read_back: "k \<in> range kind_str \<Longrightarrow> kind_str (if k = ''swap'' then Swap else Assign) = k"
  by (auto simp: kind_str_def split: hold_kind.splits)

lemma restored_backed:
  assumes ok: "table_ok db" and r: "restore_holds (Inr (load_open_sent db)) now = Some (held, cl)"
    and h: "map_of held yt = Some h"
  shows "\<exists>d \<in> set db. backs d yt h \<and> newest db d \<and> h_msg_id h \<notin> fst ` set cl \<and> h_sent_ms h = round_ms (d_written_at d)"
proof -
  obtain r where ro: "r \<in> set (load_open_sent db)" "o_ytno r = yt" "h = open_hold r"
    "\<forall>r' \<in> set (load_open_sent db). o_ytno r' = yt \<longrightarrow> o_sent_ms r' \<le> o_sent_ms r"
    using restore_get(2)[OF r h] by blast
  then obtain d where d: "d \<in> set db" "is_open d" "r = open_of_row d" by (auto simp: load_open_sent_def)
  have D: "0 \<le> d_written_at d" "d_sent_at d = None" "d_kind d \<in> range kind_str" if "d \<in> set db" for d
    using ok that by (auto simp: table_ok_def)
  have b: "backs d yt h" using d ro(2,3) D[OF d(1)]
    by (simp add: backs_def open_hold_def open_of_row_def kind_read_back[symmetric] del: if_split)
  have "newest db d" unfolding newest_def
  proof (intro ballI impI)
    fix d' assume d': "d' \<in> set db" "is_open d' \<and> d_ytno d' = d_ytno d \<and> d' \<noteq> d"
    then have "open_of_row d' \<in> set (load_open_sent db)" "o_ytno (open_of_row d') = yt"
      using d ro(2) by (auto simp: load_open_sent_def open_of_row_def)
    then have "round_ms (d_written_at d') \<le> round_ms (d_written_at d)"
      using ro(4) d(3) D(2)[OF d(1)] D(2)[OF d'(1)] by (auto simp: open_of_row_def)
    moreover have "d_written_at d + 1000 \<le> d_written_at d' \<or> d_written_at d' + 1000 \<le> d_written_at d"
      using ok d(1) d' unfolding table_ok_def by metis
    ultimately show "d_written_at d' + 1000 \<le> d_written_at d" using round_ms_spaced[OF D(1)[OF d(1)], of "d_written_at d'"] by linarith
  qed
  moreover have "h_msg_id h \<notin> fst ` set cl"
  proof
    assume a: "h_msg_id h \<in> fst ` set cl"
    have "map o_msg_id (load_open_sent db) = map d_msg_id (filter is_open db)" by (simp add: load_open_sent_def open_of_row_def)
    then have dist: "distinct (map o_msg_id (load_open_sent db))" using ok by (simp add: table_ok_def distinct_map_filter)
    have "mset (map (h_msg_id \<circ> snd) held @ map fst cl) = mset (map o_msg_id (load_open_sent db))"
      using restore_get(4)[OF r] by simp
    then have "distinct (map (h_msg_id \<circ> snd) held @ map fst cl)" using dist mset_eq_imp_distinct_iff by blast
    moreover have "h_msg_id h \<in> set (map (h_msg_id \<circ> snd) held)" using map_of_SomeD[OF h] by force
    ultimately show False using a by auto
  qed
  moreover have "h_sent_ms h = round_ms (d_written_at d)"
    using ro(3) d(3) D(2)[OF d(1)] by (simp add: open_hold_def open_of_row_def)
  ultimately show ?thesis using d(1) b by blast
qed

lemma tick_start_inv:
  assumes inv: "hold_inv st" and t: "tick_start cancel read_ok now close st = Some st'"
  shows "hold_inv st'"
proof -
  have ok: "table_ok (st_db st)" using inv by (simp add: hold_inv_def)
  consider "\<not> st_hold_sent st" | "st_hold_sent st" "st_restored st" | "st_hold_sent st" "\<not> st_restored st" by blast
  then show ?thesis
  proof cases
    case 1
    have "table_ok (cancel_open c (st_db st))" for c
      unfolding cancel_open_def by (rule table_ok_narrow[OF ok narrows_cancel])
    then show ?thesis using 1 t ok by (auto simp: tick_start_def Let_def hold_inv_def split: option.splits)
  next
    case 2
    then show ?thesis using t inv by (simp add: tick_start_def)
  next
    case 3
    then obtain h cl where r: "read_ok" "restore_holds (Inr (load_open_sent (st_db st)) :: unit + open_sent list) now = Some (h, cl)"
      and st': "st' = st\<lparr>st_db := close_sent close cl (st_db st), st_held := h, st_restored := True\<rparr>"
      using t by (cases read_ok) (auto simp: tick_start_def restore_holds_def split_beta Let_def split: option.splits)
    show ?thesis
    proof (rule hold_invI)
      fix yt k assume "map_of (st_held st') yt = Some k"
      then have k: "map_of h yt = Some k" using st' by simp
      then obtain d where "d \<in> set (st_db st)" "backs d yt k" "newest (st_db st) d" "h_msg_id k \<notin> fst ` set cl"
        using restored_backed[OF ok r(2)] by blast
      then show "\<exists>d\<in>set (st_db st'). backs d yt k \<and> newest (st_db st') d"
        using backed_close[of d "st_db st" yt k cl close] st' by auto
    qed (use st' ok restore_get(1)[OF r(2)] in \<open>auto intro: table_ok_close\<close>)
  qed
qed

interpretation holds: invariant_system hold_init hold_step hold_inv
proof
  show "hold_inv s" if "hold_init s" for s
    using that by (simp add: hold_init_def hold_inv_def table_ok_def)
  show "hold_inv s'" if "hold_inv s" "hold_step s s'" for s s'
    using that(2,1)
  proof (cases rule: hold_step.cases)
    case (step_restart flag)
    then show ?thesis using that(1) by (simp add: hold_inv_def)
  next
    case (step_send_failed close rows tick basis)
    then show ?thesis using that(1)
      by (simp add: send_rows_def write_sent_def apply_written_def hold_inv_def)
  qed (use that(1) in \<open>auto intro: tick_start_inv send_rows_inv release_step_inv\<close>)
qed


section \<open>A restart keeps the holds\<close>

definition restart :: "hold_state \<Rightarrow> hold_state" where
  "restart st = st\<lparr>st_restored := False, st_held := []\<rparr>"

lemma kind_str_inj: "kind_str a = kind_str b \<Longrightarrow> a = b"
  by (cases a; cases b) (simp_all add: kind_str_def)

lemma newest_unique:
  "newest db d \<Longrightarrow> newest db d' \<Longrightarrow> d \<in> set db \<Longrightarrow> d' \<in> set db \<Longrightarrow> is_open d \<Longrightarrow> is_open d' \<Longrightarrow>
   d_ytno d = d_ytno d' \<Longrightarrow> d = d'"
  unfolding newest_def by force

lemma restart_restores:
  assumes inv: "hold_inv st" and on: "st_hold_sent st" and h: "map_of (st_held st) yt = Some h"
    and age: "now - h_sent_ms h \<le> RESTORE_MAX_AGE_MS"
  shows "\<exists>st' h'. tick_start cancel True now close (restart st) = Some st' \<and> map_of (st_held st') yt = Some h' \<and>
    h_contno h' = h_contno h \<and> h_msg_id h' = h_msg_id h \<and> h_kind h' = h_kind h \<and>
    h_sent_ms h \<le> h_sent_ms h' \<and> h_sent_ms h' \<le> h_sent_ms h + 1"
proof -
  have ok: "table_ok (st_db st)" using inv by (simp add: hold_inv_def)
  obtain d where d: "d \<in> set (st_db st)" "backs d yt h" "newest (st_db st) d" using hold_invD[OF inv h] .
  have D: "0 \<le> d_written_at d" "d_sent_at d = None" using ok d(1) by (auto simp: table_ok_def)
  obtain held cl where r: "restore_holds (Inr (load_open_sent (st_db st)) :: unit + open_sent list) now = Some (held, cl)"
    by (simp add: restore_holds_def Let_def split_beta)
  have mem: "open_of_row d \<in> set (load_open_sent (st_db st))" "o_ytno (open_of_row d) = yt"
    using d by (auto simp: load_open_sent_def backs_def) (simp_all add: open_of_row_def)
  have sent: "h_sent_ms h \<le> round_ms (d_written_at d)" "round_ms (d_written_at d) \<le> h_sent_ms h + 1"
    using d(2) round_ms_floor[OF D(1)] by (auto simp: backs_def)
  have "\<not> now - o_sent_ms (open_of_row d) > RESTORE_MAX_AGE_MS" using age sent D(2) by (simp add: open_of_row_def)
  then obtain h' where h': "map_of held yt = Some h'" using restore_get(3)[OF r _ mem] by (cases "map_of held yt") auto
  obtain d' where d': "d' \<in> set (st_db st)" "backs d' yt h'" "newest (st_db st) d'" "h_sent_ms h' = round_ms (d_written_at d')"
    using restored_backed[OF ok r h'] by blast
  have "d' = d" using newest_unique[OF d'(3) d(3) d'(1) d(1)] d(2) d'(2) by (simp add: backs_def)
  then have "h_contno h' = h_contno h" "h_msg_id h' = h_msg_id h" "h_kind h' = h_kind h"
    using d(2) d'(2) kind_str_inj by (auto simp: backs_def)
  moreover have "tick_start cancel True now close (restart st) =
      Some (restart st\<lparr>st_db := close_sent close cl (st_db st), st_held := held, st_restored := True\<rparr>)"
    using on r by (simp add: tick_start_def restart_def)
  ultimately show ?thesis using h' sent d'(4) \<open>d' = d\<close> by auto
qed

section \<open>Nobody is sent twice\<close>

lemma assign_row_Some:
  "assign_row held is_free ytno wk vi wpos = Some r \<longleftrightarrow>
   (\<exists>c jt qc. is_free vi \<and> wk wpos = (Some c, jt, qc) \<and> map_of held (ytno vi) = None \<and>
      r = \<lparr>r_kind = Assign, r_ytno = ytno vi, r_contno = c, r_jobtype = Some jt, r_qc = Some qc, r_peer = None\<rparr>)"
  unfolding assign_row_def by (cases "wk wpos"; cases "fst (wk wpos)") auto

lemma assign_rows_mem:
  "r \<in> set (assign_rows held is_free ytno wk pairs) \<longleftrightarrow>
   (\<exists>(vi, wpos) \<in> set pairs. assign_row held is_free ytno wk vi wpos = Some r)"
  by (force simp: assign_rows_def set_map_filter)

lemma assign_rows_distinct:
  "distinct (map (ytno \<circ> fst) pairs) \<Longrightarrow> distinct (map r_ytno (assign_rows held is_free ytno wk pairs))"
proof (induction pairs)
  case (Cons p ps)
  obtain vi wpos where p: "p = (vi, wpos)" by (cases p)
  have "ytno vi \<notin> r_ytno ` set (assign_rows held is_free ytno wk ps)"
  proof
    assume "ytno vi \<in> r_ytno ` set (assign_rows held is_free ytno wk ps)"
    then obtain v w r where "(v, w) \<in> set ps" "assign_row held is_free ytno wk v w = Some r" "r_ytno r = ytno vi"
      by (auto simp: assign_rows_mem)
    then show False using Cons.prems p by (force simp: assign_row_Some)
  qed
  then show ?case using Cons p by (auto simp: assign_rows_def map_filter_Cons assign_row_Some split: option.splits)
qed (simp add: assign_rows_def)

lemma assign_rows_unheld:
  assumes r: "r \<in> set (assign_rows held is_free ytno wk pairs)"
    and allowed: "\<And>vi wpos. (vi, wpos) \<in> set pairs \<Longrightarrow>
      edge_allowed_by_hold (map_option h_contno (map_of held (ytno vi))) (fst (wk wpos))
        (is_some_and (fst (wk wpos)) (\<lambda>c. c \<in> (h_contno \<circ> snd) ` set held))"
  shows "map_of held (r_ytno r) = None \<and> r_contno r \<notin> (h_contno \<circ> snd) ` set held"
proof -
  obtain vi wpos c jt qc where v: "(vi, wpos) \<in> set pairs" "wk wpos = (Some c, jt, qc)" "map_of held (ytno vi) = None"
    "r_ytno r = ytno vi" "r_contno r = c" using r by (auto simp: assign_rows_mem assign_row_Some)
  then show ?thesis using allowed[OF v(1)] by (simp add: edge_allowed_by_hold_def)
qed

section \<open>Properties\<close>

text \<open>
  C15. In every reachable state, through restarts and failing database calls, each hold in memory has
  an open row in \<open>dispatch_sent\<close> with its identifier, truck, box, kind and time, and that row is
  the newest open row of the truck.
\<close>

theorem holds_are_recorded:
  assumes "reachable hold_init hold_step st" "map_of (st_held st) yt = Some h"
  shows "\<exists>d \<in> set (st_db st). backs d yt h \<and> newest (st_db st) d"
  using hold_invD[OF holds.inv_reachable[OF assms(1)] assms(2)] by blast

definition demo_row :: sent_row where
  "demo_row = \<lparr>r_kind = Assign, r_ytno = ''TT1'', r_contno = ''C1'', r_jobtype = None, r_qc = None, r_peer = None\<rparr>"

definition demo_start :: hold_state where
  "demo_start = \<lparr>st_hold_sent = True, st_restored = False, st_held = [], st_db = []\<rparr>"

definition demo_state :: hold_state where
  "demo_state = send_rows (Inr ([''m1''], 5000000)) None [demo_row] 1 None (demo_start\<lparr>st_restored := True\<rparr>)"

lemma demo_reachable: "reachable hold_init hold_step demo_state"
proof -
  have "hold_init demo_start" by (simp add: hold_init_def demo_start_def)
  then have 0: "reachable hold_init hold_step demo_start" by (rule reachable_init)
  have "tick_start None True 0 None demo_start = Some (demo_start\<lparr>st_restored := True\<rparr>)"
    by (simp add: tick_start_def demo_start_def load_open_sent_def restore_holds_def close_sent_def)
  then have 1: "reachable hold_init hold_step (demo_start\<lparr>st_restored := True\<rparr>)"
    using 0 by (blast intro: reachable_step step_start)
  have "hold_step (demo_start\<lparr>st_restored := True\<rparr>) demo_state" unfolding demo_state_def
    by (rule step_send) (simp_all add: demo_start_def demo_row_def fresh_answer_def)
  then show ?thesis using 1 by (rule reachable_step[rotated])
qed

lemma demo_held: "map_of (st_held demo_state) ''TT1'' = Some \<lparr>h_contno = ''C1'', h_sent_ms = 5000, h_msg_id = ''m1'', h_kind = Assign\<rparr>"
  by (simp add: demo_state_def demo_start_def demo_row_def send_rows_def write_sent_def apply_written_def timestamp_millis_def Let_def)

theorem holds_are_recorded_witness:
  "\<exists>d \<in> set (st_db demo_state). backs d ''TT1'' \<lparr>h_contno = ''C1'', h_sent_ms = 5000, h_msg_id = ''m1'', h_kind = Assign\<rparr> \<and>
     newest (st_db demo_state) d"
  by (rule holds_are_recorded[OF demo_reachable demo_held])

text \<open>
  C3. A restart loses nothing: the first tick after it, when the table can be read, rebuilds every
  hold younger than the age limit with the same box, identifier and kind, and a sent time that is the
  old one or one millisecond later, so no hold is released earlier than before.
\<close>

theorem restart_keeps_holds:
  assumes "reachable hold_init hold_step st" "st_hold_sent st" "map_of (st_held st) yt = Some h"
    "now - h_sent_ms h \<le> RESTORE_MAX_AGE_MS"
  shows "\<exists>st' h'. tick_start cancel True now close (restart st) = Some st' \<and> map_of (st_held st') yt = Some h' \<and>
    h_contno h' = h_contno h \<and> h_msg_id h' = h_msg_id h \<and> h_kind h' = h_kind h \<and>
    h_sent_ms h \<le> h_sent_ms h' \<and> h_sent_ms h' \<le> h_sent_ms h + 1"
  using restart_restores[OF holds.inv_reachable[OF assms(1)] assms(2-4)] by blast

theorem restart_keeps_holds_witness:
  "\<exists>st' h'. tick_start None True 9000 None (restart demo_state) = Some st' \<and> map_of (st_held st') ''TT1'' = Some h' \<and>
    h_contno h' = ''C1'' \<and> h_msg_id h' = ''m1''"
  using restart_keeps_holds[OF demo_reachable _ demo_held, of 9000 None None]
  by (auto simp: RESTORE_MAX_AGE_MS_def demo_state_def demo_start_def send_rows_def write_sent_def apply_written_def
      split_beta Let_def)

text \<open>
  A failed write holds nothing: when the transaction that records the rows fails, neither the
  holds nor the table change, and when the open rows cannot be read after a restart the tick is skipped.
\<close>

theorem failed_write_changes_nothing:
  "st_held (send_rows (Inl ()) close rows tick basis st) = st_held st \<and>
   st_db (send_rows (Inl ()) close rows tick basis st) = st_db st \<and>
   (st_hold_sent st \<and> \<not> st_restored st \<longrightarrow> tick_start cancel False now close st = None)"
  by (auto simp: send_rows_def write_sent_def apply_written_def tick_start_def restore_holds_def)

theorem failed_write_changes_nothing_witness: "tick_start None False 0 None demo_start = None"
  using failed_write_changes_nothing[of None "[]" 0 None demo_start None 0] by (simp add: demo_start_def)

end
