(* ===== verification/Select.thy ===== *)
theory Select
  imports Prelude "HOL-Library.Product_Lexorder"
begin

text \<open>
  Choosing what the dispatch round works on (\<^verbatim>\<open>src/crates/api/src/livemap.rs\<close>): the work slots whose
  deadline has come, shared out in deadline order up to the number of trucks (\<^verbatim>\<open>allocate_due\<close>), and
  the swaps between trucks that already have an order (\<^verbatim>\<open>pick_swaps\<close>).
\<close>

section \<open>Slots whose deadline has come\<close>

definition DS_MOVE_S :: int where
  "DS_MOVE_S = 90"

definition LD_MOVE_S :: int where
  "LD_MOVE_S = 132"

definition POOL_MARGIN_DEFAULT_S :: int where
  "POOL_MARGIN_DEFAULT_S = 300"

text \<open>The environment variable, already read and parsed: \<^verbatim>\<open>None\<close> when it is unset or not an integer.\<close>

definition pool_margin_s :: "int option \<Rightarrow> int" where
  "pool_margin_s env = (case env of Some v \<Rightarrow> if 0 \<le> v \<and> v \<le> 3600 then v else POOL_MARGIN_DEFAULT_S | None \<Rightarrow> POOL_MARGIN_DEFAULT_S)"

fun count_slots :: "nat list \<Rightarrow> ms \<Rightarrow> int \<Rightarrow> ms \<Rightarrow> ms \<Rightarrow> int \<times> int \<Rightarrow> int \<times> int" where
  "count_slots [] base move_s cutoff now acc = acc"
| "count_slots (j # js) base move_s cutoff now (slots, overdue) =
     (let slot = base + int j * move_s * 1000 in
      if slot \<le> cutoff
      then count_slots js base move_s cutoff now (slots + 1, if slot < now then overdue + 1 else overdue)
      else (slots, overdue))"

record work_due =
  wd_tos_assigned :: bool
  wd_deadline :: "ms option"
  wd_jobtype :: string
  wd_n :: int

text \<open>One work group: nothing when the terminal already dispatched it or it has no deadline.\<close>

definition due_of :: "ms \<Rightarrow> int \<Rightarrow> nat \<Rightarrow> work_due \<Rightarrow> (nat \<times> int \<times> ms) list \<times> int" where
  "due_of now pool_margin oi w =
     (if wd_tos_assigned w then ([], 0)
      else case wd_deadline w of
        None \<Rightarrow> ([], 0)
      | Some base \<Rightarrow>
          (let move_s = (if wd_jobtype w = ''LD'' then LD_MOVE_S else DS_MOVE_S);
               cutoff = now + pool_margin * 1000;
               (slots, overdue) = count_slots [0..<nat (max (wd_n w) 0)] base move_s cutoff now (0, 0)
           in (if slots > 0 then [(oi, slots, base)] else [], overdue)))"

definition due_list :: "ms \<Rightarrow> int \<Rightarrow> work_due list \<Rightarrow> (nat \<times> int \<times> ms) list" where
  "due_list now pool_margin works = concat (map (\<lambda>(oi, w). fst (due_of now pool_margin oi w)) (enumerate 0 works))"

section \<open>Sharing out the trucks\<close>

fun alloc_loop :: "(nat \<times> int \<times> ms) list \<Rightarrow> int \<Rightarrow> int \<Rightarrow> (nat \<times> int) list" where
  "alloc_loop [] truck_n acc = []"
| "alloc_loop ((oi, slots, d) # due) truck_n acc =
     (if acc \<ge> truck_n then []
      else
        (let alloc = min slots (truck_n - acc) in
         if alloc \<le> 0 then alloc_loop due truck_n acc
         else (oi, alloc) # alloc_loop due truck_n (acc + alloc)))"

definition allocate_due :: "(nat \<times> int \<times> ms) list \<Rightarrow> int \<Rightarrow> (nat \<times> int) list" where
  "allocate_due due truck_n = alloc_loop (sort_key (\<lambda>(oi, slots, d). d) due) truck_n 0"

section \<open>Swaps\<close>

definition SWAP_MIN_GAIN_S :: int where
  "SWAP_MIN_GAIN_S = 180"

definition swap_is_frozen :: "int option \<Rightarrow> int option \<Rightarrow> bool" where
  "swap_is_frozen last_swap last_free =
     is_some_and last_swap (\<lambda>s. case last_free of None \<Rightarrow> True | Some f \<Rightarrow> s > f)"

definition swap_makes_late :: "ms \<Rightarrow> ms \<Rightarrow> ms \<Rightarrow> bool" where
  "swap_makes_late new_arr_ms old_arr_ms need_ms \<longleftrightarrow> new_arr_ms > need_ms \<and> new_arr_ms > old_arr_ms"

type_synonym swap = "nat \<times> nat \<times> int \<times> int \<times> int"

definition swap_cand_of :: "int list \<Rightarrow> (nat \<Rightarrow> nat \<Rightarrow> int option) \<Rightarrow> int \<Rightarrow> nat \<Rightarrow> nat \<Rightarrow> swap option" where
  "swap_cand_of own cross min_gain i j =
     (case (cross i j, cross j i) of
        (Some ij, Some ji) \<Rightarrow>
          (let gain = own ! i + own ! j - ij - ji in if gain \<ge> min_gain then Some (i, j, ij, ji, gain) else None)
      | _ \<Rightarrow> None)"

definition swap_candidates :: "int list \<Rightarrow> (nat \<Rightarrow> nat \<Rightarrow> int option) \<Rightarrow> int \<Rightarrow> swap list" where
  "swap_candidates own cross min_gain =
     concat (map (\<lambda>i. List.map_filter (swap_cand_of own cross min_gain i) [i + 1..<length own]) [0..<length own])"

fun take_swaps :: "swap list \<Rightarrow> bool list \<Rightarrow> swap list" where
  "take_swaps [] used = []"
| "take_swaps ((i, j, ij, ji, g) # cs) used =
     (if used ! i \<or> used ! j then take_swaps cs used
      else (i, j, ij, ji, g) # take_swaps cs (used[i := True, j := True]))"

definition pick_swaps :: "int list \<Rightarrow> (nat \<Rightarrow> nat \<Rightarrow> int option) \<Rightarrow> int \<Rightarrow> swap list" where
  "pick_swaps own cross min_gain =
     take_swaps (sort_key (\<lambda>(i, j, ij, ji, g). (- g, i, j)) (swap_candidates own cross min_gain)) (replicate (length own) False)"

section \<open>Due slots\<close>

lemma count_slots_eq:
  assumes "0 < move_s"
  shows "count_slots [k..<m] base move_s cutoff now (a, b) =
    (a + int (card {j. k \<le> j \<and> j < m \<and> base + int j * move_s * 1000 \<le> cutoff}),
     b + int (card {j. k \<le> j \<and> j < m \<and> base + int j * move_s * 1000 \<le> cutoff \<and> base + int j * move_s * 1000 < now}))"
proof (induction "m - k" arbitrary: k a b)
  case 0
  then have "{j. k \<le> j \<and> j < m \<and> P j} = {}" for P by auto
  then show ?case using 0 by simp
next
  case (Suc d)
  let ?t = "\<lambda>j. base + int j * move_s * 1000"
  have km: "k < m" using Suc.hyps(2) by simp
  have split: "{j. k \<le> j \<and> j < m \<and> P j} = (if P k then {k} else {}) \<union> {j. Suc k \<le> j \<and> j < m \<and> P j}" for P
    using km by (auto simp: le_Suc_eq not_less_eq_eq[symmetric] less_Suc_eq_le elim: le_neq_implies_less dest: antisym)
  have fin: "finite {j. Suc k \<le> j \<and> j < m \<and> P j}" for P by simp
  have card: "card {j. k \<le> j \<and> j < m \<and> P j} = (if P k then 1 else 0) + card {j. Suc k \<le> j \<and> j < m \<and> P j}" for P
    unfolding split using fin by (simp add: card_insert_if)
  show ?case
  proof (cases "?t k \<le> cutoff")
    case True
    have IH: "count_slots [Suc k..<m] base move_s cutoff now (a', b') =
      (a' + int (card {j. Suc k \<le> j \<and> j < m \<and> ?t j \<le> cutoff}),
       b' + int (card {j. Suc k \<le> j \<and> j < m \<and> ?t j \<le> cutoff \<and> ?t j < now}))" for a' b'
      using Suc.hyps by simp
    show ?thesis using True IH card[of "\<lambda>j. ?t j \<le> cutoff"] card[of "\<lambda>j. ?t j \<le> cutoff \<and> ?t j < now"] km
      by (simp add: upt_conv_Cons)
  next
    case False
    have "\<not> ?t j \<le> cutoff" if "k \<le> j" for j
    proof -
      have "int k * move_s \<le> int j * move_s" using that assms by (intro mult_right_mono) auto
      then show ?thesis using False by linarith
    qed
    then have "{j. k \<le> j \<and> j < m \<and> ?t j \<le> cutoff} = {}" "{j. k \<le> j \<and> j < m \<and> ?t j \<le> cutoff \<and> ?t j < now} = {}" by auto
    then show ?thesis using False km by (simp add: upt_conv_Cons)
  qed
qed

section \<open>The allocation\<close>

definition slots_sum :: "(nat \<times> int \<times> ms) list \<Rightarrow> int" where
  "slots_sum due = sum_list (map (fst \<circ> snd) due)"

lemma alloc_loop_total:
  "\<forall>(oi, s, d) \<in> set due. 0 < s \<Longrightarrow> acc \<le> truck_n \<Longrightarrow>
   sum_list (map snd (alloc_loop due truck_n acc)) = min (truck_n - acc) (slots_sum due)"
proof (induction due truck_n acc rule: alloc_loop.induct)
  case (2 oi slots d due truck_n acc)
  have nn: "0 \<le> slots_sum due" using 2(3) by (induction due) (auto simp: slots_sum_def)
  show ?case
  proof (cases "acc \<ge> truck_n")
    case True
    then show ?thesis using 2 nn by (auto simp: slots_sum_def)
  next
    case False
    then have pos: "\<not> min slots (truck_n - acc) \<le> 0" using 2(3) by auto
    have "sum_list (map snd (alloc_loop due truck_n (acc + min slots (truck_n - acc)))) =
        min (truck_n - (acc + min slots (truck_n - acc))) (slots_sum due)"
      using 2(2)[OF False refl pos] 2(3) by (simp add: min_def)
    then show ?thesis using False pos nn by (simp add: Let_def slots_sum_def)
  qed
qed (simp add: slots_sum_def)

text \<open>Whoever gets a truck, everybody before it in the order got all it asked for.\<close>

lemma alloc_loop_order:
  assumes "\<forall>(oi, s, d) \<in> set due. 0 < s" "distinct (map fst due)" "acc \<le> truck_n"
    "i < j" "j < length due" "(fst (due ! j), a) \<in> set (alloc_loop due truck_n acc)"
  shows "(fst (due ! i), fst (snd (due ! i))) \<in> set (alloc_loop due truck_n acc)"
  using assms
proof (induction due truck_n acc arbitrary: i j rule: alloc_loop.induct)
  case (2 oi slots d due truck_n acc)
  have lt: "\<not> acc \<ge> truck_n" using 2(8) by (auto split: if_splits)
  let ?al = "min slots (truck_n - acc)"
  have pos: "\<not> ?al \<le> 0" using lt 2(3) by auto
  obtain j' where j: "j = Suc j'" using 2(6) by (cases j) auto
  have ne: "fst (due ! j') \<noteq> oi" using 2(4,7) j nth_mem[of j' due] by auto
  have tail: "(fst (due ! j'), a) \<in> set (alloc_loop due truck_n (acc + ?al))"
    using 2(8) j lt pos ne by (simp add: Let_def)
  have full: "?al = slots"
  proof (rule ccontr)
    assume "?al \<noteq> slots"
    then have "acc + ?al = truck_n" by linarith
    then have "alloc_loop due truck_n (acc + ?al) = []" by (cases due) auto
    then show False using tail by simp
  qed
  show ?case
  proof (cases i)
    case 0
    then show ?thesis using lt pos full by (simp add: Let_def)
  next
    case (Suc i')
    have "(fst (due ! i'), fst (snd (due ! i'))) \<in> set (alloc_loop due truck_n (acc + ?al))"
      using 2(2)[OF lt refl pos, of i' j'] 2(3-7) j Suc tail by auto
    then show ?thesis using Suc lt pos by (simp add: Let_def)
  qed
qed simp


lemma alloc_loop_le:
  "(oi, a) \<in> set (alloc_loop due truck_n acc) \<Longrightarrow> 0 < a \<and> (\<exists>s d. (oi, s, d) \<in> set due \<and> a \<le> s)"
proof (induction due truck_n acc rule: alloc_loop.induct)
  case (2 oi' slots d due truck_n acc)
  consider "acc \<ge> truck_n" | "\<not> acc \<ge> truck_n" "min slots (truck_n - acc) \<le> 0"
    | "\<not> acc \<ge> truck_n" "\<not> min slots (truck_n - acc) \<le> 0" by blast
  then show ?case
  proof cases
    case 1
    then show ?thesis using 2(3) by simp
  next
    case b: 2
    then have "slots \<le> 0" by linarith
    then show ?thesis using 2(1)[OF b(1) refl b(2)] 2(3) b(1) by (auto simp: Let_def)
  next
    case c: 3
    then show ?thesis using 2(2)[OF c(1) refl c(2)] 2(3) by (auto simp: Let_def)
  qed
qed simp

lemma slots_sum_sort: "slots_sum (sort_key f due) = slots_sum due"
  unfolding slots_sum_def by (metis mset_map mset_sort sum_mset_sum_list)

lemma allocate_due_order:
  assumes pos: "\<forall>(oi, s, d) \<in> set due. 0 < s" and dist: "distinct (map fst due)" and n: "0 \<le> truck_n"
    and xy: "(x, s, d) \<in> set due" "(y, s', d') \<in> set due" "d < d'" "(y, a) \<in> set (allocate_due due truck_n)"
  shows "(x, s) \<in> set (allocate_due due truck_n)"
proof -
  let ?k = "\<lambda>(oi :: nat, slots :: int, d :: ms). d"
  let ?s = "sort_key ?k due"
  have dist': "distinct (map fst ?s)" using dist by (metis mset_map mset_sort mset_eq_imp_distinct_iff)
  obtain i j where ij: "i < length ?s" "?s ! i = (x, s, d)" "j < length ?s" "?s ! j = (y, s', d')"
    using xy(1,2) by (metis in_set_conv_nth set_sort)
  have "i < j"
  proof (rule ccontr)
    assume "\<not> i < j"
    then have "map ?k ?s ! j \<le> map ?k ?s ! i"
      using sorted_sort_key[of ?k due] ij by (intro sorted_nth_mono) auto
    then show False using ij xy(3) by simp
  qed
  then show ?thesis
    using alloc_loop_order[of ?s 0 truck_n i j a] pos dist' n ij xy(4) by (simp add: allocate_due_def)
qed

section \<open>The swaps picked\<close>

lemma swap_cand_of_Some:
  "swap_cand_of own cross min_gain i' j' = Some (i, j, ij, ji, g) \<longleftrightarrow>
   i' = i \<and> j' = j \<and> cross i j = Some ij \<and> cross j i = Some ji \<and> g = own ! i + own ! j - ij - ji \<and> min_gain \<le> g"
  unfolding swap_cand_of_def by (cases "cross i' j'"; cases "cross j' i'") (auto simp: Let_def)

lemma swap_candidates_mem:
  "(i, j, ij, ji, g) \<in> set (swap_candidates own cross min_gain) \<longleftrightarrow>
   i < j \<and> j < length own \<and> cross i j = Some ij \<and> cross j i = Some ji \<and> g = own ! i + own ! j - ij - ji \<and> min_gain \<le> g"
  unfolding swap_candidates_def by (auto simp: set_map_filter swap_cand_of_Some)

lemma take_swaps_sub: "set (take_swaps cs used) \<subseteq> set cs"
  by (induction cs used rule: take_swaps.induct) (auto split: if_splits)

definition swap_trucks :: "swap list \<Rightarrow> nat list" where
  "swap_trucks cs = concat (map (\<lambda>(i, j, ij, ji, g). [i, j]) cs)"

lemma swap_trucks_simps [simp]: "swap_trucks [] = []" "swap_trucks ((i, j, ij, ji, g) # cs) = i # j # swap_trucks cs"
  by (simp_all add: swap_trucks_def)

lemma take_swaps_once:
  "\<forall>(i, j, ij, ji, g) \<in> set cs. i < j \<and> j < length used \<Longrightarrow>
   distinct (swap_trucks (take_swaps cs used)) \<and> (\<forall>t \<in> set (swap_trucks (take_swaps cs used)). \<not> used ! t)"
proof (induction cs used rule: take_swaps.induct)
  case (2 i j ij ji g cs used)
  show ?case
  proof (cases "used ! i \<or> used ! j")
    case True
    then show ?thesis using 2(1)[OF True] 2(3) by simp
  next
    case False
    let ?u = "used[i := True, j := True]"
    have ij: "i < j" "j < length used" using 2(3) by auto
    have IH: "distinct (swap_trucks (take_swaps cs ?u))" "\<forall>t \<in> set (swap_trucks (take_swaps cs ?u)). \<not> ?u ! t"
      using 2(2)[OF False] 2(3) by auto
    have "?u ! i" "?u ! j" "\<forall>t. \<not> ?u ! t \<longrightarrow> \<not> used ! t" using ij by (auto simp: nth_upd_if)
    then show ?thesis using False ij IH by auto
  qed
qed simp

lemma take_swaps_blocked:
  assumes "\<forall>(i, j, ij, ji, g) \<in> set cs. i < j \<and> j < length used" "sorted (map k cs)"
    "c \<in> set cs" "c \<notin> set (take_swaps cs used)"
  shows "used ! fst c \<or> used ! fst (snd c) \<or>
    (\<exists>c' \<in> set (take_swaps cs used). k c' \<le> (k c :: 'a::linorder) \<and> {fst c', fst (snd c')} \<inter> {fst c, fst (snd c)} \<noteq> {})"
  using assms
proof (induction cs used rule: take_swaps.induct)
  case (2 i j ij ji g cs used)
  show ?case
  proof (cases "used ! i \<or> used ! j")
    case True
    then show ?thesis using 2(1)[OF True] 2(3-) by auto
  next
    case False
    let ?u = "used[i := True, j := True]" and ?h = "(i, j, ij, ji, g)"
    have t: "take_swaps (?h # cs) used = ?h # take_swaps cs ?u" using False by simp
    then have c: "c \<in> set cs" "c \<notin> set (take_swaps cs ?u)" using 2(5,6) by auto
    have kc: "k ?h \<le> k c" using 2(4) c(1) by auto
    have "?u ! fst c \<or> ?u ! fst (snd c) \<or>
        (\<exists>c' \<in> set (take_swaps cs ?u). k c' \<le> k c \<and> {fst c', fst (snd c')} \<inter> {fst c, fst (snd c)} \<noteq> {})"
      using 2(2)[OF False _ _ c] 2(3,4) by auto
    then consider "used ! fst c \<or> used ! fst (snd c)" | "{i, j} \<inter> {fst c, fst (snd c)} \<noteq> {}"
      | "\<exists>c' \<in> set (take_swaps cs ?u). k c' \<le> k c \<and> {fst c', fst (snd c')} \<inter> {fst c, fst (snd c)} \<noteq> {}"
      by (auto simp: nth_upd_if split: if_splits)
    then show ?thesis
    proof cases
      case 1
      then show ?thesis by blast
    next
      case 2
      then show ?thesis unfolding t using kc by auto
    next
      case 3
      then show ?thesis unfolding t by (metis list.set_intros(2))
    qed
  qed
qed simp

lemma pick_swaps_mem:
  "(i, j, ij, ji, g) \<in> set (pick_swaps own cross min_gain) \<Longrightarrow>
   i < j \<and> j < length own \<and> cross i j = Some ij \<and> cross j i = Some ji \<and> g = own ! i + own ! j - ij - ji \<and> min_gain \<le> g"
  unfolding pick_swaps_def
  by (drule subsetD[OF take_swaps_sub]) (simp add: swap_candidates_mem)

lemma pick_swaps_once: "distinct (swap_trucks (pick_swaps own cross min_gain))"
  unfolding pick_swaps_def
  by (rule take_swaps_once[THEN conjunct1]) (auto simp: swap_candidates_mem)

lemma pick_swaps_greedy:
  assumes c: "i < j" "j < length own" "cross i j = Some ij" "cross j i = Some ji"
    "min_gain \<le> own ! i + own ! j - ij - ji"
    and no: "(i, j, ij, ji, own ! i + own ! j - ij - ji) \<notin> set (pick_swaps own cross min_gain)"
  shows "\<exists>i' j' ij' ji' g'. (i', j', ij', ji', g') \<in> set (pick_swaps own cross min_gain) \<and>
    own ! i + own ! j - ij - ji \<le> g' \<and> {i', j'} \<inter> {i, j} \<noteq> {}"
proof -
  let ?k = "\<lambda>(i :: nat, j :: nat, ij :: int, ji :: int, g :: int). (- g, i, j)"
  let ?cs = "sort_key ?k (swap_candidates own cross min_gain)" and ?u = "replicate (length own) False"
  let ?c = "(i, j, ij, ji, own ! i + own ! j - ij - ji)"
  have mem: "?c \<in> set ?cs" using c by (simp add: swap_candidates_mem)
  have rng: "\<forall>(i, j, ij, ji, g) \<in> set ?cs. i < j \<and> j < length ?u" by (auto simp: swap_candidates_mem)
  have "\<exists>c' \<in> set (take_swaps ?cs ?u). ?k c' \<le> ?k ?c \<and> {fst c', fst (snd c')} \<inter> {fst ?c, fst (snd ?c)} \<noteq> {}"
    using take_swaps_blocked[OF rng sorted_sort_key mem] no c(1,2) by (simp add: pick_swaps_def)
  then show ?thesis by (fastforce simp: pick_swaps_def less_eq_prod_def)
qed

section \<open>Properties\<close>

text \<open>
  Sharing out the trucks: with slot counts above zero exactly as many slots are given out as there
  are trucks or slots, whichever is fewer; nobody gets more than it asked for; and a group gets
  anything only when every group with an earlier deadline got all it asked for.
\<close>

theorem allocate_due_by_deadline:
  assumes "\<forall>(oi, s, d) \<in> set due. 0 < s" "distinct (map fst due)" "0 \<le> truck_n"
  shows "sum_list (map snd (allocate_due due truck_n)) = min truck_n (slots_sum due) \<and>
    (\<forall>oi a. (oi, a) \<in> set (allocate_due due truck_n) \<longrightarrow> 0 < a \<and> (\<exists>s d. (oi, s, d) \<in> set due \<and> a \<le> s)) \<and>
    (\<forall>x s d y s' d' a. (x, s, d) \<in> set due \<and> (y, s', d') \<in> set due \<and> d < d' \<and> (y, a) \<in> set (allocate_due due truck_n) \<longrightarrow>
       (x, s) \<in> set (allocate_due due truck_n))"
proof (intro conjI allI impI)
  let ?s = "sort_key (\<lambda>(oi, slots, d). d) due"
  show "sum_list (map snd (allocate_due due truck_n)) = min truck_n (slots_sum due)"
    using alloc_loop_total[of ?s 0 truck_n] assms by (simp add: allocate_due_def slots_sum_sort)
  fix oi a assume "(oi, a) \<in> set (allocate_due due truck_n)"
  then show "0 < a" "\<exists>s d. (oi, s, d) \<in> set due \<and> a \<le> s"
    using alloc_loop_le[of oi a ?s truck_n 0] by (simp_all add: allocate_due_def)
next
  fix x s d y s' d' a
  assume "(x, s, d) \<in> set due \<and> (y, s', d') \<in> set due \<and> d < d' \<and> (y, a) \<in> set (allocate_due due truck_n)"
  then show "(x, s) \<in> set (allocate_due due truck_n)" using allocate_due_order[OF assms] by blast
qed

theorem allocate_due_by_deadline_witness:
  "sum_list (map snd (allocate_due [(0, 3, 500), (1, 2, 100)] 4)) = min 4 (slots_sum [(0, 3, 500), (1, 2, 100)])"
  using allocate_due_by_deadline[of "[(0, 3, 500), (1, 2, 100)]" 4] by simp

text \<open>
  A work group asks for exactly the slots whose time, one move after the other from its deadline,
  falls before the cutoff, and stopping at the first later slot misses none of them.
\<close>

theorem due_slots_exact:
  assumes "\<not> wd_tos_assigned w" "wd_deadline w = Some base"
  shows "\<exists>slots. slots = int (card {j. j < nat (max (wd_n w) 0) \<and>
        base + int j * (if wd_jobtype w = ''LD'' then LD_MOVE_S else DS_MOVE_S) * 1000 \<le> now + pool_margin * 1000}) \<and>
     fst (due_of now pool_margin oi w) = (if slots > 0 then [(oi, slots, base)] else [])"
proof -
  let ?mv = "if wd_jobtype w = ''LD'' then LD_MOVE_S else DS_MOVE_S"
  have "0 < ?mv" by (simp add: LD_MOVE_S_def DS_MOVE_S_def)
  from count_slots_eq[OF this, of 0 "nat (max (wd_n w) 0)" base "now + pool_margin * 1000" now 0 0]
  show ?thesis using assms by (simp add: due_of_def Let_def del: of_nat_0_less_iff)
qed

theorem due_slots_exact_witness:
  "\<exists>slots. slots = int (card {j. j < nat (max 5 0) \<and> 1000 + int j * LD_MOVE_S * 1000 \<le> 0 + 300 * 1000}) \<and>
     fst (due_of 0 300 7 \<lparr>wd_tos_assigned = False, wd_deadline = Some 1000, wd_jobtype = ''LD'', wd_n = 5\<rparr>) =
       (if slots > 0 then [(7, slots, 1000)] else [])"
  using due_slots_exact[of "\<lparr>wd_tos_assigned = False, wd_deadline = Some 1000, wd_jobtype = ''LD'', wd_n = 5\<rparr>" 1000 0 300 7]
  by simp

text \<open>
  The swaps picked: each pair is allowed both ways and saves at least the threshold, no truck is
  swapped twice, and a pair that was worth it and was left out lost a truck to a pair worth at least
  as much.
\<close>

theorem pick_swaps_sound:
  "distinct (swap_trucks (pick_swaps own cross min_gain)) \<and>
   (\<forall>i j ij ji g. (i, j, ij, ji, g) \<in> set (pick_swaps own cross min_gain) \<longrightarrow>
      i < j \<and> j < length own \<and> cross i j = Some ij \<and> cross j i = Some ji \<and> g = own ! i + own ! j - ij - ji \<and> min_gain \<le> g) \<and>
   (\<forall>i j ij ji. i < j \<and> j < length own \<and> cross i j = Some ij \<and> cross j i = Some ji \<and> min_gain \<le> own ! i + own ! j - ij - ji \<and>
        (i, j, ij, ji, own ! i + own ! j - ij - ji) \<notin> set (pick_swaps own cross min_gain) \<longrightarrow>
      (\<exists>i' j' ij' ji' g'. (i', j', ij', ji', g') \<in> set (pick_swaps own cross min_gain) \<and>
         own ! i + own ! j - ij - ji \<le> g' \<and> {i', j'} \<inter> {i, j} \<noteq> {}))"
proof (intro conjI allI impI; (elim conjE)?)
  show "distinct (swap_trucks (pick_swaps own cross min_gain))" by (rule pick_swaps_once)
next
  fix i j ij ji assume "i < j" "j < length own" "cross i j = Some ij" "cross j i = Some ji"
    "min_gain \<le> own ! i + own ! j - ij - ji"
    "(i, j, ij, ji, own ! i + own ! j - ij - ji) \<notin> set (pick_swaps own cross min_gain)"
  then show "\<exists>i' j' ij' ji' g'. (i', j', ij', ji', g') \<in> set (pick_swaps own cross min_gain) \<and>
         own ! i + own ! j - ij - ji \<le> g' \<and> {i', j'} \<inter> {i, j} \<noteq> {}" by (rule pick_swaps_greedy)
qed (drule pick_swaps_mem, simp)+

theorem pick_swaps_sound_witness:
  "distinct (swap_trucks (pick_swaps [500, 600, 400] (\<lambda>i j. Some (50 + int j)) 180)) \<and>
   pick_swaps [500, 600, 400] (\<lambda>i j. Some (50 + int j)) 180 = [(0, 1, 51, 50, 999)]"
proof (rule conjI[OF pick_swaps_sound[THEN conjunct1]])
  show "pick_swaps [500, 600, 400] (\<lambda>i j. Some (50 + int j)) 180 = [(0, 1, 51, 50, 999)]" by code_simp
qed

end
