(* ===== verification/Dispatch.thy ===== *)
theory Dispatch
  imports MatchRound HoldSystem Select
begin

text \<open>
  One dispatch tick, from the candidate trucks to the orders sent (\<^verbatim>\<open>spawn_stage2_shadow\<close> in
  \<^verbatim>\<open>src/crates/api/src/livemap.rs\<close>): how long until each truck is free, the edges of the matching
  with the holds respected, the greedy baseline beside the optimum, and the rows sent.

  The travel-time lookup (\<^verbatim>\<open>cost\<close>) is a parameter: it returns the median, the 90th percentile and the
  layer that answered. Its median is never negative, which is what the theorems assume of it.
\<close>

section \<open>Trucks that will be free soon\<close>

definition SOON_FREE_POINTS :: "int list" where
  "SOON_FREE_POINTS = [60, 120, 180, 300, 450, 600, 900, 1200, 1800]"

definition SOON_FREE_REMAIN_P :: real where
  "SOON_FREE_REMAIN_P = 1 / 2"

definition soon_free_pred_bucket :: "int \<Rightarrow> int" where
  "soon_free_pred_bucket free_in_s =
     (if free_in_s \<le> 0 then 0 else if free_in_s \<le> 60 then 60 else if free_in_s \<le> 300 then 300
      else if free_in_s \<le> 900 then 900 else 3600)"

definition soon_free_quantile :: "real list \<Rightarrow> real \<Rightarrow> int option" where
  "soon_free_quantile fracs p = map_option fst (List.find (\<lambda>(s, f). f \<ge> p) (zip SOON_FREE_POINTS fracs))"

record vehicle =
  v_ytno :: string
  v_lat :: real
  v_lon :: real
  v_free_in :: int
  v_state :: string

type_synonym pool_class = "string \<rightharpoonup> string \<times> string option \<times> int"
type_synonym reliability = "string \<times> string \<times> int \<rightharpoonup> real list"

definition veh_info :: "pool_class \<Rightarrow> reliability \<Rightarrow> vehicle \<Rightarrow> bool \<times> int option \<times> string option" where
  "veh_info pc rel v =
     (let free = (v_state v = ''free_tos'' \<or> v_state v = ''free_gps'');
          cls = pc (v_ytno v);
          jt = Option.bind cls (\<lambda>(reason, cjt, base). cjt)
      in if free then (True, Some 0, jt)
         else
           (let remain = Option.bind (Option.bind cls (\<lambda>(reason, cjt, base).
                   Option.bind cjt (\<lambda>cjt. rel (reason, cjt, soon_free_pred_bucket base))))
                 (\<lambda>f. soon_free_quantile f SOON_FREE_REMAIN_P)
            in (False, remain, jt)))"

section \<open>The edges\<close>

definition SWITCH_PENALTY_S :: int where
  "SWITCH_PENALTY_S = 180"

definition COMMIT_WINDOW_MS :: int where
  "COMMIT_WINDOW_MS = 600000"

definition COMMIT_LOCK_S :: int where
  "COMMIT_LOCK_S = 1200"

type_synonym work_key = "string \<times> string \<times> string"

record drive_work =
  dw_contno :: "string option"
  dw_jobtype :: string
  dw_qc :: string
  dw_key :: work_key
  dw_lat :: real
  dw_lon :: real
  dw_cap :: int
  dw_deadline :: ms

type_synonym travel = "real \<Rightarrow> real \<Rightarrow> real \<Rightarrow> real \<Rightarrow> bool \<Rightarrow> int \<times> int \<times> string"

record tick_input =
  ti_now :: ms
  ti_prev :: "string \<rightharpoonup> work_key"
  ti_eta_by_key :: "work_key \<rightharpoonup> ms"
  ti_drop_pos :: "string \<rightharpoonup> real \<times> real"
  ti_pool_class :: pool_class
  ti_reliability :: reliability
  ti_lead_extra :: "string \<rightharpoonup> int"
  ti_vehicles :: "vehicle list"
  ti_driving :: "drive_work list"

definition switch_pen :: "tick_input \<Rightarrow> vehicle \<Rightarrow> drive_work \<Rightarrow> int" where
  "switch_pen ti v w =
     (case ti_prev ti (v_ytno v) of
        None \<Rightarrow> 0
      | Some pk \<Rightarrow>
          if pk \<noteq> dw_key w
          then (if is_some_and (ti_eta_by_key ti pk) (\<lambda>e. e - ti_now ti < COMMIT_WINDOW_MS) then COMMIT_LOCK_S else SWITCH_PENALTY_S)
          else 0)"

text \<open>One cell of the matrix: the edge if it is allowed, and the arrival (median, 90th percentile) kept for scoring.\<close>

definition edge_cell :: "travel \<Rightarrow> held_map \<Rightarrow> tick_input \<Rightarrow> nat \<Rightarrow> drive_work \<Rightarrow> nat \<Rightarrow> vehicle \<Rightarrow> (nat \<times> nat \<times> int) option \<times> int \<times> int" where
  "edge_cell cost held ti wpos w vi v =
     (let (free, remain, jt) = veh_info (ti_pool_class ti) (ti_reliability ti) v;
          (sx, sy) = (if free then (v_lat v, v_lon v)
                      else (case ti_drop_pos ti (v_ytno v) of Some p \<Rightarrow> p | None \<Rightarrow> (v_lat v, v_lon v)));
          (p50, p90, tier) = cost sx sy (dw_lat w) (dw_lon w) (dw_jobtype w = ''LD'');
          rem = (case remain of Some r \<Rightarrow> r | None \<Rightarrow> v_free_in v);
          arr = rem + p50;
          held_boxes = (h_contno \<circ> snd) ` set held;
          hold_ok = edge_allowed_by_hold (map_option h_contno (map_of held (v_ytno v))) (dw_contno w)
                      (is_some_and (dw_contno w) (\<lambda>c. c \<in> held_boxes))
      in (if hold_ok \<and> remain \<noteq> None \<and> p50 < 1800 then Some (vi, wpos, arr + switch_pen ti v w) else None,
          arr, rem + p90))"

definition build_edges :: "travel \<Rightarrow> held_map \<Rightarrow> tick_input \<Rightarrow> (nat \<times> nat \<times> int) list" where
  "build_edges cost held ti =
     concat (map (\<lambda>(wpos, w). List.map_filter (\<lambda>(vi, v). fst (edge_cell cost held ti wpos w vi v)) (enumerate 0 (ti_vehicles ti)))
       (enumerate 0 (ti_driving ti)))"

definition caps :: "tick_input \<Rightarrow> int list" where
  "caps ti = map dw_cap (ti_driving ti)"

section \<open>The greedy baseline\<close>

text \<open>Each work group in turn takes its cheapest trucks that nobody took before.\<close>

definition greedy_take :: "(nat \<times> nat \<times> int) list \<Rightarrow> nat \<Rightarrow> int \<Rightarrow> nat set \<Rightarrow> (nat \<times> nat) list" where
  "greedy_take edges wpos limit used =
     (if limit \<le> 0 then []
      else map (\<lambda>(vi, c). (vi, wpos))
        (take (nat limit) (sort_key snd
          (filter (\<lambda>(vi, c). vi \<notin> used) (map (\<lambda>(vi, wp, c). (vi, c)) (filter (\<lambda>(vi, wp, c). wp = wpos) edges))))))"

fun greedy_loop :: "(nat \<times> nat \<times> int) list \<Rightarrow> (nat \<times> int) list \<Rightarrow> nat set \<Rightarrow> (nat \<times> nat) list" where
  "greedy_loop edges [] used = []"
| "greedy_loop edges ((wpos, limit) # ws) used =
     (let got = greedy_take edges wpos limit used
      in got @ greedy_loop edges ws (used \<union> fst ` set got))"

definition greedy_baseline :: "(nat \<times> nat \<times> int) list \<Rightarrow> int list \<Rightarrow> (nat \<times> nat) list" where
  "greedy_baseline edges cs = greedy_loop edges (enumerate 0 cs) {}"

section \<open>The tick\<close>

definition work_row :: "tick_input \<Rightarrow> nat \<Rightarrow> string option \<times> string \<times> string" where
  "work_row ti wpos = (let w = ti_driving ti ! wpos in (dw_contno w, dw_jobtype w, dw_qc w))"

definition is_free_now :: "tick_input \<Rightarrow> nat \<Rightarrow> bool" where
  "is_free_now ti vi = fst (veh_info (ti_pool_class ti) (ti_reliability ti) (ti_vehicles ti ! vi))"

definition new_orders :: "travel \<Rightarrow> held_map \<Rightarrow> tick_input \<Rightarrow> sent_row list option" where
  "new_orders cost held ti =
     map_option (\<lambda>(slots, assign).
         assign_rows held (is_free_now ti) (\<lambda>vi. v_ytno (ti_vehicles ti ! vi)) (work_row ti) assign)
       (match_round (length (ti_vehicles ti)) (caps ti) (build_edges cost held ti))"

section \<open>Edges respect the holds and stay cheap\<close>

definition travel_ok :: "travel \<Rightarrow> bool" where
  "travel_ok cost \<longleftrightarrow> (\<forall>a b c d ld. 0 \<le> fst (cost a b c d ld))"

lemma soon_free_range: "soon_free_quantile fracs p = Some s \<Longrightarrow> 60 \<le> s \<and> s \<le> 1800"
proof -
  assume "soon_free_quantile fracs p = Some s"
  then obtain f where "List.find (\<lambda>(s, f). f \<ge> p) (zip SOON_FREE_POINTS fracs) = Some (s, f)"
    by (auto simp: soon_free_quantile_def)
  then have "(s, f) \<in> set (zip SOON_FREE_POINTS fracs)" by (metis find_Some_iff nth_mem)
  then have "s \<in> set SOON_FREE_POINTS" by (rule set_zip_leftD)
  then show ?thesis by (auto simp: SOON_FREE_POINTS_def)
qed

lemma veh_info_remain: "veh_info pc rel v = (free, Some r, jt) \<Longrightarrow> 0 \<le> r \<and> r \<le> 1800 \<and> (free \<longrightarrow> r = 0)"
  using soon_free_range
  by (auto simp: veh_info_def Let_def bind_eq_Some_conv split: if_splits) fastforce+

lemma switch_pen_range: "0 \<le> switch_pen ti v w \<and> switch_pen ti v w \<le> 1200"
  by (auto simp: switch_pen_def COMMIT_LOCK_S_def SWITCH_PENALTY_S_def split: option.splits)

lemma edge_cell_Some:
  assumes "fst (edge_cell cost held ti wpos w vi v) = Some e" "travel_ok cost"
  shows "\<exists>c. e = (vi, wpos, c) \<and> 0 \<le> c \<and> c \<le> 4799 \<and>
    edge_allowed_by_hold (map_option h_contno (map_of held (v_ytno v))) (dw_contno w)
      (is_some_and (dw_contno w) (\<lambda>c. c \<in> (h_contno \<circ> snd) ` set held))"
proof -
  obtain free remain jt where vi: "veh_info (ti_pool_class ti) (ti_reliability ti) v = (free, remain, jt)" by (metis prod_cases3)
  obtain r where r: "remain = Some r" using assms(1) vi by (auto simp: edge_cell_def Let_def split: prod.splits if_splits)
  have rr: "0 \<le> r" "r \<le> 1800" using veh_info_remain vi r by auto
  define pos where "pos = (if free then (v_lat v, v_lon v)
    else (case ti_drop_pos ti (v_ytno v) of Some p \<Rightarrow> p | None \<Rightarrow> (v_lat v, v_lon v)))"
  obtain p50 p90 tier where p: "cost (fst pos) (snd pos) (dw_lat w) (dw_lon w) (dw_jobtype w = ''LD'') = (p50, p90, tier)"
    by (metis prod_cases3)
  have p0: "0 \<le> p50" using assms(2) p unfolding travel_ok_def by (metis fst_conv)
  show ?thesis
    using assms(1) vi r rr p p0 switch_pen_range[of ti v w] unfolding edge_cell_def pos_def[symmetric]
    by (auto simp: Let_def split_beta pos_def[symmetric] split: if_splits)
qed


lemma in_enumerate: "(i, x) \<in> set (enumerate 0 xs) \<longleftrightarrow> i < length xs \<and> x = xs ! i"
  by (auto simp: in_set_enumerate_eq)

lemma build_edges_mem:
  assumes "e \<in> set (build_edges cost held ti)"
  shows "\<exists>wpos vi. wpos < length (ti_driving ti) \<and> vi < length (ti_vehicles ti) \<and>
    fst (edge_cell cost held ti wpos (ti_driving ti ! wpos) vi (ti_vehicles ti ! vi)) = Some e"
  using assms unfolding build_edges_def by (force simp: set_map_filter in_enumerate)

lemma build_edges_allowed:
  assumes "(vi, wpos, c) \<in> set (build_edges cost held ti)" "travel_ok cost"
  shows "wpos < length (ti_driving ti) \<and> vi < length (ti_vehicles ti) \<and> 0 \<le> c \<and> c \<le> 4799 \<and>
    edge_allowed_by_hold (map_option h_contno (map_of held (v_ytno (ti_vehicles ti ! vi)))) (dw_contno (ti_driving ti ! wpos))
      (is_some_and (dw_contno (ti_driving ti ! wpos)) (\<lambda>c. c \<in> (h_contno \<circ> snd) ` set held))"
proof -
  obtain wpos' vi' where "wpos' < length (ti_driving ti)" "vi' < length (ti_vehicles ti)"
    "fst (edge_cell cost held ti wpos' (ti_driving ti ! wpos') vi' (ti_vehicles ti ! vi')) = Some (vi, wpos, c)"
    using build_edges_mem[OF assms(1)] by blast
  then show ?thesis using edge_cell_Some[OF _ assms(2)] by fastforce
qed

lemma build_edges_costs_ok:
  assumes "travel_ok cost" "length (ti_vehicles ti) \<le> 200000"
  shows "costs_ok (length (ti_vehicles ti)) wp (build_edges cost held ti) 4799"
proof -
  let ?k = "min (length (ti_vehicles ti)) (length wp)"
  have "int ?k \<le> 200000" using assms(2) by auto
  then have "int ?k * 4799 < 1000000000" "2 * 1000000000 * (int ?k + 1) < INF_I64" by (auto simp: INF_I64_def)
  then show ?thesis using build_edges_allowed[OF _ assms(1)] unfolding costs_ok_def FORBIDDEN_COST_def by fastforce
qed

lemma new_orders_ok:
  assumes cost: "travel_ok cost" and n: "length (ti_vehicles ti) \<le> 200000"
    and yt: "distinct (map v_ytno (ti_vehicles ti))"
  shows "\<exists>rows. new_orders cost held ti = Some rows \<and> distinct (map r_ytno rows) \<and>
    (\<forall>r \<in> set rows. map_of held (r_ytno r) = None \<and> r_contno r \<notin> (h_contno \<circ> snd) ` set held \<and>
       (\<exists>vi < length (ti_vehicles ti). v_ytno (ti_vehicles ti ! vi) = r_ytno r \<and> is_free_now ti vi))"
proof -
  let ?n = "length (ti_vehicles ti)" and ?edges = "build_edges cost held ti" and ?yt = "\<lambda>vi. v_ytno (ti_vehicles ti ! vi)"
  obtain slots assign where m: "match_round ?n (caps ti) ?edges = Some (slots, assign)" "distinct (map fst assign)"
    "\<forall>(t, w) \<in> set assign. t < ?n \<and> (\<exists>c. (t, w, c) \<in> set ?edges)"
    using match_round_full[OF build_edges_costs_ok[OF cost n], of "caps ti" held] by auto
  let ?rows = "assign_rows held (is_free_now ti) ?yt (work_row ti) assign"
  have "inj_on ?yt (fst ` set assign)"
  proof (rule inj_onI)
    fix x y assume xy: "x \<in> fst ` set assign" "y \<in> fst ` set assign" "?yt x = ?yt y"
    then have "x < ?n" "y < ?n" using m(3) by auto
    then show "x = y" using xy(3) nth_eq_iff_index_eq[OF yt, of x y] by simp
  qed
  then have "distinct (map (?yt \<circ> fst) assign)" using m(2) by (metis distinct_map list.map_comp set_map)
  then have "distinct (map r_ytno ?rows)" by (rule assign_rows_distinct)
  moreover have "map_of held (r_ytno r) = None \<and> r_contno r \<notin> (h_contno \<circ> snd) ` set held" if "r \<in> set ?rows" for r
  proof (rule assign_rows_unheld[OF that])
    fix vi wpos assume "(vi, wpos) \<in> set assign"
    then obtain c where "(vi, wpos, c) \<in> set ?edges" using m(3) by blast
    from build_edges_allowed[OF this cost]
    show "edge_allowed_by_hold (map_option h_contno (map_of held (?yt vi))) (fst (work_row ti wpos))
        (is_some_and (fst (work_row ti wpos)) (\<lambda>c. c \<in> (h_contno \<circ> snd) ` set held))"
      by (simp add: work_row_def Let_def)
  qed
  moreover have "\<exists>vi<?n. ?yt vi = r_ytno r \<and> is_free_now ti vi" if "r \<in> set ?rows" for r
  proof -
    obtain vi wpos where "(vi, wpos) \<in> set assign" "assign_row held (is_free_now ti) ?yt (work_row ti) vi wpos = Some r"
      using \<open>r \<in> set ?rows\<close> unfolding assign_rows_mem by blast
    then show ?thesis using m(3) by (auto simp: assign_row_Some)
  qed
  ultimately show ?thesis using m(1) by (simp add: new_orders_def)
qed

section \<open>The baseline\<close>

lemma greedy_take_sub:
  "(vi, w) \<in> set (greedy_take edges wpos limit used) \<Longrightarrow> w = wpos \<and> vi \<notin> used \<and> (\<exists>c. (vi, wpos, c) \<in> set edges)"
  by (auto simp: greedy_take_def split: if_splits dest!: in_set_takeD)

lemma greedy_take_length: "length (greedy_take edges wpos limit used) \<le> nat limit"
  by (simp add: greedy_take_def)

lemma edges_of_group_distinct:
  assumes "distinct (map (\<lambda>(vi, wp, c). (vi, wp)) (edges :: (nat \<times> nat \<times> int) list))"
  shows "distinct (map fst (map (\<lambda>(vi, wp, c). (vi, c)) (filter (\<lambda>(vi, wp, c). wp = wpos) edges)))"
proof -
  let ?e = "filter (\<lambda>(vi, wp, c). wp = wpos) edges"
  have "map (\<lambda>(vi, wp, c). (vi, wp)) ?e = map (\<lambda>vi. (vi, wpos)) (map fst ?e)" by auto
  moreover have "distinct (map (\<lambda>(vi, wp, c). (vi, wp)) ?e)" using assms by (rule distinct_map_filter)
  ultimately have "distinct (map (\<lambda>vi. (vi, wpos)) (map fst ?e))" by (simp only:)
  then have "distinct (map fst ?e)" unfolding distinct_map[of "\<lambda>vi. (vi, wpos)"] by blast
  moreover have "map fst (map (\<lambda>(vi, wp, c). (vi, c)) ?e) = map fst ?e" by auto
  ultimately show ?thesis by (simp only:)
qed

lemma distinct_map_sort: "distinct (map f xs) \<Longrightarrow> distinct (map f (sort_key k xs))"
  by (metis mset_map mset_sort mset_eq_imp_distinct_iff)

lemma greedy_take_distinct:
  assumes "distinct (map (\<lambda>(vi, wp, c). (vi, wp)) edges)"
  shows "distinct (map fst (greedy_take edges wpos limit used))"
proof -
  let ?e = "map (\<lambda>(vi, wp, c). (vi, c)) (filter (\<lambda>(vi, wp, c). wp = wpos) edges)"
  let ?f = "sort_key snd (filter (\<lambda>(vi, c). vi \<notin> used) ?e)"
  have "distinct (map fst ?f)"
    by (intro distinct_map_sort distinct_map_filter edges_of_group_distinct assms)
  then have "distinct (take (nat limit) (map fst ?f))" by (rule distinct_take)
  then have "distinct (map fst (take (nat limit) ?f))" by (simp only: take_map)
  moreover have "map fst (map (\<lambda>(vi, c). (vi, wpos)) xs) = map fst xs" for xs :: "(nat \<times> int) list" by auto
  ultimately show ?thesis by (simp add: greedy_take_def del: map_map)
qed

lemma greedy_loop_ok:
  assumes "distinct (map (\<lambda>(vi, wp, c). (vi, wp)) edges)" "distinct (map fst ws)"
  shows "distinct (map fst (greedy_loop edges ws used)) \<and>
    (\<forall>vi w. (vi, w) \<in> set (greedy_loop edges ws used) \<longrightarrow> vi \<notin> used \<and> w \<in> fst ` set ws \<and> (\<exists>c. (vi, w, c) \<in> set edges)) \<and>
    (\<forall>w l. (w, l) \<in> set ws \<longrightarrow> count (mset (map snd (greedy_loop edges ws used))) w \<le> nat l)"
  using assms
proof (induction edges ws used rule: greedy_loop.induct)
  case (2 edges wpos limit ws used)
  let ?got = "greedy_take edges wpos limit used"
  let ?rest = "greedy_loop edges ws (used \<union> fst ` set ?got)"
  have e: "greedy_loop edges ((wpos, limit) # ws) used = ?got @ ?rest" by (simp add: Let_def)
  have IH: "distinct (map fst ?rest)"
    "\<And>vi w. (vi, w) \<in> set ?rest \<Longrightarrow> vi \<notin> used \<union> fst ` set ?got \<and> w \<in> fst ` set ws \<and> (\<exists>c. (vi, w, c) \<in> set edges)"
    "\<And>w l. (w, l) \<in> set ws \<Longrightarrow> count (mset (map snd ?rest)) w \<le> nat l"
    using 2(1)[OF refl 2(2)] 2(3) by auto
  have new: "wpos \<notin> fst ` set ws" using 2(3) by simp
  have d: "distinct (map fst (?got @ ?rest))"
  proof -
    have "x \<notin> fst ` set ?got" if "x \<in> fst ` set ?rest" for x using that IH(2) by force
    then show ?thesis using greedy_take_distinct[OF 2(2), of wpos limit used] IH(1) by auto
  qed
  have snd_got: "w = wpos" if "w \<in> set (map snd ?got)" for w using that greedy_take_sub by fastforce
  have "count (mset (map snd ?rest)) wpos = 0"
  proof -
    have "wpos \<notin> set (map snd ?rest)" using IH(2) new by force
    then show ?thesis by (metis count_eq_zero_iff set_mset_mset)
  qed
  moreover have "count (mset (map snd ?got)) wpos \<le> nat limit"
    using greedy_take_length[of edges wpos limit used] by (metis count_le_size order_trans size_mset length_map)
  moreover have "count (mset (map snd ?got)) w = 0" if "w \<noteq> wpos" for w
    using that snd_got by (metis count_eq_zero_iff set_mset_mset)
  ultimately have c: "count (mset (map snd (?got @ ?rest))) w \<le> nat l" if "(w, l) \<in> set ((wpos, limit) # ws)" for w l
    using that IH(3)[of w l] new by (cases "w = wpos") force+
  show ?case unfolding e
    using d c IH(2) greedy_take_sub[of _ _ edges wpos limit used] by (intro conjI allI impI) fastforce+
qed simp

text \<open>Pairs of distinct trucks whose work groups fit into the slots give a set of slots that can be served together.\<close>

lemma pairs_coverable:
  assumes "distinct (map fst P)" "mset (map snd P) \<subseteq># mset wp"
    "\<And>vi w. (vi, w) \<in> set P \<Longrightarrow> vi < n \<and> (\<exists>c. (vi, w, c) \<in> set edges)"
  shows "\<exists>X f. X \<subseteq> {..<length wp} \<and> card X = length P \<and> inj_on f X \<and> f ` X = fst ` set P \<and>
    (\<forall>s \<in> X. (f s, wp ! s) \<in> set P) \<and> (\<forall>w. card {s \<in> X. wp ! s = w} = count (mset (map snd P)) w)"
  using assms(1,2)
proof (induction P)
  case Nil
  then show ?case by (intro exI[of _ "{}"]) auto
next
  case (Cons p P)
  obtain vi w where p: "p = (vi, w)" by (cases p)
  have "mset (map snd P) \<subseteq># mset wp" using Cons.prems(2) by (metis list.simps(9) mset.simps(2) mset_subset_eq_insertD subset_mset.less_imp_le)
  then obtain X f where X: "X \<subseteq> {..<length wp}" "card X = length P" "inj_on f X" "f ` X = fst ` set P"
    "\<forall>s \<in> X. (f s, wp ! s) \<in> set P" "\<forall>w. card {s \<in> X. wp ! s = w} = count (mset (map snd P)) w"
    using Cons.IH Cons.prems(1) by auto
  have fin: "finite X" using X(1) finite_subset by blast
  have "count (mset (map snd P)) w < count (mset wp) w"
    using Cons.prems(2) p by (metis Suc_le_lessD count_add_mset list.simps(9) mset.simps(2) mset_subset_eq_count snd_conv)
  also have "count (mset wp) w = card {s. s < length wp \<and> wp ! s = w}"
    by (simp add: count_mset count_list_eq_length_filter length_filter_conv_card) (auto intro: arg_cong[where f = card])
  finally have "card {s \<in> X. wp ! s = w} < card {s. s < length wp \<and> wp ! s = w}" using X(6) by simp
  then have "\<not> {s. s < length wp \<and> wp ! s = w} \<subseteq> {s \<in> X. wp ! s = w}"
    using fin by (metis (no_types, lifting) card_mono finite_subset linorder_not_le mem_Collect_eq subsetI)
  then obtain s where s: "s < length wp" "wp ! s = w" "s \<notin> X" by blast
  let ?f = "f(s := vi)" and ?X = "insert s X"
  have img: "?f ` X = f ` X" using s(3) by auto
  have "vi \<notin> fst ` set P" using Cons.prems(1) p by simp
  then have "inj_on ?f ?X" using X(3,4) s(3) img by (auto simp: inj_on_def)
  moreover have "card {x \<in> ?X. wp ! x = u} = count (mset (map snd (p # P))) u" for u
  proof -
    have "{x \<in> ?X. wp ! x = u} = (if u = w then insert s {x \<in> X. wp ! x = u} else {x \<in> X. wp ! x = u})" using s by auto
    then show ?thesis using X(6) s(3) fin p by simp
  qed
  moreover have "?f ` ?X = fst ` set (p # P)" using img X(4) p by auto
  moreover have "\<forall>x \<in> ?X. (?f x, wp ! x) \<in> set (p # P)" using X(5) s p by auto
  moreover have "card ?X = length (p # P)" "?X \<subseteq> {..<length wp}" using X(1,2) s fin by auto
  ultimately show ?case by blast
qed


lemma distinct_map_filter_key:
  assumes "distinct (map k xs)" "\<And>x y. g x = Some y \<Longrightarrow> k' y = k x"
  shows "distinct (map k' (List.map_filter g xs))"
  using assms(1)
proof (induction xs)
  case (Cons x xs)
  have "k' y \<noteq> k x" if y: "y \<in> set (List.map_filter g xs)" for y
  proof -
    obtain z where "z \<in> set xs" "g z = Some y" using y by (auto simp: set_map_filter)
    then show ?thesis using Cons.prems assms(2)[of z y] by (metis distinct.simps(2) image_eqI list.set_map list.simps(9))
  qed
  then have "k x \<notin> k' ` set (List.map_filter g xs)" by (metis imageE)
  then show ?case using Cons assms(2)[of x] by (cases "g x") (simp_all add: map_filter_Cons)
qed simp

lemma distinct_concat_key:
  assumes "distinct (map k xs)" "\<And>x. x \<in> set xs \<Longrightarrow> distinct (map f (h x))"
    "\<And>x y. x \<in> set xs \<Longrightarrow> y \<in> set (h x) \<Longrightarrow> g (f y) = k x"
  shows "distinct (map f (concat (map h xs)))"
  using assms
proof (induction xs)
  case (Cons x xs)
  have "f y \<notin> f ` set (concat (map h xs))" if y: "y \<in> set (h x)" for y
  proof
    assume "f y \<in> f ` set (concat (map h xs))"
    then obtain x' y' where "x' \<in> set xs" "y' \<in> set (h x')" "f y = f y'" by auto
    then have "k x = k x'" using Cons.prems(3)[of x y] Cons.prems(3)[of x' y'] y by simp
    then show False using Cons.prems(1) \<open>x' \<in> set xs\<close> by simp
  qed
  moreover have "distinct (map f (concat (map h xs)))" by (rule Cons.IH) (use Cons.prems in auto)
  ultimately show ?case using Cons.prems(2) by auto
qed simp

lemma distinct_fst_enumerate: "distinct (map fst (enumerate 0 xs))"
  by (simp add: enumerate_eq_zip)

lemma build_edges_distinct:
  assumes "travel_ok cost"
  shows "distinct (map (\<lambda>(vi, wp, c). (vi, wp)) (build_edges cost held ti))"
  unfolding build_edges_def
proof (rule distinct_concat_key[where k = fst and g = snd])
  show "distinct (map fst (enumerate 0 (ti_driving ti)))" by (rule distinct_fst_enumerate)
next
  fix x assume "x \<in> set (enumerate 0 (ti_driving ti))"
  obtain wpos w where x: "x = (wpos, w)" by (cases x)
  let ?es = "List.map_filter (\<lambda>(vi, v). fst (edge_cell cost held ti wpos w vi v)) (enumerate 0 (ti_vehicles ti))"
  have key: "(case y of (vi, wp, c) \<Rightarrow> vi) = fst z" if "(case z of (vi, v) \<Rightarrow> fst (edge_cell cost held ti wpos w vi v)) = Some y" for z y
    using that edge_cell_Some[OF _ assms] by (cases z) fastforce
  have "distinct (map (\<lambda>(vi, wp, c). vi) ?es)"
    by (rule distinct_map_filter_key[OF distinct_fst_enumerate key])
  moreover have "map (\<lambda>(vi, wp, c). vi) ?es = map fst (map (\<lambda>(vi, wp, c). (vi, wp)) ?es)" by auto
  ultimately have "distinct (map (\<lambda>(vi, wp, c). (vi, wp)) ?es)" by (simp only: distinct_map)
  then show "distinct (map (\<lambda>(vi, wp, c). (vi, wp)) (case x of (wpos, w) \<Rightarrow>
      List.map_filter (\<lambda>(vi, v). fst (edge_cell cost held ti wpos w vi v)) (enumerate 0 (ti_vehicles ti))))"
    using x by simp
next
  fix x y assume xy: "x \<in> set (enumerate 0 (ti_driving ti))"
    "y \<in> set (case x of (wpos, w) \<Rightarrow>
      List.map_filter (\<lambda>(vi, v). fst (edge_cell cost held ti wpos w vi v)) (enumerate 0 (ti_vehicles ti)))"
  obtain wpos w where x: "x = (wpos, w)" by (cases x)
  then obtain vi v where "fst (edge_cell cost held ti wpos w vi v) = Some y" using xy(2) by (auto simp: set_map_filter)
  then show "snd (case y of (vi, wp, c) \<Rightarrow> (vi, wp)) = fst x" using edge_cell_Some[OF _ assms] x by fastforce
qed

lemma count_slot_all: "w < length cs \<Longrightarrow> count (mset (slot_all cs)) w = nat (max (cs ! w) 0)"
proof (induction cs rule: rev_induct)
  case (snoc c cs)
  have e: "slot_all (cs @ [c]) = slot_all cs @ replicate (nat (max c 0)) (length cs)"
    by (simp add: slot_all_def enumerate_append_eq)
  have "set (slot_all cs) \<subseteq> {..<length cs}" by (auto simp: slot_all_def in_enumerate)
  then have "count (mset (slot_all cs)) (length cs) = 0" by (metis count_eq_zero_iff lessThan_iff less_irrefl set_mset_mset subsetD)
  then show ?case using snoc e by (cases "w = length cs") (auto simp: nth_append)
qed simp

lemma covered_slots_card: "length cov = length wp \<Longrightarrow> length (covered_slots wp cov) = card (marked cov (length wp))"
proof -
  assume "length cov = length wp"
  then have "length (covered_slots wp cov) = length (filter (nth cov) [0..<length wp])" by (simp add: covered_slots_nth)
  also have "\<dots> = card (set (filter (nth cov) [0..<length wp]))" by (rule distinct_card[symmetric]) simp
  also have "set (filter (nth cov) [0..<length wp]) = marked cov (length wp)" by (auto simp: marked_def)
  finally show ?thesis .
qed

lemma baseline_le_round:
  assumes d: "distinct (map (\<lambda>(vi, wp, c). (vi, wp)) edges)" and rng: "\<And>vi w c. (vi, w, c) \<in> set edges \<Longrightarrow> vi < n"
    and ok: "costs_ok n (slot_all cs) edges B" "0 \<le> B" and r: "match_round n cs edges = Some (slots, assign)"
  shows "length (greedy_baseline edges cs) \<le> length assign"
proof -
  let ?P = "greedy_baseline edges cs" and ?wp = "slot_all cs"
  have G: "distinct (map fst ?P)"
    "\<And>vi w. (vi, w) \<in> set ?P \<Longrightarrow> w < length cs \<and> (\<exists>c. (vi, w, c) \<in> set edges)"
    "\<And>w. w < length cs \<Longrightarrow> count (mset (map snd ?P)) w \<le> nat (cs ! w)"
    using greedy_loop_ok[OF d distinct_fst_enumerate, of cs "{}"] unfolding greedy_baseline_def
    by (auto simp: in_enumerate image_iff Bex_def)
  have "mset (map snd ?P) \<subseteq># mset ?wp"
  proof (rule mset_subset_eqI)
    fix w
    show "count (mset (map snd ?P)) w \<le> count (mset ?wp) w"
    proof (cases "w < length cs")
      case True
      then show ?thesis using G(3)[OF True] count_slot_all[OF True] by simp
    next
      case False
      then have "w \<notin> set (map snd ?P)" using G(2) by force
      then show ?thesis by (metis count_eq_zero_iff set_mset_mset zero_le)
    qed
  qed
  then obtain X f where X: "X \<subseteq> {..<length ?wp}" "card X = length ?P" "inj_on f X" "\<forall>s \<in> X. (f s, ?wp ! s) \<in> set ?P"
    using pairs_coverable[OF G(1), of ?wp n edges] G(2) rng by blast
  then have "coverable n ?wp edges X" unfolding coverable_def connects_def using G(2) rng by blast
  moreover obtain cov where cov: "deadline_cover n ?wp edges = Some cov" "slots = covered_slots ?wp cov"
    "mset (map snd assign) = mset slots" using match_round_full[OF ok] r by auto
  moreover have "length cov = length ?wp" using deadline_cover_greedy[of n ?wp edges] cov(1) by auto
  ultimately have "card X \<le> length slots" using deadline_cover_maximum covered_slots_card by metis
  moreover have "length assign = length slots" using cov(3) by (metis length_map mset_eq_length)
  ultimately show ?thesis using X(2) by simp
qed

section \<open>Properties\<close>

text \<open>
  C1. No second order: the orders of a tick go to trucks that are free now, each to a different truck,
  and neither their truck nor their box is held by an order sent before.
\<close>

theorem orders_respect_holds:
  assumes "travel_ok cost" "length (ti_vehicles ti) \<le> 200000" "distinct (map v_ytno (ti_vehicles ti))"
  shows "\<exists>rows. new_orders cost held ti = Some rows \<and> distinct (map r_ytno rows) \<and>
    (\<forall>r \<in> set rows. map_of held (r_ytno r) = None \<and> r_contno r \<notin> (h_contno \<circ> snd) ` set held \<and>
       (\<exists>vi < length (ti_vehicles ti). v_ytno (ti_vehicles ti ! vi) = r_ytno r \<and> is_free_now ti vi))"
  using assms by (rule new_orders_ok)

definition demo_tick :: tick_input where
  "demo_tick = \<lparr>ti_now = 0, ti_prev = Map.empty, ti_eta_by_key = Map.empty, ti_drop_pos = Map.empty,
     ti_pool_class = Map.empty, ti_reliability = Map.empty, ti_lead_extra = Map.empty,
     ti_vehicles = [\<lparr>v_ytno = ''TT1'', v_lat = 0, v_lon = 0, v_free_in = 0, v_state = ''free_tos''\<rparr>],
     ti_driving = [\<lparr>dw_contno = Some ''C1'', dw_jobtype = ''LD'', dw_qc = ''QC1'', dw_key = (''QC1'', ''V'', ''Q''),
                    dw_lat = 0, dw_lon = 0, dw_cap = 1, dw_deadline = 0\<rparr>]\<rparr>"

theorem orders_respect_holds_witness:
  "\<exists>rows. new_orders (\<lambda>_ _ _ _ _. (60, 90, ''L1'')) [] demo_tick = Some rows \<and> distinct (map r_ytno rows)"
  using orders_respect_holds[of "\<lambda>_ _ _ _ _. (60, 90, ''L1'')" demo_tick "[]"]
  by (auto simp: travel_ok_def demo_tick_def)

text \<open>
  C28. The greedy baseline, which sees the same edges, never serves more slots than the matching: a
  saving in travel time is never bought with fewer trucks sent.
\<close>

theorem baseline_never_serves_more:
  assumes "travel_ok cost" "length (ti_vehicles ti) \<le> 200000"
    "match_round (length (ti_vehicles ti)) (caps ti) (build_edges cost held ti) = Some (slots, assign)"
  shows "length (greedy_baseline (build_edges cost held ti) (caps ti)) \<le> length assign"
proof (rule baseline_le_round[OF build_edges_distinct[OF assms(1)] _ build_edges_costs_ok[OF assms(1,2)] _ assms(3)])
  show "\<And>vi w c. (vi, w, c) \<in> set (build_edges cost held ti) \<Longrightarrow> vi < length (ti_vehicles ti)"
    using build_edges_allowed[OF _ assms(1)] by blast
qed simp

theorem baseline_never_serves_more_witness:
  "\<exists>slots assign. match_round 1 (caps demo_tick) (build_edges (\<lambda>_ _ _ _ _. (60, 90, ''L1'')) [] demo_tick) = Some (slots, assign) \<and>
     length (greedy_baseline (build_edges (\<lambda>_ _ _ _ _. (60, 90, ''L1'')) [] demo_tick) (caps demo_tick)) \<le> length assign"
proof -
  let ?cost = "\<lambda>_ _ _ _ _. (60, 90, ''L1'')"
  have c: "travel_ok ?cost" "length (ti_vehicles demo_tick) \<le> 200000" "length (ti_vehicles demo_tick) = 1"
    by (simp_all add: travel_ok_def demo_tick_def)
  obtain slots assign where m: "match_round 1 (caps demo_tick) (build_edges ?cost [] demo_tick) = Some (slots, assign)"
    using match_round_full[OF build_edges_costs_ok[OF c(1,2)], of "caps demo_tick" "[]"] c(3) by auto
  then show ?thesis using baseline_never_serves_more[OF c(1,2)] c(3) by auto
qed

end
