(* ===== verification/TosAvail.thy ===== *)
theory TosAvail
  imports Holds "HOL-Library.Option_ord"
begin

text \<open>
  The reconstruction of the terminal's list of dispatchable trucks
  (\<^verbatim>\<open>src/crates/extractor/src/tos_avail.rs\<close>): the state of one moment, the change records applied commit
  by commit, the replay from the last snapshot (the anchor) to the new one, the parsing of the fetched
  rows and the stored form of the anchor.

  Times are microseconds. A hash map is an association list; \<^verbatim>\<open>BTreeSet\<close> is a set that is listed in
  order, \<^verbatim>\<open>BTreeMap\<close> of commits the list of commits in the order of their numbers. The date parser of
  the \<^verbatim>\<open>chrono\<close> crate is a parameter of \<^verbatim>\<open>parse_myt\<close>.
\<close>

section \<open>State and free set\<close>

definition BUSY :: "string list" where
  "BUSY = [''A'', ''B'', ''F'', ''R'', ''X'', ''Q'']"

definition MIN_MACHINES :: nat where
  "MIN_MACHINES = 100"

definition MIN_ON_FOR_BUSY_GUARD :: nat where
  "MIN_ON_FOR_BUSY_GUARD = 50"

type_synonym row_key = "string \<times> string \<times> string"

record job_row =
  j_ytno :: "string option"
  j_ys :: string

record machine =
  m_onoff :: string
  m_pool :: "string option"

record avail_state =
  a_rows :: "(row_key \<times> job_row) list"
  a_machines :: "(string \<times> machine) list"
  a_stopped :: "string list"

definition busy_set :: "avail_state \<Rightarrow> string set" where
  "busy_set s = set (List.map_filter (\<lambda>(k, r). if j_ys r \<in> set BUSY then j_ytno r else None) (a_rows s))"

definition free_set :: "avail_state \<Rightarrow> string set" where
  "free_set s = set (map fst (filter (\<lambda>(c, m). m_onoff m = ''O'' \<and> c \<notin> set (a_stopped s) \<and> c \<notin> busy_set s) (a_machines s)))"

record logons =
  lg_on :: "(string \<times> us) list"
  lg_off :: "(string \<times> us) list"

record anchor =
  an_as_of :: us
  an_state :: avail_state
  an_scn :: nat
  an_last_ts :: us
  an_logons :: "logons option"

record change =
  ch_scn :: nat
  ch_ts :: us
  ch_ty :: char
  ch_key :: row_key
  ch_ytno :: "string option"
  ch_ys :: string
  ch_jobtype :: "string option"
  ch_program :: "string option"

record snapshot =
  sn_as_of :: us
  sn_state :: avail_state
  sn_last_on :: "(string \<times> us) list"
  sn_last_off :: "(string \<times> us) list"

record transition =
  t_ytno :: string
  t_ts :: us
  t_enter :: bool
  t_cause :: string
  t_program :: "string option"
  t_contno :: "string option"
  t_jobtype :: "string option"

record replay_result =
  re_transitions :: "transition list"
  re_replay_free :: "string set"
  re_truth_free :: "string set"
  re_n_events :: nat
  re_n_txn :: nat
  re_n_late :: nat
  re_n_logon :: nat
  re_scn :: nat
  re_last_ts :: us

section \<open>One commit\<close>

definition ty_rank :: "char \<Rightarrow> nat" where
  "ty_rank ty = (if ty = CHR ''U'' then 0 else if ty = CHR ''D'' then 1 else 2)"

definition step_ts :: "us \<Rightarrow> us \<Rightarrow> us" where
  "step_ts want prev = (if want > prev then want else prev + 1)"

record blame =
  b_took :: "(string \<times> change) list"
  b_freed :: "(string \<times> change) list"

definition apply_change :: "change \<Rightarrow> avail_state \<times> blame \<Rightarrow> avail_state \<times> blame" where
  "apply_change ev = (\<lambda>(cur, b).
     let b1 = (case Option.bind (map_of (a_rows cur) (ch_key ev)) j_ytno of
                 Some y \<Rightarrow>
                   (let still_holds = (ch_ty ev \<noteq> CHR ''D'' \<and> ch_ytno ev = Some y \<and> ch_ys ev \<in> set BUSY)
                    in if \<not> still_holds then b\<lparr>b_freed := AList.update y ev (b_freed b)\<rparr> else b)
               | None \<Rightarrow> b);
         b2 = (if ch_ty ev \<noteq> CHR ''D'' \<and> ch_ys ev \<in> set BUSY
               then (case ch_ytno ev of Some y \<Rightarrow> b1\<lparr>b_took := AList.update y ev (b_took b1)\<rparr> | None \<Rightarrow> b1)
               else b1);
         rows = (if ch_ty ev = CHR ''D'' then AList.delete (ch_key ev) (a_rows cur)
                 else AList.update (ch_key ev) \<lparr>j_ytno = ch_ytno ev, j_ys = ch_ys ev\<rparr> (a_rows cur))
     in (cur\<lparr>a_rows := rows\<rparr>, b2))"

definition apply_txn :: "avail_state \<Rightarrow> change list \<Rightarrow> avail_state \<times> blame" where
  "apply_txn cur evs = fold apply_change evs (cur, \<lparr>b_took = [], b_freed = []\<rparr>)"

definition diff_into :: "string set \<Rightarrow> string set \<Rightarrow> us \<Rightarrow> blame option \<Rightarrow> string set \<Rightarrow> bool \<Rightarrow> transition list" where
  "diff_into before after ts bl logon_changed late =
     map (\<lambda>y.
        let ev = Option.bind bl (\<lambda>b. map_of (b_freed b) y);
            cause = (if y \<in> logon_changed then ''login'' else if late then ''late'' else ''release'')
        in \<lparr>t_ytno = y, t_ts = ts, t_enter = True, t_cause = cause,
            t_program = (if cause = ''login'' then None else Option.bind ev ch_program),
            t_contno = None, t_jobtype = None\<rparr>)
       (sorted_list_of_set (after - before)) @
     map (\<lambda>y.
        let ev = (if y \<notin> logon_changed then Option.bind bl (\<lambda>b. map_of (b_took b) y) else None);
            cause = (if y \<in> logon_changed then ''logout'' else if late then ''late'' else ''dispatch'')
        in \<lparr>t_ytno = y, t_ts = ts, t_enter = False, t_cause = cause,
            t_program = Option.bind ev ch_program, t_contno = map_option (fst \<circ> ch_key) ev,
            t_jobtype = Option.bind ev ch_jobtype\<rparr>)
       (sorted_list_of_set (before - after))"

section \<open>The replay\<close>

record replay_state =
  rs_cur :: avail_state
  rs_free :: "string set"
  rs_out :: "transition list"
  rs_last :: us
  rs_late :: nat

definition is_new_logon :: "anchor \<Rightarrow> (logons \<Rightarrow> (string \<times> us) list) \<Rightarrow> string \<Rightarrow> us \<Rightarrow> bool" where
  "is_new_logon an pick c t =
     (case an_logons an of
        Some l \<Rightarrow> map_of (pick l) c \<noteq> Some t
      | None \<Rightarrow> t \<ge> an_as_of an div 1000000 * 1000000)"

definition logon_events :: "anchor \<Rightarrow> snapshot \<Rightarrow> (us \<times> string \<times> bool) list" where
  "logon_events an snap = sort
     (map (\<lambda>(c, t). (t, c, True)) (filter (\<lambda>(c, t). t \<le> sn_as_of snap \<and> is_new_logon an lg_on c t) (sn_last_on snap)) @
      map (\<lambda>(c, t). (t, c, False)) (filter (\<lambda>(c, t). t \<le> sn_as_of snap \<and> is_new_logon an lg_off c t) (sn_last_off snap)))"

definition apply_logon :: "anchor \<Rightarrow> snapshot \<Rightarrow> us \<times> string \<times> bool \<Rightarrow> replay_state \<Rightarrow> replay_state" where
  "apply_logon an snap e rs =
     (case e of (t, code, on) \<Rightarrow>
        let cur = rs_cur rs;
            was_on = is_some_and (map_of (a_machines cur) code) (\<lambda>m. m_onoff m = ''O'');
            pool = Option.bind (map_of (a_machines (sn_state snap)) code) m_pool;
            m = (case map_of (a_machines cur) code of Some m \<Rightarrow> m | None \<Rightarrow> \<lparr>m_onoff = ''F'', m_pool = pool\<rparr>);
            cur' = cur\<lparr>a_machines := AList.update code (m\<lparr>m_onoff := (if on then ''O'' else ''F'')\<rparr>) (a_machines cur)\<rparr>
        in if was_on = on then rs\<lparr>rs_cur := cur'\<rparr>
           else
             (let after = free_set cur' in
              if after \<noteq> rs_free rs
              then (let ts = step_ts (max t (an_as_of an)) (rs_last rs)
                    in rs\<lparr>rs_cur := cur', rs_last := ts, rs_free := after,
                          rs_out := rs_out rs @ diff_into (rs_free rs) after ts None {code} False\<rparr>)
              else rs\<lparr>rs_cur := cur'\<rparr>))"

fun take_logons :: "anchor \<Rightarrow> snapshot \<Rightarrow> us \<Rightarrow> (us \<times> string \<times> bool) list \<Rightarrow> replay_state \<Rightarrow> (us \<times> string \<times> bool) list \<times> replay_state" where
  "take_logons an snap g_ts [] rs = ([], rs)"
| "take_logons an snap g_ts (e # es) rs =
     (if fst e < g_ts then take_logons an snap g_ts es (apply_logon an snap e rs) else (e # es, rs))"

definition apply_group :: "anchor \<Rightarrow> us \<Rightarrow> change list \<Rightarrow> replay_state \<Rightarrow> replay_state" where
  "apply_group an g_ts evs rs =
     (let late = (g_ts \<le> an_as_of an);
          (cur', bl) = apply_txn (rs_cur rs) evs;
          after = free_set cur'
      in if after \<noteq> rs_free rs
         then (let ts = step_ts (max g_ts (an_as_of an)) (rs_last rs)
               in \<lparr>rs_cur = cur', rs_free = after,
                   rs_out = rs_out rs @ diff_into (rs_free rs) after ts (Some bl) {} late, rs_last = ts,
                   rs_late = (if late then rs_late rs + card ((after - rs_free rs) \<union> (rs_free rs - after)) else rs_late rs)\<rparr>)
         else rs\<lparr>rs_cur := cur'\<rparr>)"

fun replay_groups :: "anchor \<Rightarrow> snapshot \<Rightarrow> change list list \<Rightarrow> (us \<times> string \<times> bool) list \<Rightarrow> replay_state \<Rightarrow> replay_state" where
  "replay_groups an snap [] es rs = fold (apply_logon an snap) es rs"
| "replay_groups an snap (g # gs) es rs =
     (let evs = sort_key (\<lambda>c. (ch_ts c, ty_rank (ch_ty c))) g;
          g_ts = Max (ch_ts ` set evs);
          (es', rs') = take_logons an snap g_ts es rs
      in replay_groups an snap gs es' (apply_group an g_ts evs rs'))"

definition commits :: "nat \<Rightarrow> change list \<Rightarrow> change list list" where
  "commits scn changes =
     (let new = filter (\<lambda>c. ch_scn c > scn) changes
      in map (\<lambda>n. filter (\<lambda>c. ch_scn c = n) new) (sorted_list_of_set (ch_scn ` set new)))"

definition reconcile :: "snapshot \<Rightarrow> replay_state \<Rightarrow> replay_state" where
  "reconcile snap rs =
     (let truth = free_set (sn_state snap) in
      if truth \<noteq> rs_free rs
      then (let ts = step_ts (sn_as_of snap) (rs_last rs);
                tr = (\<lambda>enter y. \<lparr>t_ytno = y, t_ts = ts, t_enter = enter, t_cause = ''reconcile'',
                         t_program = None, t_contno = None, t_jobtype = None\<rparr>)
            in rs\<lparr>rs_last := ts,
                  rs_out := rs_out rs @ map (tr True) (sorted_list_of_set (truth - rs_free rs)) @
                                        map (tr False) (sorted_list_of_set (rs_free rs - truth))\<rparr>)
      else rs)"

definition replay_start :: "anchor \<Rightarrow> replay_state" where
  "replay_start an = \<lparr>rs_cur = an_state an, rs_free = free_set (an_state an), rs_out = [],
     rs_last = max (an_as_of an) (an_last_ts an), rs_late = 0\<rparr>"

definition replay :: "anchor \<Rightarrow> change list \<Rightarrow> snapshot \<Rightarrow> replay_result" where
  "replay an changes snap =
     (let logon = logon_events an snap;
          txns = commits (an_scn an) changes;
          rs = replay_groups an snap txns logon (replay_start an);
          fin = reconcile snap rs
      in \<lparr>re_transitions = rs_out fin, re_replay_free = rs_free rs, re_truth_free = free_set (sn_state snap),
          re_n_events = sum_list (map length txns), re_n_txn = length txns, re_n_late = rs_late rs,
          re_n_logon = length logon,
          re_scn = max (foldl max 0 (map ch_scn changes)) (an_scn an), re_last_ts = rs_last fin\<rparr>)"


section \<open>Fetched rows\<close>

record raw_row =
  w_k :: string
  w_a :: "string option"
  w_b :: "string option"
  w_c :: "string option"
  w_d :: "string option"
  w_e :: "string option"
  w_f :: "string option"
  w_g :: "string option"
  w_h :: "string option"
  w_i :: "string option"
  w_j :: "string option"

definition is_space :: "char \<Rightarrow> bool" where
  "is_space c \<longleftrightarrow> c \<in> {CHR '' '', CHR 0x09, CHR 0x0A, CHR 0x0B, CHR 0x0C, CHR 0x0D}"

definition trim :: "string \<Rightarrow> string" where
  "trim s = rev (dropWhile is_space (rev (dropWhile is_space s)))"

definition clean :: "string option \<Rightarrow> string option" where
  "clean s = (case s of None \<Rightarrow> None | Some x \<Rightarrow> let t = trim x in if t = [] then None else Some t)"

definition is_digit :: "char \<Rightarrow> bool" where
  "is_digit c \<longleftrightarrow> 48 \<le> (of_char c :: nat) \<and> (of_char c :: nat) \<le> 57"

definition digits_nat :: "string \<Rightarrow> nat" where
  "digits_nat s = foldl (\<lambda>n c. n * 10 + (of_char c - 48)) 0 s"

definition parse_u64 :: "string \<Rightarrow> nat option" where
  "parse_u64 s =
     (let d = (case s of c # cs \<Rightarrow> if c = CHR ''+'' then cs else s | [] \<Rightarrow> s)
      in if d \<noteq> [] \<and> list_all is_digit d \<and> digits_nat d < 2 ^ 64 then Some (digits_nat d) else None)"

text \<open>\<^verbatim>\<open>naive\<close> parses fourteen digits as a local time and gives the UTC time, \<^verbatim>\<open>None\<close> when it is no date.\<close>

definition parse_myt :: "(string \<Rightarrow> us option) \<Rightarrow> string \<Rightarrow> us option" where
  "parse_myt naive raw =
     (let s = trim raw in
      if length s < 14 \<or> \<not> list_all is_digit (take 14 s) then None
      else case naive (take 14 s) of
        None \<Rightarrow> None
      | Some t \<Rightarrow>
          if length s \<ge> 17 \<and> list_all is_digit (take 3 (drop 14 s))
          then Some (t + int (digits_nat (take 3 (drop 14 s))) * 1000)
          else Some t)"

record fetch_acc =
  f_as_of :: "us option"
  f_state :: avail_state
  f_last_on :: "(string \<times> us) list"
  f_last_off :: "(string \<times> us) list"
  f_changes :: "change list"
  f_bad :: nat

definition unwrap_or :: "'a option \<Rightarrow> 'a \<Rightarrow> 'a" where
  "unwrap_or x d = (case x of None \<Rightarrow> d | Some a \<Rightarrow> a)"

definition first_char :: "string option \<Rightarrow> char option" where
  "first_char s = Option.bind s (\<lambda>x. case trim x of [] \<Rightarrow> None | c # _ \<Rightarrow> Some c)"

definition put_machine :: "(string \<Rightarrow> us option) \<Rightarrow> raw_row \<Rightarrow> fetch_acc \<Rightarrow> fetch_acc" where
  "put_machine naive r acc =
     (case clean (w_a r) of
        None \<Rightarrow> acc
      | Some code \<Rightarrow>
          acc\<lparr>f_last_on := (case Option.bind (w_e r) (parse_myt naive) of
                              Some t \<Rightarrow> AList.update code t (f_last_on acc) | None \<Rightarrow> f_last_on acc),
              f_last_off := (case Option.bind (w_f r) (parse_myt naive) of
                              Some t \<Rightarrow> AList.update code t (f_last_off acc) | None \<Rightarrow> f_last_off acc),
              f_state := (f_state acc)\<lparr>a_machines :=
                 AList.update code \<lparr>m_onoff = unwrap_or (clean (w_c r)) [], m_pool = clean (w_d r)\<rparr> (a_machines (f_state acc))\<rparr>\<rparr>)"

definition put_row :: "raw_row \<Rightarrow> fetch_acc \<Rightarrow> fetch_acc" where
  "put_row r acc =
     (case (clean (w_a r), clean (w_b r)) of
        (Some contno, Some point) \<Rightarrow>
          acc\<lparr>f_state := (f_state acc)\<lparr>a_rows :=
             AList.update (contno, point, unwrap_or (clean (w_c r)) [])
               \<lparr>j_ytno = clean (w_d r), j_ys = unwrap_or (clean (w_e r)) ''X''\<rparr> (a_rows (f_state acc))\<rparr>\<rparr>
      | _ \<Rightarrow> acc)"

definition put_stop :: "raw_row \<Rightarrow> fetch_acc \<Rightarrow> fetch_acc" where
  "put_stop r acc =
     (case clean (w_a r) of
        None \<Rightarrow> acc
      | Some code \<Rightarrow> acc\<lparr>f_state := (f_state acc)\<lparr>a_stopped := List.insert code (a_stopped (f_state acc))\<rparr>\<rparr>)"

definition put_change :: "(string \<Rightarrow> us option) \<Rightarrow> raw_row \<Rightarrow> fetch_acc \<Rightarrow> fetch_acc" where
  "put_change naive r acc =
     (case (Option.bind (w_a r) (parse_myt naive), first_char (w_b r), clean (w_c r), clean (w_d r)) of
        (Some ts, Some ty, Some contno, Some point) \<Rightarrow>
          (case Option.bind (w_j r) (\<lambda>s. parse_u64 (trim s)) of
             None \<Rightarrow> acc\<lparr>f_bad := f_bad acc + 1\<rparr>
           | Some scn \<Rightarrow>
               acc\<lparr>f_changes := f_changes acc @
                 [\<lparr>ch_scn = scn, ch_ts = ts, ch_ty = ty, ch_key = (contno, point, unwrap_or (clean (w_e r)) []),
                   ch_ytno = clean (w_f r), ch_ys = unwrap_or (clean (w_g r)) ''X'', ch_jobtype = clean (w_h r),
                   ch_program = clean (w_i r)\<rparr>]\<rparr>)
      | _ \<Rightarrow> acc\<lparr>f_bad := f_bad acc + 1\<rparr>)"

definition put_raw :: "(string \<Rightarrow> us option) \<Rightarrow> raw_row \<Rightarrow> fetch_acc \<Rightarrow> fetch_acc" where
  "put_raw naive r acc =
     (if w_k r = ''T'' then acc\<lparr>f_as_of := Option.bind (w_a r) (parse_myt naive)\<rparr>
      else if w_k r = ''M'' then put_machine naive r acc
      else if w_k r = ''B'' then put_row r acc
      else if w_k r = ''W'' then put_stop r acc
      else if w_k r = ''H'' then put_change naive r acc
      else acc)"

datatype fetch_error = NoSnapshotTime | TooFewMachines nat | NoBusyRows nat

definition parse_fetch :: "(string \<Rightarrow> us option) \<Rightarrow> raw_row list \<Rightarrow> fetch_error + (snapshot \<times> change list)" where
  "parse_fetch naive rows =
     (let acc = fold (put_raw naive) rows
                  \<lparr>f_as_of = None, f_state = \<lparr>a_rows = [], a_machines = [], a_stopped = []\<rparr>,
                   f_last_on = [], f_last_off = [], f_changes = [], f_bad = 0\<rparr>;
          st = f_state acc;
          n_on = length (filter (\<lambda>(c, m). m_onoff m = ''O'') (a_machines st))
      in case f_as_of acc of
           None \<Rightarrow> Inl NoSnapshotTime
         | Some as_of \<Rightarrow>
             if length (a_machines st) < MIN_MACHINES then Inl (TooFewMachines (length (a_machines st)))
             else if a_rows st = [] \<and> n_on \<ge> MIN_ON_FOR_BUSY_GUARD then Inl (NoBusyRows n_on)
             else Inr (\<lparr>sn_as_of = as_of, sn_state = st, sn_last_on = f_last_on acc, sn_last_off = f_last_off acc\<rparr>,
                       f_changes acc))"

section \<open>The stored anchor\<close>

record anchor_json =
  aj_rows :: "(string \<times> string \<times> string \<times> string option \<times> string) list"
  aj_machines :: "(string \<times> string \<times> string option) list"
  aj_stopped :: "string list"
  aj_scn :: nat
  aj_last_ts :: us
  aj_last_on :: "(string \<times> us) list option"
  aj_last_off :: "(string \<times> us) list option"

definition anchor_to_json :: "anchor \<Rightarrow> anchor_json" where
  "anchor_to_json a =
     (let s = an_state a in
      \<lparr>aj_rows = sort (map (\<lambda>((c, p, q), r). (c, p, q, j_ytno r, j_ys r)) (a_rows s)),
       aj_machines = sort_key fst (map (\<lambda>(c, m). (c, m_onoff m, m_pool m)) (a_machines s)),
       aj_stopped = sort (a_stopped s), aj_scn = an_scn a, aj_last_ts = an_last_ts a,
       aj_last_on = map_option (\<lambda>l. sort_key fst (lg_on l)) (an_logons a),
       aj_last_off = map_option (\<lambda>l. sort_key fst (lg_off l)) (an_logons a)\<rparr>)"

definition anchor_from_json :: "us \<Rightarrow> anchor_json \<Rightarrow> anchor" where
  "anchor_from_json as_of j =
     \<lparr>an_as_of = as_of,
      an_state = \<lparr>a_rows = map (\<lambda>(c, p, q, ytno, ys). ((c, p, q), \<lparr>j_ytno = ytno, j_ys = ys\<rparr>)) (aj_rows j),
                  a_machines = map (\<lambda>(c, onoff, pool). (c, \<lparr>m_onoff = onoff, m_pool = pool\<rparr>)) (aj_machines j),
                  a_stopped = aj_stopped j\<rparr>,
      an_scn = aj_scn j, an_last_ts = aj_last_ts j,
      an_logons = (case (aj_last_on j, aj_last_off j) of
                     (Some on, Some off) \<Rightarrow> Some \<lparr>lg_on = on, lg_off = off\<rparr> | _ \<Rightarrow> None)\<rparr>"

section \<open>Well-formed snapshots\<close>

definition fetch_wf :: "fetch_acc \<Rightarrow> bool" where
  "fetch_wf acc \<longleftrightarrow> hm_ok (a_rows (f_state acc)) \<and> hm_ok (a_machines (f_state acc)) \<and> distinct (a_stopped (f_state acc)) \<and>
     hm_ok (f_last_on acc) \<and> hm_ok (f_last_off acc)"

lemma put_raw_wf: "fetch_wf acc \<Longrightarrow> fetch_wf (put_raw naive r acc)"
  by (auto simp: put_raw_def put_machine_def put_row_def put_stop_def put_change_def fetch_wf_def split: option.splits)

lemma fold_put_raw_wf: "fetch_wf acc \<Longrightarrow> fetch_wf (fold (put_raw naive) rows acc)"
  by (induction rows arbitrary: acc) (auto intro: put_raw_wf)

section \<open>Properties\<close>

text \<open>
  A fetch is accepted only when it can be trusted: there is a snapshot time, the truck master has
  at least a hundred trucks, and fifty trucks logged in come with at least one busy order. What is
  accepted has one entry per truck and per order row.
\<close>

theorem parse_fetch_guards:
  assumes "parse_fetch naive rows = Inr (snap, changes)"
  shows "MIN_MACHINES \<le> length (a_machines (sn_state snap)) \<and>
    (a_rows (sn_state snap) \<noteq> [] \<or> length (filter (\<lambda>(c, m). m_onoff m = ''O'') (a_machines (sn_state snap))) < MIN_ON_FOR_BUSY_GUARD) \<and>
    hm_ok (a_rows (sn_state snap)) \<and> hm_ok (a_machines (sn_state snap)) \<and> distinct (a_stopped (sn_state snap))"
proof -
  let ?acc0 = "\<lparr>f_as_of = None, f_state = \<lparr>a_rows = [], a_machines = [], a_stopped = []\<rparr>,
                   f_last_on = [], f_last_off = [], f_changes = [], f_bad = 0\<rparr>"
  have "fetch_wf (fold (put_raw naive) rows ?acc0)" by (rule fold_put_raw_wf) (simp add: fetch_wf_def)
  then show ?thesis using assms
    by (auto simp: parse_fetch_def Let_def fetch_wf_def not_less split: option.splits if_splits)
qed

definition demo_machine_row :: "nat \<Rightarrow> raw_row" where
  "demo_machine_row n = \<lparr>w_k = ''M'', w_a = Some (replicate (Suc n) CHR ''T''), w_b = None, w_c = Some ''F'', w_d = None,
     w_e = None, w_f = None, w_g = None, w_h = None, w_i = None, w_j = None\<rparr>"

definition demo_time_row :: raw_row where
  "demo_time_row = \<lparr>w_k = ''T'', w_a = Some ''20260101000000'', w_b = None, w_c = None, w_d = None, w_e = None, w_f = None,
     w_g = None, w_h = None, w_i = None, w_j = None\<rparr>"

lemma demo_machines:
  "fold (put_raw naive) (map demo_machine_row [0..<k])
     \<lparr>f_as_of = t, f_state = \<lparr>a_rows = [], a_machines = [], a_stopped = []\<rparr>, f_last_on = [], f_last_off = [], f_changes = [], f_bad = 0\<rparr> =
   \<lparr>f_as_of = t, f_state = \<lparr>a_rows = [], a_machines = map (\<lambda>n. (replicate (Suc n) CHR ''T'', \<lparr>m_onoff = ''F'', m_pool = None\<rparr>)) [0..<k],
      a_stopped = []\<rparr>, f_last_on = [], f_last_off = [], f_changes = [], f_bad = 0\<rparr>"
proof (induction k)
  case (Suc k)
  have "dropWhile is_space (replicate (Suc n) CHR ''T'') = replicate (Suc n) CHR ''T''" for n by (simp add: is_space_def)
  then have "trim (replicate (Suc n) CHR ''T'') = replicate (Suc n) CHR ''T''" for n
    unfolding trim_def by (simp only: rev_replicate)
  moreover have "trim ''F'' = ''F''" by (simp add: trim_def is_space_def)
  moreover have "replicate (Suc k) CHR ''T'' \<notin> (\<lambda>n. replicate (Suc n) CHR ''T'') ` {0..<k}"
    by (auto dest: arg_cong[where f = length])
  ultimately show ?case using Suc
    by (simp add: put_raw_def put_machine_def demo_machine_row_def clean_def unwrap_or_def hm_insert_new image_image del: replicate_Suc)
qed simp

theorem parse_fetch_guards_witness:
  "\<exists>snap changes. parse_fetch (\<lambda>_. Some 0) (demo_time_row # map demo_machine_row [0..<100]) = Inr (snap, changes) \<and>
     100 \<le> length (a_machines (sn_state snap))"
proof -
  have t: "Option.bind (w_a demo_time_row) (parse_myt (\<lambda>_. Some 0)) = Some 0" by code_simp
  obtain snap changes where p: "parse_fetch (\<lambda>_. Some 0) (demo_time_row # map demo_machine_row [0..<100]) = Inr (snap, changes)"
    using t demo_machines[of "\<lambda>_. Some 0" 100 "Some 0"]
    by (simp add: parse_fetch_def put_raw_def demo_time_row_def Let_def MIN_MACHINES_def MIN_ON_FOR_BUSY_GUARD_def del: upt_rec_numeral)
  then show ?thesis using parse_fetch_guards[OF p] by (auto simp: MIN_MACHINES_def)
qed

end
