(* ===== verification/TosReplay.thy ===== *)
theory TosReplay
  imports TosAvail
begin

text \<open>
  What the replay promises its client, the interval table: read in order, its transitions lead from
  the anchor's list to the snapshot's list, a truck enters only when it is out and leaves only when it
  is in, and the times only move forward, past everything written before.
\<close>

section \<open>Reading transitions\<close>

fun run_trans :: "string set \<Rightarrow> transition list \<Rightarrow> string set option" where
  "run_trans F [] = Some F"
| "run_trans F (t # ts) =
     (if t_enter t
      then (if t_ytno t \<in> F then None else run_trans (insert (t_ytno t) F) ts)
      else (if t_ytno t \<notin> F then None else run_trans (F - {t_ytno t}) ts))"

lemma run_append: "run_trans F (xs @ ys) = Option.bind (run_trans F xs) (\<lambda>G. run_trans G ys)"
  by (induction xs arbitrary: F) auto

lemma run_enters:
  "distinct ys \<Longrightarrow> set ys \<inter> F = {} \<Longrightarrow> (\<And>y. t_ytno (f y) = y \<and> t_enter (f y)) \<Longrightarrow>
   run_trans F (map f ys) = Some (F \<union> set ys)"
  by (induction ys arbitrary: F) auto

lemma run_exits:
  "distinct ys \<Longrightarrow> set ys \<subseteq> F \<Longrightarrow> (\<And>y. t_ytno (f y) = y \<and> \<not> t_enter (f y)) \<Longrightarrow>
   run_trans F (map f ys) = Some (F - set ys)"
proof (induction ys arbitrary: F)
  case (Cons y ys)
  have "F - {y} - set ys = F - set (y # ys)" by auto
  moreover have "set ys \<subseteq> F - {y}" using Cons.prems by auto
  ultimately show ?case using Cons.IH[of "F - {y}"] Cons.prems by simp
qed simp

definition timed :: "us \<Rightarrow> transition list \<Rightarrow> us \<Rightarrow> bool" where
  "timed lo out hi \<longleftrightarrow> lo \<le> hi \<and> sorted (map t_ts out) \<and> (\<forall>t \<in> set out. lo < t_ts t \<and> t_ts t \<le> hi) \<and>
     distinct (map (\<lambda>t. (t_ytno t, t_ts t)) out)"

lemma timed_Nil: "timed lo [] lo"
  by (simp add: timed_def)

lemma timed_later:
  assumes "timed lo out hi" "\<forall>t \<in> set new. t_ts t = s" "hi < s" "distinct (map t_ytno new)"
  shows "timed lo (out @ new) s"
proof -
  have "map t_ts new = replicate (length new) s" using assms(2) by (simp add: map_replicate_const[symmetric])
  then have "sorted (map t_ts new)" by simp
  moreover have "distinct (map (\<lambda>t. (t_ytno t, t_ts t)) new)" using assms(4) by (simp add: distinct_map inj_on_def)
  moreover have "lo < s" using assms(1,3) by (simp add: timed_def)
  moreover have "(t_ytno t, t_ts t) \<noteq> (t_ytno t', t_ts t')" if "t \<in> set out" "t' \<in> set new" for t t'
    using assms(1-3) that by (auto simp: timed_def)
  moreover have "t_ts t \<le> s" if "t \<in> set out" for t using assms(1,3) that by (fastforce simp: timed_def)
  moreover have "t_ts t \<le> t_ts t'" if "t \<in> set out" "t' \<in> set new" for t t'
    using assms(1-3) that by (fastforce simp: timed_def)
  ultimately show ?thesis using assms(1,2) unfolding timed_def by (auto simp: sorted_append)
qed

section \<open>One step of the replay\<close>

definition replay_inv :: "string set \<Rightarrow> us \<Rightarrow> replay_state \<Rightarrow> bool" where
  "replay_inv F0 lo rs \<longleftrightarrow> run_trans F0 (rs_out rs) = Some (rs_free rs) \<and> finite (rs_free rs) \<and> timed lo (rs_out rs) (rs_last rs)"

lemma finite_free_set [simp]: "finite (free_set s)"
  by (simp add: free_set_def)

lemma step_ts_later: "prev < step_ts want prev"
  by (simp add: step_ts_def)

lemma emit:
  assumes inv: "replay_inv F0 lo rs" and fin: "finite after"
    and f: "\<And>y. t_ytno (f y) = y \<and> t_enter (f y) \<and> t_ts (f y) = step_ts w (rs_last rs)"
    and g: "\<And>y. t_ytno (g y) = y \<and> \<not> t_enter (g y) \<and> t_ts (g y) = step_ts w (rs_last rs)"
    and new: "new = map f (sorted_list_of_set (after - rs_free rs)) @ map g (sorted_list_of_set (rs_free rs - after))"
  shows "run_trans F0 (rs_out rs @ new) = Some after \<and> timed lo (rs_out rs @ new) (step_ts w (rs_last rs))"
proof -
  have I: "run_trans F0 (rs_out rs) = Some (rs_free rs)" "finite (rs_free rs)" "timed lo (rs_out rs) (rs_last rs)"
    using inv by (auto simp: replay_inv_def)
  have "run_trans (rs_free rs) new = Some (rs_free rs \<union> (after - rs_free rs) - (rs_free rs - after))"
  proof -
    have "run_trans (rs_free rs) (map f (sorted_list_of_set (after - rs_free rs))) = Some (rs_free rs \<union> (after - rs_free rs))"
      using I(2) fin f by (subst run_enters) auto
    moreover have "run_trans (rs_free rs \<union> (after - rs_free rs)) (map g (sorted_list_of_set (rs_free rs - after))) =
        Some (rs_free rs \<union> (after - rs_free rs) - (rs_free rs - after))"
      using I(2) fin g by (subst run_exits) auto
    ultimately show ?thesis unfolding new run_append by simp
  qed
  moreover have "rs_free rs \<union> (after - rs_free rs) - (rs_free rs - after) = after" by auto
  moreover have "distinct (map t_ytno new)" using I(2) fin f g by (auto simp: new comp_def)
  moreover have "\<forall>t \<in> set new. t_ts t = step_ts w (rs_last rs)" using f g by (auto simp: new)
  ultimately show ?thesis using I timed_later[OF I(3) _ step_ts_later] by (simp add: run_append)
qed

lemma diff_emit:
  assumes "replay_inv F0 lo rs" "finite after"
  shows "run_trans F0 (rs_out rs @ diff_into (rs_free rs) after (step_ts w (rs_last rs)) bl lc late) = Some after \<and>
    timed lo (rs_out rs @ diff_into (rs_free rs) after (step_ts w (rs_last rs)) bl lc late) (step_ts w (rs_last rs))"
  by (rule emit[OF assms _ _ diff_into_def]) (simp_all add: Let_def)

lemma apply_logon_inv: "replay_inv F0 lo rs \<Longrightarrow> replay_inv F0 lo (apply_logon an snap e rs)"
  using diff_emit[of F0 lo rs]
  by (cases e) (auto simp: apply_logon_def replay_inv_def Let_def)

lemma apply_group_inv: "replay_inv F0 lo rs \<Longrightarrow> replay_inv F0 lo (apply_group an g_ts evs rs)"
  using diff_emit[of F0 lo rs]
  by (auto simp: apply_group_def replay_inv_def Let_def split_beta)

lemma take_logons_inv: "replay_inv F0 lo rs \<Longrightarrow> replay_inv F0 lo (snd (take_logons an snap g_ts es rs))"
  by (induction an snap g_ts es rs rule: take_logons.induct) (auto intro: apply_logon_inv)

lemma fold_logon_inv: "replay_inv F0 lo rs \<Longrightarrow> replay_inv F0 lo (fold (apply_logon an snap) es rs)"
  by (induction es arbitrary: rs) (auto intro: apply_logon_inv)

lemma replay_groups_inv: "replay_inv F0 lo rs \<Longrightarrow> replay_inv F0 lo (replay_groups an snap gs es rs)"
proof (induction an snap gs es rs rule: replay_groups.induct)
  case (2 an snap g gs es rs)
  let ?evs = "sort_key (\<lambda>c. (ch_ts c, ty_rank (ch_ty c))) g"
  obtain es' rs' where t: "take_logons an snap (Max (ch_ts ` set ?evs)) es rs = (es', rs')" by fastforce
  then have "replay_inv F0 lo (apply_group an (Max (ch_ts ` set ?evs)) ?evs rs')"
    using apply_group_inv take_logons_inv[OF 2(2), of an snap "Max (ch_ts ` set ?evs)" es] by simp
  then show ?case using 2(1)[OF refl refl t[symmetric] refl] t by (simp add: Let_def)
qed (simp add: fold_logon_inv)

lemma replay_start_inv: "replay_inv (free_set (an_state an)) (max (an_as_of an) (an_last_ts an)) (replay_start an)"
  by (simp add: replay_inv_def replay_start_def timed_Nil)

lemma reconcile_end:
  assumes "replay_inv F0 lo rs"
  shows "run_trans F0 (rs_out (reconcile snap rs)) = Some (free_set (sn_state snap)) \<and>
    timed lo (rs_out (reconcile snap rs)) (rs_last (reconcile snap rs))"
proof (cases "free_set (sn_state snap) = rs_free rs")
  case True
  then show ?thesis using assms by (simp add: reconcile_def replay_inv_def)
next
  case False
  let ?tr = "\<lambda>enter y. \<lparr>t_ytno = y, t_ts = step_ts (sn_as_of snap) (rs_last rs), t_enter = enter, t_cause = ''reconcile'',
                         t_program = None, t_contno = None, t_jobtype = None\<rparr>"
  show ?thesis
    using False emit[OF assms, of "free_set (sn_state snap)" "?tr True" "sn_as_of snap" "?tr False"]
    by (simp add: reconcile_def Let_def)
qed

section \<open>The interface to the interval table\<close>

text \<open>
  The contract of a replay: from the list and the last time it is given, transitions that lead to
  the list of the snapshot, with later times.
\<close>

locale replayer =
  fixes rep :: "anchor \<Rightarrow> change list \<Rightarrow> snapshot \<Rightarrow> replay_result"
  assumes rep_runs: "run_trans (free_set (an_state an)) (re_transitions (rep an changes snap)) = Some (free_set (sn_state snap))"
    and rep_timed: "timed (max (an_as_of an) (an_last_ts an)) (re_transitions (rep an changes snap)) (re_last_ts (rep an changes snap))"

lemma replay_correct:
  shows "run_trans (free_set (an_state an)) (re_transitions (replay an changes snap)) = Some (free_set (sn_state snap))"
    and "timed (max (an_as_of an) (an_last_ts an)) (re_transitions (replay an changes snap)) (re_last_ts (replay an changes snap))"
  using reconcile_end[OF replay_groups_inv[OF replay_start_inv]] by (simp_all add: replay_def Let_def)

interpretation tos: replayer replay
  by unfold_locales (rule replay_correct)+


section \<open>Records already seen\<close>

lemma max_foldl: "max (foldl max a xs) k = foldl max (max a k) (xs :: nat list)"
proof (induction xs arbitrary: a)
  case (Cons x xs)
  have "max (max a x) k = max (max a k) x" by (simp add: max.assoc max.commute[of x k])
  then show ?case using Cons[of "max a x"] by simp
qed simp

lemma max_foldl_filter: "max (foldl max a xs) k = max (foldl max a (filter (\<lambda>x. x > k) xs)) (k :: nat)"
proof -
  have "foldl max (max b k) ys = foldl max (max b k) (filter (\<lambda>x. x > k) ys)" for b ys
  proof (induction ys arbitrary: b)
    case (Cons y ys)
    have "max (max b k) y = max (max b y) k" by (simp add: max.assoc max.commute[of y k])
    moreover have "max (max b k) y = max b k" if "\<not> y > k" using that by simp
    ultimately show ?case using Cons[of b] Cons[of "max b y"] by auto
  qed simp
  then show ?thesis by (simp only: max_foldl)
qed

lemma replay_ignores_seen_lemma:
  "replay an changes snap = replay an (filter (\<lambda>c. ch_scn c > an_scn an) changes) snap"
proof -
  have "commits (an_scn an) changes = commits (an_scn an) (filter (\<lambda>c. ch_scn c > an_scn an) changes)"
    by (simp add: commits_def Let_def)
  moreover have "max (foldl max 0 (map ch_scn changes)) (an_scn an) =
      max (foldl max 0 (map ch_scn (filter (\<lambda>c. ch_scn c > an_scn an) changes))) (an_scn an)"
    using max_foldl_filter[of 0 "map ch_scn changes" "an_scn an"] by (simp add: filter_map comp_def)
  ultimately show ?thesis unfolding replay_def Let_def by simp
qed

section \<open>Who took a truck and who freed it\<close>

lemma busy_set_mem: "y \<in> busy_set s \<longleftrightarrow> (\<exists>k r. (k, r) \<in> set (a_rows s) \<and> j_ys r \<in> set BUSY \<and> j_ytno r = Some y)"
proof
  assume "y \<in> busy_set s"
  then show "\<exists>k r. (k, r) \<in> set (a_rows s) \<and> j_ys r \<in> set BUSY \<and> j_ytno r = Some y"
    unfolding busy_set_def set_map_filter by (auto split: if_splits) blast
next
  assume "\<exists>k r. (k, r) \<in> set (a_rows s) \<and> j_ys r \<in> set BUSY \<and> j_ytno r = Some y"
  then obtain k r where "(k, r) \<in> set (a_rows s)" "j_ys r \<in> set BUSY" "j_ytno r = Some y" by blast
  then show "y \<in> busy_set s" unfolding busy_set_def set_map_filter by (intro CollectI bexI[of _ "(k, r)"]) auto
qed


lemma busy_update:
  "y \<in> busy_set (cur\<lparr>a_rows := AList.update k \<lparr>j_ytno = yt, j_ys = ys\<rparr> (a_rows cur)\<rparr>) \<Longrightarrow>
   y \<in> busy_set cur \<or> (yt = Some y \<and> ys \<in> set BUSY)"
proof -
  have "set (AList.update k v m) \<subseteq> insert (k, v) (set m)" for v m by (induction m) auto
  then show "y \<in> busy_set (cur\<lparr>a_rows := AList.update k \<lparr>j_ytno = yt, j_ys = ys\<rparr> (a_rows cur)\<rparr>) \<Longrightarrow> ?thesis"
    unfolding busy_set_mem by fastforce
qed

lemma busy_delete: "y \<in> busy_set (cur\<lparr>a_rows := AList.delete k (a_rows cur)\<rparr>) \<Longrightarrow> y \<in> busy_set cur"
  unfolding busy_set_mem by (auto simp: AList.delete_eq)

definition takes :: "change \<Rightarrow> string \<Rightarrow> bool" where
  "takes ev y \<longleftrightarrow> ch_ty ev \<noteq> CHR ''D'' \<and> ch_ytno ev = Some y \<and> ch_ys ev \<in> set BUSY"

lemma apply_change_busy:
  assumes "y \<in> busy_set (fst (apply_change ev (cur, b)))"
  shows "(y \<in> busy_set cur \<or> takes ev y)"
  using assms busy_update[where y = y and cur = cur] busy_delete[where y = y and cur = cur]
  by (auto simp: apply_change_def Let_def takes_def split: if_splits)

lemma apply_change_took:
  "map_of (b_took (snd (apply_change ev (cur, b)))) y = (if takes ev y then Some ev else map_of (b_took b) y)"
  by (auto simp: apply_change_def Let_def takes_def hm split: option.splits)

lemma apply_txn_took:
  assumes "y \<in> busy_set (fst (apply_txn cur evs))" "y \<notin> busy_set cur"
  shows "\<exists>ev \<in> set evs. map_of (b_took (snd (apply_txn cur evs))) y = Some ev \<and> takes ev y"
  using assms(1)
proof (induction evs rule: rev_induct)
  case Nil
  then show ?case using assms(2) by (simp add: apply_txn_def)
next
  case (snoc e evs)
  obtain c b where cb: "apply_txn cur evs = (c, b)" by fastforce
  have st: "apply_txn cur (evs @ [e]) = apply_change e (c, b)" using cb by (simp add: apply_txn_def)
  show ?case
  proof (cases "takes e y")
    case True
    then show ?thesis by (auto simp: st apply_change_took)
  next
    case False
    then have "y \<in> busy_set (fst (apply_txn cur evs))" using snoc.prems apply_change_busy[of y e c b] cb st by simp
    then show ?thesis using snoc.IH False cb by (auto simp: st apply_change_took)
  qed
qed

lemma free_set_mem:
  "y \<in> free_set s \<longleftrightarrow> (\<exists>m. (y, m) \<in> set (a_machines s) \<and> m_onoff m = ''O'') \<and> y \<notin> set (a_stopped s) \<and> y \<notin> busy_set s"
  by (force simp: free_set_def)

lemma apply_txn_machines: "a_machines (fst (apply_txn cur evs)) = a_machines cur" "a_stopped (fst (apply_txn cur evs)) = a_stopped cur"
proof (induction evs rule: rev_induct)
  case (snoc e evs)
  obtain c b where cb: "apply_txn cur evs = (c, b)" by fastforce
  { case 1 show ?case using snoc cb by (simp add: apply_txn_def apply_change_def Let_def) }
  { case 2 show ?case using snoc cb by (simp add: apply_txn_def apply_change_def Let_def) }
qed (simp_all add: apply_txn_def)

lemma txn_exit_took:
  assumes "y \<in> free_set cur - free_set (fst (apply_txn cur evs))"
  shows "\<exists>ev \<in> set evs. map_of (b_took (snd (apply_txn cur evs))) y = Some ev \<and> takes ev y"
proof (rule apply_txn_took)
  show "y \<in> busy_set (fst (apply_txn cur evs))" using assms by (auto simp: free_set_mem apply_txn_machines)
  show "y \<notin> busy_set cur" using assms by (auto simp: free_set_mem)
qed

section \<open>Properties\<close>

text \<open>
  C17. The replay leads from the anchor's list to the snapshot's list: read in order, a truck enters
  only when it is out and leaves only when it is in, the last list is the snapshot's, and the times
  move forward, later than the anchor and than the last time written, never twice for one truck.
\<close>

theorem replay_reaches_snapshot:
  "run_trans (free_set (an_state an)) (re_transitions (replay an changes snap)) = Some (free_set (sn_state snap)) \<and>
   timed (max (an_as_of an) (an_last_ts an)) (re_transitions (replay an changes snap)) (re_last_ts (replay an changes snap))"
  using tos.rep_runs tos.rep_timed by blast

text \<open>
  Reading the change records again is harmless: records of commits the anchor already contains
  have no effect at all, so the overlapping window applies nothing twice.
\<close>

theorem replay_ignores_seen:
  "replay an changes snap = replay an (filter (\<lambda>c. ch_scn c > an_scn an) changes) snap"
  by (rule replay_ignores_seen_lemma)

text \<open>
  An exit caused by a commit names what took the truck: a record of that commit that put the truck
  on an order, with its container, program and job type.
\<close>

theorem exit_names_order:
  assumes "t \<in> set (diff_into (free_set cur) (free_set (fst (apply_txn cur evs))) ts (Some (snd (apply_txn cur evs))) {} late)"
    "\<not> t_enter t"
  shows "\<exists>ev \<in> set evs. takes ev (t_ytno t) \<and> t_contno t = Some (fst (ch_key ev)) \<and> t_program t = ch_program ev \<and>
    t_jobtype t = ch_jobtype ev"
  using assms txn_exit_took[of _ cur evs] by (fastforce simp: diff_into_def Let_def)

definition demo_cur :: avail_state where
  "demo_cur = \<lparr>a_rows = [], a_machines = [(''TT1'', \<lparr>m_onoff = ''O'', m_pool = None\<rparr>)], a_stopped = []\<rparr>"

definition demo_change :: change where
  "demo_change = \<lparr>ch_scn = 7, ch_ts = 50, ch_ty = CHR ''I'', ch_key = (''C1'', ''1'', ''1''), ch_ytno = Some ''TT1'', ch_ys = ''A'',
     ch_jobtype = Some ''LD'', ch_program = Some ''NEW''\<rparr>"

theorem exit_names_order_witness:
  "\<exists>ev \<in> set [demo_change]. takes ev ''TT1'' \<and> Some ''C1'' = Some (fst (ch_key ev)) \<and> Some ''NEW'' = ch_program ev \<and>
    Some ''LD'' = ch_jobtype ev"
proof -
  let ?t = "\<lparr>t_ytno = ''TT1'', t_ts = 60, t_enter = False, t_cause = ''dispatch'', t_program = Some ''NEW'',
      t_contno = Some ''C1'', t_jobtype = Some ''LD''\<rparr>"
  have "diff_into (free_set demo_cur) (free_set (fst (apply_txn demo_cur [demo_change]))) 60
      (Some (snd (apply_txn demo_cur [demo_change]))) {} False = [?t]" by code_simp
  then show ?thesis using exit_names_order[of ?t demo_cur "[demo_change]" 60 False] by simp
qed

end
