(* ===== verification/TosTable.thy ===== *)
theory TosTable
  imports TosReplay
begin

text \<open>
  The interval table behind the list of dispatchable trucks (\<^verbatim>\<open>tick_tos_avail\<close> and
  \<^verbatim>\<open>write_transition\<close> in \<^verbatim>\<open>src/crates/extractor/src/tos_avail.rs\<close>): one row per stay of a truck on the
  list, open while it stays. A tick is one transaction: it replays from the anchor, or starts afresh
  after a gap, or cuts everything when the source clock went back. The table is unique in (truck,
  start) and has at most one open row per truck; an insert that would break either is skipped.
\<close>

section \<open>The code\<close>

definition OVERLAP_US :: us where
  "OVERLAP_US = 120 * 1000000"

definition CLOCK_MARGIN_US :: us where
  "CLOCK_MARGIN_US = 10 * 1000000"

definition MAX_REPLAY_S :: int where
  "MAX_REPLAY_S = 900"

definition hist_from :: "us option \<Rightarrow> us \<Rightarrow> us" where
  "hist_from anchor_ts now = (case anchor_ts of Some a \<Rightarrow> a - OVERLAP_US | None \<Rightarrow> now - (OVERLAP_US + CLOCK_MARGIN_US))"

record interval =
  iv_ytno :: string
  iv_enter :: us
  iv_exit :: "us option"
  iv_enter_cause :: string
  iv_exit_cause :: "string option"
  iv_enter_program :: "string option"
  iv_exit_program :: "string option"
  iv_exit_contno :: "string option"
  iv_exit_jobtype :: "string option"
  iv_pool :: "string option"

definition iv_open :: "interval \<Rightarrow> bool" where
  "iv_open r \<longleftrightarrow> iv_exit r = None"

definition conflicts :: "interval list \<Rightarrow> transition \<Rightarrow> bool" where
  "conflicts tab t \<longleftrightarrow> list_ex (\<lambda>r. iv_ytno r = t_ytno t \<and> (iv_enter r = t_ts t \<or> iv_open r)) tab"

definition close_iv :: "transition \<Rightarrow> interval \<Rightarrow> interval" where
  "close_iv t r =
     (if iv_ytno r = t_ytno t \<and> iv_open r
      then r\<lparr>iv_exit := Some (max (iv_enter r) (t_ts t)), iv_exit_cause := Some (t_cause t), iv_exit_program := t_program t,
             iv_exit_contno := t_contno t, iv_exit_jobtype := t_jobtype t\<rparr>
      else r)"

definition write_transition :: "snapshot \<Rightarrow> transition \<Rightarrow> interval list \<Rightarrow> interval list \<times> bool" where
  "write_transition snap t tab =
     (if t_enter t
      then (if conflicts tab t then (tab, False)
            else (tab @ [\<lparr>iv_ytno = t_ytno t, iv_enter = t_ts t, iv_exit = None, iv_enter_cause = t_cause t, iv_exit_cause = None,
                          iv_enter_program = t_program t, iv_exit_program = None, iv_exit_contno = None, iv_exit_jobtype = None,
                          iv_pool = Option.bind (map_of (a_machines (sn_state snap)) (t_ytno t)) m_pool\<rparr>], True))
      else (map (close_iv t) tab,
            length (filter (\<lambda>r. iv_ytno r = t_ytno t \<and> iv_open r) tab) = 1))"

fun write_all :: "snapshot \<Rightarrow> transition list \<Rightarrow> interval list \<Rightarrow> interval list \<times> nat" where
  "write_all snap [] tab = (tab, 0)"
| "write_all snap (t # ts) tab =
     (let (tab', ok) = write_transition snap t tab; (tab'', n) = write_all snap ts tab'
      in (tab'', if ok then n else n + 1))"

record avail_db =
  db_intervals :: "interval list"
  db_anchor :: "(us \<times> anchor_json) option"
  db_checks :: "us list"

text \<open>The clock went back: every row that reaches past the new snapshot is cut there, and the anchor is dropped.\<close>

definition cut_back :: "us \<Rightarrow> interval \<Rightarrow> interval" where
  "cut_back as_of r =
     (if (case iv_exit r of None \<Rightarrow> True | Some x \<Rightarrow> x > as_of)
      then r\<lparr>iv_exit := Some (max (iv_enter r) as_of), iv_exit_cause := Some ''gap''\<rparr> else r)"

text \<open>A gap, or the first run: open rows end at the last moment known, the anchor's or the last check's.\<close>

definition close_gap :: "us option \<Rightarrow> us list \<Rightarrow> interval \<Rightarrow> interval" where
  "close_gap prev checks r =
     (if iv_open r
      then r\<lparr>iv_exit := Some (max (iv_enter r)
               (case prev of Some t \<Rightarrow> t | None \<Rightarrow> if checks = [] then iv_enter r else Max (set checks))),
             iv_exit_cause := Some ''gap''\<rparr>
      else r)"

definition init_transitions :: "snapshot \<Rightarrow> transition list" where
  "init_transitions snap =
     map (\<lambda>y. \<lparr>t_ytno = y, t_ts = sn_as_of snap, t_enter = True, t_cause = ''init'', t_program = None,
               t_contno = None, t_jobtype = None\<rparr>)
       (sorted_list_of_set (free_set (sn_state snap)))"

definition usable_anchor :: "us \<Rightarrow> avail_db \<Rightarrow> (us \<times> anchor_json) option" where
  "usable_anchor now db =
     Option.bind (db_anchor db) (\<lambda>(t, j). if (now - t) div 1000000 \<le> MAX_REPLAY_S then Some (t, j) else None)"

definition next_anchor :: "snapshot \<Rightarrow> nat \<Rightarrow> us \<Rightarrow> us \<times> anchor_json" where
  "next_anchor snap scn last_ts =
     (sn_as_of snap, anchor_to_json \<lparr>an_as_of = sn_as_of snap, an_state = sn_state snap, an_scn = scn, an_last_ts = last_ts,
        an_logons = Some \<lparr>lg_on = sn_last_on snap, lg_off = sn_last_off snap\<rparr>\<rparr>)"

text \<open>
  One tick, after the rows were fetched and parsed; a fetch or parse error rolls the transaction back.
  The result counts the transitions the table did not accept.
\<close>

definition tick_tos_avail_with ::
  "(anchor \<Rightarrow> change list \<Rightarrow> snapshot \<Rightarrow> replay_result) \<Rightarrow> us \<Rightarrow> 'e + (snapshot \<times> change list) \<Rightarrow> avail_db \<Rightarrow> avail_db \<times> ('e + nat)" where
  "tick_tos_avail_with rep now fetched db =
     (case fetched of
        Inl e \<Rightarrow> (db, Inl e)
      | Inr (snap, changes) \<Rightarrow>
          if (case db_anchor db of Some (a, _) \<Rightarrow> sn_as_of snap \<le> a | None \<Rightarrow> False)
          then (\<lparr>db_intervals = map (cut_back (sn_as_of snap)) (db_intervals db), db_anchor = None,
                 db_checks = List.insert (sn_as_of snap) (db_checks db)\<rparr>, Inr 0)
          else
            (case usable_anchor now db of
               Some (ts, j) \<Rightarrow>
                 (let r = rep (anchor_from_json ts j) changes snap;
                      (tab, n) = write_all snap (re_transitions r) (db_intervals db)
                  in (\<lparr>db_intervals = tab, db_anchor = Some (next_anchor snap (re_scn r) (re_last_ts r)),
                       db_checks = List.insert (sn_as_of snap) (db_checks db)\<rparr>, Inr n))
             | None \<Rightarrow>
                 (let closed = map (close_gap (map_option fst (db_anchor db)) (db_checks db)) (db_intervals db);
                      (tab, n) = write_all snap (init_transitions snap) closed
                  in (\<lparr>db_intervals = tab,
                       db_anchor = Some (next_anchor snap (foldl max 0 (map ch_scn changes)) (sn_as_of snap)),
                       db_checks = List.insert (sn_as_of snap) (db_checks db)\<rparr>, Inr n))))"

definition tick_tos_avail :: "us \<Rightarrow> 'e + (snapshot \<times> change list) \<Rightarrow> avail_db \<Rightarrow> avail_db \<times> ('e + nat)" where
  "tick_tos_avail = tick_tos_avail_with replay"

section \<open>The table\<close>

definition open_trucks :: "interval list \<Rightarrow> string set" where
  "open_trucks tab = iv_ytno ` {r \<in> set tab. iv_open r}"

definition table_wf :: "interval list \<Rightarrow> bool" where
  "table_wf tab \<longleftrightarrow> distinct (map (\<lambda>r. (iv_ytno r, iv_enter r)) tab) \<and>
     distinct (map iv_ytno (filter iv_open tab)) \<and>
     (\<forall>r \<in> set tab. case iv_exit r of Some x \<Rightarrow> iv_enter r \<le> x | None \<Rightarrow> True)"

text \<open>Two stays of one truck do not overlap: the earlier one has ended when the later one begins.\<close>

definition stays_disjoint :: "interval list \<Rightarrow> bool" where
  "stays_disjoint tab \<longleftrightarrow> (\<forall>r \<in> set tab. \<forall>r' \<in> set tab. iv_ytno r = iv_ytno r' \<and> iv_enter r < iv_enter r' \<longrightarrow>
     (\<exists>x. iv_exit r = Some x \<and> x \<le> iv_enter r'))"

definition table_upto :: "interval list \<Rightarrow> us \<Rightarrow> bool" where
  "table_upto tab b \<longleftrightarrow> (\<forall>r \<in> set tab. iv_enter r \<le> b \<and> (\<forall>x. iv_exit r = Some x \<longrightarrow> x \<le> b))"

text \<open>The time \<open>ts\<close> is past everything the table says of truck \<open>y\<close>.\<close>

definition past :: "interval list \<Rightarrow> string \<Rightarrow> us \<Rightarrow> bool" where
  "past tab y ts \<longleftrightarrow> (\<forall>r \<in> set tab. iv_ytno r = y \<longrightarrow> iv_enter r < ts \<and> (\<forall>x. iv_exit r = Some x \<longrightarrow> x \<le> ts))"

lemma close_iv_simps [simp]: "iv_ytno (close_iv t r) = iv_ytno r" "iv_enter (close_iv t r) = iv_enter r"
  "iv_open (close_iv t r) \<longleftrightarrow> iv_open r \<and> iv_ytno r \<noteq> t_ytno t"
  by (auto simp: close_iv_def iv_open_def)

lemma filter_open_close: "map iv_ytno (filter iv_open (map (close_iv t) tab)) = filter (\<lambda>y. y \<noteq> t_ytno t) (map iv_ytno (filter iv_open tab))"
  by (induction tab) auto

lemma close_iv_exit:
  "iv_exit (close_iv t r) = (if iv_ytno r = t_ytno t \<and> iv_open r then Some (max (iv_enter r) (t_ts t)) else iv_exit r)"
  by (simp add: close_iv_def)

lemma close_disjoint:
  assumes "stays_disjoint tab"
  shows "stays_disjoint (map (close_iv t) tab)"
  using assms unfolding stays_disjoint_def iv_open_def by (auto simp: close_iv_exit iv_open_def)

lemma one_open:
  "distinct (map iv_ytno xs) \<Longrightarrow> y \<in> iv_ytno ` set xs \<Longrightarrow> length (filter (\<lambda>r. iv_ytno r = y) xs) = 1"
proof (induction xs)
  case (Cons x xs)
  have "filter (\<lambda>r. iv_ytno r = y) xs = []" if "iv_ytno x = y"
    using that Cons.prems(1) by (force simp: filter_empty_conv image_iff)
  then show ?case using Cons by auto
qed simp

lemma write_exit:
  assumes wf: "table_wf tab" and dj: "stays_disjoint tab" and y: "t_ytno t \<in> open_trucks tab" and ex: "\<not> t_enter t"
  shows "write_transition snap t tab = (map (close_iv t) tab, True) \<and> table_wf (map (close_iv t) tab) \<and>
    stays_disjoint (map (close_iv t) tab) \<and> open_trucks (map (close_iv t) tab) = open_trucks tab - {t_ytno t}"
proof (intro conjI)
  let ?tab = "map (close_iv t) tab"
  have "distinct (map iv_ytno (filter iv_open ?tab))" using wf unfolding filter_open_close table_wf_def by simp
  moreover have "map (\<lambda>r. (iv_ytno r, iv_enter r)) ?tab = map (\<lambda>r. (iv_ytno r, iv_enter r)) tab" by simp
  moreover have "\<forall>r \<in> set ?tab. case iv_exit r of Some x \<Rightarrow> iv_enter r \<le> x | None \<Rightarrow> True"
    using wf by (auto simp: table_wf_def close_iv_exit split: option.splits)
  ultimately show "table_wf ?tab" using wf unfolding table_wf_def by (simp only: simp_thms)
  have "{r \<in> set ?tab. iv_open r} = close_iv t ` {r \<in> set tab. iv_open r \<and> iv_ytno r \<noteq> t_ytno t}" by auto
  then show "open_trucks ?tab = open_trucks tab - {t_ytno t}" by (auto simp: open_trucks_def image_image)
  have e: "filter (\<lambda>r. iv_ytno r = t_ytno t \<and> iv_open r) tab = filter (\<lambda>r. iv_ytno r = t_ytno t) (filter iv_open tab)"
    by (simp add: conj_commute)
  have "length (filter (\<lambda>r. iv_ytno r = t_ytno t \<and> iv_open r) tab) = 1"
    unfolding e by (rule one_open) (use wf y in \<open>auto simp: table_wf_def open_trucks_def\<close>)
  then show "write_transition snap t tab = (?tab, True)" using ex by (simp add: write_transition_def)
qed (rule close_disjoint[OF dj])

definition opened :: "snapshot \<Rightarrow> transition \<Rightarrow> interval" where
  "opened snap t = \<lparr>iv_ytno = t_ytno t, iv_enter = t_ts t, iv_exit = None, iv_enter_cause = t_cause t, iv_exit_cause = None,
     iv_enter_program = t_program t, iv_exit_program = None, iv_exit_contno = None, iv_exit_jobtype = None,
     iv_pool = Option.bind (map_of (a_machines (sn_state snap)) (t_ytno t)) m_pool\<rparr>"

lemma opened_simps [simp]: "iv_ytno (opened snap t) = t_ytno t" "iv_enter (opened snap t) = t_ts t" "iv_exit (opened snap t) = None"
  "iv_open (opened snap t)"
  by (simp_all add: opened_def iv_open_def)

lemma write_enter:
  assumes wf: "table_wf tab" and dj: "stays_disjoint tab" and y: "t_ytno t \<notin> open_trucks tab" and en: "t_enter t"
    and new: "past tab (t_ytno t) (t_ts t)"
  shows "write_transition snap t tab = (tab @ [opened snap t], True) \<and> table_wf (tab @ [opened snap t]) \<and>
    stays_disjoint (tab @ [opened snap t]) \<and> open_trucks (tab @ [opened snap t]) = insert (t_ytno t) (open_trucks tab)"
proof (intro conjI)
  have no: "\<not> conflicts tab t" using y new by (force simp: conflicts_def list_ex_iff open_trucks_def past_def)
  then show "write_transition snap t tab = (tab @ [opened snap t], True)" using en by (simp add: write_transition_def opened_def)
  have "t_ytno t \<notin> iv_ytno ` {r \<in> set tab. iv_open r}" using y by (simp add: open_trucks_def)
  then show "table_wf (tab @ [opened snap t])" using wf new by (force simp: table_wf_def past_def)
  have "{r \<in> set (tab @ [opened snap t]). iv_open r} = insert (opened snap t) {r \<in> set tab. iv_open r}" by auto
  then show "open_trucks (tab @ [opened snap t]) = insert (t_ytno t) (open_trucks tab)" by (simp add: open_trucks_def)
  have "\<exists>x. iv_exit r = Some x \<and> x \<le> t_ts t" if "r \<in> set tab" "iv_ytno r = t_ytno t" for r
    using that y new by (cases "iv_exit r") (force simp: open_trucks_def iv_open_def past_def)+
  moreover have "\<not> t_ts t < iv_enter r" if "r \<in> set tab" "iv_ytno r = t_ytno t" for r
    using that new by (auto simp: past_def)
  ultimately show "stays_disjoint (tab @ [opened snap t])" using dj unfolding stays_disjoint_def by auto
qed

text \<open>A run of legal, later transitions is written without a skip, and keeps the open rows in step with the list.\<close>

definition later :: "interval list \<Rightarrow> transition list \<Rightarrow> bool" where
  "later tab out \<longleftrightarrow> (\<forall>t \<in> set out. past tab (t_ytno t) (t_ts t)) \<and> sorted (map t_ts out) \<and>
     distinct (map (\<lambda>t. (t_ytno t, t_ts t)) out)"

lemma later_strict: "later tab (t # out) \<Longrightarrow> u \<in> set out \<Longrightarrow> t_ytno u = t_ytno t \<Longrightarrow> t_ts t < t_ts u"
  by (auto simp: later_def image_iff order_le_less)

lemma later_enter: "later tab (t # out) \<Longrightarrow> later (tab @ [opened snap t]) out"
  using later_strict[of tab t out] by (auto simp: later_def past_def)

lemma later_exit: "later tab (t # out) \<Longrightarrow> later (map (close_iv t) tab) out"
  using later_strict[of tab t out] by (fastforce simp: later_def past_def close_iv_exit)

lemma upto_exit: "table_upto tab b \<Longrightarrow> t_ts t \<le> b \<Longrightarrow> table_upto (map (close_iv t) tab) b"
  by (auto simp: table_upto_def close_iv_exit)

lemma upto_enter: "table_upto tab b \<Longrightarrow> t_ts t \<le> b \<Longrightarrow> table_upto (tab @ [opened snap t]) b"
  by (auto simp: table_upto_def)

lemma write_all_ok:
  assumes "table_wf tab" "stays_disjoint tab" "run_trans (open_trucks tab) out = Some F'" "later tab out"
    "table_upto tab b" "\<forall>t \<in> set out. t_ts t \<le> b"
  shows "\<exists>tab'. write_all snap out tab = (tab', 0) \<and> table_wf tab' \<and> stays_disjoint tab' \<and> open_trucks tab' = F' \<and> table_upto tab' b"
  using assms
proof (induction out arbitrary: tab)
  case (Cons t out)
  have b: "t_ts t \<le> b" "\<forall>t \<in> set out. t_ts t \<le> b" using Cons.prems(6) by auto
  show ?case
  proof (cases "t_enter t")
    case True
    then have y: "t_ytno t \<notin> open_trucks tab" and run: "run_trans (insert (t_ytno t) (open_trucks tab)) out = Some F'"
      using Cons.prems(3) by (auto split: if_splits)
    have "past tab (t_ytno t) (t_ts t)" using Cons.prems(4) by (simp add: later_def)
    note w = write_enter[OF Cons.prems(1,2) y True this, of snap]
    obtain tab' where "write_all snap out (tab @ [opened snap t]) = (tab', 0)" "table_wf tab'" "stays_disjoint tab'"
      "open_trucks tab' = F'" "table_upto tab' b"
      using Cons.IH[of "tab @ [opened snap t]"] w run later_enter[OF Cons.prems(4)] upto_enter[OF Cons.prems(5) b(1)] b(2) by auto
    then show ?thesis using w by auto
  next
    case False
    then have y: "t_ytno t \<in> open_trucks tab" and run: "run_trans (open_trucks tab - {t_ytno t}) out = Some F'"
      using Cons.prems(3) by (auto split: if_splits)
    note w = write_exit[OF Cons.prems(1,2) y False, of snap]
    obtain tab' where "write_all snap out (map (close_iv t) tab) = (tab', 0)" "table_wf tab'" "stays_disjoint tab'"
      "open_trucks tab' = F'" "table_upto tab' b"
      using Cons.IH[of "map (close_iv t) tab"] w run later_exit[OF Cons.prems(4)] upto_exit[OF Cons.prems(5) b(1)] b(2) by auto
    then show ?thesis using w by auto
  qed
qed simp

section \<open>The anchor survives storage\<close>

lemma stored_rows: "set (a_rows (an_state (anchor_from_json t (anchor_to_json a)))) = set (a_rows (an_state a))"
proof -
  have id: "(\<lambda>(c, p, q, ytno, ys). ((c, p, q), \<lparr>j_ytno = ytno, j_ys = ys\<rparr>)) \<circ> (\<lambda>((c, p, q), r). (c, p, q, j_ytno r, j_ys r)) = (\<lambda>x. x)"
    by (auto simp: fun_eq_iff)
  then have "(\<lambda>(c, p, q, ytno, ys). ((c, p, q), \<lparr>j_ytno = ytno, j_ys = ys\<rparr>)) ` (\<lambda>((c, p, q), r). (c, p, q, j_ytno r, j_ys r)) ` A = A" for A
    unfolding image_comp id by simp
  then show ?thesis by (simp add: anchor_from_json_def anchor_to_json_def Let_def)
qed

lemma stored_machines: "set (a_machines (an_state (anchor_from_json t (anchor_to_json a)))) = set (a_machines (an_state a))"
proof -
  have id: "(\<lambda>(c, onoff, pool). (c, \<lparr>m_onoff = onoff, m_pool = pool\<rparr>)) \<circ> (\<lambda>(c, m). (c, m_onoff m, m_pool m)) = (\<lambda>x. x)"
    by (auto simp: fun_eq_iff)
  then have "(\<lambda>(c, onoff, pool). (c, \<lparr>m_onoff = onoff, m_pool = pool\<rparr>)) ` (\<lambda>(c, m). (c, m_onoff m, m_pool m)) ` A = A" for A
    unfolding image_comp id by simp
  then show ?thesis by (simp add: anchor_from_json_def anchor_to_json_def Let_def)
qed

lemma stored_stopped: "set (a_stopped (an_state (anchor_from_json t (anchor_to_json a)))) = set (a_stopped (an_state a))"
  by (simp add: anchor_from_json_def anchor_to_json_def Let_def)

lemma stored_fields [simp]:
  "an_as_of (anchor_from_json t (anchor_to_json a)) = t"
  "an_scn (anchor_from_json t (anchor_to_json a)) = an_scn a"
  "an_last_ts (anchor_from_json t (anchor_to_json a)) = an_last_ts a"
  by (simp_all add: anchor_from_json_def anchor_to_json_def Let_def)

lemma free_set_cong:
  "set (a_rows s) = set (a_rows s') \<Longrightarrow> set (a_machines s) = set (a_machines s') \<Longrightarrow> set (a_stopped s) = set (a_stopped s') \<Longrightarrow>
   free_set s = free_set s'"
proof -
  assume a: "set (a_rows s) = set (a_rows s')" "set (a_machines s) = set (a_machines s')" "set (a_stopped s) = set (a_stopped s')"
  then have "busy_set s = busy_set s'" by (auto simp: busy_set_mem)
  then show ?thesis using a by (simp add: free_set_def)
qed

lemma stored_free [simp]: "free_set (an_state (anchor_from_json t (anchor_to_json a))) = free_set (an_state a)"
  by (intro free_set_cong stored_rows stored_machines stored_stopped)

section \<open>A tick keeps table and anchor in step\<close>

definition stored_list :: "us \<times> anchor_json \<Rightarrow> string set" where
  "stored_list p = free_set (an_state (anchor_from_json (fst p) (snd p)))"

definition stored_last :: "us \<times> anchor_json \<Rightarrow> us" where
  "stored_last p = max (fst p) (aj_last_ts (snd p))"

definition avail_inv :: "avail_db \<Rightarrow> bool" where
  "avail_inv db \<longleftrightarrow> table_wf (db_intervals db) \<and> stays_disjoint (db_intervals db) \<and>
     (case db_anchor db of
        Some p \<Rightarrow> open_trucks (db_intervals db) = stored_list p \<and> table_upto (db_intervals db) (stored_last p)
      | None \<Rightarrow> open_trucks (db_intervals db) = {})"

lemma next_anchor_list [simp]: "stored_list (next_anchor snap scn l) = free_set (sn_state snap)"
  by (simp add: stored_list_def next_anchor_def)

lemma next_anchor_last [simp]: "stored_last (next_anchor snap scn l) = max (sn_as_of snap) l"
  by (simp add: stored_last_def next_anchor_def anchor_to_json_def Let_def)

text \<open>Rewriting every row without touching truck or start, and leaving none open.\<close>

lemma close_all:
  assumes wf: "table_wf tab" and f: "\<And>r. iv_ytno (f r) = iv_ytno r \<and> iv_enter (f r) = iv_enter r \<and> \<not> iv_open (f r)"
    and x: "\<And>r x. r \<in> set tab \<Longrightarrow> iv_exit (f r) = Some x \<Longrightarrow> iv_enter r \<le> x"
  shows "table_wf (map f tab) \<and> open_trucks (map f tab) = {}"
proof -
  have "filter iv_open (map f tab) = []" using f by (auto simp: filter_empty_conv)
  moreover have "map (\<lambda>r. (iv_ytno r, iv_enter r)) (map f tab) = map (\<lambda>r. (iv_ytno r, iv_enter r)) tab" using f by simp
  ultimately show ?thesis using wf f x unfolding table_wf_def open_trucks_def
    by (auto simp del: map_map split: option.splits)
qed

lemma cut_back_all: "table_wf tab \<Longrightarrow> table_wf (map (cut_back t) tab) \<and> open_trucks (map (cut_back t) tab) = {}"
  by (rule close_all) (auto simp: cut_back_def iv_open_def table_wf_def split: option.splits if_splits)

lemma close_gap_all: "table_wf tab \<Longrightarrow> table_wf (map (close_gap p c) tab) \<and> open_trucks (map (close_gap p c) tab) = {}"
  by (rule close_all) (auto simp: close_gap_def iv_open_def table_wf_def split: option.splits if_splits)

lemma close_gap_enter [simp]: "iv_enter (close_gap p c r) = iv_enter r" "iv_ytno (close_gap p c r) = iv_ytno r"
  by (auto simp: close_gap_def)

lemma init_run: "run_trans {} (init_transitions snap) = Some (free_set (sn_state snap))"
  unfolding init_transitions_def by (subst run_enters) auto

lemma cut_back_disjoint: "stays_disjoint tab \<Longrightarrow> stays_disjoint (map (cut_back t) tab)"
  unfolding stays_disjoint_def by (fastforce simp: cut_back_def split: option.splits if_splits)

lemma close_gap_disjoint: "stays_disjoint tab \<Longrightarrow> stays_disjoint (map (close_gap p c) tab)"
  unfolding stays_disjoint_def by (fastforce simp: close_gap_def iv_open_def)

text \<open>
  What the tick relies on when it starts afresh: the snapshot is later than the start of every stay in
  the table and not earlier than any recorded end or the last moment known.
\<close>

definition fresh_start :: "us \<Rightarrow> snapshot \<Rightarrow> avail_db \<Rightarrow> bool" where
  "fresh_start now snap db \<longleftrightarrow> (usable_anchor now db = None \<longrightarrow>
     (\<forall>r \<in> set (db_intervals db). iv_enter r < sn_as_of snap \<and> (\<forall>x. iv_exit r = Some x \<longrightarrow> x \<le> sn_as_of snap)) \<and>
     (\<forall>c \<in> set (db_checks db). c \<le> sn_as_of snap))"

lemma close_gap_past:
  assumes "\<forall>r \<in> set tab. iv_enter r < t \<and> (\<forall>x. iv_exit r = Some x \<longrightarrow> x \<le> t)" "\<forall>c \<in> set checks. c \<le> t" "\<forall>p. prev = Some p \<longrightarrow> p \<le> t"
    and r: "r \<in> set (map (close_gap prev checks) tab)"
  shows "iv_enter r < t \<and> (\<forall>x. iv_exit r = Some x \<longrightarrow> x \<le> t)"
proof -
  obtain q where q: "q \<in> set tab" "r = close_gap prev checks q" using r by auto
  have "checks \<noteq> [] \<Longrightarrow> Max (set checks) \<le> t" using assms(2) by simp
  then show ?thesis using q assms(1,3) by (force simp: close_gap_def split: option.splits)
qed

context replayer
begin

lemma replay_tick_ok:
  assumes inv: "avail_inv db" and a: "db_anchor db = Some (ts, j)"
  shows "\<exists>tab. write_all snap (re_transitions (rep (anchor_from_json ts j) changes snap)) (db_intervals db) = (tab, 0) \<and>
    table_wf tab \<and> stays_disjoint tab \<and> open_trucks tab = free_set (sn_state snap) \<and>
    table_upto tab (re_last_ts (rep (anchor_from_json ts j) changes snap))"
proof -
  let ?an = "anchor_from_json ts j"
  let ?r = "rep ?an changes snap"
  have I: "table_wf (db_intervals db)" "stays_disjoint (db_intervals db)" "open_trucks (db_intervals db) = free_set (an_state ?an)"
    "table_upto (db_intervals db) (max (an_as_of ?an) (an_last_ts ?an))"
    using inv a by (auto simp: avail_inv_def stored_list_def stored_last_def anchor_from_json_def)
  have T: "timed (max (an_as_of ?an) (an_last_ts ?an)) (re_transitions ?r) (re_last_ts ?r)" by (rule rep_timed)
  have up: "table_upto (db_intervals db) (re_last_ts ?r)" using I(4) T by (fastforce simp: table_upto_def timed_def)
  have "past (db_intervals db) (t_ytno t) (t_ts t)" if "t \<in> set (re_transitions ?r)" for t
    using I(4) T that unfolding past_def table_upto_def timed_def by (meson order.strict_trans1 order_less_imp_le order_trans)
  then have "later (db_intervals db) (re_transitions ?r)" using T by (auto simp: later_def timed_def)
  then show ?thesis using write_all_ok[OF I(1,2) _ _ up, of "re_transitions ?r"] I(3) rep_runs T by (auto simp: timed_def)
qed

lemma tick_inv:
  assumes inv: "avail_inv db" and fr: "fresh_start now snap db"
    and t: "tick_tos_avail_with rep now (Inr (snap, changes)) db = (db', res)"
  shows "avail_inv db' \<and> res = Inr 0"
proof -
  have wf: "table_wf (db_intervals db)" "stays_disjoint (db_intervals db)" using inv by (auto simp: avail_inv_def)
  consider "case db_anchor db of Some (a, _) \<Rightarrow> sn_as_of snap \<le> a | None \<Rightarrow> False"
    | ts j where "\<not> (case db_anchor db of Some (a, _) \<Rightarrow> sn_as_of snap \<le> a | None \<Rightarrow> False)" "usable_anchor now db = Some (ts, j)"
    | "\<not> (case db_anchor db of Some (a, _) \<Rightarrow> sn_as_of snap \<le> a | None \<Rightarrow> False)" "usable_anchor now db = None"
    by (cases "usable_anchor now db") auto
  then show ?thesis
  proof cases
    case 1
    then show ?thesis using t cut_back_all[OF wf(1), of "sn_as_of snap"] cut_back_disjoint[OF wf(2)]
      by (auto simp: tick_tos_avail_with_def avail_inv_def)
  next
    case 2
    then have a: "db_anchor db = Some (ts, j)" by (auto simp: usable_anchor_def bind_eq_Some_conv split: if_splits)
    let ?r = "rep (anchor_from_json ts j) changes snap"
    obtain tab where w: "write_all snap (re_transitions ?r) (db_intervals db) = (tab, 0)" "table_wf tab" "stays_disjoint tab"
      "open_trucks tab = free_set (sn_state snap)" "table_upto tab (re_last_ts ?r)"
      using replay_tick_ok[OF inv a] by blast
    then have "db' = \<lparr>db_intervals = tab, db_anchor = Some (next_anchor snap (re_scn ?r) (re_last_ts ?r)),
        db_checks = List.insert (sn_as_of snap) (db_checks db)\<rparr> \<and> res = Inr 0"
      using t 2 by (auto simp: tick_tos_avail_with_def Let_def)
    moreover have "table_upto tab (max (sn_as_of snap) (re_last_ts ?r))" using w(5) by (fastforce simp: table_upto_def)
    ultimately show ?thesis using w by (simp add: avail_inv_def)
  next
    case 3
    let ?cl = "map (close_gap (map_option fst (db_anchor db)) (db_checks db)) (db_intervals db)"
    have cl: "table_wf ?cl" "open_trucks ?cl = {}" "stays_disjoint ?cl" using close_gap_all[OF wf(1)] close_gap_disjoint[OF wf(2)] by auto
    have old: "iv_enter r < sn_as_of snap \<and> (\<forall>x. iv_exit r = Some x \<longrightarrow> x \<le> sn_as_of snap)" if "r \<in> set ?cl" for r
    proof (rule close_gap_past[OF _ _ _ that])
      show "\<forall>p. map_option fst (db_anchor db) = Some p \<longrightarrow> p \<le> sn_as_of snap" using 3(1) by (auto split: option.splits)
    qed (use fr 3(2) in \<open>auto simp: fresh_start_def\<close>)
    have up: "table_upto ?cl (sn_as_of snap)" unfolding table_upto_def using old by (meson order_less_imp_le)
    have "later ?cl (init_transitions snap)" unfolding later_def
    proof (intro conjI ballI)
      show "past ?cl (t_ytno t) (t_ts t)" if "t \<in> set (init_transitions snap)" for t
      proof -
        have "t_ts t = sn_as_of snap" using that by (auto simp: init_transitions_def)
        then show ?thesis unfolding past_def using old by metis
      qed
    qed (simp_all add: init_transitions_def comp_def distinct_map inj_on_def map_replicate_const)
    moreover have "run_trans (open_trucks ?cl) (init_transitions snap) = Some (free_set (sn_state snap))" using cl(2) init_run by simp
    moreover have "\<forall>t \<in> set (init_transitions snap). t_ts t \<le> sn_as_of snap" by (auto simp: init_transitions_def)
    ultimately obtain tab where w: "write_all snap (init_transitions snap) ?cl = (tab, 0)" "table_wf tab" "stays_disjoint tab"
      "open_trucks tab = free_set (sn_state snap)" "table_upto tab (sn_as_of snap)"
      using write_all_ok[OF cl(1,3) _ _ up] by blast
    moreover have "db' = \<lparr>db_intervals = tab,
        db_anchor = Some (next_anchor snap (foldl max 0 (map ch_scn changes)) (sn_as_of snap)),
        db_checks = List.insert (sn_as_of snap) (db_checks db)\<rparr> \<and> res = Inr 0"
      using t 3 w(1) by (auto simp: tick_tos_avail_with_def Let_def)
    ultimately show ?thesis by (simp add: avail_inv_def)
  qed
qed

end

section \<open>Every reachable table\<close>

definition avail_init :: "avail_db \<Rightarrow> bool" where
  "avail_init db \<longleftrightarrow> db_intervals db = [] \<and> db_anchor db = None"

inductive avail_step :: "avail_db \<Rightarrow> avail_db \<Rightarrow> bool" where
  step_tick: "fresh_start now snap db \<Longrightarrow> tick_tos_avail now (Inr (snap, changes) :: fetch_error + snapshot \<times> change list) db = (db', res) \<Longrightarrow> avail_step db db'"
| step_failed: "tick_tos_avail now (Inl e :: fetch_error + snapshot \<times> change list) db = (db', res) \<Longrightarrow> avail_step db db'"

interpretation avail: invariant_system avail_init avail_step avail_inv
proof
  show "avail_inv s" if "avail_init s" for s
    using that by (simp add: avail_init_def avail_inv_def table_wf_def open_trucks_def stays_disjoint_def)
  show "avail_inv s'" if "avail_inv s" "avail_step s s'" for s s'
    using that(2,1)
    by (cases rule: avail_step.cases) (auto simp: tick_tos_avail_def tick_tos_avail_with_def dest: tos.tick_inv)
qed

section \<open>Properties\<close>


definition demo_snap :: snapshot where
  "demo_snap = \<lparr>sn_as_of = 5000000, sn_state = demo_cur, sn_last_on = [], sn_last_off = []\<rparr>"

definition demo_db :: avail_db where
  "demo_db = fst (tick_tos_avail 5000000 (Inr (demo_snap, []) :: fetch_error + snapshot \<times> change list)
     \<lparr>db_intervals = [], db_anchor = None, db_checks = []\<rparr>)"

lemma demo_db_reachable: "reachable avail_init avail_step demo_db"
proof -
  let ?d0 = "\<lparr>db_intervals = [], db_anchor = None, db_checks = []\<rparr>"
  have "reachable avail_init avail_step ?d0" by (rule reachable_init) (simp add: avail_init_def)
  moreover have "avail_step ?d0 demo_db"
  proof (rule step_tick)
    show "fresh_start 5000000 demo_snap ?d0" by (simp add: fresh_start_def)
    show "tick_tos_avail 5000000 (Inr (demo_snap, []) :: fetch_error + snapshot \<times> change list) ?d0 =
        (demo_db, snd (tick_tos_avail 5000000 (Inr (demo_snap, []) :: fetch_error + snapshot \<times> change list) ?d0))"
      by (simp add: demo_db_def)
  qed
  ultimately show ?thesis by (rule reachable_step)
qed

lemma demo_db_eq: "db_anchor demo_db = Some (next_anchor demo_snap 0 5000000)"
  by (simp add: demo_db_def tick_tos_avail_def tick_tos_avail_with_def usable_anchor_def demo_snap_def split_beta Let_def)




text \<open>
  Storing and reading back an anchor keeps it: the same order rows, trucks and stops, the same
  commit number and last time, and the same logon times per truck.
\<close>

theorem anchor_round_trip:
  assumes "\<forall>l. an_logons a = Some l \<longrightarrow> hm_ok (lg_on l) \<and> hm_ok (lg_off l)"
  shows "set (a_rows (an_state (anchor_from_json (an_as_of a) (anchor_to_json a)))) = set (a_rows (an_state a)) \<and>
    set (a_machines (an_state (anchor_from_json (an_as_of a) (anchor_to_json a)))) = set (a_machines (an_state a)) \<and>
    set (a_stopped (an_state (anchor_from_json (an_as_of a) (anchor_to_json a)))) = set (a_stopped (an_state a)) \<and>
    an_as_of (anchor_from_json (an_as_of a) (anchor_to_json a)) = an_as_of a \<and>
    an_scn (anchor_from_json (an_as_of a) (anchor_to_json a)) = an_scn a \<and>
    an_last_ts (anchor_from_json (an_as_of a) (anchor_to_json a)) = an_last_ts a \<and>
    (\<forall>c. Option.bind (an_logons (anchor_from_json (an_as_of a) (anchor_to_json a))) (\<lambda>l. map_of (lg_on l) c) =
       Option.bind (an_logons a) (\<lambda>l. map_of (lg_on l) c)) \<and>
    (\<forall>c. Option.bind (an_logons (anchor_from_json (an_as_of a) (anchor_to_json a))) (\<lambda>l. map_of (lg_off l) c) =
       Option.bind (an_logons a) (\<lambda>l. map_of (lg_off l) c))"
proof -
  have "map_of (sort_key fst m) = map_of m" if "hm_ok m" for m :: "(string \<times> us) list"
    using that by (intro map_of_eqI) (auto simp: hm_ok_def distinct_map)
  then show ?thesis using assms stored_rows stored_machines stored_stopped stored_fields
    by (auto simp: anchor_from_json_def anchor_to_json_def Let_def split: option.splits)
qed

theorem anchor_round_trip_witness:
  "an_scn (anchor_from_json 9 (anchor_to_json
     \<lparr>an_as_of = 9, an_state = demo_cur, an_scn = 4, an_last_ts = 9, an_logons = None\<rparr>)) = 4"
  using anchor_round_trip[of "\<lparr>an_as_of = 9, an_state = demo_cur, an_scn = 4, an_last_ts = 9, an_logons = None\<rparr>"] by simp

end
