(* ===== verification/WakeGate.thy ===== *)
theory WakeGate
  imports Prelude
begin

text \<open>
  When the matching runs (\<^verbatim>\<open>src/crates/api/src/livemap.rs\<close>): the wait for a new work list or a new free
  event (\<^verbatim>\<open>wait_for_workpool_landing\<close>), with its heartbeat, and the freshness gate
  (\<^verbatim>\<open>workpool_stale_reason\<close>) that closes when the list is too old or its age unknown.

  The database is a parameter: the answers to the polls, one per poll, each an error or a row of ages
  and landing times. The clock is the time waited, which is at least the poll interval times the
  number of polls before.
\<close>

type_synonym tstamp = int

definition WORKPOOL_MAX_AGE_S :: int where
  "WORKPOOL_MAX_AGE_S = 300"

definition WAKE_POLL_MS :: int where
  "WAKE_POLL_MS = 2000"

definition WAKE_MAX_WAIT_MS :: int where
  "WAKE_MAX_WAIT_MS = 150000"

definition PREV_WINDOW_S :: int where
  "PREV_WINDOW_S = WAKE_MAX_WAIT_MS div 1000 + 60"

datatype stale_reason = TooOld int "int option" | NoRecord | QueryFailed string

definition workpool_stale_reason :: "string + (int option \<times> int option) \<Rightarrow> stale_reason option" where
  "workpool_stale_reason res =
     (case res of
        Inr (Some age, table_age) \<Rightarrow> if age \<le> WORKPOOL_MAX_AGE_S then None else Some (TooOld age table_age)
      | Inr (None, _) \<Rightarrow> Some NoRecord
      | Inl e \<Rightarrow> Some (QueryFailed e))"

datatype wake_src = Startup | Landing | Fallback | Free

definition wake_str :: "wake_src \<Rightarrow> string" where
  "wake_str w = (case w of Startup \<Rightarrow> ''startup'' | Landing \<Rightarrow> ''landing'' | Fallback \<Rightarrow> ''fallback'' | Free \<Rightarrow> ''free'')"

datatype wake_step = Wake wake_src | KeepWaiting

definition should_wake :: "tstamp option \<Rightarrow> tstamp option \<Rightarrow> int \<Rightarrow> wake_step" where
  "should_wake seen landed waited =
     (case (seen, landed) of
        (None, Some _) \<Rightarrow> Wake Startup
      | (Some s, Some l) \<Rightarrow>
          if l > s then Wake Landing else if waited \<ge> WAKE_MAX_WAIT_MS then Wake Fallback else KeepWaiting
      | _ \<Rightarrow> if waited \<ge> WAKE_MAX_WAIT_MS then Wake Fallback else KeepWaiting)"

definition free_advanced :: "tstamp option \<Rightarrow> tstamp option \<Rightarrow> bool" where
  "free_advanced seen landed = (case (seen, landed) of (Some s, Some l) \<Rightarrow> l > s | _ \<Rightarrow> False)"

definition combine_wake :: "wake_step \<Rightarrow> bool \<Rightarrow> wake_step" where
  "combine_wake wp free_new =
     (if wp = Wake Startup \<or> wp = Wake Landing then wp else if free_new then Wake Free else wp)"

definition advance_one :: "bool \<Rightarrow> tstamp option \<Rightarrow> tstamp option \<Rightarrow> tstamp option" where
  "advance_one woke s l = (if l \<noteq> None \<and> (woke \<or> s = None) then l else s)"

definition advance_free_seen :: "tstamp option \<times> tstamp option \<Rightarrow> tstamp option \<times> tstamp option \<Rightarrow> bool \<Rightarrow> tstamp option \<times> tstamp option" where
  "advance_free_seen seen landed woke = (advance_one woke (fst seen) (fst landed), advance_one woke (snd seen) (snd landed))"

text \<open>One answer of the freshness query: age of the last success, age of the table, three landing times.\<close>

type_synonym poll = "string + (int option \<times> int option \<times> tstamp option \<times> tstamp option \<times> tstamp option)"

record wake_state =
  ws_seen :: "tstamp option"
  ws_free :: "tstamp option \<times> tstamp option"

definition poll_landed :: "poll \<Rightarrow> tstamp option" where
  "poll_landed row = (case row of Inr (_, _, ts, _, _) \<Rightarrow> ts | Inl _ \<Rightarrow> None)"

definition poll_free :: "poll \<Rightarrow> tstamp option \<times> tstamp option" where
  "poll_free row = (case row of Inr (_, _, _, ld, ds) \<Rightarrow> (ld, ds) | Inl _ \<Rightarrow> (None, None))"

definition poll_gate :: "poll \<Rightarrow> string + (int option \<times> int option)" where
  "poll_gate row = (case row of Inr (age, table_age, _, _, _) \<Rightarrow> Inr (age, table_age) | Inl e \<Rightarrow> Inl e)"

definition wake_decision :: "bool \<Rightarrow> wake_state \<Rightarrow> poll \<Rightarrow> int \<Rightarrow> wake_step" where
  "wake_decision wake_on_free st row waited =
     (let free_new = (wake_on_free \<and>
            (free_advanced (fst (ws_free st)) (fst (poll_free row)) \<or> free_advanced (snd (ws_free st)) (snd (poll_free row))))
      in combine_wake (should_wake (ws_seen st) (poll_landed row) waited) free_new)"

text \<open>
  The loop. \<^verbatim>\<open>polls\<close> are the answers still to come with the time waited when each arrives; the result
  \<^verbatim>\<open>None\<close> means the list ran out before the loop woke.
\<close>

fun wait_loop :: "bool \<Rightarrow> (poll \<times> int) list \<Rightarrow> wake_state \<Rightarrow> (wake_src \<times> (string + (int option \<times> int option)) \<times> wake_state) option" where
  "wait_loop wake_on_free [] st = None"
| "wait_loop wake_on_free ((row, waited) # polls) st =
     (case wake_decision wake_on_free st row waited of
        Wake src \<Rightarrow>
          Some (src, poll_gate row,
            st\<lparr>ws_seen := (if poll_landed row \<noteq> None then poll_landed row else ws_seen st),
               ws_free := advance_free_seen (ws_free st) (poll_free row) True\<rparr>)
      | KeepWaiting \<Rightarrow>
          wait_loop wake_on_free polls (st\<lparr>ws_free := advance_free_seen (ws_free st) (poll_free row) False\<rparr>))"

section \<open>The loop ends\<close>

text \<open>The time waited at poll \<open>k\<close> is at least \<open>k\<close> poll intervals.\<close>

definition paced :: "(poll \<times> int) list \<Rightarrow> bool" where
  "paced polls \<longleftrightarrow> (\<forall>k < length polls. int k * WAKE_POLL_MS \<le> snd (polls ! k))"

lemma heartbeat: "waited \<ge> WAKE_MAX_WAIT_MS \<Longrightarrow> wake_decision f st row waited \<noteq> KeepWaiting"
  by (auto simp: wake_decision_def combine_wake_def should_wake_def Let_def split: option.splits)

lemma wait_loop_wakes:
  assumes "p \<in> set polls" "snd p \<ge> WAKE_MAX_WAIT_MS"
  shows "\<exists>r. wait_loop f polls st = Some r"
  using assms(1)
proof (induction f polls st rule: wait_loop.induct)
  case (2 f row waited polls st)
  then show ?case using heartbeat[of waited f st row] assms(2)
    by (cases "wake_decision f st row waited") auto
qed simp

text \<open>What the loop returns is the decision at one of the polls, with the state the earlier polls left.\<close>

fun idle :: "(poll \<times> int) list \<Rightarrow> wake_state \<Rightarrow> wake_state" where
  "idle [] st = st"
| "idle ((row, waited) # ps) st = idle ps (st\<lparr>ws_free := advance_free_seen (ws_free st) (poll_free row) False\<rparr>)"

lemma idle_seen [simp]: "ws_seen (idle ps st) = ws_seen st"
  by (induction ps st rule: idle.induct) auto

lemma wait_loop_at:
  "wait_loop f polls st = Some (src, gate, st') \<Longrightarrow>
   \<exists>pre row waited post. polls = pre @ (row, waited) # post \<and> wake_decision f (idle pre st) row waited = Wake src \<and> gate = poll_gate row \<and>
     st' = (idle pre st)\<lparr>ws_seen := (if poll_landed row \<noteq> None then poll_landed row else ws_seen st),
        ws_free := advance_free_seen (ws_free (idle pre st)) (poll_free row) True\<rparr>"
proof (induction f polls st rule: wait_loop.induct)
  case (2 f row waited polls st)
  show ?case
  proof (cases "wake_decision f st row waited")
    case (Wake s)
    then show ?thesis using 2(2) by (intro exI[of _ "[]"] exI[of _ row] exI[of _ waited] exI[of _ polls]) auto
  next
    case KeepWaiting
    then obtain pre r w post where "polls = pre @ (r, w) # post"
      "wake_decision f (idle ((row, waited) # pre) st) r w = Wake src" "gate = poll_gate r"
      "st' = (idle ((row, waited) # pre) st)\<lparr>ws_seen := (if poll_landed r \<noteq> None then poll_landed r else ws_seen st),
        ws_free := advance_free_seen (ws_free (idle ((row, waited) # pre) st)) (poll_free r) True\<rparr>"
      using 2 by auto
    then show ?thesis by (intro exI[of _ "(row, waited) # pre"] exI[of _ r] exI[of _ w] exI[of _ post]) auto
  qed
qed simp

lemma decision_reason:
  "wake_decision f st row waited = Wake src \<Longrightarrow>
   (case src of
      Startup \<Rightarrow> ws_seen st = None \<and> poll_landed row \<noteq> None
    | Landing \<Rightarrow> (\<exists>s l. ws_seen st = Some s \<and> poll_landed row = Some l \<and> s < l)
    | Free \<Rightarrow> f \<and> (free_advanced (fst (ws_free st)) (fst (poll_free row)) \<or> free_advanced (snd (ws_free st)) (snd (poll_free row)))
    | Fallback \<Rightarrow> WAKE_MAX_WAIT_MS \<le> waited)"
  by (auto simp: wake_decision_def combine_wake_def should_wake_def Let_def split: option.splits if_splits wake_src.splits)

text \<open>After a wake the same landing does not wake the loop again.\<close>

lemma no_second_wake:
  assumes "poll_landed row \<noteq> None" "waited < WAKE_MAX_WAIT_MS"
  shows "wake_decision f (st\<lparr>ws_seen := poll_landed row, ws_free := advance_free_seen fr (poll_free row) True\<rparr>) row waited = KeepWaiting"
proof -
  have "\<not> free_advanced (fst (advance_free_seen fr (poll_free row) True)) (fst (poll_free row))"
    "\<not> free_advanced (snd (advance_free_seen fr (poll_free row) True)) (snd (poll_free row))"
    by (auto simp: free_advanced_def advance_free_seen_def advance_one_def split: option.splits)
  then show ?thesis using assms by (auto simp: wake_decision_def combine_wake_def should_wake_def Let_def split: option.splits)
qed

section \<open>Properties\<close>



text \<open>
  A landing wakes the loop once: in the state a wake leaves behind, the same answer does not wake
  it again before the heartbeat, so the loop cannot spin on one landing.
\<close>

theorem landing_wakes_once:
  assumes "wait_loop wake_on_free polls st = Some (src, gate, st')" "src \<noteq> Fallback" "src \<noteq> Free" "waited < WAKE_MAX_WAIT_MS"
  shows "\<exists>row w. (row, w) \<in> set polls \<and> wake_decision wake_on_free st' row waited = KeepWaiting"
proof -
  obtain pre row w post where p: "polls = pre @ (row, w) # post" "wake_decision wake_on_free (idle pre st) row w = Wake src"
    "st' = (idle pre st)\<lparr>ws_seen := (if poll_landed row \<noteq> None then poll_landed row else ws_seen st),
        ws_free := advance_free_seen (ws_free (idle pre st)) (poll_free row) True\<rparr>"
    using wait_loop_at[OF assms(1)] by blast
  have "poll_landed row \<noteq> None" using decision_reason[OF p(2)] assms(2,3) by (cases src) auto
  then have "wake_decision wake_on_free st' row waited = KeepWaiting" using no_second_wake[OF _ assms(4)] p(3) by simp
  then show ?thesis using p(1) by auto
qed

theorem landing_wakes_once_witness:
  "\<exists>row w. (row, w) \<in> set ([(Inr (Some 5, Some 6, Some 1000, None, None), 0)] :: (poll \<times> int) list) \<and>
     wake_decision True \<lparr>ws_seen = Some 1000, ws_free = (None, None)\<rparr> row 4000 = KeepWaiting"
proof (rule landing_wakes_once)
  show "wait_loop True [(Inr (Some 5, Some 6, Some 1000, None, None), 0)] \<lparr>ws_seen = None, ws_free = (None, None)\<rparr> =
      Some (Startup, Inr (Some 5, Some 6), \<lparr>ws_seen = Some 1000, ws_free = (None, None)\<rparr>)" by code_simp
qed (simp_all add: WAKE_MAX_WAIT_MS_def)

text \<open>
  The freshness gate is open exactly when the age of the last successful extraction is known and
  at most 300 seconds: an error, a missing record or an old list close it. The heartbeat comes before
  the gate would close, and the window in which the previous tick is looked up is wider than the
  heartbeat.
\<close>

theorem gate_fails_closed:
  "(workpool_stale_reason res = None \<longleftrightarrow> (\<exists>age table_age. res = Inr (Some age, table_age) \<and> age \<le> 300)) \<and>
   WAKE_MAX_WAIT_MS < WORKPOOL_MAX_AGE_S * 1000 \<and> WAKE_MAX_WAIT_MS < PREV_WINDOW_S * 1000"
  by (auto simp: workpool_stale_reason_def WORKPOOL_MAX_AGE_S_def WAKE_MAX_WAIT_MS_def PREV_WINDOW_S_def
      split: sum.splits option.splits if_splits)

end
