(* ===== verification/Router.thy ===== *)
theory Router
  imports Prelude "HOL-Library.While_Combinator"
begin

text \<open>
  The directed road graph and its router (\<^verbatim>\<open>src/crates/api/src/roadgraph.rs\<close>): loading the graph with
  its size guards, snapping a coordinate to a node, and the three time-minimal searches
  (\<^verbatim>\<open>field_from\<close>, \<^verbatim>\<open>route\<close>, \<^verbatim>\<open>route_path\<close>).

  A 64-bit float is a real number and the infinite label of an array is \<^verbatim>\<open>None\<close>. The searches take the
  heap's \<^verbatim>\<open>pop\<close> as an argument: the theorems hold for every heap that hands out an entry of least time,
  in whatever order it breaks ties; \<^verbatim>\<open>heap_pop\<close> is one.
\<close>

section \<open>Data\<close>

definition FALLBACK_KMH :: real where "FALLBACK_KMH = 22.8"
definition SNAP_MAX_M :: real where "SNAP_MAX_M = 60"
definition SNAP_SRC_MAX_M :: real where "SNAP_SRC_MAX_M = 150"
definition ROW_MAX :: nat where "ROW_MAX = 200000"
definition ID_SLACK :: nat where "ID_SLACK = 4"
definition ALLOC_MAX_BYTES :: nat where "ALLOC_MAX_BYTES = 16 * 1024 * 1024"
definition U32_MAX :: nat where "U32_MAX = 4294967295"

type_synonym coord = "real \<times> real"

record road_graph =
  nodes :: "coord list"
  adj :: "(nat \<times> real \<times> real) list list"

record route =
  rt_time_s :: real
  rt_dist_m :: real

record route_path =
  rp_pts :: "coord list"
  rp_dist_m :: real

type_synonym node_row = "int \<times> real \<times> real"
type_synonym edge_row = "int \<times> int \<times> real \<times> real option \<times> bool"

section \<open>Loading\<close>

definition max_id :: "node_row list \<Rightarrow> nat" where
  "max_id rows = nat (fold max (map fst rows) 0)"

definition too_sparse :: "node_row list \<Rightarrow> bool" where
  "too_sparse rows \<longleftrightarrow> max_id rows + 1 > max (length rows * ID_SLACK) (2 ^ 16) \<or> (max_id rows + 1) * 40 > ALLOC_MAX_BYTES"

definition put_node :: "node_row \<Rightarrow> coord list \<Rightarrow> coord list" where
  "put_node r ns = (case r of (i, la, lo) \<Rightarrow> if i \<ge> 0 then ns[nat i := (la, lo)] else ns)"

definition edge_time :: "real \<Rightarrow> real option \<Rightarrow> real" where
  "edge_time len_m spd = len_m / ((case spd of Some s \<Rightarrow> if s > 1 then s else FALLBACK_KMH | None \<Rightarrow> FALLBACK_KMH) / 3.6)"

definition put_edge :: "nat \<Rightarrow> edge_row \<Rightarrow> (nat \<times> real \<times> real) list list \<Rightarrow> (nat \<times> real \<times> real) list list" where
  "put_edge maxid e a = (case e of (u, v, len_m, spd, oneway) \<Rightarrow>
     if u < 0 \<or> v < 0 \<or> u > int maxid \<or> v > int maxid then a
     else let u = nat u; v = nat v; t = edge_time len_m spd; a = a[u := a ! u @ [(v, t, len_m)]]
          in if oneway then a else a[v := a ! v @ [(u, t, len_m)]])"

definition load :: "node_row list option \<Rightarrow> edge_row list option \<Rightarrow> road_graph option" where
  "load node_tbl edge_tbl =
     (case (map_option (take (ROW_MAX + 1)) node_tbl, map_option (take (ROW_MAX + 1)) edge_tbl) of
        (Some nodes_raw, Some edges) \<Rightarrow>
          if nodes_raw = [] then None
          else if length nodes_raw > ROW_MAX \<or> length edges > ROW_MAX then None
          else if too_sparse nodes_raw then None
          else Some \<lparr>nodes = fold put_node nodes_raw (replicate (max_id nodes_raw + 1) (0, 0)),
                     adj = fold (put_edge (max_id nodes_raw)) edges (replicate (max_id nodes_raw + 1) [])\<rparr>
      | _ \<Rightarrow> None)"

definition n_nodes :: "road_graph \<Rightarrow> nat" where
  "n_nodes g = length (filter (\<lambda>(la, _). la \<noteq> 0) (nodes g))"

definition n_edges :: "road_graph \<Rightarrow> nat" where
  "n_edges g = sum_list (map length (adj g))"

section \<open>Snapping\<close>

definition dist2 :: "real \<Rightarrow> real \<Rightarrow> coord \<Rightarrow> real" where
  "dist2 lat lon p =
     (let mlat = 111320; mlon = 111320 * cos (lat * pi / 180);
          dn = (fst p - lat) * mlat; de = (snd p - lon) * mlon
      in dn * dn + de * de)"

fun snap_scan :: "real \<Rightarrow> real \<Rightarrow> coord list \<Rightarrow> nat \<Rightarrow> nat option \<times> real \<Rightarrow> nat option \<times> real" where
  "snap_scan lat lon [] i acc = acc"
| "snap_scan lat lon (p # ps) i (best, bestd) =
     (if fst p = 0 then snap_scan lat lon ps (Suc i) (best, bestd)
      else if dist2 lat lon p < bestd then snap_scan lat lon ps (Suc i) (Some i, dist2 lat lon p)
      else snap_scan lat lon ps (Suc i) (best, bestd))"

definition snap_r :: "road_graph \<Rightarrow> real \<Rightarrow> real \<Rightarrow> real \<Rightarrow> nat option" where
  "snap_r g lat lon max_m = fst (snap_scan lat lon (nodes g) 0 (None, max_m * max_m))"

definition snap :: "road_graph \<Rightarrow> real \<Rightarrow> real \<Rightarrow> nat option" where
  "snap g lat lon = snap_r g lat lon SNAP_MAX_M"

definition snap_node :: "road_graph \<Rightarrow> real \<Rightarrow> real \<Rightarrow> nat option" where
  "snap_node g lat lon = snap g lat lon"

section \<open>The heap\<close>

type_synonym heap_item = "real \<times> nat"

fun heap_pop :: "heap_item list \<Rightarrow> (heap_item \<times> heap_item list) option" where
  "heap_pop [] = None"
| "heap_pop (x # xs) =
     (case heap_pop xs of
        None \<Rightarrow> Some (x, [])
      | Some (y, ys) \<Rightarrow> if fst x \<le> fst y then Some (x, xs) else Some (y, x # ys))"

definition t_less :: "real \<Rightarrow> real option \<Rightarrow> bool" where
  "t_less t b = (case b of None \<Rightarrow> True | Some d \<Rightarrow> t < d)"

definition t_greater :: "real \<Rightarrow> real option \<Rightarrow> bool" where
  "t_greater t b = (case b of None \<Rightarrow> False | Some d \<Rightarrow> t > d)"

section \<open>The time field of one source\<close>

record field_state =
  fs_best :: "real option list"
  fs_heap :: "heap_item list"

fun relax_field :: "real \<Rightarrow> (nat \<times> real \<times> real) list \<Rightarrow> field_state \<Rightarrow> field_state" where
  "relax_field ct [] st = st"
| "relax_field ct ((to, et, em) # es) st =
     (let nt = ct + et in
      relax_field ct es
        (if t_less nt (fs_best st ! to)
         then st\<lparr>fs_best := (fs_best st)[to := Some nt], fs_heap := (nt, to) # fs_heap st\<rparr> else st))"

type_synonym pop_fun = "heap_item list \<Rightarrow> (heap_item \<times> heap_item list) option"

definition field_body :: "pop_fun \<Rightarrow> road_graph \<Rightarrow> field_state \<Rightarrow> field_state" where
  "field_body pop g st = (case pop (fs_heap st) of
     None \<Rightarrow> st
   | Some ((ct, node), h) \<Rightarrow>
       if t_greater ct (fs_best st ! node) then st\<lparr>fs_heap := h\<rparr>
       else relax_field ct (adj g ! node) (st\<lparr>fs_heap := h\<rparr>))"

record route_field =
  rf_time_s :: "real option list"

text \<open>The outer \<^verbatim>\<open>None\<close> of a search is a search that does not end.\<close>

definition field_from_with :: "pop_fun \<Rightarrow> road_graph \<Rightarrow> real \<Rightarrow> real \<Rightarrow> route_field option option" where
  "field_from_with pop g lat lon = (case snap_r g lat lon SNAP_SRC_MAX_M of
     None \<Rightarrow> Some None
   | Some s \<Rightarrow>
       map_option (\<lambda>st. Some \<lparr>rf_time_s = fs_best st\<rparr>)
         (while_option (\<lambda>st. pop (fs_heap st) \<noteq> None) (field_body pop g)
            \<lparr>fs_best = (replicate (length (nodes g)) None)[s := Some 0], fs_heap = [(0, s)]\<rparr>))"

definition time_to :: "route_field \<Rightarrow> nat \<Rightarrow> real option" where
  "time_to f node = (if node < length (rf_time_s f) then rf_time_s f ! node else None)"

section \<open>The route between two coordinates\<close>

record route_state =
  rs_best :: "real option list"
  rs_path_m :: "real list"
  rs_heap :: "heap_item list"
  rs_found :: "real option"

fun relax_route :: "real \<Rightarrow> nat \<Rightarrow> (nat \<times> real \<times> real) list \<Rightarrow> route_state \<Rightarrow> route_state" where
  "relax_route ct node [] st = st"
| "relax_route ct node ((to, et, em) # es) st =
     (let nt = ct + et in
      relax_route ct node es
        (if t_less nt (rs_best st ! to)
         then st\<lparr>rs_best := (rs_best st)[to := Some nt], rs_path_m := (rs_path_m st)[to := rs_path_m st ! node + em],
                 rs_heap := (nt, to) # rs_heap st\<rparr> else st))"

definition route_body :: "pop_fun \<Rightarrow> road_graph \<Rightarrow> nat \<Rightarrow> route_state \<Rightarrow> route_state" where
  "route_body pop g t st = (case pop (rs_heap st) of
     None \<Rightarrow> st
   | Some ((ct, node), h) \<Rightarrow>
       if node = t then st\<lparr>rs_heap := h, rs_found := Some ct\<rparr>
       else if t_greater ct (rs_best st ! node) then st\<lparr>rs_heap := h\<rparr>
       else relax_route ct node (adj g ! node) (st\<lparr>rs_heap := h\<rparr>))"

definition route_with :: "pop_fun \<Rightarrow> road_graph \<Rightarrow> real \<Rightarrow> real \<Rightarrow> real \<Rightarrow> real \<Rightarrow> route option option" where
  "route_with pop g alat alon blat blon = (case (snap g alat alon, snap g blat blon) of
     (Some s, Some t) \<Rightarrow>
       if s = t then Some (Some \<lparr>rt_time_s = 0, rt_dist_m = 0\<rparr>)
       else map_option (\<lambda>st. map_option (\<lambda>ct. \<lparr>rt_time_s = ct, rt_dist_m = rs_path_m st ! t\<rparr>) (rs_found st))
         (while_option (\<lambda>st. rs_found st = None \<and> pop (rs_heap st) \<noteq> None) (route_body pop g t)
            \<lparr>rs_best = (replicate (length (nodes g)) None)[s := Some 0], rs_path_m = replicate (length (nodes g)) 0,
             rs_heap = [(0, s)], rs_found = None\<rparr>)
   | _ \<Rightarrow> Some None)"

section \<open>The route with its geometry\<close>

record path_state =
  ps_best :: "real option list"
  ps_path_m :: "real list"
  ps_prev :: "nat list"
  ps_heap :: "heap_item list"
  ps_found :: "real option"

fun relax_path :: "real \<Rightarrow> nat \<Rightarrow> (nat \<times> real \<times> real) list \<Rightarrow> path_state \<Rightarrow> path_state" where
  "relax_path ct node [] st = st"
| "relax_path ct node ((to, et, em) # es) st =
     (let nt = ct + et in
      relax_path ct node es
        (if t_less nt (ps_best st ! to)
         then st\<lparr>ps_best := (ps_best st)[to := Some nt], ps_path_m := (ps_path_m st)[to := ps_path_m st ! node + em],
                 ps_prev := (ps_prev st)[to := node], ps_heap := (nt, to) # ps_heap st\<rparr> else st))"

definition path_body :: "pop_fun \<Rightarrow> road_graph \<Rightarrow> nat option \<Rightarrow> path_state \<Rightarrow> path_state" where
  "path_body pop g t st = (case pop (ps_heap st) of
     None \<Rightarrow> st
   | Some ((ct, node), h) \<Rightarrow>
       if t = Some node then st\<lparr>ps_heap := h, ps_found := Some ct\<rparr>
       else if t_greater ct (ps_best st ! node) then st\<lparr>ps_heap := h\<rparr>
       else relax_path ct node (adj g ! node) (st\<lparr>ps_heap := h\<rparr>))"

definition path_init :: "road_graph \<Rightarrow> nat \<Rightarrow> path_state" where
  "path_init g s = (let n = length (nodes g) in
     \<lparr>ps_best = (replicate n None)[s := Some 0], ps_path_m = replicate n 0, ps_prev = replicate n U32_MAX,
      ps_heap = [(0, s)], ps_found = None\<rparr>)"

partial_function (option) trace :: "road_graph \<Rightarrow> nat \<Rightarrow> nat list \<Rightarrow> nat \<Rightarrow> coord list \<Rightarrow> coord list option option" where
  "trace g s prev cur pts =
     (let pts = pts @ [nodes g ! cur] in
      if cur = s then Some (Some (rev pts))
      else if prev ! cur = U32_MAX then Some None
      else trace g s prev (prev ! cur) pts)"

definition route_path_with :: "pop_fun \<Rightarrow> road_graph \<Rightarrow> real \<Rightarrow> real \<Rightarrow> real \<Rightarrow> real \<Rightarrow> route_path option option" where
  "route_path_with pop g alat alon blat blon = (case (snap_r g alat alon SNAP_SRC_MAX_M, snap g blat blon) of
     (Some s, Some t) \<Rightarrow>
       if s = t then Some (Some \<lparr>rp_pts = [nodes g ! s], rp_dist_m = 0\<rparr>)
       else (case while_option (\<lambda>st. ps_found st = None \<and> pop (ps_heap st) \<noteq> None) (path_body pop g (Some t)) (path_init g s) of
         None \<Rightarrow> None
       | Some st \<Rightarrow> (case ps_found st of
           None \<Rightarrow> Some None
         | Some _ \<Rightarrow>
             map_option (map_option (\<lambda>pts. \<lparr>rp_pts = pts, rp_dist_m = ps_path_m st ! t\<rparr>)) (trace g s (ps_prev st) t [])))
   | _ \<Rightarrow> Some None)"

definition field_from :: "road_graph \<Rightarrow> real \<Rightarrow> real \<Rightarrow> route_field option option" where
  "field_from = field_from_with heap_pop"

definition route_of :: "road_graph \<Rightarrow> real \<Rightarrow> real \<Rightarrow> real \<Rightarrow> real \<Rightarrow> route option option" where
  "route_of = route_with heap_pop"

definition route_path_of :: "road_graph \<Rightarrow> real \<Rightarrow> real \<Rightarrow> real \<Rightarrow> real \<Rightarrow> route_path option option" where
  "route_path_of = route_path_with heap_pop"

section \<open>Paths\<close>

text \<open>\<^verbatim>\<open>path g s v p t m\<close>: the nodes \<open>p\<close> lead from \<open>s\<close> to \<open>v\<close> along edges, in time \<open>t\<close> over \<open>m\<close> metres.\<close>

inductive path :: "road_graph \<Rightarrow> nat \<Rightarrow> nat \<Rightarrow> nat list \<Rightarrow> real \<Rightarrow> real \<Rightarrow> bool" for g s where
  start: "path g s s [s] 0 0"
| edge: "path g s u p t m \<Longrightarrow> (v, et, em) \<in> set (adj g ! u) \<Longrightarrow> path g s v (p @ [v]) (t + et) (m + em)"

definition graph_ok :: "road_graph \<Rightarrow> bool" where
  "graph_ok g \<longleftrightarrow> length (adj g) = length (nodes g) \<and> length (nodes g) \<le> U32_MAX \<and>
     (\<forall>u < length (nodes g). \<forall>(v, et, em) \<in> set (adj g ! u). v < length (nodes g) \<and> 0 \<le> et)"

lemma graph_okD:
  "graph_ok g \<Longrightarrow> u < length (nodes g) \<Longrightarrow> (v, et, em) \<in> set (adj g ! u) \<Longrightarrow> v < length (nodes g) \<and> 0 \<le> et"
  by (auto simp: graph_ok_def)

lemma path_last: "path g s v p t m \<Longrightarrow> p \<noteq> [] \<and> last p = v"
  by (induction rule: path.induct) auto

lemma path_lt: "path g s v p t m \<Longrightarrow> graph_ok g \<Longrightarrow> s < length (nodes g) \<Longrightarrow> v < length (nodes g) \<and> 0 \<le> t"
  by (induction rule: path.induct) (auto dest: graph_okD)

text \<open>The nodes of \<open>p\<close> are what the predecessor array gives, read backwards.\<close>

inductive chain :: "nat list \<Rightarrow> nat \<Rightarrow> nat list \<Rightarrow> bool" for prev s where
  chain_start: "chain prev s [s]"
| chain_step: "chain prev s p \<Longrightarrow> v \<noteq> s \<Longrightarrow> prev ! v = last p \<Longrightarrow> last p \<noteq> U32_MAX \<Longrightarrow> chain prev s (p @ [v])"

lemma chain_nonempty: "chain prev s p \<Longrightarrow> p \<noteq> []"
  by (induction rule: chain.induct) auto

lemma trace_chain: "chain prev s p \<Longrightarrow> trace g s prev (last p) pts = Some (Some (map ((!) (nodes g)) p @ rev pts))"
proof (induction arbitrary: pts rule: chain.induct)
  case chain_start
  then show ?case by (subst trace.simps) (simp add: Let_def)
next
  case (chain_step p v)
  then show ?case by (subst trace.simps) (simp add: Let_def)
qed

lemma chain_update: "chain prev s p \<Longrightarrow> w \<notin> set p \<Longrightarrow> chain (prev[w := x]) s p"
proof (induction rule: chain.induct)
  case (chain_step p v)
  then show ?case by (intro chain.chain_step) auto
qed (rule chain.chain_start)

end
