(* ===== verification/Shortest.thy ===== *)
theory Shortest
  imports Router
begin

text \<open>
  Correctness of the router's searches (\<^verbatim>\<open>field_from\<close>, \<^verbatim>\<open>route\<close>, \<^verbatim>\<open>route_path\<close>). One invariant is proved
  for the search that records most (labels, metres, predecessors); the other two are its projections.
\<close>

section \<open>The heap interface\<close>

text \<open>What the searches ask of the heap: \<^verbatim>\<open>pop\<close> fails only on an empty heap and takes out an entry of least time.\<close>

locale min_heap =
  fixes pop :: "pop_fun"
  assumes pop_none: "pop h = None \<longleftrightarrow> h = []"
    and pop_mset: "pop h = Some (x, h') \<Longrightarrow> mset h = add_mset x (mset h')"
    and pop_min: "pop h = Some (x, h') \<Longrightarrow> y \<in> set h \<Longrightarrow> fst x \<le> fst y"
begin

lemma pop_set: "pop h = Some (x, h') \<Longrightarrow> set h = insert x (set h')"
  using pop_mset[of h x h'] by (metis set_mset_add_mset_insert set_mset_mset)

lemma pop_length: "pop h = Some (x, h') \<Longrightarrow> length h = Suc (length h')"
  using pop_mset[of h x h'] by (metis size_add_mset size_mset)

lemma pop_distinct:
  assumes "pop h = Some (x, h')" "distinct h"
  shows "distinct h' \<and> x \<notin> set h'"
proof -
  have "mset h = mset (x # h')" using pop_mset[OF assms(1)] by simp
  then have "distinct (x # h')" using assms(2) mset_eq_imp_distinct_iff by blast
  then show ?thesis by simp
qed

end

lemma heap_pop_laws:
  "heap_pop h = None \<longleftrightarrow> h = []"
  "heap_pop h = Some (x, h') \<Longrightarrow> mset h = add_mset x (mset h')"
  "heap_pop h = Some (x, h') \<Longrightarrow> y \<in> set h \<Longrightarrow> fst x \<le> fst y"
  by (induction h arbitrary: x h' y rule: heap_pop.induct) (fastforce split: option.splits if_splits)+

interpretation bh: min_heap heap_pop
  by unfold_locales (use heap_pop_laws in auto)

section \<open>The invariant\<close>

definition settled :: "path_state \<Rightarrow> nat \<Rightarrow> bool" where
  "settled st u \<longleftrightarrow> (\<exists>d. ps_best st ! u = Some d \<and> (d, u) \<notin> set (ps_heap st))"

definition sized :: "road_graph \<Rightarrow> path_state \<Rightarrow> bool" where
  "sized g st \<longleftrightarrow> length (ps_best st) = length (nodes g) \<and> length (ps_path_m st) = length (nodes g) \<and>
     length (ps_prev st) = length (nodes g)"

definition heap_ok :: "road_graph \<Rightarrow> path_state \<Rightarrow> bool" where
  "heap_ok g st \<longleftrightarrow> distinct (ps_heap st) \<and>
     (\<forall>(t, v) \<in> set (ps_heap st). v < length (nodes g) \<and> (\<exists>d. ps_best st ! v = Some d \<and> d \<le> t))"

definition labels_ok :: "road_graph \<Rightarrow> nat \<Rightarrow> path_state \<Rightarrow> bool" where
  "labels_ok g s st \<longleftrightarrow> ps_best st ! s = Some 0 \<and>
     (\<forall>v < length (nodes g). \<forall>d. ps_best st ! v = Some d \<longrightarrow>
        (\<exists>p. path g s v p d (ps_path_m st ! v) \<and> chain (ps_prev st) s p \<and> (\<forall>u \<in> set (butlast p). settled st u)))"

text \<open>The edges of a settled node are relaxed, except the edges \<open>es\<close> of the node being expanded.\<close>

definition relaxed :: "road_graph \<Rightarrow> nat \<Rightarrow> (nat \<times> real \<times> real) list \<Rightarrow> path_state \<Rightarrow> bool" where
  "relaxed g node es st \<longleftrightarrow> (\<forall>v < length (nodes g). \<forall>d. ps_best st ! v = Some d \<longrightarrow> settled st v \<longrightarrow>
     (\<forall>(w, et, em) \<in> set (adj g ! v). (v = node \<and> (w, et, em) \<in> set es) \<or> (\<exists>e. ps_best st ! w = Some e \<and> e \<le> d + et)))"

definition below :: "road_graph \<Rightarrow> real \<Rightarrow> path_state \<Rightarrow> bool" where
  "below g ct st \<longleftrightarrow> (\<forall>v < length (nodes g). \<forall>d. ps_best st ! v = Some d \<longrightarrow> settled st v \<longrightarrow> d \<le> ct) \<and>
     (\<forall>(t, v) \<in> set (ps_heap st). ct \<le> t)"

definition ordered :: "road_graph \<Rightarrow> path_state \<Rightarrow> bool" where
  "ordered g st \<longleftrightarrow> (\<forall>v < length (nodes g). \<forall>d. ps_best st ! v = Some d \<longrightarrow> settled st v \<longrightarrow> (\<forall>(t, u) \<in> set (ps_heap st). d \<le> t))"

definition expanding :: "road_graph \<Rightarrow> nat \<Rightarrow> real \<Rightarrow> nat \<Rightarrow> (nat \<times> real \<times> real) list \<Rightarrow> path_state \<Rightarrow> bool" where
  "expanding g s ct node es st \<longleftrightarrow> graph_ok g \<and> s < length (nodes g) \<and> sized g st \<and> heap_ok g st \<and> labels_ok g s st \<and> relaxed g node es st \<and> below g ct st \<and>
     node < length (nodes g) \<and> ps_best st ! node = Some ct \<and> settled st node"

definition search_ok :: "road_graph \<Rightarrow> nat \<Rightarrow> path_state \<Rightarrow> bool" where
  "search_ok g s st \<longleftrightarrow> graph_ok g \<and> s < length (nodes g) \<and> sized g st \<and> heap_ok g st \<and> labels_ok g s st \<and> relaxed g 0 [] st \<and> ordered g st"

definition push :: "real \<Rightarrow> nat \<Rightarrow> nat \<Rightarrow> real \<Rightarrow> path_state \<Rightarrow> path_state" where
  "push nt to node em st = st\<lparr>ps_best := (ps_best st)[to := Some nt], ps_path_m := (ps_path_m st)[to := ps_path_m st ! node + em],
     ps_prev := (ps_prev st)[to := node], ps_heap := (nt, to) # ps_heap st\<rparr>"

lemma relax_path_push:
  "relax_path ct node ((to, et, em) # es) st =
     relax_path ct node es (if t_less (ct + et) (ps_best st ! to) then push (ct + et) to node em st else st)"
  by (simp add: push_def Let_def)

lemma push_sized: "sized g st \<Longrightarrow> sized g (push nt to node em st)"
  by (simp add: sized_def push_def)

lemma push_settled:
  assumes "sized g st" "to < length (nodes g)" "\<not> settled st to"
  shows "settled (push nt to node em st) u \<longleftrightarrow> settled st u"
  using assms by (auto simp: settled_def push_def sized_def arr)

text \<open>A node whose label can still improve is neither settled nor the node being expanded.\<close>

lemma improvable:
  assumes "expanding g s ct node es st" "t_less (ct + et) (ps_best st ! to)" "0 \<le> et" "to < length (nodes g)"
  shows "\<not> settled st to \<and> to \<noteq> node \<and> to \<noteq> s"
proof -
  have "\<not> settled st to"
  proof
    assume s: "settled st to"
    then obtain d where d: "ps_best st ! to = Some d" by (auto simp: settled_def)
    then have "d \<le> ct" using assms(1,4) s by (auto simp: expanding_def below_def)
    then show False using assms(2,3) d by (simp add: t_less_def)
  qed
  moreover have "to \<noteq> node" using calculation assms(1) by (auto simp: expanding_def)
  moreover have "0 \<le> ct" using assms(1) path_lt unfolding expanding_def labels_ok_def by blast
  then have "to \<noteq> s" using assms(1,2,3) by (auto simp: expanding_def labels_ok_def t_less_def)
  ultimately show ?thesis by simp
qed

lemma heap_okE:
  assumes "heap_ok g st" "(t, v) \<in> set (ps_heap st)"
  obtains d where "ps_best st ! v = Some d" "d \<le> t" "v < length (nodes g)"
  using assms unfolding heap_ok_def by blast

lemma labels_okE:
  assumes "labels_ok g s st" "v < length (nodes g)" "ps_best st ! v = Some d"
  obtains p where "path g s v p d (ps_path_m st ! v)" "chain (ps_prev st) s p" "\<forall>u \<in> set (butlast p). settled st u"
  using assms unfolding labels_ok_def by blast

lemma push_heap:
  assumes "heap_ok g st" "sized g st" "to < length (nodes g)" "t_less nt (ps_best st ! to)"
  shows "heap_ok g (push nt to node em st)"
proof -
  have "(nt, to) \<notin> set (ps_heap st)" using assms(1,4) by (auto simp: heap_ok_def t_less_def)
  moreover have "v < length (nodes g) \<and> (\<exists>d. ps_best (push nt to node em st) ! v = Some d \<and> d \<le> t)"
    if tv: "(t, v) \<in> set (ps_heap st)" for t v
  proof -
    obtain d where "ps_best st ! v = Some d" "d \<le> t" "v < length (nodes g)" using heap_okE[OF assms(1) tv] .
    then show ?thesis using assms(2,4) by (auto simp: push_def sized_def arr t_less_def)
  qed
  ultimately show ?thesis using assms by (auto simp: heap_ok_def push_def sized_def)
qed

lemma push_labels:
  assumes e: "expanding g s ct node ((to, et, em) # es) st" "(to, et, em) \<in> set (adj g ! node)" "t_less (ct + et) (ps_best st ! to)"
  shows "labels_ok g s (push (ct + et) to node em st)"
proof -
  have g: "graph_ok g" "s < length (nodes g)" "sized g st" "labels_ok g s st" "node < length (nodes g)" "ps_best st ! node = Some ct" "settled st node"
    using e(1) by (auto simp: expanding_def)
  have to: "to < length (nodes g)" "0 \<le> et" using graph_okD[OF g(1,5) e(2)] by auto
  have ns: "\<not> settled st to" "to \<noteq> node" "to \<noteq> s" using improvable[OF e(1,3) to(2,1)] by auto
  note ps = push_settled[OF g(3) to(1) ns(1)]
  have "\<exists>p. path g s v p d (ps_path_m (push (ct + et) to node em st) ! v) \<and> chain (ps_prev (push (ct + et) to node em st)) s p \<and>
      (\<forall>u \<in> set (butlast p). settled (push (ct + et) to node em st) u)"
    if v: "v < length (nodes g)" "ps_best (push (ct + et) to node em st) ! v = Some d" for v d
  proof (cases "v = to")
    case True
    obtain p where p: "path g s node p ct (ps_path_m st ! node)" "chain (ps_prev st) s p" "\<forall>u \<in> set (butlast p). settled st u"
      using labels_okE[OF g(4,5,6)] .
    have l: "p \<noteq> []" "last p = node" using path_last[OF p(1)] by auto
    have all: "\<forall>u \<in> set p. settled st u" using p(3) l g(7) by (metis append_butlast_last_id in_set_conv_decomp rotate1.simps(2) set_ConsD set_rotate1)
    have "chain ((ps_prev st)[to := node]) s (p @ [to])"
      using chain_update[OF p(2), of to node] all ns to g(1,3,5) l
      by (intro chain.chain_step) (auto simp: sized_def graph_ok_def)
    moreover have "path g s to (p @ [to]) (ct + et) (ps_path_m st ! node + em)" using path.edge[OF p(1) e(2)] .
    ultimately show ?thesis using True v to g(3) all ps
      by (intro exI[of _ "p @ [to]"]) (auto simp: push_def sized_def)
  next
    case False
    then have "ps_best st ! v = Some d" using v by (simp add: push_def)
    then obtain p where p: "path g s v p d (ps_path_m st ! v)" "chain (ps_prev st) s p" "\<forall>u \<in> set (butlast p). settled st u"
      using labels_okE[OF g(4) v(1)] by blast
    have "p \<noteq> []" "last p = v" using path_last[OF p(1)] by auto
    then have "to \<notin> set p" using p(3) ns(1) False by (metis append_butlast_last_id in_set_conv_decomp rotate1.simps(2) set_ConsD set_rotate1)
    then have "chain ((ps_prev st)[to := node]) s p" by (rule chain_update[OF p(2)])
    then show ?thesis using p False ps by (intro exI[of _ p]) (auto simp: push_def)
  qed
  moreover have "ps_best (push (ct + et) to node em st) ! s = Some 0" using g(4) ns(3) by (simp add: push_def labels_ok_def)
  ultimately show ?thesis by (auto simp: labels_ok_def)
qed

lemma push_relaxed:
  assumes e: "expanding g s ct node ((to, et, em) # es) st" "(to, et, em) \<in> set (adj g ! node)" "t_less (ct + et) (ps_best st ! to)"
  shows "relaxed g node es (push (ct + et) to node em st)"
proof -
  have g: "graph_ok g" "sized g st" "relaxed g node ((to, et, em) # es) st" "node < length (nodes g)" "ps_best st ! node = Some ct"
    using e(1) by (auto simp: expanding_def)
  have to: "to < length (nodes g)" "0 \<le> et" using graph_okD[OF g(1,4) e(2)] by auto
  have ns: "\<not> settled st to" "to \<noteq> node" "to \<noteq> s" using improvable[OF e(1,3) to(2,1)] by auto
  note ps = push_settled[OF g(2) to(1) ns(1)]
  have lower: "\<exists>e'. ps_best (push (ct + et) to node em st) ! w = Some e' \<and> e' \<le> x" if "ps_best st ! w = Some e" "e \<le> x" for w e x
    using that e(3) g(2) to(1) by (auto simp: push_def arr t_less_def sized_def)
  have "(v = node \<and> (w, et', em') \<in> set es) \<or> (\<exists>e. ps_best (push (ct + et) to node em st) ! w = Some e \<and> e \<le> d + et')"
    if v: "v < length (nodes g)" "ps_best (push (ct + et) to node em st) ! v = Some d" "settled (push (ct + et) to node em st) v"
      "(w, et', em') \<in> set (adj g ! v)" for v d w et' em'
  proof -
    have "v \<noteq> to" using v(3) ps ns by auto
    then have d: "ps_best st ! v = Some d" "settled st v" using v ps by (auto simp: push_def)
    then have "(v = node \<and> (w, et', em') \<in> set ((to, et, em) # es)) \<or> (\<exists>e. ps_best st ! w = Some e \<and> e \<le> d + et')"
      using g(3) v(1,4) unfolding relaxed_def by blast
    then consider "v = node" "(w, et', em') = (to, et, em)" | "v = node" "(w, et', em') \<in> set es"
      | e where "ps_best st ! w = Some e" "e \<le> d + et'" by auto
    then show ?thesis
    proof cases
      case 1
      then show ?thesis using d(1) g(2,5) to(1) by (auto simp: push_def sized_def)
    next
      case 2
      then show ?thesis by blast
    next
      case 3
      then show ?thesis using lower by blast
    qed
  qed
  then show ?thesis unfolding relaxed_def by blast
qed

lemma push_below:
  assumes e: "expanding g s ct node es st" "t_less (ct + et) (ps_best st ! to)" "0 \<le> et" "to < length (nodes g)"
  shows "below g ct (push (ct + et) to node em st)"
proof -
  have g: "sized g st" "below g ct st" using e(1) by (auto simp: expanding_def)
  have ns: "\<not> settled st to" "to \<noteq> node" "to \<noteq> s" using improvable[OF e] by auto
  note ps = push_settled[OF g(1) e(4) ns(1)]
  have "d \<le> ct" if "v < length (nodes g)" "ps_best (push (ct + et) to node em st) ! v = Some d" "settled (push (ct + et) to node em st) v" for v d
  proof -
    have "v \<noteq> to" using that ps ns by auto
    then show ?thesis using that ps g(2) by (auto simp: below_def push_def)
  qed
  then show ?thesis using g(2) e(3) by (auto simp: below_def push_def)
qed

lemma relax_edge:
  assumes e: "expanding g s ct node ((to, et, em) # es) st" "(to, et, em) \<in> set (adj g ! node)"
  shows "expanding g s ct node es (if t_less (ct + et) (ps_best st ! to) then push (ct + et) to node em st else st)"
proof -
  have g: "graph_ok g" "s < length (nodes g)" "sized g st" "heap_ok g st" "labels_ok g s st" "relaxed g node ((to, et, em) # es) st" "below g ct st"
    "node < length (nodes g)" "ps_best st ! node = Some ct" "settled st node"
    using e(1) by (auto simp: expanding_def)
  have to: "to < length (nodes g)" "0 \<le> et" using graph_okD[OF g(1,8) e(2)] by auto
  show ?thesis
  proof (cases "t_less (ct + et) (ps_best st ! to)")
    case True
    have ns: "\<not> settled st to" "to \<noteq> node" "to \<noteq> s" using improvable[OF e(1) True to(2,1)] by auto
    have "ps_best (push (ct + et) to node em st) ! node = Some ct" using ns g(9) by (simp add: push_def)
    then show ?thesis
      using True g push_sized[OF g(3)] push_heap[OF g(4,3) to(1) True] push_labels[OF e True] push_relaxed[OF e True]
        push_below[OF e(1) True to(2,1)] push_settled[OF g(3) to(1) ns(1)]
      by (simp add: expanding_def)
  next
    case False
    then obtain b where b: "ps_best st ! to = Some b" "b \<le> ct + et" by (cases "ps_best st ! to") (auto simp: t_less_def)
    have "relaxed g node es st" unfolding relaxed_def
    proof (intro allI impI ballI, clarify)
      fix v d w et' em'
      assume v: "v < length (nodes g)" "ps_best st ! v = Some d" "settled st v" "(w, et', em') \<in> set (adj g ! v)"
        and no: "\<not> (\<exists>e. ps_best st ! w = Some e \<and> e \<le> d + et')"
      then have "v = node \<and> (w, et', em') \<in> set ((to, et, em) # es)" using g(6) unfolding relaxed_def by blast
      then show "v = node \<and> (w, et', em') \<in> set es" using no b v(2) g(9) by auto
    qed
    then show ?thesis using False g by (simp add: expanding_def)
  qed
qed

lemma relax_all:
  "expanding g s ct node es st \<Longrightarrow> set es \<subseteq> set (adj g ! node) \<Longrightarrow> expanding g s ct node [] (relax_path ct node es st)"
proof (induction es arbitrary: st)
  case (Cons e es)
  obtain to et em where "e = (to, et, em)" by (cases e) auto
  then show ?case using Cons relax_edge[of g s ct node to et em es st] by (simp add: relax_path_push del: relax_path.simps)
qed simp

lemma relax_counts:
  "expanding g s ct node es st \<Longrightarrow> set es \<subseteq> set (adj g ! node) \<Longrightarrow>
   length (ps_heap (relax_path ct node es st)) \<le> length (ps_heap st) + length es \<and>
   (\<forall>u. settled (relax_path ct node es st) u \<longleftrightarrow> settled st u) \<and> ps_found (relax_path ct node es st) = ps_found st"
proof (induction es arbitrary: st)
  case (Cons e es)
  obtain to et em where e: "e = (to, et, em)" by (cases e) auto
  let ?st = "if t_less (ct + et) (ps_best st ! to) then push (ct + et) to node em st else st"
  have r: "relax_path ct node (e # es) st = relax_path ct node es ?st" unfolding e by (rule relax_path_push)
  have g: "graph_ok g" "node < length (nodes g)" "sized g st" using Cons.prems(1) by (auto simp: expanding_def)
  have in_adj: "(to, et, em) \<in> set (adj g ! node)" using Cons.prems(2) e by simp
  have to: "to < length (nodes g)" "0 \<le> et" using graph_okD[OF g(1,2) in_adj] by auto
  have "\<forall>u. settled ?st u \<longleftrightarrow> settled st u"
    using push_settled[OF g(3) to(1)] improvable[OF Cons.prems(1) _ to(2,1)] by auto
  moreover have "length (ps_heap ?st) \<le> Suc (length (ps_heap st))" "ps_found ?st = ps_found st" by (auto simp: push_def)
  moreover have "expanding g s ct node es ?st" using relax_edge[of g s ct node to et em es st] Cons.prems(1) in_adj e by simp
  note Cons.IH[OF this]
  ultimately show ?case using Cons.prems(2) r by auto
qed simp


section \<open>One step of the search\<close>

definition todo :: "road_graph \<Rightarrow> path_state \<Rightarrow> nat" where
  "todo g st = length (ps_heap st) + (\<Sum>v \<in> {v. v < length (nodes g) \<and> \<not> settled st v}. length (adj g ! v))"

text \<open>Either the label of a node is at most the time of a path to it, or an entry of the heap is.\<close>

lemma path_bound:
  assumes "search_ok g s st" "path g s v p t m"
  shows "(\<exists>d. ps_best st ! v = Some d \<and> d \<le> t) \<or> (\<exists>(k, u) \<in> set (ps_heap st). k \<le> t)"
  using assms(2)
proof (induction rule: path.induct)
  case start
  then show ?case using assms(1) by (auto simp: search_ok_def labels_ok_def)
next
  case (edge u p t m v et em)
  have u: "u < length (nodes g)" using path_lt[OF edge(1)] assms(1) by (auto simp: search_ok_def)
  have et: "0 \<le> et" using graph_okD[OF _ u edge(2)] assms(1) by (auto simp: search_ok_def)
  show ?case
  proof (cases "\<exists>(k, u) \<in> set (ps_heap st). k \<le> t")
    case True
    then show ?thesis using et by fastforce
  next
    case False
    then obtain d where d: "ps_best st ! u = Some d" "d \<le> t" using edge(3) by blast
    then have "settled st u" using False by (auto simp: settled_def)
    then obtain e where "ps_best st ! v = Some e" "e \<le> d + et"
      using assms(1) u d(1) edge(2) unfolding search_ok_def relaxed_def by fastforce
    then show ?thesis using d(2) by auto
  qed
qed

text \<open>
  The loop invariant with a target: until the target comes out of the heap it is not settled; when it
  does, the label it came out with is the least time, and the predecessors lead back to the source.
\<close>

definition best_route :: "road_graph \<Rightarrow> nat \<Rightarrow> nat \<Rightarrow> path_state \<Rightarrow> real \<Rightarrow> bool" where
  "best_route g s t st ct \<longleftrightarrow> (\<exists>p. path g s t p ct (ps_path_m st ! t) \<and> chain (ps_prev st) s p) \<and>
     (\<forall>p' w m. path g s t p' w m \<longrightarrow> ct \<le> w)"

definition loop_ok :: "road_graph \<Rightarrow> nat \<Rightarrow> nat option \<Rightarrow> path_state \<Rightarrow> bool" where
  "loop_ok g s tgt st \<longleftrightarrow> (case ps_found st of
     None \<Rightarrow> search_ok g s st \<and> (case tgt of None \<Rightarrow> True | Some t \<Rightarrow> t < length (nodes g) \<and> \<not> settled st t)
   | Some ct \<Rightarrow> (case tgt of None \<Rightarrow> False | Some t \<Rightarrow> best_route g s t st ct))"

definition remaining :: "road_graph \<Rightarrow> path_state \<Rightarrow> nat" where
  "remaining g st = (if ps_found st = None then Suc (todo g st) else 0)"

context min_heap
begin

lemma popped:
  assumes "search_ok g s st" "pop (ps_heap st) = Some ((ct, node), h)"
  shows "node < length (nodes g)" "\<exists>d. ps_best st ! node = Some d \<and> d \<le> ct"
    "sized g (st\<lparr>ps_heap := h\<rparr>)" "heap_ok g (st\<lparr>ps_heap := h\<rparr>)"
    "\<And>u. u \<noteq> node \<Longrightarrow> settled (st\<lparr>ps_heap := h\<rparr>) u = settled st u"
    "\<And>u. settled st u \<Longrightarrow> settled (st\<lparr>ps_heap := h\<rparr>) u"
proof -
  note h = pop_set[OF assms(2)]
  have ok: "heap_ok g st" "sized g st" using assms(1) by (auto simp: search_ok_def)
  show "node < length (nodes g)" "\<exists>d. ps_best st ! node = Some d \<and> d \<le> ct" using heap_okE[OF ok(1), of ct node] h by blast+
  show "sized g (st\<lparr>ps_heap := h\<rparr>)" using ok by (simp add: sized_def)
  show "heap_ok g (st\<lparr>ps_heap := h\<rparr>)" using ok h pop_distinct[OF assms(2)] by (auto simp: heap_ok_def)
  show "settled (st\<lparr>ps_heap := h\<rparr>) u = settled st u" if "u \<noteq> node" for u using that h by (auto simp: settled_def)
  show "settled (st\<lparr>ps_heap := h\<rparr>) u" if "settled st u" for u using that h by (auto simp: settled_def)
qed

lemma popped_labels:
  assumes "search_ok g s st" "pop (ps_heap st) = Some ((ct, node), h)"
  shows "labels_ok g s (st\<lparr>ps_heap := h\<rparr>)"
proof -
  have l: "labels_ok g s st" using assms(1) by (simp add: search_ok_def)
  show ?thesis unfolding labels_ok_def
  proof (intro conjI allI impI)
    show "ps_best (st\<lparr>ps_heap := h\<rparr>) ! s = Some 0" using l by (simp add: labels_ok_def)
    fix v d
    assume "v < length (nodes g)" "ps_best (st\<lparr>ps_heap := h\<rparr>) ! v = Some d"
    then obtain p where "path g s v p d (ps_path_m st ! v)" "chain (ps_prev st) s p" "\<forall>u \<in> set (butlast p). settled st u"
      using labels_okE[OF l, of v d] by auto
    then show "\<exists>p. path g s v p d (ps_path_m (st\<lparr>ps_heap := h\<rparr>) ! v) \<and> chain (ps_prev (st\<lparr>ps_heap := h\<rparr>)) s p \<and>
        (\<forall>u \<in> set (butlast p). settled (st\<lparr>ps_heap := h\<rparr>) u)"
      using popped(6)[OF assms] by auto
  qed
qed

lemma step_stale:
  assumes "search_ok g s st" "pop (ps_heap st) = Some ((ct, node), h)" "t_greater ct (ps_best st ! node)"
  shows "search_ok g s (st\<lparr>ps_heap := h\<rparr>) \<and> todo g (st\<lparr>ps_heap := h\<rparr>) < todo g st \<and> (\<forall>u. settled (st\<lparr>ps_heap := h\<rparr>) u = settled st u)"
proof -
  note h = pop_set[OF assms(2)]
  have same: "settled (st\<lparr>ps_heap := h\<rparr>) u = settled st u" for u
    using assms(3) h by (auto simp: settled_def t_greater_def)
  have "relaxed g 0 [] (st\<lparr>ps_heap := h\<rparr>)" "ordered g (st\<lparr>ps_heap := h\<rparr>)"
    using assms(1) h unfolding search_ok_def relaxed_def ordered_def same by auto
  moreover have "todo g (st\<lparr>ps_heap := h\<rparr>) < todo g st" using pop_length[OF assms(2)] by (simp add: todo_def same)
  ultimately show ?thesis using assms(1) popped[OF assms(1,2)] popped_labels[OF assms(1,2)] same by (simp add: search_ok_def)
qed

lemma step_expanding:
  assumes "search_ok g s st" "pop (ps_heap st) = Some ((ct, node), h)" "\<not> t_greater ct (ps_best st ! node)"
  shows "expanding g s ct node (adj g ! node) (st\<lparr>ps_heap := h\<rparr>)" "\<not> settled st node"
proof -
  note h = pop_set[OF assms(2)]
  note p = popped[OF assms(1,2)]
  have best: "ps_best st ! node = Some ct" using p(2) assms(3) by (auto simp: t_greater_def)
  show "\<not> settled st node" using best h by (auto simp: settled_def)
  have here: "settled (st\<lparr>ps_heap := h\<rparr>) node"
    using best pop_distinct[OF assms(2)] assms(1) by (auto simp: settled_def search_ok_def heap_ok_def)
  have "relaxed g node (adj g ! node) (st\<lparr>ps_heap := h\<rparr>)" unfolding relaxed_def
  proof (intro allI impI ballI, clarify)
    fix v d w et em
    assume v: "v < length (nodes g)" "ps_best (st\<lparr>ps_heap := h\<rparr>) ! v = Some d" "settled (st\<lparr>ps_heap := h\<rparr>) v" "(w, et, em) \<in> set (adj g ! v)"
      and no: "\<not> (\<exists>e. ps_best (st\<lparr>ps_heap := h\<rparr>) ! w = Some e \<and> e \<le> d + et)"
    have "v = node"
    proof (rule ccontr)
      assume "v \<noteq> node"
      then show False using assms(1) v no p(5)[of v] unfolding search_ok_def relaxed_def by fastforce
    qed
    then show "v = node \<and> (w, et, em) \<in> set (adj g ! node)" using v(4) by simp
  qed
  moreover have "below g ct (st\<lparr>ps_heap := h\<rparr>)" unfolding below_def
  proof (intro conjI allI impI ballI)
    fix v d
    assume v: "v < length (nodes g)" "ps_best (st\<lparr>ps_heap := h\<rparr>) ! v = Some d" "settled (st\<lparr>ps_heap := h\<rparr>) v"
    show "d \<le> ct"
    proof (cases "v = node")
      case True
      then show ?thesis using v(2) best by simp
    next
      case False
      then have "settled st v" using p(5) v(3) by simp
      then show ?thesis using assms(1) v h unfolding search_ok_def ordered_def by fastforce
    qed
  next
    fix x
    assume "x \<in> set (ps_heap (st\<lparr>ps_heap := h\<rparr>))"
    then show "case x of (t, v) \<Rightarrow> ct \<le> t" using pop_min[OF assms(2), of x] h by auto
  qed
  ultimately show "expanding g s ct node (adj g ! node) (st\<lparr>ps_heap := h\<rparr>)"
    using assms(1) p popped_labels[OF assms(1,2)] best here by (simp add: expanding_def search_ok_def)
qed

lemma step_expand:
  assumes "search_ok g s st" "pop (ps_heap st) = Some ((ct, node), h)" "\<not> t_greater ct (ps_best st ! node)"
  defines "st' \<equiv> relax_path ct node (adj g ! node) (st\<lparr>ps_heap := h\<rparr>)"
  shows "search_ok g s st' \<and> todo g st' < todo g st \<and> (\<forall>u. u \<noteq> node \<longrightarrow> settled st' u = settled st u)"
proof -
  note e = step_expanding[OF assms(1-3)]
  have x: "expanding g s ct node [] st'" using relax_all[OF e(1)] by (simp add: st'_def)
  have c: "length (ps_heap st') \<le> length h + length (adj g ! node)" "\<forall>u. settled st' u = settled (st\<lparr>ps_heap := h\<rparr>) u"
    using relax_counts[OF e(1)] by (auto simp: st'_def)
  have "relaxed g 0 [] st'" using x by (auto simp: expanding_def relaxed_def)
  moreover have "ordered g st'" using x unfolding expanding_def below_def ordered_def by fastforce
  ultimately have ok: "search_ok g s st'" using x by (simp add: expanding_def search_ok_def)
  have set': "{v. v < length (nodes g) \<and> \<not> settled st' v} = {v. v < length (nodes g) \<and> \<not> settled st v} - {node}"
    using c(2) popped(5,6)[OF assms(1,2)] x e(1) by (auto simp: expanding_def)
  have "node \<in> {v. v < length (nodes g) \<and> \<not> settled st v}" using e by (auto simp: expanding_def)
  then have "(\<Sum>v \<in> {v. v < length (nodes g) \<and> \<not> settled st v}. length (adj g ! v)) =
      length (adj g ! node) + (\<Sum>v \<in> {v. v < length (nodes g) \<and> \<not> settled st' v}. length (adj g ! v))"
    unfolding set' by (intro sum.remove) auto
  then have "todo g st' < todo g st" using c(1) pop_length[OF assms(2)] by (simp add: todo_def)
  then show ?thesis using ok c(2) popped(5)[OF assms(1,2)] by auto
qed

lemma found_best:
  assumes "search_ok g s st" "pop (ps_heap st) = Some ((ct, t), h)" "\<not> settled st t"
  shows "best_route g s t (st\<lparr>ps_heap := h, ps_found := f\<rparr>) ct"
proof -
  obtain d where d: "ps_best st ! t = Some d" "d \<le> ct" "t < length (nodes g)" using popped[OF assms(1,2)] by blast
  then have in_heap: "(d, t) \<in> set (ps_heap st)" using assms(3) by (auto simp: settled_def)
  then have "d = ct" using pop_min[OF assms(2) in_heap] d(2) by simp
  moreover have "labels_ok g s st" using assms(1) by (simp add: search_ok_def)
  ultimately obtain p where p: "path g s t p ct (ps_path_m st ! t)" "chain (ps_prev st) s p" using labels_okE d(1,3) by blast
  have "ct \<le> w" if pw: "path g s t p' w m" for p' w m
  proof -
    consider e where "ps_best st ! t = Some e" "e \<le> w" | k u where "(k, u) \<in> set (ps_heap st)" "k \<le> w"
      using path_bound[OF assms(1) pw] by blast
    then show ?thesis using pop_min[OF assms(2)] d(1) \<open>d = ct\<close> by cases force+
  qed
  then show ?thesis using p by (auto simp: best_route_def)
qed

lemma body_ok:
  assumes "loop_ok g s tgt st" "ps_found st = None" "pop (ps_heap st) \<noteq> None"
  shows "loop_ok g s tgt (path_body pop g tgt st) \<and> remaining g (path_body pop g tgt st) < remaining g st"
proof -
  obtain ct node h where p: "pop (ps_heap st) = Some ((ct, node), h)" using assms(3) by auto
  have ok: "search_ok g s st" and tgt: "\<And>t. tgt = Some t \<Longrightarrow> t < length (nodes g) \<and> \<not> settled st t"
    using assms(1,2) by (auto simp: loop_ok_def)
  consider "tgt = Some node" | "tgt \<noteq> Some node" "t_greater ct (ps_best st ! node)" | "tgt \<noteq> Some node" "\<not> t_greater ct (ps_best st ! node)"
    by blast
  then show ?thesis
  proof cases
    case 1
    then show ?thesis using p assms(2) found_best[OF ok p, of "Some ct"] tgt
      by (simp add: path_body_def loop_ok_def remaining_def)
  next
    case 2
    then show ?thesis using p assms(2) step_stale[OF ok p] tgt
      by (auto simp: path_body_def loop_ok_def remaining_def split: option.splits)
  next
    case 3
    have "ps_found (relax_path ct node (adj g ! node) (st\<lparr>ps_heap := h\<rparr>)) = None"
      using relax_counts[OF step_expanding(1)[OF ok p 3(2)]] assms(2) by simp
    then show ?thesis using 3 p assms(2) step_expand[OF ok p 3(2)] tgt
      by (auto simp: path_body_def loop_ok_def remaining_def split: option.splits)
  qed
qed

lemma loop_ends:
  assumes "loop_ok g s tgt st"
  obtains st' where "while_option (\<lambda>st. ps_found st = None \<and> pop (ps_heap st) \<noteq> None) (path_body pop g tgt) st = Some st'"
    "loop_ok g s tgt st'" "ps_found st' = None \<longrightarrow> ps_heap st' = []"
proof -
  let ?b = "\<lambda>st. ps_found st = None \<and> pop (ps_heap st) \<noteq> None"
  have step: "loop_ok g s tgt (path_body pop g tgt st) \<and> remaining g (path_body pop g tgt st) < remaining g st"
    if ok: "loop_ok g s tgt st" and b: "?b st" for st using body_ok[OF ok] b by simp
  have "\<exists>st'. while_option ?b (path_body pop g tgt) st = Some st'"
    by (rule measure_while_option_Some[where P = "loop_ok g s tgt" and f = "remaining g"]) (use step assms in auto)
  then obtain st' where st': "while_option ?b (path_body pop g tgt) st = Some st'" by blast
  have "loop_ok g s tgt st'"
    by (rule while_option_rule[where P = "loop_ok g s tgt", OF _ st' assms]) (use step in blast)
  moreover have "ps_found st' = None \<longrightarrow> ps_heap st' = []" 
    using while_option_stop[OF st'] by (cases "ps_found st'") (simp_all add: pop_none)
  ultimately show ?thesis by (rule that[OF st'])
qed

lemma loop_start:
  assumes "graph_ok g" "s < length (nodes g)" "\<And>t. tgt = Some t \<Longrightarrow> t < length (nodes g) \<and> t \<noteq> s"
  shows "loop_ok g s tgt (path_init g s)"
proof -
  have ns: "\<not> settled (path_init g s) v" if "v < length (nodes g)" for v
    using that by (auto simp: settled_def path_init_def Let_def arr split: if_splits)
  have "labels_ok g s (path_init g s)" unfolding labels_ok_def
  proof (intro conjI allI impI)
    show "ps_best (path_init g s) ! s = Some 0" using assms(2) by (simp add: path_init_def Let_def)
    fix v d
    assume v: "v < length (nodes g)" "ps_best (path_init g s) ! v = Some d"
    then have "v = s" "d = 0" by (auto simp: path_init_def Let_def arr split: if_splits)
    then show "\<exists>p. path g s v p d (ps_path_m (path_init g s) ! v) \<and> chain (ps_prev (path_init g s)) s p \<and>
        (\<forall>u \<in> set (butlast p). settled (path_init g s) u)"
      using assms(2) path.start[of g s] chain.chain_start[of "ps_prev (path_init g s)" s]
      by (intro exI[of _ "[s]"]) (simp add: path_init_def Let_def)
  qed
  moreover have "sized g (path_init g s)" "heap_ok g (path_init g s)" "ps_found (path_init g s) = None"
    using assms(2) by (auto simp: sized_def heap_ok_def path_init_def Let_def)
  ultimately show ?thesis using assms ns
    by (auto simp: loop_ok_def search_ok_def relaxed_def ordered_def split: option.splits)
qed

text \<open>When the heap is empty every label is the least time, and a node without a label has no path.\<close>

lemma all_settled:
  assumes "search_ok g s st" "ps_heap st = []" "v < length (nodes g)"
  shows "case ps_best st ! v of None \<Rightarrow> \<nexists>p t m. path g s v p t m
    | Some d \<Rightarrow> (\<exists>p m. path g s v p d m) \<and> (\<forall>p t m. path g s v p t m \<longrightarrow> d \<le> t)"
proof -
  have "\<exists>d. ps_best st ! v = Some d \<and> d \<le> t" if "path g s v p t m" for p t m
    using path_bound[OF assms(1) that] assms(2) by simp
  moreover have "labels_ok g s st" using assms(1) by (simp add: search_ok_def)
  ultimately show ?thesis using labels_okE[OF _ assms(3)] by (fastforce split: option.splits)
qed

end

section \<open>The three searches\<close>

definition field_view :: "path_state \<Rightarrow> field_state" where
  "field_view st = \<lparr>fs_best = ps_best st, fs_heap = ps_heap st\<rparr>"

definition route_view :: "path_state \<Rightarrow> route_state" where
  "route_view st = \<lparr>rs_best = ps_best st, rs_path_m = ps_path_m st, rs_heap = ps_heap st, rs_found = ps_found st\<rparr>"

lemma relax_found: "ps_found (relax_path ct node es st) = ps_found st"
  by (induction ct node es st rule: relax_path.induct) (auto simp: Let_def)

lemma relax_field_view: "field_view (relax_path ct node es st) = relax_field ct es (field_view st)"
  by (induction ct node es st rule: relax_path.induct) (auto simp: Let_def field_view_def)

lemma relax_route_view: "route_view (relax_path ct node es st) = relax_route ct node es (route_view st)"
  by (induction ct node es st rule: relax_path.induct) (auto simp: Let_def route_view_def)

lemma body_field_view: "field_view (path_body pop g None st) = field_body pop g (field_view st)"
  by (auto simp: path_body_def field_body_def relax_field_view split: option.splits) (auto simp: field_view_def)

lemma body_route_view: "route_view (path_body pop g (Some t) st) = route_body pop g t (route_view st)"
  by (auto simp: path_body_def route_body_def relax_route_view split: option.splits) (auto simp: route_view_def)

lemma field_loop_view:
  "map_option field_view (while_option (\<lambda>st. ps_found st = None \<and> pop (ps_heap st) \<noteq> None) (path_body pop g None) (path_init g s)) =
   while_option (\<lambda>st. pop (fs_heap st) \<noteq> None) (field_body pop g)
     \<lparr>fs_best = (replicate (length (nodes g)) None)[s := Some 0], fs_heap = [(0, s)]\<rparr>"
proof -
  have "map_option field_view (while_option (\<lambda>st. ps_found st = None \<and> pop (ps_heap st) \<noteq> None) (path_body pop g None) (path_init g s)) =
      while_option (\<lambda>st. pop (fs_heap st) \<noteq> None) (field_body pop g) (field_view (path_init g s))"
  proof (rule while_option_commute_invariant[where P = "\<lambda>st. ps_found st = None"])
    fix st :: path_state
    assume f: "ps_found st = None"
    show "ps_found (path_body pop g None st) = None"
      using f by (auto simp: path_body_def relax_found split: option.splits)
    show "(ps_found st = None \<and> pop (ps_heap st) \<noteq> None) = (pop (fs_heap (field_view st)) \<noteq> None)" using f by (simp add: field_view_def)
    show "field_view (path_body pop g None st) = field_body pop g (field_view st)" by (rule body_field_view)
  qed (simp add: path_init_def Let_def)
  then show ?thesis by (simp add: field_view_def path_init_def Let_def)
qed

lemma route_loop_view:
  "map_option route_view (while_option (\<lambda>st. ps_found st = None \<and> pop (ps_heap st) \<noteq> None) (path_body pop g (Some t)) (path_init g s)) =
   while_option (\<lambda>st. rs_found st = None \<and> pop (rs_heap st) \<noteq> None) (route_body pop g t)
     \<lparr>rs_best = (replicate (length (nodes g)) None)[s := Some 0], rs_path_m = replicate (length (nodes g)) 0,
      rs_heap = [(0, s)], rs_found = None\<rparr>"
proof -
  have "map_option route_view (while_option (\<lambda>st. ps_found st = None \<and> pop (ps_heap st) \<noteq> None) (path_body pop g (Some t)) (path_init g s)) =
      while_option (\<lambda>st. rs_found st = None \<and> pop (rs_heap st) \<noteq> None) (route_body pop g t) (route_view (path_init g s))"
    by (rule while_option_commute) (simp_all add: body_route_view, simp_all add: route_view_def)
  then show ?thesis by (simp add: route_view_def path_init_def Let_def)
qed

definition least_time :: "road_graph \<Rightarrow> nat \<Rightarrow> nat \<Rightarrow> real \<Rightarrow> bool" where
  "least_time g s v d \<longleftrightarrow> (\<exists>p m. path g s v p d m) \<and> (\<forall>p t m. path g s v p t m \<longrightarrow> d \<le> t)"

section \<open>Snapping\<close>

lemma snap_scan_best:
  "snap_scan lat lon ps i (b, bd) = (b', bd') \<Longrightarrow>
   (b' = b \<and> bd' = bd \<and> (\<forall>j < length ps. fst (ps ! j) \<noteq> 0 \<longrightarrow> bd \<le> dist2 lat lon (ps ! j))) \<or>
   (\<exists>k < length ps. b' = Some (i + k) \<and> fst (ps ! k) \<noteq> 0 \<and> bd' = dist2 lat lon (ps ! k) \<and> bd' < bd \<and>
      (\<forall>j < length ps. fst (ps ! j) \<noteq> 0 \<longrightarrow> bd' \<le> dist2 lat lon (ps ! j)))"
proof (induction ps arbitrary: i b bd)
  case (Cons p ps)
  define c where "c = (if fst p = 0 then (b, bd) else if dist2 lat lon p < bd then (Some i, dist2 lat lon p) else (b, bd))"
  have step: "snap_scan lat lon ps (Suc i) (fst c, snd c) = (b', bd')" using Cons.prems by (auto simp: c_def split: if_splits)
  have head: "fst p = 0 \<or> snd c \<le> dist2 lat lon p" "snd c \<le> bd" by (auto simp: c_def)
  have all: "(\<forall>j < length (p # ps). fst ((p # ps) ! j) \<noteq> 0 \<longrightarrow> x \<le> dist2 lat lon ((p # ps) ! j)) \<longleftrightarrow>
      (fst p \<noteq> 0 \<longrightarrow> x \<le> dist2 lat lon p) \<and> (\<forall>j < length ps. fst (ps ! j) \<noteq> 0 \<longrightarrow> x \<le> dist2 lat lon (ps ! j))" for x
    by (auto simp: nth_Cons split: nat.splits)
  from Cons.IH[OF step] consider
      "b' = fst c" "bd' = snd c" "\<forall>j < length ps. fst (ps ! j) \<noteq> 0 \<longrightarrow> snd c \<le> dist2 lat lon (ps ! j)"
    | k where "k < length ps" "b' = Some (Suc i + k)" "fst (ps ! k) \<noteq> 0" "bd' = dist2 lat lon (ps ! k)" "bd' < snd c"
      "\<forall>j < length ps. fst (ps ! j) \<noteq> 0 \<longrightarrow> bd' \<le> dist2 lat lon (ps ! j)" by blast
  then show ?case
  proof cases
    case 1
    show ?thesis
    proof (cases "c = (b, bd)")
      case True
      then show ?thesis using 1 head all[of bd] by auto
    next
      case False
      then have "c = (Some i, dist2 lat lon p)" "fst p \<noteq> 0" "dist2 lat lon p < bd" by (auto simp: c_def split: if_splits)
      then show ?thesis using 1 all[of bd'] by (intro disjI2 exI[of _ 0]) auto
    qed
  next
    case 2
    have "fst p \<noteq> 0 \<longrightarrow> bd' \<le> dist2 lat lon p" using 2(5) head by auto
    then show ?thesis using 2 head all[of bd'] by (intro disjI2 exI[of _ "Suc k"]) auto
  qed
qed simp

lemma snap_r_cases:
  "case snap_r g lat lon r of
     None \<Rightarrow> \<forall>j < length (nodes g). fst (nodes g ! j) \<noteq> 0 \<longrightarrow> r * r \<le> dist2 lat lon (nodes g ! j)
   | Some i \<Rightarrow> i < length (nodes g) \<and> fst (nodes g ! i) \<noteq> 0 \<and> dist2 lat lon (nodes g ! i) < r * r \<and>
       (\<forall>j < length (nodes g). fst (nodes g ! j) \<noteq> 0 \<longrightarrow> dist2 lat lon (nodes g ! i) \<le> dist2 lat lon (nodes g ! j))"
proof -
  obtain b bd where s: "snap_scan lat lon (nodes g) 0 (None, r * r) = (b, bd)" by fastforce
  from snap_scan_best[OF s] show ?thesis unfolding snap_r_def s by auto
qed

lemma snap_lt: "snap_r g lat lon r = Some i \<Longrightarrow> i < length (nodes g)"
  using snap_r_cases[where g = g and lat = lat and lon = lon and r = r] by simp

section \<open>Results of the searches\<close>

context min_heap
begin

lemma field_from_least:
  assumes "graph_ok g" "snap_r g lat lon SNAP_SRC_MAX_M = Some s"
  shows "\<exists>f. field_from_with pop g lat lon = Some (Some f) \<and> (\<forall>v d. time_to f v = Some d \<longleftrightarrow> least_time g s v d) \<and>
    (\<forall>v. time_to f v = None \<longleftrightarrow> (\<nexists>p t m. path g s v p t m))"
proof -
  note s = snap_lt[OF assms(2)]
  obtain st where st: "while_option (\<lambda>st. ps_found st = None \<and> pop (ps_heap st) \<noteq> None) (path_body pop g None) (path_init g s) = Some st"
    "loop_ok g s None st" "ps_found st = None \<longrightarrow> ps_heap st = []"
    by (rule loop_ends[OF loop_start[OF assms(1) s, of None]]) auto
  have ok: "search_ok g s st" "ps_heap st = []" using st(2,3) by (auto simp: loop_ok_def split: option.splits)
  have f: "field_from_with pop g lat lon = Some (Some \<lparr>rf_time_s = ps_best st\<rparr>)"
    unfolding field_from_with_def using assms(2) field_loop_view[of pop g s, symmetric] st(1) by (simp add: field_view_def)
  have len: "length (ps_best st) = length (nodes g)" using ok(1) by (simp add: search_ok_def sized_def)
  have "time_to \<lparr>rf_time_s = ps_best st\<rparr> v = Some d \<longleftrightarrow> least_time g s v d" for v d
  proof (cases "v < length (nodes g)")
    case True
    show ?thesis
    proof (cases "ps_best st ! v")
      case None
      then show ?thesis using all_settled[OF ok True] len True by (simp add: time_to_def least_time_def)
    next
      case (Some e)
      then have e: "\<exists>p m. path g s v p e m" "\<And>p t m. path g s v p t m \<Longrightarrow> e \<le> t" using all_settled[OF ok True] by auto
      have "least_time g s v d \<longleftrightarrow> d = e" unfolding least_time_def
        using e by (metis antisym)
      then show ?thesis using len True Some by (auto simp: time_to_def)
    qed
  next
    case False
    then show ?thesis using path_lt assms(1) s len by (auto simp: time_to_def least_time_def)
  qed
  moreover have "time_to \<lparr>rf_time_s = ps_best st\<rparr> v = None \<longleftrightarrow> (\<nexists>p t m. path g s v p t m)" for v
  proof (cases "v < length (nodes g)")
    case True
    then show ?thesis using all_settled[OF ok True] len by (auto simp: time_to_def split: option.splits)
  next
    case False
    then show ?thesis using path_lt assms(1) s len by (auto simp: time_to_def)
  qed
  ultimately show ?thesis using f by blast
qed

lemma target_search:
  assumes "graph_ok g" "s < length (nodes g)" "t < length (nodes g)" "s \<noteq> t"
  obtains st where "while_option (\<lambda>st. ps_found st = None \<and> pop (ps_heap st) \<noteq> None) (path_body pop g (Some t)) (path_init g s) = Some st"
    "case ps_found st of None \<Rightarrow> \<nexists>p d m. path g s t p d m | Some ct \<Rightarrow> best_route g s t st ct"
proof -
  obtain st where st: "while_option (\<lambda>st. ps_found st = None \<and> pop (ps_heap st) \<noteq> None) (path_body pop g (Some t)) (path_init g s) = Some st"
    "loop_ok g s (Some t) st" "ps_found st = None \<longrightarrow> ps_heap st = []"
    by (rule loop_ends[OF loop_start[OF assms(1,2), of "Some t"]]) (use assms(3,4) in auto)
  have "case ps_found st of None \<Rightarrow> \<nexists>p d m. path g s t p d m | Some ct \<Rightarrow> best_route g s t st ct"
  proof (cases "ps_found st")
    case None
    then have ok: "search_ok g s st" "\<not> settled st t" "ps_heap st = []" using st by (auto simp: loop_ok_def)
    then have "ps_best st ! t = None" by (cases "ps_best st ! t") (auto simp: settled_def)
    then show ?thesis using all_settled[OF ok(1,3) assms(3)] None by simp
  next
    case (Some ct)
    then show ?thesis using st(2) by (simp add: loop_ok_def)
  qed
  then show ?thesis by (rule that[OF st(1)])
qed

lemma stay_put: "graph_ok g \<Longrightarrow> s < length (nodes g) \<Longrightarrow> least_time g s s 0"
  unfolding least_time_def using path.start path_lt by blast

lemma route_least:
  assumes "graph_ok g" "snap g alat alon = Some s" "snap g blat blon = Some t"
  shows "\<exists>r. route_with pop g alat alon blat blon = Some r \<and>
    (case r of None \<Rightarrow> \<nexists>p d m. path g s t p d m
     | Some r \<Rightarrow> least_time g s t (rt_time_s r) \<and> (\<exists>p. path g s t p (rt_time_s r) (rt_dist_m r)))"
proof (cases "s = t")
  case True
  have "s < length (nodes g)" using assms(2) snap_lt by (auto simp: snap_def)
  then show ?thesis using True assms stay_put[OF assms(1)] path.start[of g t] by (auto simp: route_with_def)
next
  case False
  have "s < length (nodes g)" "t < length (nodes g)" using assms(2,3) snap_lt by (auto simp: snap_def)
  from target_search[OF assms(1) this False] obtain st where
    st: "while_option (\<lambda>st. ps_found st = None \<and> pop (ps_heap st) \<noteq> None) (path_body pop g (Some t)) (path_init g s) = Some st"
    and res: "case ps_found st of None \<Rightarrow> \<nexists>p d m. path g s t p d m | Some ct \<Rightarrow> best_route g s t st ct" .
  have r: "route_with pop g alat alon blat blon = Some (map_option (\<lambda>ct. \<lparr>rt_time_s = ct, rt_dist_m = ps_path_m st ! t\<rparr>) (ps_found st))"
    unfolding route_with_def using assms(2,3) False route_loop_view[of pop g t s, symmetric] st by (simp add: route_view_def)
  show ?thesis using res by (cases "ps_found st") (auto simp: r best_route_def least_time_def)
qed

lemma route_path_least:
  assumes "graph_ok g" "snap_r g alat alon SNAP_SRC_MAX_M = Some s" "snap g blat blon = Some t"
  shows "\<exists>r. route_path_with pop g alat alon blat blon = Some r \<and>
    (case r of None \<Rightarrow> \<nexists>p d m. path g s t p d m
     | Some r \<Rightarrow> \<exists>p d. least_time g s t d \<and> path g s t p d (rp_dist_m r) \<and> rp_pts r = map ((!) (nodes g)) p)"
proof (cases "s = t")
  case True
  then show ?thesis using assms stay_put[OF assms(1) snap_lt[OF assms(2)]] path.start[of g t]
    by (auto simp: route_path_with_def intro!: exI[of _ "[t]"] exI[of _ 0])
next
  case False
  have "s < length (nodes g)" "t < length (nodes g)" using assms(2,3) snap_lt by (auto simp: snap_def)
  from target_search[OF assms(1) this False] obtain st where
    st: "while_option (\<lambda>st. ps_found st = None \<and> pop (ps_heap st) \<noteq> None) (path_body pop g (Some t)) (path_init g s) = Some st"
    and res: "case ps_found st of None \<Rightarrow> \<nexists>p d m. path g s t p d m | Some ct \<Rightarrow> best_route g s t st ct" .
  show ?thesis
  proof (cases "ps_found st")
    case None
    then show ?thesis unfolding route_path_with_def using assms(2,3) False st res by simp
  next
    case (Some ct)
    then obtain p where p: "path g s t p ct (ps_path_m st ! t)" "chain (ps_prev st) s p" "least_time g s t ct"
      using res by (auto simp: best_route_def least_time_def)
    have "trace g s (ps_prev st) t [] = Some (Some (map ((!) (nodes g)) p))"
      using trace_chain[OF p(2), of g "[]"] path_last[OF p(1)] by simp
    then have "route_path_with pop g alat alon blat blon = Some (Some \<lparr>rp_pts = map ((!) (nodes g)) p, rp_dist_m = ps_path_m st ! t\<rparr>)"
      unfolding route_path_with_def using assms(2,3) False st Some by simp
    then show ?thesis using p by auto
  qed
qed

end

section \<open>What loading keeps\<close>

lemma fold_max_ge: "x \<in> set xs \<or> x \<le> (a::int) \<Longrightarrow> x \<le> fold max xs a"
proof (induction xs arbitrary: a)
  case (Cons y xs)
  have "x \<in> set xs \<or> x \<le> max y a" using Cons.prems by auto
  then show ?case using Cons.IH[of "max y a"] by simp
qed simp

lemma length_put_nodes [simp]: "length (fold put_node rows ns) = length ns"
  by (induction rows arbitrary: ns) (auto simp: put_node_def split: prod.splits)

lemma length_put_edges [simp]: "length (fold (put_edge n) es a) = length a"
  by (induction es arbitrary: a) (auto simp: put_edge_def Let_def split: prod.splits)

lemma put_nodes_other: "(\<forall>r \<in> set rows. fst r \<noteq> int i) \<Longrightarrow> fold put_node rows ns ! i = ns ! i"
proof (induction rows arbitrary: ns)
  case (Cons r rows)
  obtain j la lo where "r = (j, la, lo)" by (cases r) auto
  then show ?case using Cons by (cases "0 \<le> j") (auto simp: put_node_def)
qed simp

lemma put_nodes_at:
  "distinct (map fst rows) \<Longrightarrow> (int i, la, lo) \<in> set rows \<Longrightarrow> i < length ns \<Longrightarrow> fold put_node rows ns ! i = (la, lo)"
proof (induction rows arbitrary: ns)
  case (Cons r rows)
  show ?case
  proof (cases "r = (int i, la, lo)")
    case True
    have "\<forall>r' \<in> set rows. fst r' \<noteq> int i" using Cons.prems(1) True by force
    from put_nodes_other[OF this] have "fold put_node (r # rows) ns ! i = put_node r ns ! i" by simp
    moreover have "put_node r ns = ns[i := (la, lo)]" using True by (simp add: put_node_def)
    ultimately show ?thesis using Cons.prems(3) by simp
  next
    case False
    have "length (put_node r ns) = length ns" by (auto simp: put_node_def split: prod.splits)
    then show ?thesis using False Cons by simp
  qed
qed simp

definition in_range :: "nat \<Rightarrow> edge_row \<Rightarrow> bool" where
  "in_range n e \<longleftrightarrow> (case e of (u, v, _) \<Rightarrow> 0 \<le> u \<and> 0 \<le> v \<and> u \<le> int n \<and> v \<le> int n)"

text \<open>The arcs a row of the edge table stands for.\<close>

definition arcs :: "nat \<Rightarrow> edge_row \<Rightarrow> (nat \<times> nat \<times> real \<times> real) set" where
  "arcs n e = (case e of (u, v, len_m, spd, oneway) \<Rightarrow>
     if in_range n e then {(nat u, nat v, edge_time len_m spd, len_m)} \<union> (if oneway then {} else {(nat v, nat u, edge_time len_m spd, len_m)})
     else {})"

lemma put_edge_arcs:
  assumes "length a = Suc n" "u < Suc n"
  shows "set (put_edge n e a ! u) = set (a ! u) \<union> {x. (u, x) \<in> arcs n e}"
proof -
  obtain x y len_m spd oneway where e: "e = (x, y, len_m, spd, oneway)" by (cases e) auto
  show ?thesis
  proof (cases "in_range n e")
    case True
    then have r: "0 \<le> x" "0 \<le> y" "x \<le> int n" "y \<le> int n" by (auto simp: in_range_def e)
    then have "nat x < length a" "nat y < length a" using assms(1) by auto
    then show ?thesis using r True by (auto simp: put_edge_def e arcs_def Let_def arr)
  next
    case False
    then show ?thesis by (auto simp: put_edge_def e arcs_def in_range_def)
  qed
qed

lemma put_edges_arcs:
  "length a = Suc n \<Longrightarrow> u < Suc n \<Longrightarrow> set (fold (put_edge n) es a ! u) = set (a ! u) \<union> {x. \<exists>e \<in> set es. (u, x) \<in> arcs n e}"
proof (induction es arbitrary: a)
  case (Cons e es)
  have "length (put_edge n e a) = Suc n" using Cons.prems(1) length_put_edges[of n "[e]" a] by simp
  then show ?case using Cons.IH[of "put_edge n e a"] Cons.prems put_edge_arcs[of a n u e] by auto
qed simp

lemma edge_time_nonneg: "0 \<le> l \<Longrightarrow> 0 \<le> edge_time l spd"
  by (auto simp: edge_time_def FALLBACK_KMH_def split: option.splits)

lemma load_someE:
  assumes "load (Some nt) (Some et) = Some g"
  obtains "nt \<noteq> []" "length nt \<le> ROW_MAX" "length et \<le> ROW_MAX" "\<not> too_sparse nt"
    "nodes g = fold put_node nt (replicate (max_id nt + 1) (0, 0))"
    "adj g = fold (put_edge (max_id nt)) et (replicate (max_id nt + 1) [])"
proof -
  have l: "length nt \<le> ROW_MAX" "length et \<le> ROW_MAX" using assms by (auto simp: load_def split: if_splits)
  then have "take (ROW_MAX + 1) nt = nt" "take (ROW_MAX + 1) et = et" by auto
  then show ?thesis using that l assms by (auto simp: load_def split: if_splits)
qed


lemma load_adj:
  assumes "load (Some nt) (Some et) = Some g" "u < length (nodes g)"
  shows "set (adj g ! u) = {x. \<exists>e \<in> set et. (u, x) \<in> arcs (max_id nt) e}"
proof -
  from load_someE[OF assms(1)] have l: "nodes g = fold put_node nt (replicate (max_id nt + 1) (0, 0))"
    "adj g = fold (put_edge (max_id nt)) et (replicate (max_id nt + 1) [])" by blast+
  have u: "u < max_id nt + 1" using assms(2) l(1) by simp
  then have "replicate (max_id nt + 1) [] ! u = ([] :: (nat \<times> real \<times> real) list)" by (rule nth_replicate)
  then show ?thesis unfolding l(2) using put_edges_arcs[of "replicate (max_id nt + 1) []" "max_id nt" u et] u by simp
qed

lemma load_size:
  assumes "load (Some nt) (Some et) = Some g"
  shows "length (nodes g) \<le> 419430" "length (adj g) = length (nodes g)" "length (nodes g) = max_id nt + 1"
proof -
  from load_someE[OF assms(1)] have l: "\<not> too_sparse nt" "nodes g = fold put_node nt (replicate (max_id nt + 1) (0, 0))"
    "adj g = fold (put_edge (max_id nt)) et (replicate (max_id nt + 1) [])" by blast+
  then show "length (nodes g) \<le> 419430" "length (adj g) = length (nodes g)" "length (nodes g) = max_id nt + 1"
    by (simp_all add: too_sparse_def ALLOC_MAX_BYTES_def)
qed

lemma load_nodes:
  assumes "load (Some nt) (Some et) = Some g" "distinct (map fst nt)" "(int i, la, lo) \<in> set nt"
  shows "i < length (nodes g)" "nodes g ! i = (la, lo)"
proof -
  have "int i \<in> set (map fst nt)" using assms(3) by force
  then have "int i \<le> fold max (map fst nt) 0" by (intro fold_max_ge) auto
  then have i: "i < max_id nt + 1" by (simp add: max_id_def)
  then show "i < length (nodes g)" using load_size(3)[OF assms(1)] by simp
  from load_someE[OF assms(1)] have "nodes g = fold put_node nt (replicate (max_id nt + 1) (0, 0))" by blast
  then show "nodes g ! i = (la, lo)" using put_nodes_at[OF assms(2,3), of "replicate (max_id nt + 1) (0, 0)"] i by simp
qed

lemma load_graph_ok:
  assumes "load (Some nt) (Some et) = Some g" "\<forall>(u, v, len_m, spd, oneway) \<in> set et. 0 \<le> len_m"
  shows "graph_ok g"
proof -
  have "v < length (nodes g) \<and> 0 \<le> t" if "u < length (nodes g)" "(v, t, m) \<in> set (adj g ! u)" for u v t m
  proof -
    have "\<exists>e \<in> set et. (u, v, t, m) \<in> arcs (max_id nt) e" using load_adj[OF assms(1) that(1)] that(2) by simp
    then obtain x y l spd oneway where e: "(x, y, l, spd, oneway) \<in> set et" "(u, v, t, m) \<in> arcs (max_id nt) (x, y, l, spd, oneway)" by auto
    then have "0 \<le> edge_time l spd" using assms(2) edge_time_nonneg by fastforce
    then show ?thesis using load_size(3)[OF assms(1)] e(2) by (auto simp: arcs_def in_range_def split: if_splits)
  qed
  then show ?thesis unfolding graph_ok_def using load_size[OF assms(1)] by (auto simp: U32_MAX_def)
qed

section \<open>Properties\<close>

text \<open>A graph of two nodes, about 111 km apart, and one one-way edge: the concrete input of the witnesses.\<close>

definition two_nodes :: "node_row list" where "two_nodes = [(0, 1, 100), (1, 2, 100)]"

definition one_edge :: "edge_row list" where "one_edge = [(0, 1, 36, Some 36, True)]"

definition small_graph :: road_graph where
  "small_graph = \<lparr>nodes = [(1, 100), (2, 100)], adj = [[(1, 3.6, 36)], []]\<rparr>"

lemma small_load: "load (Some two_nodes) (Some one_edge) = Some small_graph"
  by (simp add: load_def two_nodes_def one_edge_def small_graph_def ROW_MAX_def too_sparse_def max_id_def ID_SLACK_def
      ALLOC_MAX_BYTES_def put_node_def put_edge_def edge_time_def numeral_2_eq_2)

lemma small_snap:
  "snap_r small_graph 1 100 SNAP_SRC_MAX_M = Some 0" "snap small_graph 1 100 = Some 0" "snap small_graph 2 100 = Some 1"
  by (simp_all add: snap_def snap_r_def small_graph_def SNAP_SRC_MAX_M_def SNAP_MAX_M_def dist2_def)

lemma small_lengths: "\<forall>(u, v, len_m, spd, oneway) \<in> set one_edge. 0 \<le> len_m"
  by (simp add: one_edge_def)

text \<open>
  Loading is faithful and bounded: a graph that loads has at most 419430 node slots; every node row
  keeps its coordinate under its id; and the arcs of a node are exactly the rows of the edge table with
  both ends in range, both ways unless the row is one-way.
\<close>

theorem load_faithful:
  assumes "load (Some nt) (Some et) = Some g" "distinct (map fst nt)"
  shows "length (nodes g) \<le> 419430 \<and> length (adj g) = length (nodes g) \<and>
    (\<forall>i la lo. (int i, la, lo) \<in> set nt \<longrightarrow> i < length (nodes g) \<and> nodes g ! i = (la, lo)) \<and>
    (\<forall>u < length (nodes g). set (adj g ! u) = {x. \<exists>e \<in> set et. (u, x) \<in> arcs (max_id nt) e})"
  using load_size[OF assms(1)] load_nodes[OF assms] load_adj[OF assms(1)] by blast

theorem load_faithful_witness: "length (nodes small_graph) \<le> 419430 \<and> nodes small_graph ! 1 = (2, 100)"
proof -
  have "distinct (map fst two_nodes)" "(int 1, 2, 100) \<in> set two_nodes" by (simp_all add: two_nodes_def)
  with load_faithful[OF small_load] show ?thesis by blast
qed

text \<open>
  Snapping returns the nearest node: a result is a real node strictly within the radius and no
  other real node is nearer; without a result every real node is at least the radius away.
\<close>

theorem snap_nearest:
  "case snap_r g lat lon r of
     None \<Rightarrow> \<forall>j < length (nodes g). fst (nodes g ! j) = 0 \<or> r * r \<le> dist2 lat lon (nodes g ! j)
   | Some i \<Rightarrow> i < length (nodes g) \<and> fst (nodes g ! i) \<noteq> 0 \<and> dist2 lat lon (nodes g ! i) < r * r \<and>
       (\<forall>j < length (nodes g). fst (nodes g ! j) = 0 \<or> dist2 lat lon (nodes g ! i) \<le> dist2 lat lon (nodes g ! j))"
  using snap_r_cases[where g = g and lat = lat and lon = lon and r = r] by (auto split: option.splits)

theorem snap_nearest_witness: "snap_r small_graph 1 100 150 = Some 0 \<and> dist2 1 100 (nodes small_graph ! 0) \<le> dist2 1 100 (nodes small_graph ! 1)"
proof -
  have s: "snap_r small_graph 1 100 150 = Some 0" using small_snap(1) by (simp add: SNAP_SRC_MAX_M_def)
  have "1 < length (nodes small_graph)" "fst (nodes small_graph ! 1) \<noteq> 0" by (simp_all add: small_graph_def)
  with s snap_nearest[where g = small_graph and lat = 1 and lon = 100 and r = 150] show ?thesis by auto
qed

text \<open>
  C9. On a loaded graph with lengths that are not negative the time field of a truck ends and holds,
  for every node, the least travel time from the node the truck snaps to; a node has no time exactly
  when no directed path reaches it.
\<close>

theorem field_from_shortest:
  assumes "load (Some nt) (Some et) = Some g" "\<forall>(u, v, len_m, spd, oneway) \<in> set et. 0 \<le> len_m"
    and "snap_r g lat lon SNAP_SRC_MAX_M = Some s"
  shows "\<exists>f. field_from g lat lon = Some (Some f) \<and> (\<forall>v d. time_to f v = Some d \<longleftrightarrow> least_time g s v d) \<and>
    (\<forall>v. time_to f v = None \<longleftrightarrow> (\<nexists>p t m. path g s v p t m))"
  unfolding field_from_def by (rule bh.field_from_least[OF load_graph_ok[OF assms(1,2)] assms(3)])

theorem field_from_shortest_witness:
  "\<exists>f. field_from small_graph 1 100 = Some (Some f) \<and> (\<forall>v d. time_to f v = Some d \<longleftrightarrow> least_time small_graph 0 v d)"
  using field_from_shortest[OF small_load small_lengths small_snap(1)] by blast

text \<open>
  C37. A route between two snapped coordinates: the search ends; it answers nothing exactly when no
  directed path exists, and otherwise the least time, with the length of a path that takes that time.
\<close>

theorem route_shortest:
  assumes "load (Some nt) (Some et) = Some g" "\<forall>(u, v, len_m, spd, oneway) \<in> set et. 0 \<le> len_m"
    and "snap g alat alon = Some s" "snap g blat blon = Some t"
  shows "\<exists>r. route_of g alat alon blat blon = Some r \<and>
    (case r of None \<Rightarrow> \<nexists>p d m. path g s t p d m
     | Some r \<Rightarrow> least_time g s t (rt_time_s r) \<and> (\<exists>p. path g s t p (rt_time_s r) (rt_dist_m r)))"
  unfolding route_of_def by (rule bh.route_least[OF load_graph_ok[OF assms(1,2)] assms(3,4)])

theorem route_shortest_witness: "\<exists>r. route_of small_graph 1 100 2 100 = Some r"
  using route_shortest[OF small_load small_lengths small_snap(2,3)] by blast

text \<open>
  A routed polyline: the search and the walk back along the predecessors end, and the points are
  the coordinates of the nodes of a least-time path from the source to the destination, whose length is
  the distance returned.
\<close>

theorem route_path_geometry:
  assumes "load (Some nt) (Some et) = Some g" "\<forall>(u, v, len_m, spd, oneway) \<in> set et. 0 \<le> len_m"
    and "snap_r g alat alon SNAP_SRC_MAX_M = Some s" "snap g blat blon = Some t"
  shows "\<exists>r. route_path_of g alat alon blat blon = Some r \<and>
    (case r of None \<Rightarrow> \<nexists>p d m. path g s t p d m
     | Some r \<Rightarrow> \<exists>p d. least_time g s t d \<and> path g s t p d (rp_dist_m r) \<and> rp_pts r = map ((!) (nodes g)) p)"
  unfolding route_path_of_def by (rule bh.route_path_least[OF load_graph_ok[OF assms(1,2)] assms(3,4)])

theorem route_path_geometry_witness: "\<exists>r. route_path_of small_graph 1 100 2 100 = Some r"
  using route_path_geometry[OF small_load small_lengths small_snap(1,3)] by blast

end
