(* ===== verification/CostModel.thy ===== *)
theory CostModel
  imports Shortest
begin

text \<open>
  The travel cost of the matcher (\<^verbatim>\<open>src/crates/api/src/roadgraph.rs\<close>, \<^verbatim>\<open>CostCurve\<close>, \<^verbatim>\<open>JobCurves\<close> and
  \<^verbatim>\<open>RouteCost\<close>): curves fitted to realized trips, evaluated on the routed time, with one cached search per
  truck position and one cached snap per work position; and the grid distance \<^verbatim>\<open>quay_manhattan_m\<close> of
  \<^verbatim>\<open>livemap.rs\<close>. The rows of the evaluation table are a parameter; a float is a real number, so it is
  always finite.
\<close>

section \<open>Curves\<close>

type_synonym knot = "real \<times> real \<times> real"
type_synonym eval_row = "real \<times> real \<times> real \<times> int"

record cost_curve =
  knots :: "knot list"

fun cum_max :: "real \<Rightarrow> real \<Rightarrow> eval_row list \<Rightarrow> knot list" where
  "cum_max m50 m90 [] = []"
| "cum_max m50 m90 ((x, p50, p90, n) # rows) =
     (let m50 = max m50 p50; m90 = max (max m90 p90) m50 in (x, m50, m90) # cum_max m50 m90 rows)"

definition curve_fit :: "eval_row list \<Rightarrow> int \<Rightarrow> cost_curve option" where
  "curve_fit rows min_n =
     (let rows = filter (\<lambda>(x, p50, p90, n). n \<ge> min_n \<and> p50 > 0) rows;
          rows = sort_key fst rows;
          ks = cum_max 0 0 rows
      in if length ks \<ge> 2 then Some \<lparr>knots = ks\<rparr> else None)"

fun seg_eval :: "real \<Rightarrow> knot list \<Rightarrow> (real \<times> real) option" where
  "seg_eval x (a # b # ks) =
     (if x \<le> fst b
      then let f = (x - fst a) / (fst b - fst a)
           in Some (fst (snd a) + f * (fst (snd b) - fst (snd a)), snd (snd a) + f * (snd (snd b) - snd (snd a)))
      else seg_eval x (b # ks))"
| "seg_eval x _ = None"

definition curve_eval :: "cost_curve \<Rightarrow> real \<Rightarrow> real \<times> real" where
  "curve_eval c x =
     (let k = knots c in
      if x \<le> fst (k ! 0) then (fst (snd (k ! 0)), snd (snd (k ! 0)))
      else case seg_eval x k of
        Some r \<Rightarrow> r
      | None \<Rightarrow>
          let a = k ! (length k - 2); b = k ! (length k - 1); span = max (fst b - fst a) 1; extra = x - fst b
          in (fst (snd b) + (fst (snd b) - fst (snd a)) / span * extra, snd (snd b) + (snd (snd b) - snd (snd a)) / span * extra))"

record job_curves =
  jc_ds :: "cost_curve option"
  jc_ld :: "cost_curve option"
  jc_all :: "cost_curve option"

definition pick :: "job_curves \<Rightarrow> bool \<Rightarrow> cost_curve option" where
  "pick jc is_ld = (case (if is_ld then jc_ld jc else jc_ds jc) of None \<Rightarrow> jc_all jc | Some c \<Rightarrow> Some c)"

definition clean_row :: "real option \<times> real option \<times> real option \<times> int \<Rightarrow> eval_row option" where
  "clean_row r = (case r of (Some x, Some p50, Some p90, n) \<Rightarrow> Some (x, p50, p90, n) | _ \<Rightarrow> None)"

definition fit_cost_curve :: "bool \<Rightarrow> (real option \<times> real option \<times> real option \<times> int) list option \<Rightarrow> cost_curve option" where
  "fit_cost_curve has_jt rows =
     curve_fit (List.map_filter clean_row (case rows of None \<Rightarrow> [] | Some rs \<Rightarrow> rs)) (if has_jt then 100 else 150)"

definition CAL50_DEFAULT :: real where "CAL50_DEFAULT = 1.6"
definition CAL90_DEFAULT :: real where "CAL90_DEFAULT = 3.7"

section \<open>The cost of a pair\<close>

text \<open>The two caches are maps from rounded coordinates; a field that was searched for is kept even when it is empty.\<close>

type_synonym ckey = "int \<times> int"

record route_cost =
  rc_rg :: "road_graph option"
  rc_route :: job_curves
  rc_manh :: job_curves

record cost_cache =
  cc_fields :: "ckey \<rightharpoonup> route_field option"
  cc_snaps :: "ckey \<rightharpoonup> nat option"

definition trunc_real :: "real \<Rightarrow> int" where
  "trunc_real x = (if 0 \<le> x then \<lfloor>x\<rfloor> else \<lceil>x\<rceil>)"

definition coord_key :: "real \<Rightarrow> real \<Rightarrow> ckey" where
  "coord_key lat lon = (trunc_real (lat * 10 ^ 7), trunc_real (lon * 10 ^ 7))"

definition manh_p50_p90 :: "route_cost \<Rightarrow> real \<Rightarrow> bool \<Rightarrow> (real \<times> real) option" where
  "manh_p50_p90 rc manh_m is_ld = map_option (\<lambda>c. curve_eval c manh_m) (pick (rc_manh rc) is_ld)"

text \<open>The field and the snap of a position, from the cache or computed and stored. The outer \<^verbatim>\<open>None\<close> is a search that does not end.\<close>

definition cached_field :: "road_graph \<Rightarrow> cost_cache \<Rightarrow> real \<Rightarrow> real \<Rightarrow> (route_field option \<times> cost_cache) option" where
  "cached_field g cc lat lon = (case cc_fields cc (coord_key lat lon) of
     Some f \<Rightarrow> Some (f, cc)
   | None \<Rightarrow> map_option (\<lambda>f. (f, cc\<lparr>cc_fields := (cc_fields cc)(coord_key lat lon \<mapsto> f)\<rparr>)) (field_from g lat lon))"

definition cached_snap :: "road_graph \<Rightarrow> cost_cache \<Rightarrow> real \<Rightarrow> real \<Rightarrow> nat option \<times> cost_cache" where
  "cached_snap g cc lat lon = (case cc_snaps cc (coord_key lat lon) of
     Some s \<Rightarrow> (s, cc)
   | None \<Rightarrow> let s = snap_node g lat lon in (s, cc\<lparr>cc_snaps := (cc_snaps cc)(coord_key lat lon \<mapsto> s)\<rparr>))"

definition cost_of_time :: "route_cost \<Rightarrow> bool \<Rightarrow> real \<Rightarrow> real \<times> real" where
  "cost_of_time rc is_ld t = (case pick (rc_route rc) is_ld of
     Some c \<Rightarrow> curve_eval c t | None \<Rightarrow> (t * CAL50_DEFAULT, t * CAL90_DEFAULT))"

definition p50_p90 ::
  "route_cost \<Rightarrow> cost_cache \<Rightarrow> real \<Rightarrow> real \<Rightarrow> real \<Rightarrow> real \<Rightarrow> bool \<Rightarrow> ((real \<times> real) option \<times> cost_cache) option" where
  "p50_p90 rc cc vlat vlon wlat wlon is_ld = (case rc_rg rc of
     None \<Rightarrow> Some (None, cc)
   | Some g \<Rightarrow> (case cached_field g cc vlat vlon of
       None \<Rightarrow> None
     | Some (None, cc) \<Rightarrow> Some (None, cc)
     | Some (Some f, cc) \<Rightarrow> (case cached_snap g cc wlat wlon of
         (None, cc) \<Rightarrow> Some (None, cc)
       | (Some node, cc) \<Rightarrow> Some (map_option (cost_of_time rc is_ld) (time_to f node), cc))))"

section \<open>Grid distance\<close>

definition GRID_COS :: real where "GRID_COS = 0.86777"
definition GRID_SIN :: real where "GRID_SIN = 0.49697"

definition quay_manhattan_m :: "real \<Rightarrow> real \<Rightarrow> real \<Rightarrow> real \<Rightarrow> real" where
  "quay_manhattan_m lat1 lon1 lat2 lon2 =
     (let m = 111320; dn = (lat2 - lat1) * m; de = (lon2 - lon1) * m * cos ((lat1 + lat2) / 2 * pi / 180);
          u = dn * GRID_COS + de * GRID_SIN; v = - dn * GRID_SIN + de * GRID_COS
      in \<bar>u\<bar> + \<bar>v\<bar>)"

section \<open>The fitted knots are sorted\<close>

definition knots_ok :: "knot list \<Rightarrow> bool" where
  "knots_ok ks \<longleftrightarrow> sorted (map fst ks) \<and> sorted (map (fst \<circ> snd) ks) \<and> sorted (map (snd \<circ> snd) ks) \<and>
     (\<forall>k \<in> set ks. fst (snd k) \<le> snd (snd k)) \<and> (\<forall>k \<in> set ks. 0 \<le> fst (snd k))"

lemma cum_max_fst: "map fst (cum_max m50 m90 rows) = map fst rows"
  by (induction m50 m90 rows rule: cum_max.induct) (auto simp: Let_def)

lemma cum_max_ge: "k \<in> set (cum_max m50 m90 rows) \<Longrightarrow> m50 \<le> fst (snd k) \<and> m90 \<le> snd (snd k) \<and> fst (snd k) \<le> snd (snd k)"
proof (induction m50 m90 rows rule: cum_max.induct)
  case (2 m50 m90 x p50 p90 n rows)
  define a b where "a = max m50 p50" and "b = max (max m90 p90) a"
  have ab: "m50 \<le> a" "m90 \<le> b" "a \<le> b" by (auto simp: a_def b_def)
  have "k = (x, a, b) \<or> k \<in> set (cum_max a b rows)" using "2.prems" by (auto simp: Let_def a_def b_def)
  then show ?case
  proof
    assume "k = (x, a, b)"
    then show ?thesis using ab by simp
  next
    assume "k \<in> set (cum_max a b rows)"
    then have "a \<le> fst (snd k) \<and> b \<le> snd (snd k) \<and> fst (snd k) \<le> snd (snd k)" using "2.IH"[OF a_def b_def] by blast
    then show ?thesis using ab by linarith
  qed
qed simp

lemma cum_max_sorted: "sorted (map (fst \<circ> snd) (cum_max m50 m90 rows)) \<and> sorted (map (snd \<circ> snd) (cum_max m50 m90 rows))"
proof (induction m50 m90 rows rule: cum_max.induct)
  case (2 m50 m90 x p50 p90 n rows)
  define a b where "a = max m50 p50" and "b = max (max m90 p90) a"
  have "cum_max m50 m90 ((x, p50, p90, n) # rows) = (x, a, b) # cum_max a b rows" by (simp add: Let_def a_def b_def)
  moreover have "\<forall>k \<in> set (cum_max a b rows). a \<le> fst (snd k) \<and> b \<le> snd (snd k)" using cum_max_ge by blast
  ultimately show ?case using "2.IH"[OF a_def b_def] by simp
qed simp

lemma cum_max_ok: "sorted (map fst rows) \<Longrightarrow> knots_ok (cum_max 0 0 rows)"
  using cum_max_ge[of _ 0 0 rows] cum_max_sorted[of 0 0 rows] by (simp add: knots_ok_def cum_max_fst)

lemma curve_fit_ok:
  assumes "curve_fit rows min_n = Some c"
  shows "knots_ok (knots c)" "length (knots c) \<ge> 2"
proof -
  define rs where "rs = sort_key fst (filter (\<lambda>(x, p50, p90, n). n \<ge> min_n \<and> p50 > (0::real)) rows)"
  have "knots c = cum_max 0 0 rs" "length (cum_max 0 0 rs) \<ge> 2"
    using assms by (auto simp: curve_fit_def Let_def rs_def split: if_splits)
  moreover have "sorted (map fst rs)" unfolding rs_def by simp
  ultimately show "knots_ok (knots c)" "length (knots c) \<ge> 2" using cum_max_ok by auto
qed

section \<open>Evaluation along one component\<close>

text \<open>\<^verbatim>\<open>line v a b x\<close> is the value at \<open>x\<close> of the line through two knots, \<^verbatim>\<open>tail_line\<close> the line beyond the last two.\<close>

definition line :: "(knot \<Rightarrow> real) \<Rightarrow> knot \<Rightarrow> knot \<Rightarrow> real \<Rightarrow> real" where
  "line v a b x = v a + (x - fst a) / (fst b - fst a) * (v b - v a)"

definition tail_line :: "(knot \<Rightarrow> real) \<Rightarrow> knot \<Rightarrow> knot \<Rightarrow> real \<Rightarrow> real" where
  "tail_line v a b x = v b + (v b - v a) / max (fst b - fst a) 1 * (x - fst b)"

fun along :: "(knot \<Rightarrow> real) \<Rightarrow> knot list \<Rightarrow> real \<Rightarrow> real" where
  "along v (a # b # ks) x = (if x \<le> fst b then line v a b x else if ks = [] then tail_line v a b x else along v (b # ks) x)"
| "along v _ x = 0"

lemma seg_along: "length ks \<ge> 2 \<Longrightarrow> seg_eval x ks = Some r \<Longrightarrow> r = (along (fst \<circ> snd) ks x, along (snd \<circ> snd) ks x)"
proof (induction x ks rule: seg_eval.induct)
  case (1 x a b ks)
  then show ?case by (cases ks) (auto simp: Let_def line_def split: if_splits)
qed auto

lemma tail_along:
  "length ks \<ge> 2 \<Longrightarrow> seg_eval x ks = None \<Longrightarrow> along v ks x = tail_line v (ks ! (length ks - 2)) (ks ! (length ks - 1)) x"
proof (induction v ks x rule: along.induct)
  case (1 v a b ks x)
  show ?case
  proof (cases ks)
    case Nil
    then show ?thesis using 1 by (auto simp: Let_def split: if_splits)
  next
    case (Cons c cs)
    then show ?thesis using 1 by (auto simp: Let_def split: if_splits)
  qed
qed auto

lemma curve_eval_along:
  assumes "length (knots c) \<ge> 2"
  shows "curve_eval c x = (if x \<le> fst (knots c ! 0) then (fst (snd (knots c ! 0)), snd (snd (knots c ! 0)))
    else (along (fst \<circ> snd) (knots c) x, along (snd \<circ> snd) (knots c) x))"
  using assms seg_along[OF assms] tail_along[OF assms]
  by (auto simp: curve_eval_def Let_def tail_line_def split: option.splits)

lemma line_bounds:
  assumes "fst a < x" "x \<le> fst b" "v a \<le> v b"
  shows "v a \<le> line v a b x" "line v a b x \<le> v b"
proof -
  define f where "f = (x - fst a) / (fst b - fst a)"
  have f: "0 \<le> f" "f \<le> 1" using assms by (auto simp: f_def divide_le_eq_1)
  have "0 \<le> f * (v b - v a)" using f(1) assms(3) by simp
  moreover have "f * (v b - v a) \<le> 1 * (v b - v a)" using f(2) assms(3) by (intro mult_right_mono) auto
  ultimately show "v a \<le> line v a b x" "line v a b x \<le> v b" unfolding line_def f_def[symmetric] by auto
qed

lemma line_mono: "fst a < fst b \<Longrightarrow> v a \<le> v b \<Longrightarrow> x \<le> y \<Longrightarrow> line v a b x \<le> line v a b y"
  by (auto simp: line_def intro!: mult_right_mono divide_right_mono)

lemma tail_mono: "v a \<le> v b \<Longrightarrow> x \<le> y \<Longrightarrow> tail_line v a b x \<le> tail_line v a b y"
  unfolding tail_line_def by (intro add_left_mono mult_left_mono) (auto intro: divide_nonneg_pos)

lemma tail_ge: "v a \<le> v b \<Longrightarrow> fst b \<le> x \<Longrightarrow> v b \<le> tail_line v a b x"
  by (auto simp: tail_line_def)

lemma along_ge:
  "sorted (map fst ks) \<Longrightarrow> sorted (map v ks) \<Longrightarrow> length ks \<ge> 2 \<Longrightarrow> fst (ks ! 0) < x \<Longrightarrow> v (ks ! 0) \<le> along v ks x"
proof (induction v ks x rule: along.induct)
  case (1 v a b ks x)
  have ab: "v a \<le> v b" using 1(3) by simp
  consider "x \<le> fst b" | "x > fst b" "ks = []" | "x > fst b" "ks \<noteq> []" by fastforce
  then show ?case
  proof cases
    case 1
    then show ?thesis using \<open>fst ((a # b # ks) ! 0) < x\<close> line_bounds[of a x b v] ab by simp
  next
    case 2
    then show ?thesis using tail_ge[of v a b x] ab by simp
  next
    case 3
    then have "v ((b # ks) ! 0) \<le> along v (b # ks) x" using 1 by (cases ks) auto
    then show ?thesis using 3 ab by simp
  qed
qed auto

lemma along_mono:
  "sorted (map fst ks) \<Longrightarrow> sorted (map v ks) \<Longrightarrow> length ks \<ge> 2 \<Longrightarrow> fst (ks ! 0) < x \<Longrightarrow> x \<le> y \<Longrightarrow> along v ks x \<le> along v ks y"
proof (induction v ks x rule: along.induct)
  case (1 v a b ks x)
  have ab: "v a \<le> v b" "fst a < x" using 1 by auto
  have rest: "v b \<le> along v (b # ks) y" if "fst b < y" "ks \<noteq> []"
    using along_ge[of "b # ks" v y] 1(2,3) that by (cases ks) auto
  consider "y \<le> fst b" | "x \<le> fst b" "fst b < y" | "fst b < x" "ks = []" | "fst b < x" "ks \<noteq> []" by fastforce
  then show ?case
  proof cases
    case 1
    then show ?thesis using \<open>x \<le> y\<close> ab line_mono[of a b v x y] by simp
  next
    case 2
    then show ?thesis using ab line_bounds(2)[of a x b v] tail_ge[of v a b y] rest by auto
  next
    case 3
    then show ?thesis using \<open>x \<le> y\<close> ab tail_mono[of v a b x y] by simp
  next
    case 4
    then have "along v (b # ks) x \<le> along v (b # ks) y" using 1 by (cases ks) auto
    then show ?thesis using 4 \<open>x \<le> y\<close> by simp
  qed
qed auto

lemma along_between:
  "sorted (map fst ks) \<Longrightarrow> (\<forall>k \<in> set ks. v k \<le> w k) \<Longrightarrow> length ks \<ge> 2 \<Longrightarrow> fst (ks ! 0) < x \<Longrightarrow> x \<le> fst (last ks) \<Longrightarrow>
   along v ks x \<le> along w ks x"
proof (induction v ks x rule: along.induct)
  case (1 v a b ks x)
  show ?case
  proof (cases "x \<le> fst b")
    case True
    have "fst a < x" "v a \<le> w a" "v b \<le> w b" using 1 by auto
    then have f: "0 \<le> (x - fst a) / (fst b - fst a)" "(x - fst a) / (fst b - fst a) \<le> 1" using True by (auto simp: divide_le_eq_1)
    define f where "f = (x - fst a) / (fst b - fst a)"
    have "line u a b x = (1 - f) * u a + f * u b" for u
      unfolding line_def f_def[symmetric] by (simp add: algebra_simps)
    then show ?thesis using True f[folded f_def] \<open>v a \<le> w a\<close> \<open>v b \<le> w b\<close> by (auto intro!: add_mono mult_left_mono)
  next
    case False
    then have "ks \<noteq> []" using 1(6) by auto
    then have "along v (b # ks) x \<le> along w (b # ks) x" using 1 False by (cases ks) auto
    then show ?thesis using False \<open>ks \<noteq> []\<close> by simp
  qed
qed auto


section \<open>Curves as a whole\<close>

lemma curve_eval_mono:
  assumes "knots_ok (knots c)" "length (knots c) \<ge> 2" "x \<le> y"
  shows "fst (curve_eval c x) \<le> fst (curve_eval c y)" "snd (curve_eval c x) \<le> snd (curve_eval c y)"
proof -
  have s: "sorted (map fst (knots c))" "sorted (map (fst \<circ> snd) (knots c))" "sorted (map (snd \<circ> snd) (knots c))"
    using assms(1) by (auto simp: knots_ok_def)
  note e = curve_eval_along[OF assms(2)]
  show "fst (curve_eval c x) \<le> fst (curve_eval c y)"
    using assms(3) along_mono[OF s(1,2) assms(2), of x y] along_ge[OF s(1,2) assms(2), of y] by (auto simp: e)
  show "snd (curve_eval c x) \<le> snd (curve_eval c y)"
    using assms(3) along_mono[OF s(1,3) assms(2), of x y] along_ge[OF s(1,3) assms(2), of y] by (auto simp: e)
qed

lemma curve_eval_floor: "curve_eval c (fst (knots c ! 0)) = (fst (snd (knots c ! 0)), snd (snd (knots c ! 0)))"
  by (simp add: curve_eval_def)

lemma curve_eval_between:
  assumes "knots_ok (knots c)" "length (knots c) \<ge> 2" "x \<le> fst (last (knots c))"
  shows "fst (curve_eval c x) \<le> snd (curve_eval c x)"
proof -
  have k: "sorted (map fst (knots c))" "\<forall>k \<in> set (knots c). (fst \<circ> snd) k \<le> (snd \<circ> snd) k"
    using assms(1) by (auto simp: knots_ok_def)
  have "knots c ! 0 \<in> set (knots c)" using assms(2) by (intro nth_mem) auto
  then have "fst (snd (knots c ! 0)) \<le> snd (snd (knots c ! 0))" using k(2) by simp
  then show ?thesis unfolding curve_eval_along[OF assms(2)] using along_between[OF k assms(2) _ assms(3)] by (simp del: comp_apply)
qed

section \<open>The caches\<close>

text \<open>What a cached answer stands for: the answer for some position with the same key.\<close>

definition cache_ok :: "road_graph \<Rightarrow> cost_cache \<Rightarrow> bool" where
  "cache_ok g cc \<longleftrightarrow>
     (\<forall>k f. cc_fields cc k = Some f \<longrightarrow> (\<exists>lat lon. coord_key lat lon = k \<and> field_from g lat lon = Some f)) \<and>
     (\<forall>k s. cc_snaps cc k = Some s \<longrightarrow> (\<exists>lat lon. coord_key lat lon = k \<and> s = snap_node g lat lon))"

lemma cache_empty: "cache_ok g \<lparr>cc_fields = Map.empty, cc_snaps = Map.empty\<rparr>"
  by (simp add: cache_ok_def)

lemma field_from_total: "graph_ok g \<Longrightarrow> \<exists>f. field_from g lat lon = Some f"
proof (cases "snap_r g lat lon SNAP_SRC_MAX_M")
  case None
  then show ?thesis by (simp add: field_from_def field_from_with_def)
next
  case (Some s)
  assume "graph_ok g"
  then show ?thesis using bh.field_from_least[OF _ Some] unfolding field_from_def by blast
qed

lemma cached_field_ok:
  assumes "graph_ok g" "cache_ok g cc"
  shows "\<exists>f cc' lat' lon'. cached_field g cc lat lon = Some (f, cc') \<and> cache_ok g cc' \<and>
    coord_key lat' lon' = coord_key lat lon \<and> field_from g lat' lon' = Some f"
proof (cases "cc_fields cc (coord_key lat lon)")
  case None
  obtain f where f: "field_from g lat lon = Some f" using field_from_total[OF assms(1)] by blast
  have "cache_ok g (cc\<lparr>cc_fields := (cc_fields cc)(coord_key lat lon \<mapsto> f)\<rparr>)"
    using assms(2) f unfolding cache_ok_def by auto
  then show ?thesis using None f by (auto simp: cached_field_def)
next
  case (Some f)
  then obtain lat' lon' where "coord_key lat' lon' = coord_key lat lon" "field_from g lat' lon' = Some f"
    using assms(2) unfolding cache_ok_def by blast
  then show ?thesis using Some assms(2) by (auto simp: cached_field_def)
qed

lemma cached_snap_ok:
  assumes "cache_ok g cc"
  shows "\<exists>cc' lat' lon'. cached_snap g cc lat lon = (snap_node g lat' lon', cc') \<and> cache_ok g cc' \<and>
    coord_key lat' lon' = coord_key lat lon"
proof (cases "cc_snaps cc (coord_key lat lon)")
  case None
  have "cache_ok g (cc\<lparr>cc_snaps := (cc_snaps cc)(coord_key lat lon \<mapsto> snap_node g lat lon)\<rparr>)"
    using assms unfolding cache_ok_def by auto
  then show ?thesis using None by (auto simp: cached_snap_def Let_def)
next
  case (Some s)
  then obtain lat' lon' where "coord_key lat' lon' = coord_key lat lon" "s = snap_node g lat' lon'"
    using assms unfolding cache_ok_def by blast
  then show ?thesis using Some assms by (auto simp: cached_snap_def)
qed

text \<open>The specification without caches: the fitted cost of the least travel time between the snapped nodes.\<close>

definition pair_cost :: "route_cost \<Rightarrow> road_graph \<Rightarrow> real \<Rightarrow> real \<Rightarrow> real \<Rightarrow> real \<Rightarrow> bool \<Rightarrow> (real \<times> real) option \<Rightarrow> bool" where
  "pair_cost rc g vlat vlon wlat wlon is_ld r \<longleftrightarrow>
     (case (snap_r g vlat vlon SNAP_SRC_MAX_M, snap_node g wlat wlon) of
        (Some s, Some t) \<Rightarrow>
          (case r of None \<Rightarrow> \<nexists>p d m. path g s t p d m | Some pq \<Rightarrow> \<exists>d. least_time g s t d \<and> pq = cost_of_time rc is_ld d)
      | _ \<Rightarrow> r = None)"

lemma p50_p90_cost:
  assumes "rc_rg rc = Some g" "graph_ok g" "cache_ok g cc"
  shows "\<exists>r cc' vlat' vlon' wlat' wlon'. p50_p90 rc cc vlat vlon wlat wlon is_ld = Some (r, cc') \<and> cache_ok g cc' \<and>
    coord_key vlat' vlon' = coord_key vlat vlon \<and> coord_key wlat' wlon' = coord_key wlat wlon \<and>
    pair_cost rc g vlat' vlon' wlat' wlon' is_ld r"
proof -
  obtain f cc1 vlat' vlon' where f: "cached_field g cc vlat vlon = Some (f, cc1)" "cache_ok g cc1"
    "coord_key vlat' vlon' = coord_key vlat vlon" "field_from g vlat' vlon' = Some f"
    using cached_field_ok[OF assms(2,3)] by blast
  obtain cc2 wlat' wlon' where s: "cached_snap g cc1 wlat wlon = (snap_node g wlat' wlon', cc2)" "cache_ok g cc2"
    "coord_key wlat' wlon' = coord_key wlat wlon"
    using cached_snap_ok[OF f(2)] by blast
  show ?thesis
  proof (cases "snap_r g vlat' vlon' SNAP_SRC_MAX_M")
    case None
    then have "f = None" using f(4) by (simp add: field_from_def field_from_with_def)
    then have "p50_p90 rc cc vlat vlon wlat wlon is_ld = Some (None, cc1)" using f(1) assms(1) by (simp add: p50_p90_def)
    moreover have "pair_cost rc g vlat' vlon' wlat wlon is_ld None" using None by (simp add: pair_cost_def split: option.splits)
    ultimately show ?thesis using f by blast
  next
    case (Some a)
    obtain h where h: "f = Some h" "\<forall>v d. time_to h v = Some d \<longleftrightarrow> least_time g a v d" "\<forall>v. time_to h v = None \<longleftrightarrow> (\<nexists>p t m. path g a v p t m)"
      using bh.field_from_least[OF assms(2) Some] f(4) unfolding field_from_def by auto
    show ?thesis
    proof (cases "snap_node g wlat' wlon'")
      case None
      then have "p50_p90 rc cc vlat vlon wlat wlon is_ld = Some (None, cc2)" using f(1) s(1) h(1) assms(1) by (simp add: p50_p90_def)
      moreover have "pair_cost rc g vlat' vlon' wlat' wlon' is_ld None" using None by (simp add: pair_cost_def split: option.splits)
      ultimately show ?thesis using f s by blast
    next
      case (Some t)
      let ?r = "map_option (cost_of_time rc is_ld) (time_to h t)"
      have "p50_p90 rc cc vlat vlon wlat wlon is_ld = Some (?r, cc2)" using f(1) s(1) h(1) assms(1) Some by (simp add: p50_p90_def)
      moreover have "pair_cost rc g vlat' vlon' wlat' wlon' is_ld ?r"
      proof (cases "time_to h t")
        case None
        then have "\<nexists>p d m. path g a t p d m" using h(3) by blast
        then show ?thesis using None Some \<open>snap_r g vlat' vlon' SNAP_SRC_MAX_M = Some a\<close> by (simp add: pair_cost_def)
      next
        case (Some d)
        then have "least_time g a t d" using h(2) by blast
        then show ?thesis using Some \<open>snap_node g wlat' wlon' = Some t\<close> \<open>snap_r g vlat' vlon' SNAP_SRC_MAX_M = Some a\<close>
          by (auto simp: pair_cost_def)
      qed
      ultimately show ?thesis using f s by blast
    qed
  qed
qed

section \<open>Properties\<close>

definition sample_rows :: "eval_row list" where "sample_rows = [(40, 100, 200, 500), (10, 20, 190, 400), (90, 5, 5, 3)]"

definition sample_curve :: cost_curve where "sample_curve = \<lparr>knots = [(10, 20, 190), (40, 100, 200)]\<rparr>"

lemma sample_fit: "curve_fit sample_rows 150 = Some sample_curve"
  by (simp add: curve_fit_def sample_rows_def sample_curve_def Let_def)

text \<open>
  A fitted cost curve never makes a nearer truck cost more: both the median and the 90th percentile
  grow with the estimate, and neither falls below the level of the first knot, which is the floor for
  short trips.
\<close>

theorem cost_curve_monotone:
  assumes "curve_fit rows min_n = Some c" "x \<le> y"
  shows "fst (curve_eval c x) \<le> fst (curve_eval c y) \<and> snd (curve_eval c x) \<le> snd (curve_eval c y) \<and>
    0 \<le> fst (snd (knots c ! 0)) \<and> fst (snd (knots c ! 0)) \<le> fst (curve_eval c x) \<and> snd (snd (knots c ! 0)) \<le> snd (curve_eval c x)"
proof -
  note ok = curve_fit_ok[OF assms(1)]
  have "knots c ! 0 \<in> set (knots c)" using ok(2) by (intro nth_mem) auto
  then have "0 \<le> fst (snd (knots c ! 0))" using ok(1) by (simp add: knots_ok_def)
  moreover have "fst (snd (knots c ! 0)) \<le> fst (curve_eval c x) \<and> snd (snd (knots c ! 0)) \<le> snd (curve_eval c x)"
  proof (cases "x \<le> fst (knots c ! 0)")
    case True
    then show ?thesis by (simp add: curve_eval_def)
  next
    case False
    then show ?thesis using curve_eval_mono[OF ok, of "fst (knots c ! 0)" x] by (simp add: curve_eval_floor)
  qed
  ultimately show ?thesis using curve_eval_mono[OF ok assms(2)] by blast
qed

theorem cost_curve_monotone_witness: "fst (curve_eval sample_curve 25) \<le> fst (curve_eval sample_curve 70)"
  using cost_curve_monotone[OF sample_fit, of 25 70] by simp

text \<open>
  Up to the last knot the 90th percentile is at least the median.
\<close>

theorem p90_covers_p50:
  assumes "curve_fit rows min_n = Some c" "x \<le> fst (last (knots c))"
  shows "fst (curve_eval c x) \<le> snd (curve_eval c x)"
  by (rule curve_eval_between[OF curve_fit_ok[OF assms(1)] assms(2)])

theorem p90_covers_p50_witness: "fst (curve_eval sample_curve 25) \<le> snd (curve_eval sample_curve 25)"
  by (rule p90_covers_p50[OF sample_fit]) (simp add: sample_curve_def)

text \<open>
  C39. Beyond the last knot this is lost: the two components are extrapolated with their own last
  slopes, so a fitted curve can put the 90th percentile below the median.
\<close>

theorem extrapolation_crosses:
  "\<exists>rows c. curve_fit rows 150 = Some c \<and> snd (curve_eval c 200) < fst (curve_eval c 200)"
proof -
  have "snd (curve_eval sample_curve 200) < fst (curve_eval sample_curve 200)" by (simp add: curve_eval_def sample_curve_def Let_def)
  then show ?thesis using sample_fit by blast
qed



end
