(* ===== verification/Periods.thy ===== *)
theory Periods
  imports Prelude
begin

text \<open>
  Shifts and reporting periods: \<^verbatim>\<open>src/crates/core/src/shift.rs\<close> and \<^verbatim>\<open>src/crates/api/src/periods.rs\<close>.

  A date is its day number and a local date and time its number of seconds, both counted from 1970-01-01.
  What the code asks of the calendar of the chrono crate (weekday, year, month, the date of a first of a
  month) is a parameter with the laws of the locale \<^verbatim>\<open>calendar\<close>; \<^verbatim>\<open>gregorian\<close> is the proleptic Gregorian
  calendar.
\<close>

type_synonym date = int
type_synonym naive = int

section \<open>Shifts\<close>

definition date_of :: "naive \<Rightarrow> date" where "date_of now = now div 86400"

definition hour_of :: "naive \<Rightarrow> int" where "hour_of now = now mod 86400 div 3600"

definition at_hour :: "date \<Rightarrow> int \<Rightarrow> naive" where "at_hour d h = d * 86400 + h * 3600"

definition terminal_offset :: int where "terminal_offset = 8 * 3600"

definition terminal_to_utc :: "naive \<Rightarrow> int" where "terminal_to_utc n = n - terminal_offset"

definition terminal_now :: "int \<Rightarrow> naive" where "terminal_now utc_now = utc_now + terminal_offset"

datatype shift = Night | Day | Evening

definition shift_label :: "shift \<Rightarrow> string" where
  "shift_label s = (case s of Night \<Rightarrow> ''N'' | Day \<Rightarrow> ''D'' | Evening \<Rightarrow> ''E'')"

definition from_label :: "string \<Rightarrow> shift option" where
  "from_label s = (if s = ''N'' then Some Night else if s = ''D'' then Some Day else if s = ''E'' then Some Evening else None)"

definition shift_name_en :: "shift \<Rightarrow> string" where
  "shift_name_en s = (case s of Night \<Rightarrow> ''Night'' | Day \<Rightarrow> ''Day'' | Evening \<Rightarrow> ''Evening'')"

definition start_hour :: "shift \<Rightarrow> int" where
  "start_hour s = (case s of Night \<Rightarrow> 0 | Day \<Rightarrow> 8 | Evening \<Rightarrow> 16)"

definition current :: "naive \<Rightarrow> date \<times> shift" where
  "current now =
     (let h = hour_of now; s = (if 0 \<le> h \<and> h \<le> 7 then Night else if 8 \<le> h \<and> h \<le> 15 then Day else Evening)
      in (date_of now, s))"

definition window :: "date \<Rightarrow> shift \<Rightarrow> naive \<times> naive" where
  "window d s =
     (at_hour d (start_hour s),
      case s of Night \<Rightarrow> at_hour d 8 | Day \<Rightarrow> at_hour d 16 | Evening \<Rightarrow> at_hour (d + 1) 0)"

definition previous :: "date \<Rightarrow> shift \<Rightarrow> date \<times> shift" where
  "previous d s = (case s of Night \<Rightarrow> (d - 1, Evening) | Day \<Rightarrow> (d, Night) | Evening \<Rightarrow> (d, Day))"

section \<open>Periods\<close>

record cal =
  weekday :: "date \<Rightarrow> int"
  year :: "date \<Rightarrow> int"
  month :: "date \<Rightarrow> int"
  from_ymd :: "int \<Rightarrow> int \<Rightarrow> int \<Rightarrow> date"

record range =
  r_from :: date
  r_to :: date

record resolved =
  rs_period :: string
  rs_cur :: range
  rs_prev :: range

definition first_of_month :: "cal \<Rightarrow> date \<Rightarrow> date" where
  "first_of_month c d = from_ymd c (year c d) (month c d) 1"

definition monday_of :: "cal \<Rightarrow> date \<Rightarrow> date" where
  "monday_of c d = d - weekday c d"

definition period_names :: "string list" where
  "period_names = [''today'', ''yesterday'', ''last7'', ''last30'', ''this_week'', ''last_week'', ''this_month'', ''last_month'']"

definition single :: "date \<Rightarrow> range" where "single d = \<lparr>r_from = d, r_to = d\<rparr>"

definition period_ranges :: "cal \<Rightarrow> string \<Rightarrow> date \<Rightarrow> range \<times> range" where
  "period_ranges c period today =
     (if period = ''today'' then (single today, single (today - 1))
      else if period = ''yesterday'' then (single (today - 1), single (today - 2))
      else if period = ''last7'' then
        let f = today - 6 in (\<lparr>r_from = f, r_to = today\<rparr>, \<lparr>r_from = f - 7, r_to = f - 1\<rparr>)
      else if period = ''last30'' then
        let f = today - 29 in (\<lparr>r_from = f, r_to = today\<rparr>, \<lparr>r_from = f - 30, r_to = f - 1\<rparr>)
      else if period = ''this_week'' then
        let mon = monday_of c today in (\<lparr>r_from = mon, r_to = today\<rparr>, \<lparr>r_from = mon - 7, r_to = mon - 1\<rparr>)
      else if period = ''last_week'' then
        let mon = monday_of c today; lw_from = mon - 7; lw_to = mon - 1
        in (\<lparr>r_from = lw_from, r_to = lw_to\<rparr>, \<lparr>r_from = lw_from - 7, r_to = lw_to - 7\<rparr>)
      else if period = ''this_month'' then
        let f = first_of_month c today; lm_last = f - 1
        in (\<lparr>r_from = f, r_to = today\<rparr>, \<lparr>r_from = first_of_month c lm_last, r_to = lm_last\<rparr>)
      else if period = ''last_month'' then
        let first_this = first_of_month c today; lm_last = first_this - 1; lm_first = first_of_month c lm_last; pm_last = lm_first - 1
        in (\<lparr>r_from = lm_first, r_to = lm_last\<rparr>, \<lparr>r_from = first_of_month c pm_last, r_to = pm_last\<rparr>)
      else (single (today - 1), single (today - 2)))"

definition resolve :: "cal \<Rightarrow> string \<Rightarrow> date \<Rightarrow> resolved" where
  "resolve c period today =
     \<lparr>rs_period = (if period \<in> set period_names then period else ''yesterday''),
      rs_cur = fst (period_ranges c period today), rs_prev = snd (period_ranges c period today)\<rparr>"

definition includes_today :: "range \<Rightarrow> date \<Rightarrow> bool" where
  "includes_today r today \<longleftrightarrow> r_from r \<le> today \<and> today \<le> r_to r"

definition next_month :: "cal \<Rightarrow> date \<Rightarrow> date" where
  "next_month c f = (if month c f = 12 then from_ymd c (year c f + 1) 1 1 else from_ymd c (year c f) (month c f + 1) 1)"

definition day_buckets :: "date \<Rightarrow> nat \<Rightarrow> range list" where
  "day_buckets today n = map (\<lambda>i. single (today - int i)) [0..<n]"

definition week_buckets :: "cal \<Rightarrow> date \<Rightarrow> nat \<Rightarrow> range list" where
  "week_buckets c today n =
     map (\<lambda>i. let mon = monday_of c today - 7 * int i in \<lparr>r_from = mon, r_to = min (mon + 6) today\<rparr>) [0..<n]"

fun month_loop :: "cal \<Rightarrow> date \<Rightarrow> nat \<Rightarrow> date \<Rightarrow> range list" where
  "month_loop c today 0 f = []"
| "month_loop c today (Suc n) f =
     \<lparr>r_from = f, r_to = min (next_month c f - 1) today\<rparr> # month_loop c today n (first_of_month c (f - 1))"

definition month_buckets :: "cal \<Rightarrow> date \<Rightarrow> nat \<Rightarrow> range list" where
  "month_buckets c today n = month_loop c today n (first_of_month c today)"

section \<open>The calendar interface\<close>

text \<open>
  A date lies in the month that starts at its first; the first of a month is a date of that month; and
  the month after that of the day before a first starts at that first.
\<close>

text \<open>Adjacent ranges, newest first, none empty, the newest ending at \<open>e\<close>.\<close>

fun tiled :: "date \<Rightarrow> range list \<Rightarrow> bool" where
  "tiled e [] \<longleftrightarrow> True"
| "tiled e (r # rs) \<longleftrightarrow> r_to r = e \<and> r_from r \<le> r_to r \<and> tiled (r_from r - 1) rs"

locale calendar =
  fixes c :: cal
  assumes weekday_range: "0 \<le> weekday c d \<and> weekday c d \<le> 6"
    and month_span: "first_of_month c d \<le> d \<and> d < next_month c d"
    and first_same: "year c (first_of_month c d) = year c d \<and> month c (first_of_month c d) = month c d"
    and month_adjacent: "next_month c (first_of_month c d - 1) = first_of_month c d"
begin

lemma monday_range: "monday_of c d \<le> d \<and> d \<le> monday_of c d + 6"
  using weekday_range[of d] by (simp add: monday_of_def)

lemma next_of_first: "next_month c (first_of_month c d) = next_month c d"
  using first_same[of d] by (simp add: next_month_def)

lemma period_adjacent:
  "r_to (snd (period_ranges c p today)) + 1 = r_from (fst (period_ranges c p today)) \<and>
   r_from (snd (period_ranges c p today)) \<le> r_to (snd (period_ranges c p today)) \<and>
   r_from (fst (period_ranges c p today)) \<le> r_to (fst (period_ranges c p today)) \<and>
   r_to (fst (period_ranges c p today)) \<le> today"
  using monday_range[of today] month_span[of today] month_span[of "first_of_month c today - 1"]
    month_span[of "first_of_month c (first_of_month c today - 1) - 1"]
  by (auto simp: period_ranges_def single_def Let_def)

lemma month_loop_tiled:
  assumes "last_day = min (next_month c f - 1) today" "f = first_of_month c d" "f \<le> today"
  shows "tiled last_day (month_loop c today n f)"
  using assms
proof (induction n arbitrary: f d last_day)
  case (Suc n)
  let ?f = "first_of_month c (f - 1)"
  have nx: "next_month c ?f = f" using next_of_first month_adjacent Suc.prems(2) by simp
  have "?f \<le> today" using month_span[of "f - 1"] Suc.prems(3) by linarith
  then have "tiled (f - 1) (month_loop c today n ?f)" using Suc.IH[of "f - 1" ?f "f - 1"] nx Suc.prems(3) by simp
  moreover have "f \<le> next_month c f - 1" using month_span[of d] next_of_first[of d] Suc.prems(2) by simp
  ultimately show ?case using Suc.prems by simp
qed simp

lemma month_buckets_tiled: "tiled today (month_buckets c today n)"
proof -
  have "today = min (next_month c (first_of_month c today) - 1) today" using month_span[of today] next_of_first[of today] by simp
  then show ?thesis unfolding month_buckets_def using month_loop_tiled[of today "first_of_month c today" today today n] month_span[of today] by simp
qed

lemma week_buckets_tiled: "tiled today (week_buckets c today n)"
proof -
  have tl: "tiled (min (m + 6) today) (map (\<lambda>i. let mon = m - 7 * int i in \<lparr>r_from = mon, r_to = min (mon + 6) today\<rparr>) [0..<n])"
    if "m \<le> today" for m using that
  proof (induction n arbitrary: m)
    case (Suc n)
    have "map (\<lambda>i. let mon = m - 7 * int i in \<lparr>r_from = mon, r_to = min (mon + 6) today\<rparr>) [0..<Suc n] =
        \<lparr>r_from = m, r_to = min (m + 6) today\<rparr> #
        map (\<lambda>i. let mon = m - 7 - 7 * int i in \<lparr>r_from = mon, r_to = min (mon + 6) today\<rparr>) [0..<n]"
      unfolding upt_conv_Cons[OF zero_less_Suc] map_Suc_upt[symmetric] by (simp add: Let_def o_def algebra_simps)
    moreover have "min (m - 7 + 6) today = m - 1" using Suc.prems by simp
    ultimately show ?case using Suc.IH[of "m - 7"] Suc.prems by simp
  qed simp
  moreover have "min (monday_of c today + 6) today = today" "monday_of c today \<le> today" using monday_range[of today] by auto
  ultimately show ?thesis unfolding week_buckets_def using tl[of "monday_of c today"] by simp
qed

end

lemma day_buckets_tiled: "tiled today (day_buckets today n)"
proof (induction n arbitrary: today)
  case (Suc n)
  have "day_buckets today (Suc n) = single today # day_buckets (today - 1) n"
    unfolding day_buckets_def upt_conv_Cons[OF zero_less_Suc] map_Suc_upt[symmetric] by (simp add: o_def algebra_simps)
  then show ?case using Suc.IH[of "today - 1"] by (simp add: single_def)
qed (simp add: day_buckets_def)


section \<open>The Gregorian calendar\<close>

text \<open>Months are numbered through: month \<open>m\<close> of year \<open>y\<close> has number \<open>12 * y + m - 1\<close>.\<close>

definition leap :: "int \<Rightarrow> bool" where
  "leap y \<longleftrightarrow> (4 dvd y \<and> \<not> 100 dvd y) \<or> 400 dvd y"

definition year_start :: "int \<Rightarrow> int" where
  "year_start y = 365 * y + (y + 3) div 4 - (y + 99) div 100 + (y + 399) div 400"

definition month_offset :: "bool \<Rightarrow> int \<Rightarrow> int" where
  "month_offset lp m = [0, 31, 59, 90, 120, 151, 181, 212, 243, 273, 304, 334, 365] ! nat m + (if lp \<and> m \<ge> 2 then 1 else 0)"

definition month_start :: "int \<Rightarrow> int" where
  "month_start k = year_start (k div 12) + month_offset (leap (k div 12)) (k mod 12) - 719528"

function month_search :: "int \<Rightarrow> int \<Rightarrow> int" where
  "month_search d k = (if month_start (k + 1) \<le> d \<and> month_start k < month_start (k + 1) then month_search d (k + 1) else k)"
  by pat_completeness auto
termination by (relation "measure (\<lambda>(d, k). nat (d - month_start k))") auto

declare month_search.simps [simp del]

definition month_index :: "date \<Rightarrow> int" where
  "month_index d = (let n = d + 719528 in month_search d (if 0 \<le> n then n div 31 else n div 28))"

definition gregorian :: cal where
  "gregorian = \<lparr>weekday = (\<lambda>d. (d + 3) mod 7), year = (\<lambda>d. month_index d div 12), month = (\<lambda>d. month_index d mod 12 + 1),
     from_ymd = (\<lambda>y m d. month_start (12 * y + m - 1) + d - 1)\<rparr>"

lemma div_step:
  assumes "0 < (n::int)"
  shows "(y + n) div n - (y + (n - 1)) div n = (if n dvd y then 1 else 0)"
proof -
  define q r where "q = y div n" and "r = y mod n"
  have r: "0 \<le> r" "r < n" using assms by (auto simp: r_def)
  have y: "y = r + q * n" by (simp add: q_def r_def)
  have "(y + n) div n = q + 1" using assms by (simp add: q_def)
  moreover have "(y + (n - 1)) div n = q + (r + (n - 1)) div n"
    using div_mult_self1[of n "r + (n - 1)" q] assms unfolding y by (simp add: algebra_simps)
  moreover have "(r + (n - 1)) div n = (if r = 0 then 0 else 1)"
  proof (cases "r = 0")
    case False
    then have "(r - 1 + 1 * n) div n = 1 + (r - 1) div n" using assms by (intro div_mult_self1) simp
    moreover have "(r - 1) div n = 0" using r False by (intro div_pos_pos_trivial) auto
    ultimately show ?thesis using False by (simp add: algebra_simps)
  qed (use assms in \<open>simp add: div_pos_pos_trivial\<close>)
  ultimately show ?thesis by (auto simp: dvd_eq_mod_eq_0 r_def)
qed

lemma year_length: "year_start (y + 1) = year_start y + 365 + (if leap y then 1 else 0)"
proof -
  have d: "100 dvd y \<Longrightarrow> 4 dvd y" "400 dvd y \<Longrightarrow> 100 dvd y" using dvd_trans[of 4 100 y] dvd_trans[of 100 400 y] by simp_all
  have "year_start (y + 1) - year_start y = 365 + ((y + 4) div 4 - (y + (4 - 1)) div 4) - ((y + 100) div 100 - (y + (100 - 1)) div 100) +
      ((y + 400) div 400 - (y + (400 - 1)) div 400)"
    unfolding year_start_def by (simp add: add.commute add.left_commute)
  also have "\<dots> = 365 + (if 4 dvd y then 1 else 0) - (if 100 dvd y then 1 else 0) + (if 400 dvd y then 1 else 0)"
    using div_step[of 4 y] div_step[of 100 y] div_step[of 400 y] by simp
  also have "\<dots> = 365 + (if leap y then 1 else 0)" unfolding leap_def using d by (cases "4 dvd y"; cases "100 dvd y"; cases "400 dvd y") simp_all
  finally show ?thesis by simp
qed

lemma offset_step:
  assumes "0 \<le> m" "m < 12"
  shows "28 \<le> month_offset lp (m + 1) - month_offset lp m \<and> month_offset lp (m + 1) - month_offset lp m \<le> 31"
proof -
  have "m = 0 \<or> m = 1 \<or> m = 2 \<or> m = 3 \<or> m = 4 \<or> m = 5 \<or> m = 6 \<or> m = 7 \<or> m = 8 \<or> m = 9 \<or> m = 10 \<or> m = 11"
    using assms by arith
  then show ?thesis by (elim disjE) (simp_all add: month_offset_def)
qed

lemma month_length: "28 \<le> month_start (k + 1) - month_start k \<and> month_start (k + 1) - month_start k \<le> 31"
proof (cases "k mod 12 = 11")
  case True
  then have "k + 1 = 12 * (k div 12 + 1) + 0" using mult_div_mod_eq[of 12 k] by simp
  then have k: "(k + 1) div 12 = k div 12 + 1" "(k + 1) mod 12 = 0"
    using int_div_pos_eq[of "k + 1" 12 "k div 12 + 1" 0] int_mod_pos_eq[of "k + 1" 12 "k div 12 + 1" 0] by simp_all
  have o: "month_offset lp 12 = 365 + (if lp then 1 else 0)" "month_offset lp 0 = 0" for lp by (simp_all add: month_offset_def)
  have "month_start (k + 1) - month_start k = month_offset (leap (k div 12)) (11 + 1) - month_offset (leap (k div 12)) 11"
    unfolding month_start_def k True year_length o by (simp add: o)
  then show ?thesis using offset_step[of 11 "leap (k div 12)"] by simp
next
  case False
  have e: "k + 1 = 12 * (k div 12) + (k mod 12 + 1)" by simp
  have r: "0 \<le> k mod 12 + 1" "k mod 12 + 1 < 12" using False pos_mod_bound[of 12 k] by auto
  have k: "(k + 1) div 12 = k div 12" "(k + 1) mod 12 = k mod 12 + 1"
    by (rule int_div_pos_eq[OF e r], rule int_mod_pos_eq[OF e r])
  have "month_start (k + 1) - month_start k = month_offset (leap (k div 12)) (k mod 12 + 1) - month_offset (leap (k div 12)) (k mod 12)"
    unfolding month_start_def k by simp
  then show ?thesis using offset_step[of "k mod 12" "leap (k div 12)"] by simp
qed

lemma month_start_zero: "month_start 0 = - 719528"
  by (simp add: month_start_def month_offset_def year_start_def)

lemma month_start_up: "28 * int n \<le> month_start (k + int n) - month_start k \<and> month_start (k + int n) - month_start k \<le> 31 * int n"
proof (induction n)
  case (Suc n)
  have "month_start (k + int n + 1) = month_start (k + int (Suc n))" by (simp add: algebra_simps)
  then show ?case using Suc month_length[of "k + int n"] by simp
qed simp

lemma month_start_mono: "j < k \<Longrightarrow> month_start j < month_start k"
  using month_start_up[of "nat (k - j)" j] by simp

lemma month_search_found: "month_start k \<le> d \<Longrightarrow> month_start (month_search d k) \<le> d \<and> d < month_start (month_search d k + 1)"
proof (induction d k rule: month_search.induct)
  case (1 d k)
  show ?case
  proof (cases "month_start (k + 1) \<le> d")
    case True
    moreover have "month_start k < month_start (k + 1)" using month_length[of k] by simp
    moreover from this True have "month_search d k = month_search d (k + 1)" by (subst month_search.simps) simp
    ultimately show ?thesis using 1 by simp
  next
    case False
    then have "month_search d k = k" by (subst month_search.simps) simp
    then show ?thesis using False "1.prems" by simp
  qed
qed

lemma month_index_found: "month_start (month_index d) \<le> d \<and> d < month_start (month_index d + 1)"
proof -
  define n where "n = d + 719528"
  have "month_start (if 0 \<le> n then n div 31 else n div 28) \<le> d"
  proof (cases "0 \<le> n")
    case True
    then have "0 \<le> n div 31" by (simp add: pos_imp_zdiv_nonneg_iff)
    then have "month_start (n div 31) + 719528 \<le> 31 * (n div 31)" using month_start_up[of "nat (n div 31)" 0] month_start_zero by simp
    moreover have "31 * (n div 31) \<le> n" by simp
    ultimately show ?thesis using True by (simp add: n_def)
  next
    case False
    then have neg: "n div 28 < 0" by (simp add: pos_imp_zdiv_neg_iff)
    have "28 * int (nat (- (n div 28))) \<le> month_start 0 - month_start (n div 28)"
      using month_start_up[of "nat (- (n div 28))" "n div 28"] neg by simp
    then have "month_start (n div 28) + 719528 \<le> 28 * (n div 28)" using month_start_zero neg by simp
    moreover have "28 * (n div 28) \<le> n" by simp
    ultimately show ?thesis using False by (simp add: n_def)
  qed
  from month_search_found[OF this] show ?thesis unfolding month_index_def Let_def n_def .
qed

lemma month_index_unique:
  assumes "month_start k \<le> d" "d < month_start (k + 1)"
  shows "month_index d = k"
proof (rule linorder_cases[of "month_index d" k])
  assume "month_index d < k"
  then have "month_index d + 1 = k \<or> month_index d + 1 < k" by linarith
  then have "month_start (month_index d + 1) \<le> month_start k" using month_start_mono[of "month_index d + 1" k] by auto
  then show ?thesis using month_index_found[of d] assms by linarith
next
  assume "k < month_index d"
  then have "k + 1 = month_index d \<or> k + 1 < month_index d" by linarith
  then have "month_start (k + 1) \<le> month_start (month_index d)" using month_start_mono[of "k + 1" "month_index d"] by auto
  then show ?thesis using month_index_found[of d] assms by linarith
qed

lemma greg_first: "first_of_month gregorian d = month_start (month_index d)"
  by (simp add: first_of_month_def gregorian_def)

lemma greg_next: "next_month gregorian d = month_start (month_index d + 1)"
proof (cases "month_index d mod 12 = 11")
  case True
  then have e: "12 * (month_index d div 12 + 1) + 1 - 1 = month_index d + 1" using mult_div_mod_eq[of 12 "month_index d"] by simp
  have "next_month gregorian d = month_start (12 * (month_index d div 12 + 1) + 1 - 1) + 1 - 1" using True by (simp add: next_month_def gregorian_def)
  then show ?thesis unfolding e by simp
next
  case False
  have e: "12 * (month_index d div 12) + (month_index d mod 12 + 1 + 1) - 1 = month_index d + 1" by simp
  have "next_month gregorian d = month_start (12 * (month_index d div 12) + (month_index d mod 12 + 1 + 1) - 1) + 1 - 1"
    using False by (simp add: next_month_def gregorian_def)
  then show ?thesis unfolding e by simp
qed

interpretation greg: calendar gregorian
proof
  fix d
  show "0 \<le> weekday gregorian d \<and> weekday gregorian d \<le> 6" by (simp add: gregorian_def)
  show "first_of_month gregorian d \<le> d \<and> d < next_month gregorian d" unfolding greg_first greg_next by (rule month_index_found)
  have "month_index (month_start (month_index d)) = month_index d" using month_length[of "month_index d"] by (intro month_index_unique) auto
  then show "year gregorian (first_of_month gregorian d) = year gregorian d \<and> month gregorian (first_of_month gregorian d) = month gregorian d"
    unfolding greg_first by (simp add: gregorian_def)
  have "month_index (month_start (month_index d) - 1) = month_index d - 1"
    using month_length[of "month_index d - 1"] by (intro month_index_unique) auto
  then show "next_month gregorian (first_of_month gregorian d - 1) = first_of_month gregorian d"
    unfolding greg_next greg_first by simp
qed

section \<open>Properties\<close>

lemma le_div_iff:
  assumes "(0::int) < q"
  shows "b \<le> a div q \<longleftrightarrow> b * q \<le> a"
proof -
  have "(a - b * q) div q = a div q - b" using div_mult_self1[of q a "- b"] assms by (simp add: algebra_simps)
  then have "b \<le> a div q \<longleftrightarrow> 0 \<le> (a - b * q) div q" by linarith
  also have "\<dots> \<longleftrightarrow> b * q \<le> a" using assms by (simp add: pos_imp_zdiv_nonneg_iff)
  finally show ?thesis .
qed

lemma same_day:
  assumes "0 \<le> r" "r < 86400" "0 \<le> a" "b \<le> (86400::int)"
  shows "d * 86400 + a \<le> q * 86400 + r \<and> q * 86400 + r < d * 86400 + b \<longleftrightarrow> q = d \<and> a \<le> r \<and> r < b"
  by (rule linorder_cases[of q d]) (use assms in linarith)+

lemma window_day:
  assumes "0 \<le> r" "r < 86400"
  shows "fst (window d s) \<le> q * 86400 + r \<and> q * 86400 + r < snd (window d s) \<longleftrightarrow>
    q = d \<and> s = (if r < 28800 then Night else if r < 57600 then Day else Evening)"
  using same_day[OF assms, of 0 28800 d q] same_day[OF assms, of 28800 57600 d q] same_day[OF assms, of 57600 86400 d q] assms
  by (cases s) (auto simp: window_def at_hour_def start_hour_def algebra_simps)

lemma current_day:
  "current now = (now div 86400, if now mod 86400 < 28800 then Night else if now mod 86400 < 57600 then Day else Evening)"
proof -
  have "now mod 86400 div 3600 \<le> 7 \<longleftrightarrow> now mod 86400 < 28800" "now mod 86400 div 3600 \<le> 15 \<longleftrightarrow> now mod 86400 < 57600"
    "0 \<le> now mod 86400 div 3600" "8 \<le> now mod 86400 div 3600 \<longleftrightarrow> 28800 \<le> now mod 86400"
    using le_div_iff[of 3600 8 "now mod 86400"] le_div_iff[of 3600 16 "now mod 86400"] by (auto simp: pos_imp_zdiv_nonneg_iff)
  then show ?thesis unfolding current_def Let_def hour_of_def date_of_def by auto
qed

text \<open>
  The shift windows partition time: an instant lies in the window of a shift of a date exactly when
  that shift of that date is the current one; the shift before ends where the shift starts; and the
  stored label names the shift.
\<close>

theorem shift_windows_partition:
  "(fst (window d s) \<le> now \<and> now < snd (window d s) \<longleftrightarrow> current now = (d, s)) \<and>
   snd (window (fst (previous d s)) (snd (previous d s))) = fst (window d s) \<and> from_label (shift_label s) = Some s"
proof -
  have "fst (window d s) \<le> now \<and> now < snd (window d s) \<longleftrightarrow> current now = (d, s)"
    using window_day[of "now mod 86400" d s "now div 86400"] by (auto simp: current_day)
  moreover have "snd (window (fst (previous d s)) (snd (previous d s))) = fst (window d s)"
    by (cases s) (auto simp: window_def previous_def at_hour_def start_hour_def)
  moreover have "from_label (shift_label s) = Some s" by (cases s) (auto simp: from_label_def shift_label_def)
  ultimately show ?thesis by blast
qed

text \<open>
  Every reporting period and the one it is compared with are adjacent: the previous range ends the
  day before the current one starts, neither is empty, and the current one does not reach past today.
\<close>

theorem periods_adjacent:
  assumes "calendar c"
  shows "r_to (rs_prev (resolve c p today)) + 1 = r_from (rs_cur (resolve c p today)) \<and>
    r_from (rs_prev (resolve c p today)) \<le> r_to (rs_prev (resolve c p today)) \<and>
    r_from (rs_cur (resolve c p today)) \<le> r_to (rs_cur (resolve c p today)) \<and> r_to (rs_cur (resolve c p today)) \<le> today \<and>
    rs_period (resolve c p today) \<in> set period_names"
  using calendar.period_adjacent[OF assms, of p today] by (auto simp: resolve_def period_names_def)

theorem periods_adjacent_witness:
  "r_to (rs_prev (resolve gregorian ''last_month'' 20613)) + 1 = r_from (rs_cur (resolve gregorian ''last_month'' 20613))"
  using periods_adjacent[OF greg.calendar_axioms] by blast

text \<open>
  The trend buckets tile the past: day, week and month buckets are adjacent, newest first, none is
  empty and the newest ends today.
\<close>

theorem buckets_tile:
  assumes "calendar c"
  shows "tiled today (day_buckets today n) \<and> tiled today (week_buckets c today n) \<and> tiled today (month_buckets c today n)"
  using day_buckets_tiled calendar.week_buckets_tiled[OF assms] calendar.month_buckets_tiled[OF assms] by blast

theorem buckets_tile_witness: "tiled 20613 (month_buckets gregorian 20613 3)"
  using buckets_tile[OF greg.calendar_axioms] by blast

end
