(* ===== verification/Kpi.thy ===== *)
theory Kpi
  imports Periods TosAvail
begin

text \<open>
  The KPI layer: the canonical keys (\<^verbatim>\<open>src/crates/core/src/kpi.rs\<close>), the double parse of the Oracle tool's
  answer (\<^verbatim>\<open>src/crates/core/src/parse.rs\<close>), the t-tests of the baselines (\<^verbatim>\<open>src/crates/core/src/stats.rs\<close>) and
  the aggregation of a KPI over a date range (\<^verbatim>\<open>src/crates/api/src/agg.rs\<close>).

  A float is a real number, and so is the count a query returns. A query of the aggregation that fails
  ends the request with its error; the model covers the answered ones. JSON decoding (serde) and the Student t distribution (statrs) are parameters.
  The queries of the aggregation are given by their meaning on tables: a sum over the rows of a range.
\<close>

section \<open>Keys\<close>

datatype kpi_key = KUtil | KEmpty | KEmptyR | KCycle | KRtgQ | KMph | KQcNomove | KQcTtWait | KQcTtWaitGps

definition ALL_KPI :: "kpi_key list" where
  "ALL_KPI = [KUtil, KEmpty, KEmptyR, KCycle, KRtgQ, KMph, KQcNomove, KQcTtWait, KQcTtWaitGps]"

definition kpi_str :: "kpi_key \<Rightarrow> string" where
  "kpi_str k = (case k of KUtil \<Rightarrow> ''K_UTIL'' | KEmpty \<Rightarrow> ''K_EMPTY'' | KEmptyR \<Rightarrow> ''K_EMPTY_R'' | KCycle \<Rightarrow> ''K_CYCLE'' | KRtgQ \<Rightarrow> ''K_RTG_Q''
    | KMph \<Rightarrow> ''K_MPH'' | KQcNomove \<Rightarrow> ''K_QC_NOMOVE'' | KQcTtWait \<Rightarrow> ''K_QC_TT_WAIT'' | KQcTtWaitGps \<Rightarrow> ''K_QC_TT_WAIT_GPS'')"

definition kpi_name_en :: "kpi_key \<Rightarrow> string" where
  "kpi_name_en k = (case k of KUtil \<Rightarrow> ''TT Utilization'' | KEmpty \<Rightarrow> ''Empty Travel / Job'' | KEmptyR \<Rightarrow> ''Empty Travel Ratio''
    | KCycle \<Rightarrow> ''TT Cycle Time'' | KRtgQ \<Rightarrow> ''RTG Handover Wait'' | KMph \<Rightarrow> ''QC Moves / Hour'' | KQcNomove \<Rightarrow> ''QC No-Move Idle''
    | KQcTtWait \<Rightarrow> ''QC Wait for Truck'' | KQcTtWaitGps \<Rightarrow> ''QC Truck-Wait (GPS)'')"

definition kpi_unit :: "kpi_key \<Rightarrow> string" where
  "kpi_unit k = (case k of KUtil \<Rightarrow> ''%'' | KEmpty \<Rightarrow> ''km/Job'' | KEmptyR \<Rightarrow> ''%'' | KCycle \<Rightarrow> ''s'' | KRtgQ \<Rightarrow> ''s''
    | KMph \<Rightarrow> ''move/hr'' | KQcNomove \<Rightarrow> ''s'' | KQcTtWait \<Rightarrow> ''s'' | KQcTtWaitGps \<Rightarrow> ''QC'')"

definition higher_is_better :: "kpi_key \<Rightarrow> bool" where
  "higher_is_better k = (k = KUtil \<or> k = KMph)"

definition kpi_from_str :: "string \<Rightarrow> kpi_key option" where
  "kpi_from_str s = find (\<lambda>k. kpi_str k = s) ALL_KPI"

section \<open>The double parse\<close>

datatype parse_error = Outer string | Inner string

text \<open>\<^verbatim>\<open>outer\<close> decodes the object with its \<^verbatim>\<open>result\<close> string, \<^verbatim>\<open>inner\<close> the array of rows.\<close>

definition parse_rows :: "(string \<Rightarrow> string + string) \<Rightarrow> (string \<Rightarrow> string + 'row list) \<Rightarrow> string \<Rightarrow> parse_error + 'row list" where
  "parse_rows outer inner raw = (case outer raw of
     Inl e \<Rightarrow> Inl (Outer e)
   | Inr result \<Rightarrow>
       if trim result = ''null'' then Inr []
       else (case inner result of Inl e \<Rightarrow> Inl (Inner e) | Inr rows \<Rightarrow> Inr rows))"

section \<open>Tests\<close>

definition mean :: "real list \<Rightarrow> real option" where
  "mean xs = (if xs = [] then None else Some (sum_list xs / real (length xs)))"

definition mean_var :: "real list \<Rightarrow> real \<times> real" where
  "mean_var xs =
     (let n = real (length xs); m = sum_list xs / n; v = sum_list (map (\<lambda>x. (x - m) ^ 2) xs) / (n - 1) in (m, v))"

definition clamp01 :: "real \<Rightarrow> real" where
  "clamp01 p = max 0 (min 1 p)"

text \<open>\<^verbatim>\<open>students\<close> makes the distribution of the given degrees of freedom, or fails; its value is the cdf.\<close>

type_synonym students = "real \<Rightarrow> (real \<Rightarrow> real) option"

record paired_test =
  pt_n :: nat
  pt_mean_diff :: real
  pt_sd_diff :: real
  pt_t :: real
  pt_df :: real
  pt_p_value :: real
  pt_cohens_d :: real

definition paired_t_test :: "students \<Rightarrow> real list \<Rightarrow> real list \<Rightarrow> paired_test option" where
  "paired_t_test students cur base =
     (if length cur \<noteq> length base then None
      else let diffs = map (\<lambda>(c, b). c - b) (zip cur base); n = length diffs in
        if n < 2 then None
        else let m = sum_list diffs / real n;
                 var = sum_list (map (\<lambda>d. (d - m) ^ 2) diffs) / (real n - 1); sd = sqrt var in
          if sd = 0 then None
          else let se = sd / sqrt (real n); t = m / se; df = real n - 1 in
            (case students df of
               None \<Rightarrow> None
             | Some cdf \<Rightarrow> Some \<lparr>pt_n = n, pt_mean_diff = m, pt_sd_diff = sd, pt_t = t, pt_df = df,
                 pt_p_value = clamp01 (2 * (1 - cdf \<bar>t\<bar>)), pt_cohens_d = m / sd\<rparr>))"

record two_sample_test =
  ts_n_a :: nat
  ts_n_b :: nat
  ts_mean_a :: real
  ts_mean_b :: real
  ts_t :: real
  ts_df :: real
  ts_p_value :: real
  ts_cohens_d :: real

definition welch_t_test :: "students \<Rightarrow> real list \<Rightarrow> real list \<Rightarrow> two_sample_test option" where
  "welch_t_test students a b =
     (if length a < 2 \<or> length b < 2 then None
      else let (ma, va) = mean_var a; (mb, vb) = mean_var b; na = real (length a); nb = real (length b); se2 = va / na + vb / nb in
        if se2 \<le> 0 then None
        else let t = (ma - mb) / sqrt se2; df = se2 ^ 2 / ((va / na) ^ 2 / (na - 1) + (vb / nb) ^ 2 / (nb - 1)) in
          (case students df of
             None \<Rightarrow> None
           | Some cdf \<Rightarrow>
               let p = clamp01 (2 * (1 - cdf \<bar>t\<bar>)); pooled = sqrt (((na - 1) * va + (nb - 1) * vb) / (na + nb - 2));
                   d = (if pooled > 0 then (ma - mb) / pooled else 0)
               in Some \<lparr>ts_n_a = length a, ts_n_b = length b, ts_mean_a = ma, ts_mean_b = mb, ts_t = t, ts_df = df,
                    ts_p_value = p, ts_cohens_d = d\<rparr>))"

section \<open>Facts on the tests\<close>

lemma sum_sq_nonneg: "0 \<le> sum_list (map (\<lambda>x. (x - m) ^ 2) (xs :: real list))"
  by (rule sum_list_nonneg) auto

lemma var_nonneg: "2 \<le> length xs \<Longrightarrow> 0 \<le> snd (mean_var xs)"
  by (simp add: mean_var_def Let_def sum_sq_nonneg)

lemma sum_sq_zero: "sum_list (map (\<lambda>x. (x - m) ^ 2) (xs :: real list)) = 0 \<longleftrightarrow> (\<forall>x \<in> set xs. x = m)"
  by (induction xs) (auto simp: add_nonneg_eq_0_iff sum_sq_nonneg)

lemma sum_const: "(\<forall>x \<in> set xs. x = c) \<Longrightarrow> sum_list xs = real (length xs) * c"
  by (induction xs) (auto simp: algebra_simps)

text \<open>The variance vanishes exactly on constant samples.\<close>

lemma var_zero_iff:
  assumes "2 \<le> length xs"
  shows "snd (mean_var xs) = 0 \<longleftrightarrow> (\<exists>c. \<forall>x \<in> set xs. x = c)"
proof -
  define m where "m = sum_list xs / real (length xs)"
  have "snd (mean_var xs) = 0 \<longleftrightarrow> (\<forall>x \<in> set xs. x = m)"
    using assms sum_sq_zero[of m xs] by (auto simp: mean_var_def Let_def m_def)
  moreover have "c = m" if "\<forall>x \<in> set xs. x = c" for c using sum_const[OF that] assms by (cases xs) (auto simp: m_def)
  ultimately show ?thesis by blast
qed

text \<open>The degrees of freedom of Welch's test: at least those of the smaller sample, at most those of the pooled one.\<close>

lemma welch_df_bounds:
  fixes x y m n :: real
  assumes "0 \<le> x" "0 \<le> y" "0 < x + y" "1 \<le> m" "1 \<le> n"
  shows "min m n \<le> (x + y) ^ 2 / (x ^ 2 / m + y ^ 2 / n)" "(x + y) ^ 2 / (x ^ 2 / m + y ^ 2 / n) \<le> m + n"
proof -
  have pos: "0 < x ^ 2 / m + y ^ 2 / n"
  proof (cases "x = 0")
    case True
    then show ?thesis using assms by simp
  next
    case False
    then have "0 < x ^ 2 / m" using assms by simp
    moreover have "0 \<le> y ^ 2 / n" using assms by simp
    ultimately show ?thesis by linarith
  qed
  have "min m n * (x ^ 2 / m + y ^ 2 / n) = (min m n / m) * x ^ 2 + (min m n / n) * y ^ 2" by (simp add: algebra_simps)
  also have "\<dots> \<le> 1 * x ^ 2 + 1 * y ^ 2" using assms by (intro add_mono mult_right_mono) auto
  also have "\<dots> \<le> (x + y) ^ 2" using assms by (simp add: power2_sum)
  finally show "min m n \<le> (x + y) ^ 2 / (x ^ 2 / m + y ^ 2 / n)" using pos by (simp add: le_divide_eq)
  have "(m + n) * (x ^ 2 / m + y ^ 2 / n) - (x + y) ^ 2 = (n * x - m * y) ^ 2 / (m * n)"
    using assms by (simp add: field_simps power2_eq_square)
  then have "(x + y) ^ 2 \<le> (m + n) * (x ^ 2 / m + y ^ 2 / n)" using assms by (smt (verit) divide_nonneg_pos mult_pos_pos zero_le_power2)
  then show "(x + y) ^ 2 / (x ^ 2 / m + y ^ 2 / n) \<le> m + n" using pos by (simp add: divide_le_eq)
qed


section \<open>Aggregation over a range\<close>

text \<open>The columns of the tables the aggregation reads; a column that may be null is an option.\<close>

record empty_row =
  er_day :: date
  er_jobs :: "real option"
  er_empty_m :: "real option"
  er_laden_m :: "real option"

record cycle_row =
  cy_day :: date
  cy_samples :: "real option"
  cy_med :: "real option"
  cy_ds_samples :: "real option"
  cy_ds_med :: "real option"
  cy_ld_samples :: "real option"
  cy_ld_med :: "real option"

record crane_row =
  cr_day :: date
  cr_in_range :: "real option"
  cr_avg :: "real option"

record mph_row =
  mp_day :: date
  mp_vessel :: string
  mp_voyage :: string
  mp_hours :: "real option"
  mp_rate :: "real option"

record qc_row =
  qc_day :: date
  qc_periods :: "real option"
  qc_avg :: "real option"
  qc_same_periods :: "real option"
  qc_same_avg :: "real option"

record shift_row =
  sr_date :: date
  sr_key :: string
  sr_value :: "real option"
  sr_weight :: "real option"
  sr_sample_n :: "real option"

record util_row =
  ut_date :: date
  ut_assigned :: real
  ut_on_duty :: real

record kpi_db =
  raw_k_empty :: "empty_row list"
  raw_k_tt_cycle :: "cycle_row list"
  raw_k_crane_q_daily :: "crane_row list"
  raw_k_mph_realtime :: "mph_row list"
  raw_k_qc_q :: "qc_row list"
  kpi_shift :: "shift_row list"
  util_tt_sample :: "util_row list"

definition opt_mult :: "real option \<Rightarrow> real option \<Rightarrow> real option" where
  "opt_mult a b = (case (a, b) of (Some x, Some y) \<Rightarrow> Some (x * y) | _ \<Rightarrow> None)"

definition opt_add :: "real option \<Rightarrow> real option \<Rightarrow> real option" where
  "opt_add a b = (case (a, b) of (Some x, Some y) \<Rightarrow> Some (x + y) | _ \<Rightarrow> None)"

text \<open>SQL's sum: nulls are skipped, the sum of no value is null.\<close>

definition sql_sum :: "real option list \<Rightarrow> real option" where
  "sql_sum xs = (let ys = List.map_filter id xs in if ys = [] then None else Some (sum_list ys))"

definition or0 :: "real option \<Rightarrow> real" where
  "or0 x = (case x of None \<Rightarrow> 0 | Some y \<Rightarrow> y)"

type_synonym ndn = "real \<times> real \<times> real"

text \<open>\<^verbatim>\<open>raw_nd\<close> with a query that sums three columns of the rows of a range.\<close>

definition raw_nd :: "('r \<Rightarrow> date) \<Rightarrow> ('r \<Rightarrow> real option \<times> real option \<times> real option) \<Rightarrow> 'r list \<Rightarrow> date \<Rightarrow> date \<Rightarrow> ndn" where
  "raw_nd day cols rows f t =
     (if t < f then (0, 0, 0)
      else let rs = map cols (filter (\<lambda>r. f \<le> day r \<and> day r \<le> t) rows)
           in (or0 (sql_sum (map fst rs)), or0 (sql_sum (map (fst \<circ> snd) rs)), or0 (sql_sum (map (snd \<circ> snd) rs))))"

definition empty_cols :: "empty_row \<Rightarrow> real option \<times> real option \<times> real option" where
  "empty_cols r = (map_option (\<lambda>m. m / 1000) (er_empty_m r), er_jobs r, er_jobs r)"

definition empty_r_cols :: "empty_row \<Rightarrow> real option \<times> real option \<times> real option" where
  "empty_r_cols r = (er_empty_m r, opt_add (er_empty_m r) (er_laden_m r), er_jobs r)"

definition cycle_cols :: "cycle_row \<Rightarrow> real option \<times> real option \<times> real option" where
  "cycle_cols r = (opt_mult (cy_med r) (cy_samples r), cy_samples r, cy_samples r)"

definition ds_cols :: "cycle_row \<Rightarrow> real option \<times> real option \<times> real option" where
  "ds_cols r = (opt_mult (cy_ds_med r) (cy_ds_samples r), cy_ds_samples r, cy_ds_samples r)"

definition ld_cols :: "cycle_row \<Rightarrow> real option \<times> real option \<times> real option" where
  "ld_cols r = (opt_mult (cy_ld_med r) (cy_ld_samples r), cy_ld_samples r, cy_ld_samples r)"

definition crane_cols :: "crane_row \<Rightarrow> real option \<times> real option \<times> real option" where
  "crane_cols r = (opt_mult (cr_avg r) (cr_in_range r), cr_in_range r, cr_in_range r)"

definition mph_cols :: "mph_row \<Rightarrow> real option \<times> real option \<times> real option" where
  "mph_cols r = (opt_mult (mp_rate r) (mp_hours r), mp_hours r, None)"

definition nomove_cols :: "qc_row \<Rightarrow> real option \<times> real option \<times> real option" where
  "nomove_cols r = (opt_mult (qc_avg r) (qc_periods r), qc_periods r, qc_periods r)"

definition tt_wait_cols :: "qc_row \<Rightarrow> real option \<times> real option \<times> real option" where
  "tt_wait_cols r = (opt_mult (qc_same_avg r) (qc_same_periods r), qc_same_periods r, qc_same_periods r)"

definition voyages :: "mph_row list \<Rightarrow> date \<Rightarrow> date \<Rightarrow> real" where
  "voyages rows f t =
     (if t < f then 0 else real (card (set (map (\<lambda>r. mp_vessel r @ ''/'' @ mp_voyage r) (filter (\<lambda>r. f \<le> mp_day r \<and> mp_day r \<le> t) rows)))))"

definition shift_weight :: "shift_row \<Rightarrow> real option" where
  "shift_weight r = (case sr_weight r of None \<Rightarrow> sr_sample_n r | Some w \<Rightarrow> Some w)"

text \<open>The contribution of the shifts of a day to a KPI.\<close>

definition today_contrib :: "shift_row list \<Rightarrow> date \<Rightarrow> string \<Rightarrow> ndn" where
  "today_contrib rows d key =
     (let rs = filter (\<lambda>r. sr_date r = d \<and> sr_value r \<noteq> None \<and> shift_weight r \<noteq> None \<and> sr_key r = key) rows
      in (or0 (sql_sum (map (\<lambda>r. opt_mult (sr_value r) (shift_weight r)) rs)), or0 (sql_sum (map shift_weight rs)),
          or0 (sql_sum (map sr_sample_n rs))))"

definition round_away :: "real \<Rightarrow> int" where
  "round_away x = (if 0 \<le> x then \<lfloor>x + 1 / 2\<rfloor> else \<lceil>x - 1 / 2\<rceil>)"

definition finish :: "real \<Rightarrow> real \<Rightarrow> real \<Rightarrow> nat \<Rightarrow> real \<Rightarrow> real option \<times> real option" where
  "finish num den n prec scale =
     (if den \<le> 0 then (None, None)
      else let p = 10 ^ prec in (Some (of_int (round_away (num / den * scale * p)) / p), Some n))"

type_synonym agg = "string \<rightharpoonup> real option \<times> real option"

definition util_nd :: "util_row list \<Rightarrow> date \<Rightarrow> date \<Rightarrow> real \<times> real" where
  "util_nd rows f t =
     (let rs = filter (\<lambda>r. f \<le> ut_date r \<and> ut_date r \<le> t) rows
      in (or0 (sql_sum (map (\<lambda>r. if ut_on_duty r = 0 then None else Some (100 * ut_assigned r / ut_on_duty r)) rs)), real (length rs)))"

text \<open>The parts of one KPI over a range: past days from the raw table, today from the shifts.\<close>

definition parts ::
  "kpi_db \<Rightarrow> date \<Rightarrow> date \<Rightarrow> date \<Rightarrow> string \<Rightarrow> ('r \<Rightarrow> date) \<Rightarrow> ('r \<Rightarrow> real option \<times> real option \<times> real option) \<Rightarrow> 'r list \<Rightarrow> real \<Rightarrow> ndn" where
  "parts db today f t key day cols rows unscale =
     (let raw_to = min t (today - 1); (num, den, nr) = raw_nd day cols rows f raw_to;
          (vw, w, nt) = (if f \<le> today \<and> today \<le> t then today_contrib (kpi_shift db) today key else (0, 0, 0))
      in (num + vw / unscale, den + w, nr + nt))"

definition aggregate :: "kpi_db \<Rightarrow> date \<Rightarrow> date \<Rightarrow> date \<Rightarrow> agg" where
  "aggregate db today f t =
     (let fin = (\<lambda>(num, den, n) prec scale. finish num den n prec scale);
          raw_to = min t (today - 1);
          (mn, md, mt) = parts db today f t ''K_MPH'' mp_day mph_cols (raw_k_mph_realtime db) 1;
          (un, ud) = util_nd (util_tt_sample db) f t
      in [''K_EMPTY'' \<mapsto> fin (parts db today f t ''K_EMPTY'' er_day empty_cols (raw_k_empty db) 1) 4 1,
          ''K_EMPTY_R'' \<mapsto> fin (parts db today f t ''K_EMPTY_R'' er_day empty_r_cols (raw_k_empty db) 100) 4 100,
          ''K_CYCLE'' \<mapsto> fin (parts db today f t ''K_CYCLE'' cy_day cycle_cols (raw_k_tt_cycle db) 1) 1 1,
          ''K_CYCLE_DS'' \<mapsto> fin (raw_nd cy_day ds_cols (raw_k_tt_cycle db) f t) 1 1,
          ''K_CYCLE_LD'' \<mapsto> fin (raw_nd cy_day ld_cols (raw_k_tt_cycle db) f t) 1 1,
          ''K_RTG_Q'' \<mapsto> fin (parts db today f t ''K_RTG_Q'' cr_day crane_cols (raw_k_crane_q_daily db) 1) 1 1,
          ''K_MPH'' \<mapsto> finish mn md (voyages (raw_k_mph_realtime db) f raw_to + mt) 2 1,
          ''K_QC_NOMOVE'' \<mapsto> fin (parts db today f t ''K_QC_NOMOVE'' qc_day nomove_cols (raw_k_qc_q db) 1) 1 1,
          ''K_QC_TT_WAIT'' \<mapsto> fin (parts db today f t ''K_QC_TT_WAIT'' qc_day tt_wait_cols (raw_k_qc_q db) 1) 1 1,
          ''K_UTIL'' \<mapsto> finish un ud ud 1 1])"

section \<open>Facts on the aggregation\<close>

lemma or0_sql_sum: "or0 (sql_sum xs) = sum_list (map or0 xs)"
proof -
  have "sum_list (List.map_filter id xs) = sum_list (map or0 xs)"
    by (induction xs) (auto simp: map_filter_Cons or0_def split: option.splits)
  then show ?thesis by (cases "List.map_filter id xs = []") (auto simp: sql_sum_def Let_def or0_def)
qed

definition add3 :: "ndn \<Rightarrow> ndn \<Rightarrow> ndn" where
  "add3 x y = (fst x + fst y, fst (snd x) + fst (snd y), snd (snd x) + snd (snd y))"

lemma sum_split:
  fixes g :: "'r \<Rightarrow> real"
  assumes "f \<le> b + 1" "b \<le> (t :: int)"
  shows "sum_list (map g (filter (\<lambda>r. f \<le> day r \<and> day r \<le> t) rows)) =
    sum_list (map g (filter (\<lambda>r. f \<le> day r \<and> day r \<le> b) rows)) + sum_list (map g (filter (\<lambda>r. b + 1 \<le> day r \<and> day r \<le> t) rows)) "
  using assms by (induction rows) (auto simp: algebra_simps)

lemma raw_nd_sum:
  "raw_nd day cols rows f t = (let rs = filter (\<lambda>r. f \<le> day r \<and> day r \<le> t) rows
     in (sum_list (map (or0 \<circ> fst \<circ> cols) rs), sum_list (map (or0 \<circ> (fst \<circ> snd) \<circ> cols) rs), sum_list (map (or0 \<circ> (snd \<circ> snd) \<circ> cols) rs)))"
proof (cases "t < f")
  case True
  then have "filter (\<lambda>r. f \<le> day r \<and> day r \<le> t) rows = []" by (auto simp: filter_empty_conv)
  then show ?thesis using True by (simp add: raw_nd_def Let_def)
next
  case False
  then show ?thesis by (simp add: raw_nd_def Let_def or0_sql_sum o_def)
qed

lemma raw_nd_split: "f \<le> b + 1 \<Longrightarrow> b \<le> t \<Longrightarrow> raw_nd day cols rows f t = add3 (raw_nd day cols rows f b) (raw_nd day cols rows (b + 1) t)"
  unfolding raw_nd_sum add3_def Let_def prod.inject fst_conv snd_conv by (intro conjI sum_split)

lemma raw_nd_empty: "t < f \<Longrightarrow> raw_nd day cols rows f t = (0, 0, 0)"
  by (simp add: raw_nd_def)

text \<open>Cutting a range in two cuts the parts in two: no day is lost and today is counted once.\<close>

lemma parts_split:
  assumes "f \<le> b" "b < t"
  shows "parts db today f t key day cols rows k = add3 (parts db today f b key day cols rows k) (parts db today (b + 1) t key day cols rows k)"
proof -
  let ?T = "\<lambda>f t. if f \<le> today \<and> today \<le> t then today_contrib (kpi_shift db) today key else (0, 0, 0)"
  let ?R = "raw_nd day cols rows"
  have "?R f (min t (today - 1)) = add3 (?R f (min b (today - 1))) (?R (b + 1) (min t (today - 1)))"
  proof (cases "b \<le> today - 1")
    case True
    then show ?thesis using raw_nd_split[of f b "min t (today - 1)" day cols rows] assms by simp
  next
    case False
    then have "?R (b + 1) (min t (today - 1)) = (0, 0, 0)" "min t (today - 1) = min b (today - 1)"
      using assms by (auto intro: raw_nd_empty)
    then show ?thesis by (simp add: add3_def)
  qed
  moreover have "?T f t = add3 (?T f b) (?T (b + 1) t)" using assms by (auto simp: add3_def)
  ultimately show ?thesis unfolding parts_def Let_def by (auto simp: add3_def add_divide_distrib split: prod.splits)
qed

lemma round_away_near: "\<bar>of_int (round_away x) - x\<bar> \<le> 1 / 2"
proof (cases "0 \<le> x")
  case True
  have "of_int \<lfloor>x + 1 / 2\<rfloor> \<le> x + 1 / 2" "x + 1 / 2 < of_int \<lfloor>x + 1 / 2\<rfloor> + 1" by linarith+
  then show ?thesis using True unfolding round_away_def by (simp only: if_True abs_le_iff) linarith
next
  case False
  have "x - 1 / 2 \<le> of_int \<lceil>x - 1 / 2\<rceil>" "of_int \<lceil>x - 1 / 2\<rceil> - 1 < x - 1 / 2" by linarith+
  then show ?thesis using False unfolding round_away_def by (simp only: if_False abs_le_iff) linarith
qed

section \<open>Properties\<close>

text \<open>
  The components of a KPI add up over adjacent ranges: cutting a range in two cuts numerator,
  denominator and sample count in two for the KPIs that combine past days with today's shifts, wherever
  today falls, so no day is lost or counted twice; the same holds for the per-job-type cycle times.
\<close>

theorem aggregate_additive:
  assumes "f \<le> b" "b < t"
  shows "parts db today f t key day cols rows k = add3 (parts db today f b key day cols rows k) (parts db today (b + 1) t key day cols rows k) \<and>
    raw_nd day cols rows f t = add3 (raw_nd day cols rows f b) (raw_nd day cols rows (b + 1) t)"
  using parts_split[OF assms] raw_nd_split[of f b t day cols rows] assms by simp

theorem aggregate_additive_witness:
  "raw_nd er_day empty_cols [\<lparr>er_day = 3, er_jobs = Some 4, er_empty_m = Some 2000, er_laden_m = None\<rparr>] 1 5 =
   add3 (raw_nd er_day empty_cols [\<lparr>er_day = 3, er_jobs = Some 4, er_empty_m = Some 2000, er_laden_m = None\<rparr>] 1 2)
     (raw_nd er_day empty_cols [\<lparr>er_day = 3, er_jobs = Some 4, er_empty_m = Some 2000, er_laden_m = None\<rparr>] (2 + 1) 5)"
  by (rule conjunct2[OF aggregate_additive]) simp_all

text \<open>
  A finished value is within half a unit of its last decimal of the scaled ratio, and there is none
  exactly when there is no data.
\<close>

theorem finish_rounds:
  "(den \<le> 0 \<longleftrightarrow> finish num den n prec scale = (None, None)) \<and>
   (den \<le> 0 \<or> (\<exists>v. finish num den n prec scale = (Some v, Some n) \<and> \<bar>v - num / den * scale\<bar> \<le> 1 / 2 / 10 ^ prec))"
proof -
  let ?x = "num / den * scale"
  have "\<bar>of_int (round_away (?x * 10 ^ prec)) / 10 ^ prec - ?x\<bar> = \<bar>of_int (round_away (?x * 10 ^ prec)) - ?x * 10 ^ prec\<bar> / 10 ^ prec"
    by (simp add: field_simps)
  also have "\<dots> \<le> 1 / 2 / 10 ^ prec" using round_away_near[of "?x * 10 ^ prec"] by (intro divide_right_mono) auto
  finally show ?thesis by (auto simp: finish_def Let_def)
qed

text \<open>
  Welch's test answers exactly when both samples have two points and not both are constant, if the
  distribution exists for positive degrees of freedom. Then the p-value is a probability and the degrees
  of freedom lie between those of the smaller sample and those of the pooled sample.
\<close>

theorem welch_answers:
  assumes "\<And>df. 0 < df \<Longrightarrow> students df \<noteq> None"
  shows "(welch_t_test students a b = None \<longleftrightarrow> length a < 2 \<or> length b < 2 \<or> ((\<exists>c. \<forall>x \<in> set a. x = c) \<and> (\<exists>c. \<forall>x \<in> set b. x = c))) \<and>
    (\<forall>r. welch_t_test students a b = Some r \<longrightarrow> 0 \<le> ts_p_value r \<and> ts_p_value r \<le> 1 \<and>
       min (real (length a)) (real (length b)) - 1 \<le> ts_df r \<and> ts_df r \<le> real (length a) + real (length b) - 2)"
proof (cases "length a < 2 \<or> length b < 2")
  case True
  then show ?thesis by (auto simp: welch_t_test_def)
next
  case False
  define x y m n where "x = snd (mean_var a) / real (length a)" and "y = snd (mean_var b) / real (length b)"
    and "m = real (length a) - 1" and "n = real (length b) - 1"
  have xy: "0 \<le> x" "0 \<le> y" "1 \<le> m" "1 \<le> n" using False var_nonneg[of a] var_nonneg[of b] by (auto simp: x_def y_def m_def n_def)
  have zero: "x + y \<le> 0 \<longleftrightarrow> (\<exists>c. \<forall>x \<in> set a. x = c) \<and> (\<exists>c. \<forall>x \<in> set b. x = c)"
  proof -
    have "x + y \<le> 0 \<longleftrightarrow> x = 0 \<and> y = 0" using xy by auto
    moreover have "x = 0 \<longleftrightarrow> snd (mean_var a) = 0" "y = 0 \<longleftrightarrow> snd (mean_var b) = 0" using False by (auto simp: x_def y_def)
    ultimately show ?thesis using var_zero_iff[of a] var_zero_iff[of b] False by auto
  qed
  define df where "df = (x + y) ^ 2 / (x ^ 2 / m + y ^ 2 / n)"
  have w: "welch_t_test students a b = (if x + y \<le> 0 then None else
      (case students df of None \<Rightarrow> None | Some cdf \<Rightarrow>
        let t = (fst (mean_var a) - fst (mean_var b)) / sqrt (x + y); p = clamp01 (2 * (1 - cdf \<bar>t\<bar>));
          pooled = sqrt ((m * snd (mean_var a) + n * snd (mean_var b)) / (real (length a) + real (length b) - 2));
          d = (if pooled > 0 then (fst (mean_var a) - fst (mean_var b)) / pooled else 0)
        in Some \<lparr>ts_n_a = length a, ts_n_b = length b, ts_mean_a = fst (mean_var a), ts_mean_b = fst (mean_var b), ts_t = t, ts_df = df,
             ts_p_value = p, ts_cohens_d = d\<rparr>))"
    unfolding welch_t_test_def df_def x_def y_def m_def n_def Let_def case_prod_beta if_not_P[OF False] ..
  show ?thesis
  proof (cases "x + y \<le> 0")
    case True
    then show ?thesis using w zero by simp
  next
    case pos: False
    note b = welch_df_bounds[OF xy(1,2) _ xy(3,4)]
    have "min m n \<le> df" "df \<le> m + n" using b pos by (auto simp: df_def)
    moreover from this have "0 < df" using xy by linarith
    then obtain cdf where "students df = Some cdf" using assms[of df] by auto
    ultimately show ?thesis using w pos zero False by (auto simp: Let_def clamp01_def m_def n_def)
  qed
qed

theorem welch_answers_witness:
  "welch_t_test (\<lambda>df. if 0 < df then Some (\<lambda>x. 1 / 2) else None) [1, 2] [3, 3, 5] \<noteq> None"
proof -
  let ?s = "\<lambda>df :: real. if 0 < df then Some (\<lambda>x :: real. 1 / 2 :: real) else None"
  have "welch_t_test ?s [1, 2] [3, 3, 5] = None \<longleftrightarrow> length [1, 2 :: real] < 2 \<or> length [3, 3, 5 :: real] < 2 \<or>
      ((\<exists>c. \<forall>x \<in> set [1, 2 :: real]. x = c) \<and> (\<exists>c. \<forall>x \<in> set [3, 3, 5 :: real]. x = c))"
    using welch_answers[of ?s "[1, 2]" "[3, 3, 5]"] by simp
  then show ?thesis by auto
qed

text \<open>
  The stored key of a KPI names it: reading the key back gives the KPI, and a string is read as a
  KPI only if it is that KPI's key.
\<close>

theorem kpi_key_roundtrip: "kpi_from_str s = Some k \<longleftrightarrow> s = kpi_str k"
proof
  show "kpi_from_str s = Some k \<Longrightarrow> s = kpi_str k" by (auto simp: kpi_from_str_def find_Some_iff)
  show "s = kpi_str k \<Longrightarrow> kpi_from_str s = Some k" by (cases k) (simp_all add: kpi_from_str_def ALL_KPI_def kpi_str_def)
qed

end
