(* ===== verification/LiveTypes.thy ===== *)
theory LiveTypes
  imports CostModel TosAvail
begin

text \<open>
  The state the GPS feed keeps (\<^verbatim>\<open>src/crates/api/src/livemap.rs\<close>): a position per device with the state of
  its transport cycle, the crane signals, the learned points and lanes, and the counters; with the
  operations of the small structures (\<^verbatim>\<open>Centroid\<close>, \<^verbatim>\<open>LaneCell\<close>, \<^verbatim>\<open>Ring\<close>, \<^verbatim>\<open>QuayLine\<close>, \<^verbatim>\<open>CraneWp\<close>) and the
  coordinate gate.

  Times are milliseconds with 0 for a time not observed, as in the code. A float is a real number, so the
  gate's test for a value that is not finite never fires here.
\<close>

section \<open>Constants\<close>

definition STALE_AFTER_S :: int where "STALE_AFTER_S = 120"
definition SPARK_MIN :: nat where "SPARK_MIN = 30"
definition V2_LEGS_MAX :: nat where "V2_LEGS_MAX = 6"
definition MIN_CYCLE_S :: int where "MIN_CYCLE_S = 120"
definition MAX_CYCLE_S :: int where "MAX_CYCLE_S = 1200"
definition MIN_LOADED_MS :: int where "MIN_LOADED_MS = 30000"
definition MIN_CARRY_TRIP_M :: real where "MIN_CARRY_TRIP_M = 150"
definition NEAR_TRIP_M :: real where "NEAR_TRIP_M = 100"
definition MAX_FIX_STEP_M :: real where "MAX_FIX_STEP_M = 600"
definition TERMINAL_LAT :: real where "TERMINAL_LAT = 2.928"
definition TERMINAL_LON :: real where "TERMINAL_LON = 101.2927"
definition TT_MAX_R_M :: real where "TT_MAX_R_M = 20000"
definition UNMEASURED_ADVISORY_R_M :: real where "UNMEASURED_ADVISORY_R_M = 50000"
definition PLC_LADEN_T :: real where "PLC_LADEN_T = 2"
definition PLC_EMPTY_T :: real where "PLC_EMPTY_T = 0.5"
definition MIN_MOVE_GAP_MS :: int where "MIN_MOVE_GAP_MS = 40000"
definition MOVE_WINDOW_MS :: int where "MOVE_WINDOW_MS = 3600000"
definition CENTROID_GATE_M :: real where "CENTROID_GATE_M = 300"
definition CENTROID_GATE_MIN_N :: nat where "CENTROID_GATE_MIN_N = 10"
definition LANE_CELL_DEG :: real where "LANE_CELL_DEG = 0.0002"
definition LANE_MIN_SPEED_KMH :: real where "LANE_MIN_SPEED_KMH = 5"
definition LANE_MIN_M :: real where "LANE_MIN_M = 5"
definition LANE_MAX_M :: real where "LANE_MAX_M = 200"
definition CRANE_WP_TAU_S :: real where "CRANE_WP_TAU_S = 900"
definition REF_LAT :: real where "REF_LAT = 2.926"
definition REF_LON :: real where "REF_LON = 101.29"
definition CYCLE_BUF_MAX :: nat where "CYCLE_BUF_MAX = 5000"
definition IDLE_SPEED_KMH :: real where "IDLE_SPEED_KMH = 3"
definition CRANE_ARRIVE_M :: real where "CRANE_ARRIVE_M = 40"
definition CRANE_PLC_ACTIVE_MS :: int where "CRANE_PLC_ACTIVE_MS = 120000"

section \<open>Geometry\<close>

definition to_radians :: "real \<Rightarrow> real" where "to_radians d = d * pi / 180"

definition to_degrees :: "real \<Rightarrow> real" where "to_degrees r = r * 180 / pi"

definition dist_m :: "coord \<Rightarrow> coord \<Rightarrow> real" where
  "dist_m a b =
     (let lat = (fst a + fst b) / 2 * pi / 180; dx = (snd a - snd b) * 111320 * cos lat; dy = (fst a - fst b) * 111320
      in sqrt (dx * dx + dy * dy))"

definition atan2 :: "real \<Rightarrow> real \<Rightarrow> real" where
  "atan2 y x =
     (if x > 0 then arctan (y / x)
      else if x < 0 then (if y \<ge> 0 then arctan (y / x) + pi else arctan (y / x) - pi)
      else if y > 0 then pi / 2 else if y < 0 then - pi / 2 else 0)"

definition frem :: "real \<Rightarrow> real \<Rightarrow> real" where
  "frem x m = x - m * of_int (trunc_real (x / m))"

definition bearing_deg :: "coord \<Rightarrow> coord \<Rightarrow> real" where
  "bearing_deg a b =
     (let lat1 = to_radians (fst a); lat2 = to_radians (fst b); dlon = to_radians (snd b - snd a);
          y = sin dlon * cos lat2; x = cos lat1 * sin lat2 - sin lat1 * cos lat2 * cos dlon
      in frem (to_degrees (atan2 y x) + 360) 360)"

definition dist_from_terminal_m :: "real \<Rightarrow> real \<Rightarrow> real" where
  "dist_from_terminal_m lat lon =
     (let dn = (lat - TERMINAL_LAT) * 111320; de = (lon - TERMINAL_LON) * 111320 * cos (to_radians TERMINAL_LAT)
      in sqrt (dn * dn + de * de))"

datatype fix_gate = Keep | KeepButFar real | Drop

definition gate_fix :: "string \<Rightarrow> real \<Rightarrow> real \<Rightarrow> fix_gate" where
  "gate_fix cls lat lon =
     (let d = dist_from_terminal_m lat lon in
      if cls = ''TT'' then (if d > TT_MAX_R_M then Drop else Keep)
      else if d > UNMEASURED_ADVISORY_R_M then KeepButFar d else Keep)"

section \<open>Learned points\<close>

record centroid =
  ce_lat :: real
  ce_lon :: real
  ce_n :: nat
  ce_obs :: nat
  ce_var_lat :: real
  ce_var_lon :: real

definition centroid0 :: centroid where
  "centroid0 = \<lparr>ce_lat = 0, ce_lon = 0, ce_n = 0, ce_obs = 0, ce_var_lat = 0, ce_var_lon = 0\<rparr>"

definition centroid_push :: "real \<Rightarrow> real \<Rightarrow> centroid \<Rightarrow> centroid" where
  "centroid_push lat lon c =
     (let n = min (ce_n c + 1) 500; k = 1 / real n; d_lat = lat - ce_lat c; d_lon = lon - ce_lon c
      in \<lparr>ce_lat = ce_lat c + d_lat * k, ce_lon = ce_lon c + d_lon * k, ce_n = n, ce_obs = ce_obs c + 1,
          ce_var_lat = (1 - k) * (ce_var_lat c + k * d_lat * d_lat), ce_var_lon = (1 - k) * (ce_var_lon c + k * d_lon * d_lon)\<rparr>)"

definition push_gated :: "real \<Rightarrow> real \<Rightarrow> real \<Rightarrow> centroid \<Rightarrow> centroid" where
  "push_gated lat lon gate_m c =
     (if ce_n c \<ge> CENTROID_GATE_MIN_N \<and> dist_m (ce_lat c, ce_lon c) (lat, lon) > gate_m then c else centroid_push lat lon c)"

definition spread_m :: "centroid \<Rightarrow> real" where
  "spread_m c =
     (if ce_n c < 2 then 0
      else let m_lat = sqrt (ce_var_lat c) * 111320; m_lon = sqrt (ce_var_lon c) * 111320 * cos (to_radians (ce_lat c))
           in sqrt (m_lat * m_lat + m_lon * m_lon))"

record lane_cell =
  lc_passes :: nat
  lc_sum_sin :: real
  lc_sum_cos :: real
  lc_sum_speed :: real

definition lane0 :: lane_cell where
  "lane0 = \<lparr>lc_passes = 0, lc_sum_sin = 0, lc_sum_cos = 0, lc_sum_speed = 0\<rparr>"

definition lane_push :: "real \<Rightarrow> real \<Rightarrow> lane_cell \<Rightarrow> lane_cell" where
  "lane_push bearing speed c =
     c\<lparr>lc_passes := lc_passes c + 1, lc_sum_sin := lc_sum_sin c + sin (to_radians bearing),
       lc_sum_cos := lc_sum_cos c + cos (to_radians bearing), lc_sum_speed := lc_sum_speed c + speed\<rparr>"

definition heading_deg :: "lane_cell \<Rightarrow> real" where
  "heading_deg c = frem (to_degrees (atan2 (lc_sum_sin c) (lc_sum_cos c)) + 360) 360"

definition directionality :: "lane_cell \<Rightarrow> real" where
  "directionality c =
     (if lc_passes c = 0 then 0 else sqrt (lc_sum_sin c * lc_sum_sin c + lc_sum_cos c * lc_sum_cos c) / real (lc_passes c))"

definition mean_speed :: "lane_cell \<Rightarrow> real" where
  "mean_speed c = (if lc_passes c = 0 then 0 else lc_sum_speed c / real (lc_passes c))"

section \<open>Throughput ring\<close>

record ring =
  ri_minute :: int
  ri_buf :: "nat list"
  ri_idx :: nat

definition ring_new :: ring where
  "ring_new = \<lparr>ri_minute = 0, ri_buf = replicate SPARK_MIN 0, ri_idx = 0\<rparr>"

fun ring_steps :: "nat \<Rightarrow> ring \<Rightarrow> ring" where
  "ring_steps 0 r = r"
| "ring_steps (Suc k) r =
     (let i = (ri_idx r + 1) mod SPARK_MIN in
      ring_steps k (r\<lparr>ri_idx := i, ri_buf := (ri_buf r)[i := 0], ri_minute := ri_minute r + 1\<rparr>))"

definition ring_advance :: "int \<Rightarrow> ring \<Rightarrow> ring" where
  "ring_advance m r = (if ri_minute r = 0 then r\<lparr>ri_minute := m\<rparr> else ring_steps (nat (m - ri_minute r)) r)"

definition ring_bump :: "int \<Rightarrow> ring \<Rightarrow> ring" where
  "ring_bump m r = (let r = ring_advance m r in r\<lparr>ri_buf := (ri_buf r)[ri_idx r := ri_buf r ! ri_idx r + 1]\<rparr>)"

definition ring_series :: "ring \<Rightarrow> nat list" where
  "ring_series r = map (\<lambda>k. ri_buf r ! ((ri_idx r + k) mod SPARK_MIN)) [1..<SPARK_MIN + 1]"

definition ring_rate :: "ring \<Rightarrow> nat" where
  "ring_rate r = max (ri_buf r ! ri_idx r) (ri_buf r ! ((ri_idx r + SPARK_MIN - 1) mod SPARK_MIN))"

section \<open>Quay line and crane work points\<close>

definition to_local :: "real \<Rightarrow> real \<Rightarrow> real \<times> real" where
  "to_local lat lon = (let mlon = 111320 * cos (to_radians REF_LAT) in ((lon - REF_LON) * mlon, (lat - REF_LAT) * 111320))"

definition from_local :: "real \<Rightarrow> real \<Rightarrow> coord" where
  "from_local x y = (let mlon = 111320 * cos (to_radians REF_LAT) in (REF_LAT + y / 111320, REF_LON + x / mlon))"

record quay_line =
  ql_n :: real
  ql_sx :: real
  ql_sy :: real
  ql_sxx :: real
  ql_syy :: real
  ql_sxy :: real

definition quay0 :: quay_line where
  "quay0 = \<lparr>ql_n = 0, ql_sx = 0, ql_sy = 0, ql_sxx = 0, ql_syy = 0, ql_sxy = 0\<rparr>"

definition quay_push :: "real \<Rightarrow> real \<Rightarrow> quay_line \<Rightarrow> quay_line" where
  "quay_push x y q =
     \<lparr>ql_n = ql_n q + 1, ql_sx = ql_sx q + x, ql_sy = ql_sy q + y, ql_sxx = ql_sxx q + x * x, ql_syy = ql_syy q + y * y,
      ql_sxy = ql_sxy q + x * y\<rparr>"

definition unit_dir :: "real \<times> real \<Rightarrow> (real \<times> real) option" where
  "unit_dir d = (let norm = sqrt (fst d * fst d + snd d * snd d) in if norm < 1 / 10 ^ 9 then None else Some (fst d / norm, snd d / norm))"

definition quay_fit :: "quay_line \<Rightarrow> (real \<times> real \<times> real \<times> real) option" where
  "quay_fit q =
     (if ql_n q < 50 then None
      else let n = ql_n q; mx = ql_sx q / n; my = ql_sy q / n; cxx = ql_sxx q / n - mx * mx; cyy = ql_syy q / n - my * my;
               cxy = ql_sxy q / n - mx * my; tr = cxx + cyy; disc = sqrt (max (tr * tr / 4 - (cxx * cyy - cxy * cxy)) 0);
               l1 = tr / 2 + disc
           in if l1 < 400 then None
              else map_option (\<lambda>(dx, dy). (mx, my, dx, dy))
                (unit_dir (if \<bar>cxy\<bar> > 1 / 10 ^ 9 then (l1 - cyy, cxy) else if cxx \<ge> cyy then (1, 0) else (0, 1))))"

definition quay_project :: "quay_line \<Rightarrow> real \<Rightarrow> real \<Rightarrow> real \<times> real" where
  "quay_project q x y = (case quay_fit q of
     Some (mx, my, dx, dy) \<Rightarrow> let t = (x - mx) * dx + (y - my) * dy in (mx + t * dx, my + t * dy)
   | None \<Rightarrow> (x, y))"

record crane_wp =
  cw_last_ms :: int
  cw_wx :: real
  cw_wy :: real
  cw_w :: real
  cw_obs :: nat

definition crane_wp0 :: crane_wp where
  "crane_wp0 = \<lparr>cw_last_ms = 0, cw_wx = 0, cw_wy = 0, cw_w = 0, cw_obs = 0\<rparr>"

definition crane_wp_push :: "real \<Rightarrow> real \<Rightarrow> int \<Rightarrow> crane_wp \<Rightarrow> crane_wp" where
  "crane_wp_push x y now c =
     (let decay = (if cw_w c > 0 \<and> cw_last_ms c > 0 then exp (- (of_int (max (now - cw_last_ms c) 0) / 1000) / CRANE_WP_TAU_S) else 1)
      in \<lparr>cw_last_ms = now, cw_wx = cw_wx c * decay + x, cw_wy = cw_wy c * decay + y, cw_w = cw_w c * decay + 1, cw_obs = cw_obs c + 1\<rparr>)"

definition crane_wp_centroid :: "crane_wp \<Rightarrow> (real \<times> real) option" where
  "crane_wp_centroid c = (if cw_w c > 0.3 then Some (cw_wx c / cw_w c, cw_wy c / cw_w c) else None)"

definition resolve_crane_wp :: "quay_line \<Rightarrow> (string \<rightharpoonup> crane_wp) \<Rightarrow> (string \<rightharpoonup> coord) \<Rightarrow> string \<rightharpoonup> coord" where
  "resolve_crane_wp ql cwp live cid =
     (case Option.bind (cwp cid) crane_wp_centroid of
        Some (cx, cy) \<Rightarrow> let (px, py) = quay_project ql cx cy in Some (from_local px py)
      | None \<Rightarrow> map_option (\<lambda>(la, lo). let (x, y) = to_local la lo; (px, py) = quay_project ql x y in from_local px py) (live cid))"

section \<open>Facts\<close>

lemma gate_tt: "gate_fix ''TT'' lat lon = Drop \<longleftrightarrow> dist_from_terminal_m lat lon > TT_MAX_R_M"
  by (simp add: gate_fix_def Let_def)

lemma gate_other: "cls \<noteq> ''TT'' \<Longrightarrow> gate_fix cls lat lon \<noteq> Drop"
  by (simp add: gate_fix_def Let_def)

definition ring_ok :: "ring \<Rightarrow> bool" where
  "ring_ok r \<longleftrightarrow> length (ri_buf r) = SPARK_MIN \<and> ri_idx r < SPARK_MIN"

lemma ring_steps_ok: "ring_ok r \<Longrightarrow> ring_ok (ring_steps k r)"
  by (induction k r rule: ring_steps.induct) (auto simp: ring_ok_def Let_def SPARK_MIN_def)

lemma ring_bump_ok: "ring_ok r \<Longrightarrow> ring_ok (ring_bump m r)"
  using ring_steps_ok[of r "nat (m - ri_minute r)"] by (auto simp: ring_bump_def ring_advance_def Let_def ring_ok_def)

text \<open>A direction the line was fitted with has length one, so projecting twice is projecting once.\<close>

lemma unit_dir_unit: "unit_dir d = Some (dx, dy) \<Longrightarrow> dx * dx + dy * dy = 1"
proof -
  define s where "s = sqrt (fst d * fst d + snd d * snd d)"
  assume "unit_dir d = Some (dx, dy)"
  then have d: "\<not> s < 1 / 10 ^ 9" "dx = fst d / s" "dy = snd d / s" by (auto simp: unit_dir_def Let_def s_def split: if_splits)
  have "0 < 1 / (10 :: real) ^ 9" by simp
  then have "0 < s" using d(1) by linarith
  have "s * s = fst d * fst d + snd d * snd d" unfolding s_def by simp
  moreover have "dx * dx + dy * dy = (fst d * fst d + snd d * snd d) / (s * s)" unfolding d(2,3) by (simp add: add_divide_distrib)
  ultimately have "dx * dx + dy * dy = (s * s) / (s * s)" by metis
  then show ?thesis using \<open>0 < s\<close> by simp
qed

lemma quay_fit_unit: "quay_fit q = Some (mx, my, dx, dy) \<Longrightarrow> dx * dx + dy * dy = 1"
  unfolding quay_fit_def Let_def using unit_dir_unit by (auto simp only: split: if_splits)

lemma quay_project_idem:
  "quay_project q x y = (px, py) \<Longrightarrow> quay_project q px py = (px, py)"
proof (cases "quay_fit q")
  case (Some f)
  obtain mx my dx dy where f: "f = (mx, my, dx, dy)" by (cases f) auto
  have u: "dx * dx + dy * dy = 1" using quay_fit_unit Some f by blast
  assume p: "quay_project q x y = (px, py)"
  define t where "t = (x - mx) * dx + (y - my) * dy"
  have xy: "px = mx + t * dx" "py = my + t * dy" using p Some f by (auto simp: quay_project_def t_def Let_def)
  have "(px - mx) * dx + (py - my) * dy = t * (dx * dx + dy * dy)" unfolding xy by (simp add: algebra_simps)
  then have "(px - mx) * dx + (py - my) * dy = t" using u by simp
  then show ?thesis using Some f xy by (simp add: quay_project_def)
qed (simp add: quay_project_def)

lemma local_roundtrip: "from_local (fst (to_local lat lon)) (snd (to_local lat lon)) = (lat, lon)"
proof -
  have "0 < cos (to_radians REF_LAT)"
  proof (rule cos_gt_zero_pi)
    have "0 < pi * 0.016" "pi * 0.017 < pi / 2" using pi_gt_zero by auto
    then show "- (pi / 2) < to_radians REF_LAT" "to_radians REF_LAT < pi / 2"
      using pi_gt_zero by (auto simp: to_radians_def REF_LAT_def)
  qed
  moreover have "(lat - REF_LAT) * 111320 / 111320 = lat - REF_LAT" by (rule nonzero_mult_div_cancel_right) simp
  ultimately show ?thesis by (simp add: to_local_def from_local_def Let_def del: left_diff_distrib_numeral right_diff_distrib_numeral)
qed

text \<open>A learned mean stays in every box its samples are in, and its variances are never negative.\<close>

lemma push_between:
  assumes "lo \<le> m" "m \<le> hi" "lo \<le> x" "x \<le> hi" "0 \<le> k" "k \<le> (1::real)"
  shows "lo \<le> m + (x - m) * k" "m + (x - m) * k \<le> hi"
proof -
  have e: "m + (x - m) * k = (1 - k) * m + k * x" by (simp add: algebra_simps)
  have "lo = (1 - k) * lo + k * lo" "hi = (1 - k) * hi + k * hi" by (simp_all add: algebra_simps)
  then show "lo \<le> m + (x - m) * k" "m + (x - m) * k \<le> hi" unfolding e
    using assms by (metis add_mono diff_ge_0_iff_ge mult_left_mono)+
qed

end
