(* ===== verification/Ingest.thy ===== *)
theory Ingest
  imports LiveTypes Kpi
begin

text \<open>
  The two handlers of the live feed (\<^verbatim>\<open>src/crates/api/src/livemap.rs\<close>): \<^verbatim>\<open>ingest_text\<close> for a GPS frame, with the
  cycle machine of a truck (pickup, arrivals, validated drop) and the shadow machine of its legs, and
  \<^verbatim>\<open>ingest_ctab\<close> for a crane frame.

  A frame arrives decoded: the device id and the fields of the update, each a JSON value. Decoding the text
  (serde) and reading a number from a string are parameters. The devices, points, lanes and cranes are
  maps by name, as the hash maps of the code. The fields of a frame that are only shown (fuel, accuracy,
  driver, battery, network, device time, odometer) are left out.
\<close>

section \<open>Fields of a frame\<close>

datatype jval = JNull | JBool bool | JNum real | JStr string | JOther

type_synonym fields = "string \<Rightarrow> jval option"
type_synonym parse_f64 = "string \<Rightarrow> real option"

definition as_str :: "jval option \<Rightarrow> string option" where
  "as_str v = (case v of Some (JStr s) \<Rightarrow> Some s | _ \<Rightarrow> None)"

definition num :: "parse_f64 \<Rightarrow> jval option \<Rightarrow> real option" where
  "num pf v = (case v of Some (JNum x) \<Rightarrow> Some x | Some (JStr s) \<Rightarrow> pf (trim s) | _ \<Rightarrow> None)"

definition opt_str :: "fields \<Rightarrow> string \<Rightarrow> string option" where
  "opt_str g key = (case as_str (g key) of None \<Rightarrow> None | Some s \<Rightarrow> let t = trim s in if t = [] then None else Some t)"

definition lower :: "char \<Rightarrow> char" where
  "lower c = (let n = of_char c in if (65::nat) \<le> n \<and> n \<le> 90 then char_of (n + 32) else c)"

definition upper :: "char \<Rightarrow> char" where
  "upper c = (let n = of_char c in if (97::nat) \<le> n \<and> n \<le> 122 then char_of (n - 32) else c)"

definition is_alpha :: "char \<Rightarrow> bool" where
  "is_alpha c = (let n = of_char c in ((65::nat) \<le> n \<and> n \<le> 90) \<or> (97 \<le> n \<and> n \<le> 122))"

definition parse_bool :: "jval option \<Rightarrow> bool option" where
  "parse_bool v = (case v of
     Some (JBool b) \<Rightarrow> Some b
   | Some (JNum n) \<Rightarrow> Some (n \<noteq> 0)
   | Some (JStr s) \<Rightarrow>
       let t = map lower (trim s) in
       if t \<in> set [''true'', ''1'', ''yes''] then Some True else if t \<in> set [''false'', ''0'', ''no''] then Some False else None
   | _ \<Rightarrow> None)"

fun contains :: "string \<Rightarrow> string \<Rightarrow> bool" where
  "contains pat [] = (pat = [])"
| "contains pat (c # cs) = (take (length pat) (c # cs) = pat \<or> contains pat cs)"

definition starts_with :: "string \<Rightarrow> string \<Rightarrow> bool" where
  "starts_with pat s = (take (length pat) s = pat)"

definition is_crane_code :: "string \<Rightarrow> bool" where
  "is_crane_code s = (length s \<ge> 2 \<and> s ! 0 \<in> set ''CMZ'' \<and> list_all is_digit (drop 1 s))"

definition block_prefix :: "string \<Rightarrow> string" where
  "block_prefix s = takeWhile (\<lambda>c. c \<noteq> CHR ''-'') s"

definition prepositioned_arrival :: "bool \<Rightarrow> string \<Rightarrow> bool \<Rightarrow> string \<Rightarrow> bool" where
  "prepositioned_arrival crane target stopped cur_loc = (\<not> crane \<and> stopped \<and> cur_loc \<noteq> [] \<and> block_prefix cur_loc = block_prefix target)"

text \<open>The arrival time of the feed: the pieces between colons, read as integers by \<^verbatim>\<open>rd\<close>.\<close>

fun split_colon :: "string \<Rightarrow> string list" where
  "split_colon [] = [[]]"
| "split_colon (c # cs) = (if c = CHR '':'' then [] # split_colon cs else (case split_colon cs of [] \<Rightarrow> [[c]] | p # ps \<Rightarrow> (c # p) # ps))"

definition DAY_MS :: int where "DAY_MS = 86400000"
definition TZ_MS :: int where "TZ_MS = 8 * 3600000"

definition tdiv :: "int \<Rightarrow> int \<Rightarrow> int" where
  "tdiv a b = (if 0 \<le> a then a div b else - ((- a) div b))"

definition arr_time :: "int \<Rightarrow> int \<Rightarrow> int \<Rightarrow> int \<Rightarrow> int option" where
  "arr_time h m sec now =
     (if \<not> (0 \<le> h \<and> h < 24) \<or> \<not> (0 \<le> m \<and> m < 60) \<or> \<not> (0 \<le> sec \<and> sec < 60) then None
      else let tod = (h * 3600 + m * 60 + sec) * 1000; midnight = tdiv (now + TZ_MS) DAY_MS * DAY_MS - TZ_MS; t = midnight + tod;
               t = (if t > now + 300000 then t - DAY_MS else t)
           in if now - t \<le> 6 * 3600000 then Some t else None)"

definition parse_arr_dtime :: "(string \<Rightarrow> int option) \<Rightarrow> string \<Rightarrow> int \<Rightarrow> int option" where
  "parse_arr_dtime rd s now =
     (let ps = split_colon (trim s) in
      if length ps < 2 then None
      else case (rd (ps ! 0), rd (ps ! 1), rd (if length ps \<ge> 3 then ps ! 2 else ''0'')) of
        (Some h, Some m, Some sec) \<Rightarrow> arr_time h m sec now
      | _ \<Rightarrow> None)"

section \<open>State\<close>

record assigned_job =
  aj_jobtype :: "string option"
  aj_vessel :: "string option"
  aj_voyage :: "string option"
  aj_contno :: "string option"
  aj_qc :: "string option"
  aj_twintandem :: "string option"

record open_cycle =
  oc_assigned_at :: int
  oc_pickup_arrived_at :: int
  oc_pickup_left_at :: int
  oc_pickup_at :: int
  oc_arrived_at :: int
  oc_pickup_arrived_crane :: int
  oc_arrived_crane :: int
  oc_crane_arr_method :: "string option"
  oc_idle_before :: int
  oc_empty_leg_ms :: int
  oc_empty_leg_m :: real
  oc_jobtype :: "string option"
  oc_vessel :: "string option"
  oc_voyage :: "string option"
  oc_container :: "string option"
  oc_qc :: "string option"
  oc_twintandem :: "string option"

record completed_cycle =
  cc_ytno :: string
  cc_assigned_at :: int
  cc_pickup_arrived_at :: int
  cc_pickup_left_at :: int
  cc_pickup_at :: int
  cc_arrived_at :: int
  cc_pickup_arrived_crane :: int
  cc_arrived_crane :: int
  cc_dropped_at :: int
  cc_empty_leg_ms :: int
  cc_empty_leg_m :: real
  cc_laden_leg_ms :: int
  cc_laden_leg_m :: real
  cc_jobtype :: "string option"
  cc_vessel :: "string option"
  cc_voyage :: "string option"
  cc_container :: "string option"
  cc_qc :: "string option"
  cc_twintandem :: "string option"
  cc_crane_arr_method :: "string option"
  cc_idle_before :: int
  cc_c2c :: bool

record v2_leg =
  vl_target :: string
  vl_crane :: bool
  vl_assigned :: int
  vl_arrived :: int
  vl_arr_src :: string
  vl_left :: int
  vl_lat :: real
  vl_lon :: real

record v2_state =
  v2_opened :: int
  v2_empty_start :: int
  v2_jobtype :: "string option"
  v2_legs :: "v2_leg list"
  v2_cur :: "v2_leg option"

definition v2_default :: v2_state where
  "v2_default = \<lparr>v2_opened = 0, v2_empty_start = 0, v2_jobtype = None, v2_legs = [], v2_cur = None\<rparr>"

record completed_v2 =
  cv_ytno :: string
  cv_dropped :: int
  cv_opened :: int
  cv_empty_start :: int
  cv_jobtype :: "string option"
  cv_legs :: "v2_leg list"
  cv_v1_pickup_arrived :: int
  cv_v1_drop_arrived :: int

record feed =
  f_cls :: string
  f_lat :: real
  f_lon :: real
  f_speed :: real
  f_engine :: int
  f_last_seen :: int
  f_jobtype :: "string option"
  f_vslname :: "string option"
  f_container1 :: "string option"
  f_container2 :: "string option"
  f_cur_loc :: "string option"
  f_topos1 :: "string option"
  f_arrival :: "string option"

record pos = feed +
  carry_since :: int
  last_drop :: int
  carry_trip :: real
  latched_container :: "string option"
  latched_jobtype :: "string option"
  latched_vessel :: "string option"
  latched_topos :: "string option"
  latched_topos2 :: "string option"
  is_assigned :: bool
  empty_since :: int
  empty_trip :: real
  empty_arrived :: int
  cycle_open :: "open_cycle option"
  arr_dtime :: int
  v2 :: v2_state

record plc =
  pl_load :: "real option"
  pl_lock :: "bool option"
  pl_land :: "bool option"
  pl_hpos :: "real option"
  pl_tpos :: "real option"
  pl_last_seen :: int
  pl_laden :: bool
  pl_moves :: "int list"
  pl_last_move :: int

definition plc0 :: plc where
  "plc0 = \<lparr>pl_load = None, pl_lock = None, pl_land = None, pl_hpos = None, pl_tpos = None, pl_last_seen = 0, pl_laden = False,
     pl_moves = [], pl_last_move = 0\<rparr>"

record live_map =
  lm_devices :: "string \<rightharpoonup> pos"
  lm_plc :: "string \<rightharpoonup> plc"
  lm_centroids :: "string \<rightharpoonup> centroid"
  lm_lanes :: "int \<times> int \<rightharpoonup> lane_cell"
  lm_ring :: ring
  lm_messages :: nat
  lm_rejected_far :: nat
  lm_far_unmeasured :: nat
  lm_last_msg :: int
  lm_plc_messages :: nat
  lm_drops :: "int list"
  lm_cycles :: "(int \<times> int) list"
  lm_artifacts :: "int list"
  lm_artifacts_near :: "int list"
  lm_assigned_pool :: "string \<rightharpoonup> assigned_job"
  lm_cycle_log :: "completed_cycle list"
  lm_cycle_v2 :: "completed_v2 list"
  lm_quay_line :: quay_line
  lm_crane_wp :: "string \<rightharpoonup> crane_wp"

definition live_new :: live_map where
  "live_new = \<lparr>lm_devices = Map.empty, lm_plc = Map.empty, lm_centroids = Map.empty, lm_lanes = Map.empty, lm_ring = ring_new,
     lm_messages = 0, lm_rejected_far = 0, lm_far_unmeasured = 0, lm_last_msg = 0, lm_plc_messages = 0, lm_drops = [], lm_cycles = [],
     lm_artifacts = [], lm_artifacts_near = [], lm_assigned_pool = Map.empty, lm_cycle_log = [], lm_cycle_v2 = [],
     lm_quay_line = quay0, lm_crane_wp = Map.empty\<rparr>"

definition or_default :: "'v \<Rightarrow> ('k \<rightharpoonup> 'v) \<Rightarrow> 'k \<Rightarrow> 'v" where
  "or_default d m k = (case m k of None \<Rightarrow> d | Some v \<Rightarrow> v)"

section \<open>A crane frame\<close>

definition prune_ms :: "int \<Rightarrow> int list \<Rightarrow> int list" where
  "prune_ms now xs = dropWhile (\<lambda>f. now - f > MOVE_WINDOW_MS) xs"

definition now_laden :: "real option \<Rightarrow> bool \<Rightarrow> bool" where
  "now_laden hook was = (case hook of Some t \<Rightarrow> if t \<ge> PLC_LADEN_T then True else if t < PLC_EMPTY_T then False else was | None \<Rightarrow> was)"

definition plc_step :: "int \<Rightarrow> real option \<Rightarrow> plc \<Rightarrow> plc" where
  "plc_step now hook e =
     (let laden = now_laden hook (pl_laden e);
          counted = (\<not> pl_laden e \<and> laden \<and> (pl_last_move e = 0 \<or> now - pl_last_move e \<ge> MIN_MOVE_GAP_MS));
          e = (if counted then e\<lparr>pl_moves := prune_ms now (pl_moves e @ [now]), pl_last_move := now\<rparr> else e)
      in e\<lparr>pl_laden := laden, pl_load := hook\<rparr>)"

definition ingest_ctab :: "parse_f64 \<Rightarrow> int \<Rightarrow> fields \<Rightarrow> live_map \<Rightarrow> live_map" where
  "ingest_ctab pf now g lm =
     (case as_str (g ''crane'') of
        None \<Rightarrow> lm
      | Some crane \<Rightarrow>
          if crane = [] then lm
          else let e = plc_step now (num pf (g ''load'')) (or_default plc0 (lm_plc lm) crane);
                   e = e\<lparr>pl_lock := parse_bool (g ''lock''), pl_land := parse_bool (g ''land''), pl_hpos := num pf (g ''hpos''),
                         pl_tpos := num pf (g ''tpos''), pl_last_seen := now\<rparr>
               in lm\<lparr>lm_plc := (lm_plc lm)(crane \<mapsto> e), lm_plc_messages := lm_plc_messages lm + 1\<rparr>)"


section \<open>The cycle of a truck\<close>

definition or_else :: "'a option \<Rightarrow> 'a option \<Rightarrow> 'a option" where
  "or_else a b = (case a of None \<Rightarrow> b | Some x \<Rightarrow> Some x)"

definition str_of :: "string option \<Rightarrow> string" where
  "str_of s = (case s of None \<Rightarrow> [] | Some x \<Rightarrow> x)"

definition open_cycle_at :: "int \<Rightarrow> pos \<Rightarrow> assigned_job option \<Rightarrow> open_cycle" where
  "open_cycle_at now p aj =
     \<lparr>oc_assigned_at = (if empty_since p > 0 then empty_since p else now),
      oc_pickup_arrived_at = (if empty_since p > 0 \<and> empty_arrived p > empty_since p then empty_arrived p else 0),
      oc_pickup_left_at = 0, oc_pickup_at = now, oc_arrived_at = 0, oc_pickup_arrived_crane = 0, oc_arrived_crane = 0,
      oc_crane_arr_method = None, oc_idle_before = 0,
      oc_empty_leg_ms = (if empty_since p > 0 then max (now - empty_since p) 0 else 0), oc_empty_leg_m = empty_trip p,
      oc_jobtype = or_else (latched_jobtype p) (Option.bind aj aj_jobtype),
      oc_vessel = or_else (latched_vessel p) (Option.bind aj aj_vessel),
      oc_voyage = Option.bind aj aj_voyage,
      oc_container = or_else (or_else (f_container1 p) (latched_container p)) (Option.bind aj aj_contno),
      oc_qc = or_else (Option.bind aj aj_qc)
        (case latched_topos p of None \<Rightarrow> None | Some t \<Rightarrow> if is_crane_code t then Some t else None),
      oc_twintandem = Option.bind aj aj_twintandem\<rparr>"

definition oc_default :: open_cycle where
  "oc_default = \<lparr>oc_assigned_at = 0, oc_pickup_arrived_at = 0, oc_pickup_left_at = 0, oc_pickup_at = 0, oc_arrived_at = 0,
     oc_pickup_arrived_crane = 0, oc_arrived_crane = 0, oc_crane_arr_method = None, oc_idle_before = 0, oc_empty_leg_ms = 0, oc_empty_leg_m = 0,
     oc_jobtype = None, oc_vessel = None, oc_voyage = None, oc_container = None, oc_qc = None, oc_twintandem = None\<rparr>"

definition finalize_cycle :: "string \<Rightarrow> pos \<Rightarrow> int \<Rightarrow> bool \<Rightarrow> completed_cycle" where
  "finalize_cycle did p now c2c =
     (let oc = (case cycle_open p of None \<Rightarrow> oc_default | Some oc \<Rightarrow> oc);
          pickup = (if oc_pickup_at oc > 0 then oc_pickup_at oc else carry_since p);
          laden = (if pickup > 0 then max (now - pickup) 0 else 0);
          assigned_at = (if oc_assigned_at oc > 0 then oc_assigned_at oc else pickup)
      in \<lparr>cc_ytno = did, cc_assigned_at = assigned_at, cc_pickup_arrived_at = oc_pickup_arrived_at oc,
          cc_pickup_left_at = oc_pickup_left_at oc, cc_pickup_at = pickup, cc_arrived_at = oc_arrived_at oc,
          cc_pickup_arrived_crane = oc_pickup_arrived_crane oc, cc_arrived_crane = oc_arrived_crane oc, cc_dropped_at = now,
          cc_empty_leg_ms = oc_empty_leg_ms oc, cc_empty_leg_m = oc_empty_leg_m oc, cc_laden_leg_ms = laden,
          cc_laden_leg_m = carry_trip p, cc_jobtype = or_else (oc_jobtype oc) (latched_jobtype p),
          cc_vessel = or_else (oc_vessel oc) (latched_vessel p), cc_voyage = oc_voyage oc,
          cc_container = or_else (oc_container oc) (latched_container p), cc_qc = oc_qc oc, cc_twintandem = oc_twintandem oc,
          cc_crane_arr_method = oc_crane_arr_method oc, cc_idle_before = oc_idle_before oc, cc_c2c = c2c\<rparr>)"

text \<open>The state a fix takes over from the fix before (\<open>pv\<close>), or seeds on first sight.\<close>

definition carry_over :: "pos option \<Rightarrow> string option \<Rightarrow> pos \<Rightarrow> pos" where
  "carry_over pv topos2 p = (case pv of
     None \<Rightarrow> p\<lparr>latched_container := f_container1 p, latched_jobtype := f_jobtype p, latched_vessel := f_vslname p,
               latched_topos := f_topos1 p, latched_topos2 := topos2\<rparr>
   | Some q \<Rightarrow>
       let step = dist_m (f_lat q, f_lon q) (f_lat p, f_lon p);
           moved = (f_cls p = ''TT'' \<and> f_lat q \<noteq> 0 \<and> f_lat p \<noteq> 0 \<and> step \<le> MAX_FIX_STEP_M)
       in p\<lparr>carry_since := carry_since q, last_drop := last_drop q,
            carry_trip := (if moved then carry_trip q + step else carry_trip q),
            empty_since := empty_since q,
            empty_trip := (if moved \<and> str_of (f_container1 p) = [] then empty_trip q + step else empty_trip q),
            empty_arrived := empty_arrived q, cycle_open := cycle_open q,
            latched_container := or_else (f_container1 p) (latched_container q), latched_jobtype := or_else (f_jobtype p) (latched_jobtype q),
            latched_vessel := or_else (f_vslname p) (latched_vessel q), latched_topos := or_else (f_topos1 p) (latched_topos q),
            latched_topos2 := or_else topos2 (latched_topos2 q),
            arr_dtime := (if arr_dtime p = 0 then arr_dtime q else arr_dtime p), v2 := v2 q\<rparr>)"

text \<open>The two boxes of a twin carry change places: no delivery.\<close>

definition slot_swap :: "string \<Rightarrow> string \<Rightarrow> string \<Rightarrow> string \<Rightarrow> bool" where
  "slot_swap old_c1 old_c2 new_c1 new_c2 = (new_c1 \<noteq> old_c1 \<and> new_c1 \<noteq> [] \<and> {#old_c1, old_c2#} = {#new_c1, new_c2#})"

definition arrived :: "pos \<Rightarrow> bool" where
  "arrived p = (f_arrival p = Some ''ARRIVED'')"

text \<open>The ARRIVED flag on the open cycle: a rising edge is the pickup or the drop, moving again is the departure.\<close>

definition oc_arrival :: "int \<Rightarrow> bool \<Rightarrow> string \<Rightarrow> pos \<Rightarrow> open_cycle \<Rightarrow> open_cycle" where
  "oc_arrival now prev_arrived topos_now p oc =
     (if arrived p \<and> \<not> prev_arrived then
        let at_crane = is_crane_code topos_now; jt = str_of (latched_jobtype p);
            drop_side = (if jt = ''LD'' then at_crane else if jt = ''DS'' then \<not> at_crane
                         else if jt = ''MI'' \<or> jt = ''MO'' \<or> jt = ''LC'' then oc_pickup_arrived_at oc \<noteq> 0 else at_crane)
        in if drop_side then (if oc_arrived_at oc = 0 then oc\<lparr>oc_arrived_at := now\<rparr> else oc)
           else if oc_pickup_arrived_at oc = 0 \<and> oc_arrived_at oc = 0 then oc\<lparr>oc_pickup_arrived_at := now\<rparr> else oc
      else if \<not> arrived p \<and> oc_pickup_arrived_at oc \<noteq> 0 \<and> oc_pickup_left_at oc = 0 \<and> f_speed p \<ge> IDLE_SPEED_KMH
      then oc\<lparr>oc_pickup_left_at := now\<rparr> else oc)"

text \<open>The shadow arrival at a crane, from the flag, the crane's own position or its PLC.\<close>

definition near_device :: "(string \<rightharpoonup> pos) \<Rightarrow> int \<Rightarrow> string \<Rightarrow> real \<Rightarrow> pos \<Rightarrow> bool" where
  "near_device dev now d r p = (case dev d of
     None \<Rightarrow> False
   | Some cr \<Rightarrow> f_lat cr \<noteq> 0 \<and> tdiv (now - f_last_seen cr) 1000 \<le> STALE_AFTER_S \<and> dist_m (f_lat p, f_lon p) (f_lat cr, f_lon cr) \<le> r)"

definition crane_method :: "(string \<rightharpoonup> pos) \<Rightarrow> int \<Rightarrow> string \<Rightarrow> (int \<times> int) option \<Rightarrow> pos \<Rightarrow> string option" where
  "crane_method dev now topos_now crane_plc p =
     (let plc_active = (case crane_plc of None \<Rightarrow> False
            | Some (last_move, last_seen) \<Rightarrow> tdiv (now - last_seen) 1000 \<le> STALE_AFTER_S \<and> last_move \<noteq> 0 \<and> now - last_move \<le> CRANE_PLC_ACTIVE_MS)
      in if arrived p then Some ''arrived''
         else if near_device dev now topos_now CRANE_ARRIVE_M p then Some ''gps''
         else if plc_active \<and> f_speed p < IDLE_SPEED_KMH then Some ''plc'' else None)"

definition oc_shadow :: "int \<Rightarrow> string \<Rightarrow> pos \<Rightarrow> open_cycle \<Rightarrow> open_cycle" where
  "oc_shadow now m p oc =
     (let jt = str_of (latched_jobtype p);
          drop_side = (if jt = ''LD'' then True else if jt = ''DS'' then False else oc_pickup_arrived_crane oc \<noteq> 0)
      in if drop_side then (if oc_arrived_crane oc = 0 then oc\<lparr>oc_arrived_crane := now, oc_crane_arr_method := Some m\<rparr> else oc)
         else if oc_pickup_arrived_crane oc = 0 then oc\<lparr>oc_pickup_arrived_crane := now, oc_crane_arr_method := Some m\<rparr> else oc)"

record edge_out =
  eo_pos :: pos
  eo_completed :: "completed_cycle option"
  eo_sample :: "int option"
  eo_artifact :: bool
  eo_near :: bool

text \<open>A box that was carried leaves the first slot: a validated delivery, an artifact, or neither.\<close>

definition leave_box :: "string \<Rightarrow> int \<Rightarrow> string \<Rightarrow> pos \<Rightarrow> edge_out" where
  "leave_box did now new_c1 p =
     (if carry_since p > 0 \<and> now - carry_since p < MIN_LOADED_MS
      then \<lparr>eo_pos = p, eo_completed = None, eo_sample = None, eo_artifact = False, eo_near = False\<rparr>
      else if carry_trip p \<ge> MIN_CARRY_TRIP_M
      then let iv = now - last_drop p;
               sample = (if last_drop p \<noteq> 0 \<and> MIN_CYCLE_S * 1000 \<le> iv \<and> iv \<le> MAX_CYCLE_S * 1000 then Some (iv div 1000) else None);
               p = p\<lparr>last_drop := now\<rparr>
           in \<lparr>eo_pos = p\<lparr>cycle_open := None, latched_container := None\<rparr>,
               eo_completed = Some (finalize_cycle did p now (new_c1 \<noteq> [])), eo_sample = sample, eo_artifact = False, eo_near = False\<rparr>
      else \<lparr>eo_pos = p, eo_completed = None, eo_sample = None, eo_artifact = True, eo_near = carry_trip p \<ge> NEAR_TRIP_M\<rparr>)"

text \<open>What follows the change: an empty leg begins, or a new cycle opens.\<close>

definition next_box :: "int \<Rightarrow> assigned_job option \<Rightarrow> bool \<Rightarrow> string \<Rightarrow> pos \<Rightarrow> pos" where
  "next_box now aj was_loaded new_c1 p =
     (let p = p\<lparr>carry_since := (if new_c1 = [] then 0 else now), carry_trip := 0\<rparr> in
      if new_c1 = [] then p\<lparr>empty_since := now, empty_trip := 0, empty_arrived := 0\<rparr>
      else let p = (if was_loaded then p\<lparr>empty_since := now, empty_trip := 0\<rparr> else p); p = p\<lparr>latched_container := f_container1 p\<rparr>
           in p\<lparr>cycle_open := Some (open_cycle_at now p aj), empty_arrived := 0\<rparr>)"

definition container_edge :: "string \<Rightarrow> int \<Rightarrow> assigned_job option \<Rightarrow> string \<Rightarrow> string \<Rightarrow> bool \<Rightarrow> pos \<Rightarrow> edge_out" where
  "container_edge did now aj old_c1 new_c1 swap p =
     (let keep = \<lparr>eo_pos = p, eo_completed = None, eo_sample = None, eo_artifact = False, eo_near = False\<rparr> in
      if new_c1 \<noteq> old_c1 \<and> \<not> swap
      then let was_loaded = (old_c1 \<noteq> []); out = (if was_loaded then leave_box did now new_c1 p else keep)
           in out\<lparr>eo_pos := next_box now aj was_loaded new_c1 (eo_pos out)\<rparr>
      else keep)"

section \<open>The legs of a truck\<close>

text \<open>The shadow machine: a leg per target, from assignment over arrival to departure. (i) the leg in progress.\<close>

definition leg_arrival :: "(string \<rightharpoonup> pos) \<Rightarrow> int \<Rightarrow> bool \<Rightarrow> pos \<Rightarrow> v2_leg \<Rightarrow> v2_leg" where
  "leg_arrival dev now prev_arrived p leg =
     (let coarse = (vl_arr_src leg = ''cur_loc''); stopped = (f_speed p < IDLE_SPEED_KMH) in
      if vl_arrived leg = 0 \<or> coarse
      then let (leg, upgraded) =
             (if arr_dtime p > 0 \<and> arr_dtime p \<ge> vl_assigned leg then (leg\<lparr>vl_arrived := arr_dtime p, vl_arr_src := ''arr_dtime''\<rparr>, coarse)
              else if arrived p \<and> \<not> prev_arrived then (leg\<lparr>vl_arrived := now, vl_arr_src := ''arrived''\<rparr>, coarse)
              else if vl_arrived leg = 0 \<and> stopped
              then let cl = str_of (f_cur_loc p);
                       here = (if vl_crane leg then starts_with ''WHARF'' cl else cl \<noteq> [] \<and> block_prefix cl = block_prefix (vl_target leg))
                   in if here then (leg\<lparr>vl_arrived := now, vl_arr_src := ''cur_loc''\<rparr>, False)
                      else if vl_crane leg \<and> near_device dev now (vl_target leg) 60 p then (leg\<lparr>vl_arrived := now, vl_arr_src := ''gps''\<rparr>, False)
                      else (leg, False)
              else (leg, False));
             leg = (if upgraded \<and> vl_left leg \<noteq> 0 \<and> vl_left leg \<le> vl_arrived leg then leg\<lparr>vl_left := 0\<rparr> else leg)
           in if vl_arrived leg > 0 \<and> (vl_lat leg = 0 \<or> upgraded) then leg\<lparr>vl_lat := f_lat p, vl_lon := f_lon p\<rparr> else leg
      else leg)"

definition leg_departure :: "int \<Rightarrow> pos \<Rightarrow> v2_leg \<Rightarrow> v2_leg" where
  "leg_departure now p leg =
     (if vl_arrived leg > 0 \<and> vl_left leg = 0 \<and> f_speed p \<ge> IDLE_SPEED_KMH \<and> now - vl_arrived leg > 5000
      then leg\<lparr>vl_left := now\<rparr> else leg)"

definition v2_progress :: "(string \<rightharpoonup> pos) \<Rightarrow> int \<Rightarrow> bool \<Rightarrow> pos \<Rightarrow> v2_state \<Rightarrow> v2_state" where
  "v2_progress dev now prev_arrived p s =
     (let s = (if v2_opened s > 0 \<and> v2_empty_start s = 0 \<and> f_speed p \<ge> IDLE_SPEED_KMH \<and> v2_legs s = [] \<and>
                  (case v2_cur s of None \<Rightarrow> True | Some l \<Rightarrow> vl_arrived l = 0)
               then s\<lparr>v2_empty_start := now\<rparr> else s)
      in s\<lparr>v2_cur := map_option (\<lambda>l. leg_departure now p (leg_arrival dev now prev_arrived p l)) (v2_cur s)\<rparr>)"

text \<open>(i-b) a pickup seen on the container marks or makes the pickup leg.\<close>

definition v2_open_if :: "int \<Rightarrow> pos \<Rightarrow> v2_state \<Rightarrow> v2_state" where
  "v2_open_if t p s = (if v2_opened s = 0 then s\<lparr>v2_opened := t, v2_jobtype := latched_jobtype p\<rparr> else s)"

definition v2_pickup :: "int \<Rightarrow> string \<Rightarrow> string \<Rightarrow> pos \<Rightarrow> v2_state \<Rightarrow> v2_state" where
  "v2_pickup now old_c1 new_c1 p s =
     (if old_c1 = [] \<and> new_c1 \<noteq> []
      then let s = v2_open_if now p s in
        (case v2_cur s of
           Some leg \<Rightarrow> if vl_arrived leg = 0 then s\<lparr>v2_cur := Some (leg\<lparr>vl_arrived := now, vl_arr_src := ''container1''\<rparr>)\<rparr> else s
         | None \<Rightarrow>
             let crane = (or_else (v2_jobtype s) (latched_jobtype p) = Some ''DS'');
                 tgt = str_of (or_else (case latched_topos p of None \<Rightarrow> None | Some t \<Rightarrow> if t = [] then None else Some t) (f_cur_loc p))
             in if tgt \<noteq> []
                then s\<lparr>v2_cur := Some \<lparr>vl_target = tgt, vl_crane = crane, vl_assigned = v2_opened s, vl_arrived = now,
                       vl_arr_src = ''container1'', vl_left = 0, vl_lat = f_lat p, vl_lon = f_lon p\<rparr>\<rparr>
                else s)
      else s)"

definition leave_leg :: "int \<Rightarrow> v2_leg \<Rightarrow> v2_leg" where
  "leave_leg now l = (if vl_arrived l > 0 \<and> vl_left l = 0 then l\<lparr>vl_left := now\<rparr> else l)"

text \<open>A leg assigned now; a truck already standing at its block has arrived.\<close>

definition new_leg :: "int \<Rightarrow> string \<Rightarrow> pos \<Rightarrow> v2_leg" where
  "new_leg now t p =
     (let crane = is_crane_code t; prepos = prepositioned_arrival crane t (f_speed p < IDLE_SPEED_KMH) (str_of (f_cur_loc p))
      in \<lparr>vl_target = t, vl_crane = crane, vl_assigned = now, vl_arrived = (if prepos then now else 0),
          vl_arr_src = (if prepos then ''pre_positioned'' else []), vl_left = 0,
          vl_lat = (if prepos then f_lat p else 0), vl_lon = (if prepos then f_lon p else 0)\<rparr>)"

text \<open>(ii) a validated drop closes the cycle; a leg that belongs to the next cycle is carried over.\<close>

definition close_legs :: "int \<Rightarrow> string option \<Rightarrow> v2_state \<Rightarrow> v2_leg list \<times> v2_leg option" where
  "close_legs now close_jobtype s = (case v2_cur s of
     None \<Rightarrow> (v2_legs s, None)
   | Some cur \<Rightarrow>
       let pickup_is_crane = (close_jobtype = Some ''DS''); known_jt = (close_jobtype = Some ''DS'' \<or> close_jobtype = Some ''LD'');
           reached_drop = list_ex (\<lambda>l. vl_crane l \<noteq> pickup_is_crane) (v2_legs s @ [cur])
       in if vl_arrived cur = 0 \<and> v2_legs s \<noteq> [] then (v2_legs s, Some cur)
          else if known_jt \<and> \<not> reached_drop \<and> vl_crane cur = pickup_is_crane then (v2_legs s, Some cur)
          else (v2_legs s @ [leave_leg now cur], None))"

definition v2_completed :: "string \<Rightarrow> int \<Rightarrow> completed_cycle \<Rightarrow> pos \<Rightarrow> v2_state \<Rightarrow> v2_leg list \<Rightarrow> completed_v2 option" where
  "v2_completed did now c p s legs =
     (if v2_opened s > 0 \<and> legs \<noteq> []
      then Some \<lparr>cv_ytno = did, cv_dropped = now, cv_opened = v2_opened s, cv_empty_start = v2_empty_start s,
        cv_jobtype = or_else (v2_jobtype s) (latched_jobtype p), cv_legs = legs,
        cv_v1_pickup_arrived = cc_pickup_arrived_at c, cv_v1_drop_arrived = cc_arrived_at c\<rparr>
      else None)"

definition v2_reopen :: "int \<Rightarrow> string \<Rightarrow> string option \<Rightarrow> v2_leg option \<Rightarrow> pos \<Rightarrow> v2_state" where
  "v2_reopen now new_c1 prev_topos carry p =
     (let s = (if new_c1 \<noteq> [] then v2_default\<lparr>v2_opened := now, v2_jobtype := latched_jobtype p\<rparr> else v2_default)
      in case carry of
           Some c \<Rightarrow> (v2_open_if (min (vl_assigned c) now) p s)\<lparr>v2_cur := Some c\<rparr>
         | None \<Rightarrow>
             if v2_opened s > 0
             then (case latched_topos p of
                     None \<Rightarrow> s
                   | Some t \<Rightarrow> if prev_topos \<noteq> Some t then s\<lparr>v2_cur := Some (new_leg now t p)\<rparr> else s)
             else s)"

definition v2_close ::
  "string \<Rightarrow> int \<Rightarrow> completed_cycle option \<Rightarrow> string \<Rightarrow> string option \<Rightarrow> pos \<Rightarrow> v2_state \<Rightarrow> v2_state \<times> completed_v2 option" where
  "v2_close did now completed new_c1 prev_topos p s = (case completed of
     None \<Rightarrow> (s, None)
   | Some c \<Rightarrow>
       let (legs, carry) = close_legs now (or_else (v2_jobtype s) (latched_jobtype p)) s
       in (v2_reopen now new_c1 prev_topos carry p, v2_completed did now c p s legs))"

text \<open>(iii) a new target is the assignment of the next leg.\<close>

definition add_leg :: "int \<Rightarrow> v2_leg \<Rightarrow> v2_leg list \<Rightarrow> v2_leg list" where
  "add_leg now cur legs = (if length legs \<ge> V2_LEGS_MAX then take 1 legs @ drop 2 legs else legs) @ [leave_leg now cur]"

definition v2_transition :: "int \<Rightarrow> string \<Rightarrow> string \<Rightarrow> string option \<Rightarrow> pos \<Rightarrow> v2_state \<Rightarrow> v2_state" where
  "v2_transition now old_c1 new_c1 prev_topos p s =
     (let raw_tp = str_of (f_topos1 p) in
      if raw_tp \<noteq> [] \<and> prev_topos \<noteq> Some raw_tp \<and> map_option vl_target (v2_cur s) \<noteq> Some raw_tp
      then let s = v2_open_if now p s;
               s = (case v2_cur s of None \<Rightarrow> s | Some cur \<Rightarrow> s\<lparr>v2_legs := add_leg now cur (v2_legs s)\<rparr>)
           in s\<lparr>v2_cur := Some (new_leg now raw_tp p)\<rparr>
      else if new_c1 \<noteq> [] \<and> old_c1 = [] then v2_open_if now p s else s)"

section \<open>One fix\<close>

record fix_out =
  fo_pos :: pos
  fo_completed :: "completed_cycle option"
  fo_sample :: "int option"
  fo_artifact :: bool
  fo_near :: bool
  fo_completed_v2 :: "completed_v2 option"

definition with_cycle :: "(open_cycle \<Rightarrow> open_cycle) \<Rightarrow> pos \<Rightarrow> pos" where
  "with_cycle f p = p\<lparr>cycle_open := map_option f (cycle_open p)\<rparr>"

text \<open>The phases of the first machine before the container edge.\<close>

definition phases_step :: "(string \<rightharpoonup> pos) \<Rightarrow> (int \<times> int) option \<Rightarrow> int \<Rightarrow> bool \<Rightarrow> string \<Rightarrow> pos \<Rightarrow> pos" where
  "phases_step dev crane_plc now prev_arrived new_c1 p =
     (let topos_now = str_of (or_else (f_topos1 p) (latched_topos p));
          p = with_cycle (oc_arrival now prev_arrived topos_now p) p;
          p = (if arrived p \<and> \<not> prev_arrived \<and> new_c1 = [] \<and> empty_arrived p = 0 then p\<lparr>empty_arrived := now\<rparr> else p)
      in if is_crane_code topos_now
         then (case crane_method dev now topos_now crane_plc p of None \<Rightarrow> p | Some m \<Rightarrow> with_cycle (oc_shadow now m p) p)
         else p)"

definition truck_step :: "(string \<rightharpoonup> pos) \<Rightarrow> (int \<times> int) option \<Rightarrow> assigned_job option \<Rightarrow> string \<Rightarrow> int \<Rightarrow> pos option \<Rightarrow> pos \<Rightarrow> fix_out" where
  "truck_step dev crane_plc aj did now pv p =
     (let prev_arrived = (case pv of None \<Rightarrow> False | Some q \<Rightarrow> arrived q); prev_topos = Option.bind pv latched_topos;
          new_c1 = str_of (f_container1 p); new_c2 = str_of (f_container2 p);
          old_c1 = str_of (Option.bind pv f_container1); old_c2 = str_of (Option.bind pv f_container2);
          swap = slot_swap old_c1 old_c2 new_c1 new_c2;
          p = phases_step dev crane_plc now prev_arrived new_c1 p;
          e = container_edge did now aj old_c1 new_c1 swap p; p = eo_pos e;
          s = v2_pickup now old_c1 new_c1 p (v2_progress dev now prev_arrived p (v2 p));
          (s, cv) = v2_close did now (eo_completed e) new_c1 prev_topos p s
      in \<lparr>fo_pos = p\<lparr>v2 := v2_transition now old_c1 new_c1 prev_topos p s\<rparr>, fo_completed = eo_completed e, fo_sample = eo_sample e,
          fo_artifact = eo_artifact e, fo_near = eo_near e, fo_completed_v2 = cv\<rparr>)"

definition fix_step :: "(string \<rightharpoonup> pos) \<Rightarrow> (int \<times> int) option \<Rightarrow> assigned_job option \<Rightarrow> string option \<Rightarrow> string \<Rightarrow> int \<Rightarrow> pos \<Rightarrow> fix_out" where
  "fix_step dev crane_plc aj topos2 did now p =
     (let p = (carry_over (dev did) topos2 p)\<lparr>is_assigned := (aj \<noteq> None)\<rparr> in
      if f_cls p = ''TT'' then truck_step dev crane_plc aj did now (dev did) p
      else \<lparr>fo_pos = p, fo_completed = None, fo_sample = None, fo_artifact = False, fo_near = False, fo_completed_v2 = None\<rparr>)"

section \<open>A GPS frame\<close>

definition upd :: "'v \<Rightarrow> ('v \<Rightarrow> 'v) \<Rightarrow> 'k \<Rightarrow> ('k \<rightharpoonup> 'v) \<Rightarrow> 'k \<rightharpoonup> 'v" where
  "upd d f k m = m(k \<mapsto> f (or_default d m k))"

definition device_class :: "string \<Rightarrow> string" where
  "device_class did = takeWhile is_alpha did"

definition read_speed :: "parse_f64 \<Rightarrow> fields \<Rightarrow> real" where
  "read_speed pf g = (case as_str (g ''speed'') of
     None \<Rightarrow> 0
   | Some s \<Rightarrow> (case pf (trim (rev (dropWhile is_alpha (rev s)))) of None \<Rightarrow> 0 | Some x \<Rightarrow> x))"

definition read_engine :: "fields \<Rightarrow> int" where
  "read_engine g = (case as_str (g ''engine_on'') of Some s \<Rightarrow> if contains ''ON'' (map upper s) then 1 else 0 | None \<Rightarrow> 0)"

definition read_fix :: "parse_f64 \<Rightarrow> (string \<Rightarrow> int option) \<Rightarrow> int \<Rightarrow> string \<Rightarrow> fields \<Rightarrow> real \<Rightarrow> real \<Rightarrow> pos" where
  "read_fix pf rd now did g lat lon =
     \<lparr>f_cls = device_class did, f_lat = lat, f_lon = lon, f_speed = read_speed pf g, f_engine = read_engine g, f_last_seen = now,
      f_jobtype = opt_str g ''jobtype'', f_vslname = opt_str g ''vslname'', f_container1 = opt_str g ''container1'',
      f_container2 = opt_str g ''container2'', f_cur_loc = opt_str g ''cur_loc'', f_topos1 = opt_str g ''topos1'',
      f_arrival = opt_str g ''arrival'',
      carry_since = 0, last_drop = 0, carry_trip = 0, latched_container = None, latched_jobtype = None, latched_vessel = None,
      latched_topos = None, latched_topos2 = None, is_assigned = False, empty_since = 0, empty_trip = 0, empty_arrived = 0,
      cycle_open = None,
      arr_dtime = (case opt_str g ''arr_dtime'' of None \<Rightarrow> 0 | Some s \<Rightarrow> (case parse_arr_dtime rd s now of None \<Rightarrow> 0 | Some t \<Rightarrow> t)),
      v2 = v2_default\<rparr>"

text \<open>What an arrived truck teaches about the point it arrived at.\<close>

definition learn_topos :: "int \<Rightarrow> pos \<Rightarrow> string \<Rightarrow> live_map \<Rightarrow> live_map" where
  "learn_topos now p t lm =
     (if is_crane_code t
      then let (x, y) = to_local (f_lat p) (f_lon p)
           in lm\<lparr>lm_centroids := upd centroid0 (centroid_push (f_lat p) (f_lon p)) t (lm_centroids lm),
                 lm_quay_line := quay_push x y (lm_quay_line lm),
                 lm_crane_wp := upd crane_wp0 (crane_wp_push x y now) t (lm_crane_wp lm)\<rparr>
      else let gated = push_gated (f_lat p) (f_lon p) CENTROID_GATE_M; pre = block_prefix t; c = upd centroid0 gated t (lm_centroids lm)
           in lm\<lparr>lm_centroids := (if pre \<noteq> t then upd centroid0 gated pre c else c)\<rparr>)"

definition learn_points :: "int \<Rightarrow> pos \<Rightarrow> live_map \<Rightarrow> live_map" where
  "learn_points now p lm =
     (if f_cls p = ''TT'' \<and> arrived p
      then let lm = (case f_topos1 p of None \<Rightarrow> lm | Some t \<Rightarrow> if t = [] then lm else learn_topos now p t lm)
           in (case f_cur_loc p of
                 None \<Rightarrow> lm
               | Some cl \<Rightarrow> if starts_with ''WHARF'' cl \<and> cl \<noteq> []
                   then lm\<lparr>lm_centroids := upd centroid0 (push_gated (f_lat p) (f_lon p) CENTROID_GATE_M) cl (lm_centroids lm)\<rparr> else lm)
      else lm)"

definition learn_lane :: "string \<Rightarrow> pos \<Rightarrow> live_map \<Rightarrow> live_map" where
  "learn_lane did p lm =
     (if f_cls p = ''TT'' \<and> f_speed p \<ge> LANE_MIN_SPEED_KMH
      then (case lm_devices lm did of
              None \<Rightarrow> lm
            | Some q \<Rightarrow>
                let a = (f_lat q, f_lon q); b = (f_lat p, f_lon p); d = dist_m a b in
                if d \<ge> LANE_MIN_M \<and> d \<le> LANE_MAX_M
                then lm\<lparr>lm_lanes := upd lane0 (lane_push (bearing_deg a b) (f_speed p))
                       (round_away (f_lat p / LANE_CELL_DEG), round_away (f_lon p / LANE_CELL_DEG)) (lm_lanes lm)\<rparr>
                else lm)
      else lm)"

definition crane_plc_of :: "live_map \<Rightarrow> pos \<Rightarrow> (int \<times> int) option" where
  "crane_plc_of lm p = (case f_topos1 p of
     None \<Rightarrow> None
   | Some t \<Rightarrow> if is_crane_code t then map_option (\<lambda>c. (pl_last_move c, pl_last_seen c)) (lm_plc lm t) else None)"

text \<open>A buffer that keeps its newest entries.\<close>

definition push_capped :: "'a \<Rightarrow> 'a list \<Rightarrow> 'a list" where
  "push_capped x xs = (let ys = xs @ [x] in drop (length ys - CYCLE_BUF_MAX) ys)"

definition record_out :: "int \<Rightarrow> fix_out \<Rightarrow> live_map \<Rightarrow> live_map" where
  "record_out now out lm =
     lm\<lparr>lm_cycle_v2 := (case fo_completed_v2 out of None \<Rightarrow> lm_cycle_v2 lm | Some c \<Rightarrow> push_capped c (lm_cycle_v2 lm)),
        lm_cycle_log := (case fo_completed out of None \<Rightarrow> lm_cycle_log lm | Some c \<Rightarrow> push_capped c (lm_cycle_log lm)),
        lm_drops := (if fo_completed out = None then lm_drops lm else prune_ms now (lm_drops lm @ [now])),
        lm_artifacts := (if fo_artifact out then prune_ms now (lm_artifacts lm @ [now]) else lm_artifacts lm),
        lm_artifacts_near := (if fo_near out then prune_ms now (lm_artifacts_near lm @ [now]) else lm_artifacts_near lm),
        lm_cycles := (case fo_sample out of None \<Rightarrow> lm_cycles lm
          | Some s \<Rightarrow> dropWhile (\<lambda>(t, _). now - t > MOVE_WINDOW_MS) (lm_cycles lm @ [(now, s)])),
        lm_messages := lm_messages lm + 1, lm_last_msg := now, lm_ring := ring_bump (now div 60000) (lm_ring lm)\<rparr>"

definition ingest_fix :: "int \<Rightarrow> string \<Rightarrow> string option \<Rightarrow> pos \<Rightarrow> live_map \<Rightarrow> live_map" where
  "ingest_fix now did topos2 p lm =
     (let lm = learn_lane did p (learn_points now p lm);
          out = fix_step (lm_devices lm) (crane_plc_of lm p) (lm_assigned_pool lm did) topos2 did now p
      in record_out now out (lm\<lparr>lm_devices := (lm_devices lm)(did \<mapsto> fo_pos out)\<rparr>))"

definition ingest_text :: "parse_f64 \<Rightarrow> (string \<Rightarrow> int option) \<Rightarrow> int \<Rightarrow> string \<Rightarrow> fields \<Rightarrow> live_map \<Rightarrow> live_map" where
  "ingest_text pf rd now did g lm =
     (case (num pf (g ''lat''), num pf (g ''lon'')) of
        (Some lat, Some lon) \<Rightarrow>
          if lat = 0 \<and> lon = 0 then lm
          else (case gate_fix (device_class did) lat lon of
                  Drop \<Rightarrow> lm\<lparr>lm_rejected_far := lm_rejected_far lm + 1\<rparr>
                | gate \<Rightarrow>
                    ingest_fix now did (opt_str g ''topos2'') (read_fix pf rd now did g lat lon)
                      (case gate of KeepButFar _ \<Rightarrow> lm\<lparr>lm_far_unmeasured := lm_far_unmeasured lm + 1\<rparr> | _ \<Rightarrow> lm))
      | _ \<Rightarrow> lm)"

end
