(* ===== verification/FeedRun.thy ===== *)
theory FeedRun
  imports Ingest
begin

text \<open>
  Runs of the live feed: GPS and crane frames, the refresh of the assignments, the drains of the two buffers
  and the pruning of lost devices (\<^verbatim>\<open>spawn_assignment_refresh\<close>, \<^verbatim>\<open>spawn_cycle_flusher\<close> and the pruner of
  \<^verbatim>\<open>spawn\<close> in \<^verbatim>\<open>src/crates/api/src/livemap.rs\<close>), in any order under a clock that does not go back.
  The invariants hold in every reachable state: the phases of a cycle are in order, every buffer is bounded,
  and a tracked truck is near the terminal.

  A task holds the locks of what it changes, so a step is atomic.
\<close>

section \<open>Steps\<close>

definition LOST_AFTER_S :: int where "LOST_AFTER_S = 600"

definition retain :: "('v \<Rightarrow> bool) \<Rightarrow> ('k \<rightharpoonup> 'v) \<Rightarrow> 'k \<rightharpoonup> 'v" where
  "retain P m k = (case m k of None \<Rightarrow> None | Some v \<Rightarrow> if P v then Some v else None)"

definition prune_lost :: "int \<Rightarrow> live_map \<Rightarrow> live_map" where
  "prune_lost now lm =
     (let cutoff = now - LOST_AFTER_S * 1000
      in lm\<lparr>lm_devices := retain (\<lambda>p. f_last_seen p \<ge> cutoff) (lm_devices lm), lm_plc := retain (\<lambda>c. pl_last_seen c \<ge> cutoff) (lm_plc lm)\<rparr>)"

text \<open>The rows of the assignment query become the new cache; a failed query leaves the old one.\<close>

definition refresh :: "(string \<times> assigned_job) list option \<Rightarrow> live_map \<Rightarrow> live_map" where
  "refresh rows lm = (case rows of
     None \<Rightarrow> lm
   | Some rs \<Rightarrow> lm\<lparr>lm_assigned_pool := fold (\<lambda>(ytno, aj) m. m(ytno \<mapsto> aj)) rs Map.empty\<rparr>)"

datatype feed_event = Gps string fields | Crane fields | Refresh "(string \<times> assigned_job) list option" | Drain | DrainV2 | Prune

fun feed_step :: "parse_f64 \<Rightarrow> (string \<Rightarrow> int option) \<Rightarrow> int \<Rightarrow> feed_event \<Rightarrow> live_map \<Rightarrow> live_map" where
  "feed_step pf rd now (Gps did g) lm = ingest_text pf rd now did g lm"
| "feed_step pf rd now (Crane g) lm = ingest_ctab pf now g lm"
| "feed_step pf rd now (Refresh rows) lm = refresh rows lm"
| "feed_step pf rd now Drain lm = lm\<lparr>lm_cycle_log := []\<rparr>"
| "feed_step pf rd now DrainV2 lm = lm\<lparr>lm_cycle_v2 := []\<rparr>"
| "feed_step pf rd now Prune lm = prune_lost now lm"

inductive reachable :: "parse_f64 \<Rightarrow> (string \<Rightarrow> int option) \<Rightarrow> int \<Rightarrow> live_map \<Rightarrow> bool" for pf rd where
  start: "0 < now \<Longrightarrow> reachable pf rd now live_new"
| step: "reachable pf rd t lm \<Longrightarrow> t \<le> now \<Longrightarrow> reachable pf rd now (feed_step pf rd now ev lm)"

section \<open>The phases of a cycle\<close>

text \<open>A time that was observed lies in the past; 0 is a time not observed.\<close>

abbreviation past :: "int \<Rightarrow> int \<Rightarrow> bool" where
  "past now t \<equiv> 0 \<le> t \<and> t \<le> now"

definition oc_ok :: "int \<Rightarrow> open_cycle \<Rightarrow> bool" where
  "oc_ok now oc \<longleftrightarrow>
     0 < oc_assigned_at oc \<and> oc_assigned_at oc \<le> oc_pickup_at oc \<and> oc_pickup_at oc \<le> now \<and>
     past now (oc_pickup_arrived_at oc) \<and> (oc_pickup_arrived_at oc = 0 \<or> oc_assigned_at oc \<le> oc_pickup_arrived_at oc) \<and>
     past now (oc_pickup_left_at oc) \<and> (oc_pickup_left_at oc = 0 \<or> oc_pickup_arrived_at oc \<noteq> 0 \<and> oc_pickup_arrived_at oc \<le> oc_pickup_left_at oc) \<and>
     past now (oc_arrived_at oc) \<and> (oc_arrived_at oc = 0 \<or> oc_pickup_at oc \<le> oc_arrived_at oc \<and> oc_pickup_arrived_at oc \<le> oc_arrived_at oc) \<and>
     0 \<le> oc_empty_leg_ms oc \<and> 0 \<le> oc_empty_leg_m oc"

definition pos_ok :: "int \<Rightarrow> pos \<Rightarrow> bool" where
  "pos_ok now p \<longleftrightarrow>
     past now (carry_since p) \<and> past now (last_drop p) \<and> 0 \<le> carry_trip p \<and> past now (empty_since p) \<and> 0 \<le> empty_trip p \<and>
     past now (empty_arrived p) \<and> (case cycle_open p of None \<Rightarrow> True | Some oc \<Rightarrow> oc_ok now oc)"

text \<open>What the log may hold: the phases of a delivered box in order.\<close>

definition cycle_ok :: "completed_cycle \<Rightarrow> bool" where
  "cycle_ok c \<longleftrightarrow>
     0 < cc_dropped_at c \<and> past (cc_dropped_at c) (cc_pickup_at c) \<and> past (cc_pickup_at c) (cc_assigned_at c) \<and>
     (cc_pickup_arrived_at c = 0 \<or> cc_assigned_at c \<le> cc_pickup_arrived_at c \<and> cc_pickup_arrived_at c \<le> cc_dropped_at c) \<and>
     (cc_pickup_left_at c = 0 \<or>
        cc_pickup_arrived_at c \<noteq> 0 \<and> cc_pickup_arrived_at c \<le> cc_pickup_left_at c \<and> cc_pickup_left_at c \<le> cc_dropped_at c) \<and>
     (cc_arrived_at c = 0 \<or>
        cc_pickup_at c \<le> cc_arrived_at c \<and> cc_pickup_arrived_at c \<le> cc_arrived_at c \<and> cc_arrived_at c \<le> cc_dropped_at c) \<and>
     cc_laden_leg_ms c = (if cc_pickup_at c > 0 then cc_dropped_at c - cc_pickup_at c else 0) \<and>
     0 \<le> cc_empty_leg_ms c \<and> 0 \<le> cc_empty_leg_m c \<and> MIN_CARRY_TRIP_M \<le> cc_laden_leg_m c"

lemma dist_m_nonneg [simp]: "0 \<le> dist_m a b"
  by (simp add: dist_m_def Let_def)

lemma oc_ok_mono: "oc_ok t oc \<Longrightarrow> t \<le> now \<Longrightarrow> oc_ok now oc"
  by (auto simp: oc_ok_def)

lemma pos_ok_mono: "pos_ok t p \<Longrightarrow> t \<le> now \<Longrightarrow> pos_ok now p"
  by (auto simp: pos_ok_def oc_ok_mono split: option.splits)

lemma oc_arrival_ok: "oc_ok now oc \<Longrightarrow> 0 < now \<Longrightarrow> oc_ok now (oc_arrival now prev tn p oc)"
  by (auto simp: oc_arrival_def oc_ok_def Let_def)

lemma oc_shadow_ok: "oc_ok now oc \<Longrightarrow> oc_ok now (oc_shadow now m p oc)"
  by (auto simp: oc_shadow_def oc_ok_def Let_def)

lemma with_cycle_ok: "pos_ok now p \<Longrightarrow> (\<And>oc. oc_ok now oc \<Longrightarrow> oc_ok now (f oc)) \<Longrightarrow> pos_ok now (with_cycle f p)"
  by (auto simp: with_cycle_def pos_ok_def split: option.splits)

lemma phases_ok: "pos_ok now p \<Longrightarrow> 0 < now \<Longrightarrow> pos_ok now (phases_step dev cp now prev c1 p)"
  by (auto simp: phases_step_def Let_def oc_arrival_ok oc_shadow_ok intro!: with_cycle_ok split: option.splits)
     (auto simp: pos_ok_def with_cycle_def oc_arrival_ok split: option.splits)

lemma open_cycle_ok: "pos_ok now p \<Longrightarrow> 0 < now \<Longrightarrow> oc_ok now (open_cycle_at now p aj)"
  by (auto simp: open_cycle_at_def oc_ok_def pos_ok_def)

lemma next_box_ok: "pos_ok now p \<Longrightarrow> 0 < now \<Longrightarrow> pos_ok now (next_box now aj w c1 p)"
proof -
  assume p: "pos_ok now p" and n: "0 < now"
  have "oc_ok now (open_cycle_at now q aj)"
    if "empty_since q = empty_since p \<or> empty_since q = now" "empty_trip q = empty_trip p \<or> empty_trip q = 0" "empty_arrived q = empty_arrived p" for q
    using that p n by (auto simp: open_cycle_at_def oc_ok_def pos_ok_def)
  then show ?thesis using p n by (auto simp: next_box_def Let_def pos_ok_def)
qed

lemma leave_box_ok: "pos_ok now p \<Longrightarrow> 0 < now \<Longrightarrow> pos_ok now (eo_pos (leave_box did now c1 p))"
  by (auto simp: leave_box_def Let_def pos_ok_def)

lemma finalize_ok: "pos_ok now p \<Longrightarrow> 0 < now \<Longrightarrow> MIN_CARRY_TRIP_M \<le> carry_trip p \<Longrightarrow> cycle_ok (finalize_cycle did p now c2c)"
  by (auto simp: finalize_cycle_def cycle_ok_def pos_ok_def oc_ok_def oc_default_def Let_def split: option.splits)

lemma edge_ok:
  assumes "pos_ok now p" "0 < now"
  shows "pos_ok now (eo_pos (container_edge did now aj c0 c1 sw p))"
    "eo_completed (container_edge did now aj c0 c1 sw p) = Some c \<Longrightarrow> cycle_ok c \<and> cc_dropped_at c = now"
proof -
  show "pos_ok now (eo_pos (container_edge did now aj c0 c1 sw p))"
    using assms by (auto simp: container_edge_def Let_def leave_box_ok next_box_ok)
  assume "eo_completed (container_edge did now aj c0 c1 sw p) = Some c"
  then have "MIN_CARRY_TRIP_M \<le> carry_trip p" and c: "c = finalize_cycle did (p\<lparr>last_drop := now\<rparr>) now (c1 \<noteq> [])"
    by (auto simp: container_edge_def leave_box_def Let_def split: if_splits)
  moreover have "pos_ok now (p\<lparr>last_drop := now\<rparr>)" using assms by (simp add: pos_ok_def)
  ultimately show "cycle_ok c \<and> cc_dropped_at c = now" using assms(2) by (simp add: finalize_ok) (simp add: finalize_cycle_def Let_def)
qed

text \<open>The fields of the fix itself survive the machine.\<close>

lemma phases_feed:
  "f_cls (phases_step dev cp now prev c1 p) = f_cls p" "f_lat (phases_step dev cp now prev c1 p) = f_lat p"
  "f_lon (phases_step dev cp now prev c1 p) = f_lon p" "f_last_seen (phases_step dev cp now prev c1 p) = f_last_seen p"
  "f_container1 (phases_step dev cp now prev c1 p) = f_container1 p" "f_container2 (phases_step dev cp now prev c1 p) = f_container2 p"
  "v2 (phases_step dev cp now prev c1 p) = v2 p" "carry_since (phases_step dev cp now prev c1 p) = carry_since p"
  "carry_trip (phases_step dev cp now prev c1 p) = carry_trip p" "last_drop (phases_step dev cp now prev c1 p) = last_drop p"
  by (auto simp: phases_step_def with_cycle_def Let_def split: option.splits)

lemma edge_feed:
  "f_cls (eo_pos (container_edge did now aj c0 c1 sw p)) = f_cls p" "f_lat (eo_pos (container_edge did now aj c0 c1 sw p)) = f_lat p"
  "f_lon (eo_pos (container_edge did now aj c0 c1 sw p)) = f_lon p" "f_last_seen (eo_pos (container_edge did now aj c0 c1 sw p)) = f_last_seen p"
  "v2 (eo_pos (container_edge did now aj c0 c1 sw p)) = v2 p"
  by (auto simp: container_edge_def leave_box_def next_box_def Let_def)

lemma carry_over_feed:
  "f_cls (carry_over pv t2 p) = f_cls p" "f_lat (carry_over pv t2 p) = f_lat p" "f_lon (carry_over pv t2 p) = f_lon p"
  "f_last_seen (carry_over pv t2 p) = f_last_seen p" "f_container1 (carry_over pv t2 p) = f_container1 p"
  "f_container2 (carry_over pv t2 p) = f_container2 p" "f_arrival (carry_over pv t2 p) = f_arrival p"
  by (auto simp: carry_over_def Let_def split: option.splits)

lemmas feed_simps = phases_feed edge_feed carry_over_feed

text \<open>A fix fresh from the feed holds no state yet.\<close>

definition fresh :: "pos \<Rightarrow> bool" where
  "fresh p \<longleftrightarrow> carry_since p = 0 \<and> last_drop p = 0 \<and> carry_trip p = 0 \<and> empty_since p = 0 \<and> empty_trip p = 0 \<and> empty_arrived p = 0 \<and>
     cycle_open p = None \<and> v2 p = v2_default"

lemma carry_over_ok:
  assumes "fresh p" "0 < now" "\<And>q. pv = Some q \<Longrightarrow> pos_ok now q"
  shows "pos_ok now (carry_over pv t2 p)"
  using assms by (auto simp: carry_over_def fresh_def pos_ok_def Let_def add_nonneg_nonneg split: option.splits)

lemma pos_ok_more [simp]: "pos_ok now (p\<lparr>is_assigned := b\<rparr>) = pos_ok now p" "pos_ok now (p\<lparr>v2 := s\<rparr>) = pos_ok now p"
  by (simp_all add: pos_ok_def)

text \<open>What one fix does to the first machine.\<close>

definition truck_edge :: "(string \<rightharpoonup> pos) \<Rightarrow> (int \<times> int) option \<Rightarrow> assigned_job option \<Rightarrow> string \<Rightarrow> int \<Rightarrow> pos option \<Rightarrow> pos \<Rightarrow> edge_out" where
  "truck_edge dev cp aj did now pv p =
     (let c1 = str_of (f_container1 p); c0 = str_of (Option.bind pv f_container1)
      in container_edge did now aj c0 c1 (slot_swap c0 (str_of (Option.bind pv f_container2)) c1 (str_of (f_container2 p)))
           (phases_step dev cp now (case pv of None \<Rightarrow> False | Some q \<Rightarrow> arrived q) c1 p))"

lemma truck_step_parts:
  "\<exists>s. fo_pos (truck_step dev cp aj did now pv p) = (eo_pos (truck_edge dev cp aj did now pv p))\<lparr>v2 := s\<rparr>"
  "fo_completed (truck_step dev cp aj did now pv p) = eo_completed (truck_edge dev cp aj did now pv p)"
  "fo_sample (truck_step dev cp aj did now pv p) = eo_sample (truck_edge dev cp aj did now pv p)"
  "fo_artifact (truck_step dev cp aj did now pv p) = eo_artifact (truck_edge dev cp aj did now pv p)"
  "fo_near (truck_step dev cp aj did now pv p) = eo_near (truck_edge dev cp aj did now pv p)"
  unfolding truck_step_def truck_edge_def Let_def by (auto split: prod.splits)

lemma truck_edge_ok:
  assumes "pos_ok now p" "0 < now"
  shows "pos_ok now (eo_pos (truck_edge dev cp aj did now pv p))"
    "eo_completed (truck_edge dev cp aj did now pv p) = Some c \<Longrightarrow> cycle_ok c \<and> cc_dropped_at c = now"
  unfolding truck_edge_def Let_def
  by (rule edge_ok(1)[OF phases_ok[OF assms] assms(2)], rule edge_ok(2)[OF phases_ok[OF assms] assms(2)])

lemma fix_step_ok:
  assumes "fresh p" "0 < now" "\<And>q. dev did = Some q \<Longrightarrow> pos_ok now q"
  shows "pos_ok now (fo_pos (fix_step dev cp aj t2 did now p))"
    "fo_completed (fix_step dev cp aj t2 did now p) = Some c \<Longrightarrow> cycle_ok c \<and> cc_dropped_at c = now"
proof -
  define q where "q = (carry_over (dev did) t2 p)\<lparr>is_assigned := (aj \<noteq> None)\<rparr>"
  have q: "pos_ok now q" unfolding q_def using carry_over_ok[OF assms] by simp
  have f: "fix_step dev cp aj t2 did now p =
      (if f_cls q = ''TT'' then truck_step dev cp aj did now (dev did) q
       else \<lparr>fo_pos = q, fo_completed = None, fo_sample = None, fo_artifact = False, fo_near = False, fo_completed_v2 = None\<rparr>)"
    unfolding fix_step_def q_def Let_def by simp
  obtain s where s: "fo_pos (truck_step dev cp aj did now (dev did) q) = (eo_pos (truck_edge dev cp aj did now (dev did) q))\<lparr>v2 := s\<rparr>"
    using truck_step_parts(1) by blast
  show "pos_ok now (fo_pos (fix_step dev cp aj t2 did now p))"
    unfolding f using q truck_edge_ok(1)[OF q assms(2)] by (simp add: s)
  assume "fo_completed (fix_step dev cp aj t2 did now p) = Some c"
  then have "eo_completed (truck_edge dev cp aj did now (dev did) q) = Some c" unfolding f by (simp add: truck_step_parts(2) split: if_splits)
  then show "cycle_ok c \<and> cc_dropped_at c = now" by (rule truck_edge_ok(2)[OF q assms(2)])
qed

section \<open>What a frame changes\<close>

lemma learn_keeps:
  "lm_devices (learn_points now p lm) = lm_devices lm" "lm_plc (learn_points now p lm) = lm_plc lm"
  "lm_assigned_pool (learn_points now p lm) = lm_assigned_pool lm" "lm_cycle_log (learn_points now p lm) = lm_cycle_log lm"
  "lm_cycle_v2 (learn_points now p lm) = lm_cycle_v2 lm" "lm_ring (learn_points now p lm) = lm_ring lm"
  "lm_devices (learn_lane did p lm) = lm_devices lm" "lm_plc (learn_lane did p lm) = lm_plc lm"
  "lm_assigned_pool (learn_lane did p lm) = lm_assigned_pool lm" "lm_cycle_log (learn_lane did p lm) = lm_cycle_log lm"
  "lm_cycle_v2 (learn_lane did p lm) = lm_cycle_v2 lm" "lm_ring (learn_lane did p lm) = lm_ring lm"
  by (auto simp: learn_points_def learn_topos_def learn_lane_def Let_def split: option.splits prod.splits)

text \<open>The fix a frame carries, when it passes the gate.\<close>

definition accepted :: "parse_f64 \<Rightarrow> (string \<Rightarrow> int option) \<Rightarrow> int \<Rightarrow> string \<Rightarrow> fields \<Rightarrow> pos \<Rightarrow> bool" where
  "accepted pf rd now did g p \<longleftrightarrow>
     (\<exists>lat lon. num pf (g ''lat'') = Some lat \<and> num pf (g ''lon'') = Some lon \<and> \<not> (lat = 0 \<and> lon = 0) \<and>
        gate_fix (device_class did) lat lon \<noteq> Drop \<and> p = read_fix pf rd now did g lat lon)"

definition out_of :: "int \<Rightarrow> string \<Rightarrow> fields \<Rightarrow> pos \<Rightarrow> live_map \<Rightarrow> fix_out" where
  "out_of now did g p lm = fix_step (lm_devices lm) (crane_plc_of lm p) (lm_assigned_pool lm did) (opt_str g ''topos2'') did now p"

lemma crane_plc_of_cong: "lm_plc lm = lm_plc lm' \<Longrightarrow> crane_plc_of lm p = crane_plc_of lm' p"
  by (simp add: crane_plc_of_def split: option.split)

lemma ingest_effect:
  obtains (ignored) "lm_devices (ingest_text pf rd now did g lm) = lm_devices lm" "lm_plc (ingest_text pf rd now did g lm) = lm_plc lm"
      "lm_cycle_log (ingest_text pf rd now did g lm) = lm_cycle_log lm" "lm_cycle_v2 (ingest_text pf rd now did g lm) = lm_cycle_v2 lm"
      "lm_ring (ingest_text pf rd now did g lm) = lm_ring lm" "\<nexists>p. accepted pf rd now did g p"
  | (taken) p where "accepted pf rd now did g p"
      "lm_devices (ingest_text pf rd now did g lm) = (lm_devices lm)(did \<mapsto> fo_pos (out_of now did g p lm))"
      "lm_plc (ingest_text pf rd now did g lm) = lm_plc lm"
      "lm_cycle_log (ingest_text pf rd now did g lm) =
         (case fo_completed (out_of now did g p lm) of None \<Rightarrow> lm_cycle_log lm | Some c \<Rightarrow> push_capped c (lm_cycle_log lm))"
      "lm_cycle_v2 (ingest_text pf rd now did g lm) =
         (case fo_completed_v2 (out_of now did g p lm) of None \<Rightarrow> lm_cycle_v2 lm | Some c \<Rightarrow> push_capped c (lm_cycle_v2 lm))"
      "lm_ring (ingest_text pf rd now did g lm) = ring_bump (now div 60000) (lm_ring lm)"
proof (cases "\<exists>p. accepted pf rd now did g p")
  case True
  then obtain lat lon where l: "num pf (g ''lat'') = Some lat" "num pf (g ''lon'') = Some lon" "\<not> (lat = 0 \<and> lon = 0)"
      "gate_fix (device_class did) lat lon \<noteq> Drop"
    unfolding accepted_def by blast
  define p where "p = read_fix pf rd now did g lat lon"
  define lm1 where "lm1 = (case gate_fix (device_class did) lat lon of KeepButFar _ \<Rightarrow> lm\<lparr>lm_far_unmeasured := lm_far_unmeasured lm + 1\<rparr> | _ \<Rightarrow> lm)"
  have i: "ingest_text pf rd now did g lm = ingest_fix now did (opt_str g ''topos2'') p lm1"
    using l by (auto simp: ingest_text_def p_def lm1_def split: fix_gate.splits)
  have s: "lm_devices lm1 = lm_devices lm" "lm_plc lm1 = lm_plc lm" "lm_assigned_pool lm1 = lm_assigned_pool lm"
      "lm_cycle_log lm1 = lm_cycle_log lm" "lm_cycle_v2 lm1 = lm_cycle_v2 lm" "lm_ring lm1 = lm_ring lm"
    by (auto simp: lm1_def split: fix_gate.splits)
  have cp: "crane_plc_of (learn_lane did p (learn_points now p lm1)) p = crane_plc_of lm p"
    by (rule crane_plc_of_cong) (simp add: learn_keeps s)
  show ?thesis
  proof (rule taken)
    show "accepted pf rd now did g p" unfolding accepted_def using l p_def by blast
  qed (simp_all add: i ingest_fix_def record_out_def Let_def learn_keeps s cp out_of_def split: option.split)
next
  case False
  then have "ingest_text pf rd now did g lm = lm \<or> ingest_text pf rd now did g lm = lm\<lparr>lm_rejected_far := lm_rejected_far lm + 1\<rparr>"
    unfolding accepted_def ingest_text_def by (auto split: option.splits fix_gate.splits)
  with False show ?thesis by (intro ignored) auto
qed

lemma accepted_fresh: "accepted pf rd now did g p \<Longrightarrow> fresh p"
  by (auto simp: accepted_def read_fix_def fresh_def)

section \<open>Invariants of a run\<close>

text \<open>The contract of an invariant: it holds at the start, survives waiting and every step.\<close>

locale feed_inv =
  fixes pf :: parse_f64 and rd :: "string \<Rightarrow> int option" and I :: "int \<Rightarrow> live_map \<Rightarrow> bool"
  assumes at_start: "0 < now \<Longrightarrow> I now live_new"
    and wait: "I t lm \<Longrightarrow> t \<le> now \<Longrightarrow> I now lm"
    and keeps: "I now lm \<Longrightarrow> 0 < now \<Longrightarrow> I now (feed_step pf rd now ev lm)"
begin

lemma reachable_inv: "reachable pf rd now lm \<Longrightarrow> 0 < now \<and> I now lm"
proof (induction rule: reachable.induct)
  case (start now)
  then show ?case using at_start by blast
next
  case (step t lm now ev)
  then show ?case using wait[of t lm now] keeps[of now lm ev] by simp
qed

end

text \<open>An invariant of every tracked device, which one fix has to establish from the device before it.\<close>

locale device_inv =
  fixes pf :: parse_f64 and rd :: "string \<Rightarrow> int option" and D :: "int \<Rightarrow> string \<Rightarrow> pos \<Rightarrow> bool"
  assumes later: "D t did p \<Longrightarrow> t \<le> now \<Longrightarrow> D now did p"
    and fixed: "accepted pf rd now did g p \<Longrightarrow> 0 < now \<Longrightarrow> (\<And>q. dev did = Some q \<Longrightarrow> D now did q) \<Longrightarrow>
      D now did (fo_pos (fix_step dev cp aj t2 did now p))"
begin

definition every :: "int \<Rightarrow> live_map \<Rightarrow> bool" where
  "every now lm \<longleftrightarrow> (\<forall>did p. lm_devices lm did = Some p \<longrightarrow> D now did p)"

lemma every_gps: "every now lm \<Longrightarrow> 0 < now \<Longrightarrow> every now (ingest_text pf rd now did g lm)"
proof (cases rule: ingest_effect[of pf rd now did g lm])
  case (taken p)
  assume "every now lm" "0 < now"
  then show ?thesis using taken(1,2) fixed by (auto simp: every_def out_of_def)
qed (simp add: every_def)

lemma every_step: "every now lm \<Longrightarrow> 0 < now \<Longrightarrow> every now (feed_step pf rd now ev lm)"
  by (cases ev)
     (auto simp: every_gps, auto simp: every_def ingest_ctab_def refresh_def prune_lost_def retain_def Let_def split: option.splits if_splits)

end

sublocale device_inv \<subseteq> feed_inv pf rd every
  by unfold_locales (simp add: every_def live_new_def, unfold every_def, blast intro: later, fold every_def, rule every_step)

text \<open>The phases of every device are in order.\<close>

interpretation phases: device_inv pf rd "\<lambda>now did p. pos_ok now p" for pf rd
  by unfold_locales (auto simp: pos_ok_mono accepted_fresh fix_step_ok)

section \<open>The gate\<close>

definition in_place :: "string \<Rightarrow> pos \<Rightarrow> bool" where
  "in_place did p \<longleftrightarrow> f_cls p = device_class did \<and> (f_cls p = ''TT'' \<longrightarrow> dist_from_terminal_m (f_lat p) (f_lon p) \<le> TT_MAX_R_M)"

lemma truck_edge_feed:
  "f_cls (eo_pos (truck_edge dev cp aj did now pv p)) = f_cls p" "f_lat (eo_pos (truck_edge dev cp aj did now pv p)) = f_lat p"
  "f_lon (eo_pos (truck_edge dev cp aj did now pv p)) = f_lon p" "f_last_seen (eo_pos (truck_edge dev cp aj did now pv p)) = f_last_seen p"
  by (simp_all add: truck_edge_def Let_def feed_simps)

lemma fix_step_feed:
  "f_cls (fo_pos (fix_step dev cp aj t2 did now p)) = f_cls p" "f_lat (fo_pos (fix_step dev cp aj t2 did now p)) = f_lat p"
  "f_lon (fo_pos (fix_step dev cp aj t2 did now p)) = f_lon p" "f_last_seen (fo_pos (fix_step dev cp aj t2 did now p)) = f_last_seen p"
proof -
  define q where "q = (carry_over (dev did) t2 p)\<lparr>is_assigned := (aj \<noteq> None)\<rparr>"
  obtain s where s: "fo_pos (truck_step dev cp aj did now (dev did) q) = (eo_pos (truck_edge dev cp aj did now (dev did) q))\<lparr>v2 := s\<rparr>"
    using truck_step_parts(1) by blast
  have f: "fo_pos (fix_step dev cp aj t2 did now p) = (if f_cls q = ''TT'' then (eo_pos (truck_edge dev cp aj did now (dev did) q))\<lparr>v2 := s\<rparr> else q)"
    unfolding fix_step_def Let_def q_def[symmetric] using s by simp
  have q: "f_cls q = f_cls p" "f_lat q = f_lat p" "f_lon q = f_lon p" "f_last_seen q = f_last_seen p"
    by (simp_all add: q_def feed_simps)
  show "f_cls (fo_pos (fix_step dev cp aj t2 did now p)) = f_cls p" "f_lat (fo_pos (fix_step dev cp aj t2 did now p)) = f_lat p"
    "f_lon (fo_pos (fix_step dev cp aj t2 did now p)) = f_lon p" "f_last_seen (fo_pos (fix_step dev cp aj t2 did now p)) = f_last_seen p"
    unfolding f using q by (simp_all add: truck_edge_feed)
qed

lemma accepted_in_place: "accepted pf rd now did g p \<Longrightarrow> in_place did p \<and> f_last_seen p = now"
  using gate_tt by (auto simp: accepted_def in_place_def read_fix_def gate_tt not_less)

interpretation gated: device_inv pf rd "\<lambda>now did p. in_place did p \<and> f_last_seen p \<le> now" for pf rd
proof unfold_locales
  fix now did g p dev cp aj t2
  assume "accepted pf rd now did g p"
  then have "in_place did p" "f_last_seen p = now" using accepted_in_place by auto
  then show "in_place did (fo_pos (fix_step dev cp aj t2 did now p)) \<and> f_last_seen (fo_pos (fix_step dev cp aj t2 did now p)) \<le> now"
    by (simp add: in_place_def fix_step_feed)
qed simp

section \<open>The legs\<close>

lemma v2_keeps_legs [simp]:
  "v2_legs (v2_progress dev now pa p s) = v2_legs s" "v2_legs (v2_open_if t p s) = v2_legs s" "v2_legs (v2_pickup now c0 c1 p s) = v2_legs s"
  by (auto simp: v2_progress_def v2_open_if_def v2_pickup_def Let_def split: option.splits)

lemma close_legs_len: "length (fst (close_legs now jt s)) \<le> Suc (length (v2_legs s))"
  by (auto simp: close_legs_def Let_def split: option.splits)

lemma v2_reopen_legs [simp]: "v2_legs (v2_reopen now c1 pt carry p) = []"
  by (auto simp: v2_reopen_def v2_default_def v2_open_if_def Let_def split: option.splits)

lemma add_leg_len: "length legs \<le> V2_LEGS_MAX \<Longrightarrow> length (add_leg now cur legs) \<le> V2_LEGS_MAX"
  by (auto simp: add_leg_def V2_LEGS_MAX_def)

lemma v2_transition_len: "length (v2_legs s) \<le> V2_LEGS_MAX \<Longrightarrow> length (v2_legs (v2_transition now c0 c1 pt p s)) \<le> V2_LEGS_MAX"
  by (auto simp: v2_transition_def Let_def add_leg_len split: option.splits)

lemma v2_close_len:
  assumes "length (v2_legs s) \<le> V2_LEGS_MAX"
  shows "length (v2_legs (fst (v2_close did now c c1 pt p s))) \<le> V2_LEGS_MAX"
    "snd (v2_close did now c c1 pt p s) = Some v \<Longrightarrow> cv_legs v \<noteq> [] \<and> length (cv_legs v) \<le> Suc V2_LEGS_MAX"
  using assms close_legs_len[of now "or_else (v2_jobtype s) (latched_jobtype p)" s]
  by (auto simp: v2_close_def v2_completed_def Let_def split: option.splits if_splits prod.splits)

lemma truck_step_legs:
  assumes "length (v2_legs (v2 p)) \<le> V2_LEGS_MAX"
  shows "length (v2_legs (v2 (fo_pos (truck_step dev cp aj did now pv p)))) \<le> V2_LEGS_MAX"
    "fo_completed_v2 (truck_step dev cp aj did now pv p) = Some v \<Longrightarrow> cv_legs v \<noteq> [] \<and> length (cv_legs v) \<le> Suc V2_LEGS_MAX"
  using assms unfolding truck_step_def Let_def case_prod_beta
  by (simp_all add: feed_simps v2_transition_len v2_close_len(1)) (rule v2_close_len(2)[rotated], assumption, simp add: feed_simps)

lemma carry_over_legs:
  assumes "fresh p" "\<And>q. pv = Some q \<Longrightarrow> length (v2_legs (v2 q)) \<le> V2_LEGS_MAX"
  shows "length (v2_legs (v2 (carry_over pv t2 p))) \<le> V2_LEGS_MAX"
  using assms by (auto simp: carry_over_def fresh_def v2_default_def Let_def split: option.splits)

lemma fix_step_legs:
  assumes "fresh p" "\<And>q. dev did = Some q \<Longrightarrow> length (v2_legs (v2 q)) \<le> V2_LEGS_MAX"
  shows "length (v2_legs (v2 (fo_pos (fix_step dev cp aj t2 did now p)))) \<le> V2_LEGS_MAX"
    "fo_completed_v2 (fix_step dev cp aj t2 did now p) = Some v \<Longrightarrow> cv_legs v \<noteq> [] \<and> length (cv_legs v) \<le> Suc V2_LEGS_MAX"
  using carry_over_legs[OF assms] by (auto simp: fix_step_def Let_def dest: truck_step_legs(2)[rotated] intro!: truck_step_legs(1) split: if_splits)

interpretation legs: device_inv pf rd "\<lambda>now did p. length (v2_legs (v2 p)) \<le> V2_LEGS_MAX" for pf rd
  by unfold_locales (auto simp: accepted_fresh fix_step_legs)

section \<open>The buffers\<close>

lemma push_capped_len: "length (push_capped x xs) \<le> CYCLE_BUF_MAX"
  by (simp add: push_capped_def Let_def)

lemma push_capped_set: "y \<in> set (push_capped x xs) \<Longrightarrow> y = x \<or> y \<in> set xs"
  using set_drop_subset by (fastforce simp: push_capped_def Let_def)

definition buffers_ok :: "int \<Rightarrow> live_map \<Rightarrow> bool" where
  "buffers_ok now lm \<longleftrightarrow>
     length (lm_cycle_log lm) \<le> CYCLE_BUF_MAX \<and> list_all (\<lambda>c. cycle_ok c \<and> cc_dropped_at c \<le> now) (lm_cycle_log lm) \<and>
     length (lm_cycle_v2 lm) \<le> CYCLE_BUF_MAX \<and> list_all (\<lambda>c. cv_legs c \<noteq> [] \<and> length (cv_legs c) \<le> Suc V2_LEGS_MAX) (lm_cycle_v2 lm) \<and>
     ring_ok (lm_ring lm)"

lemma buffers_gps:
  assumes "buffers_ok now lm" "phases.every now lm" "legs.every now lm" "0 < now"
  shows "buffers_ok now (ingest_text pf rd now did g lm)"
proof (cases rule: ingest_effect[of pf rd now did g lm])
  case (taken p)
  have d: "\<And>q. lm_devices lm did = Some q \<Longrightarrow> pos_ok now q \<and> length (v2_legs (v2 q)) \<le> V2_LEGS_MAX"
    using assms(2,3) by (auto simp: phases.every_def legs.every_def)
  have c: "cycle_ok c \<and> cc_dropped_at c = now" if "fo_completed (out_of now did g p lm) = Some c" for c
    using that unfolding out_of_def by (rule fix_step_ok(2)[OF accepted_fresh[OF taken(1)] assms(4), rotated]) (use d in blast)
  have v: "cv_legs v \<noteq> [] \<and> length (cv_legs v) \<le> Suc V2_LEGS_MAX" if "fo_completed_v2 (out_of now did g p lm) = Some v" for v
    using that unfolding out_of_def by (rule fix_step_legs(2)[OF accepted_fresh[OF taken(1)], rotated]) (use d in blast)
  show ?thesis unfolding buffers_ok_def taken(4-6) using assms(1) c v
    by (auto simp: buffers_ok_def list_all_iff push_capped_len ring_bump_ok dest!: push_capped_set split: option.splits)
qed (use assms(1) in \<open>simp add: buffers_ok_def\<close>)

lemma buffers_step:
  assumes "buffers_ok now lm" "phases.every now lm" "legs.every now lm" "0 < now"
  shows "buffers_ok now (feed_step pf rd now ev lm)"
  using assms by (cases ev)
    (auto simp: buffers_gps, auto simp: buffers_ok_def ingest_ctab_def refresh_def prune_lost_def Let_def split: option.splits)

interpretation buffers: feed_inv pf rd "\<lambda>now lm. buffers_ok now lm \<and> phases.every now lm \<and> legs.every now lm" for pf rd
proof unfold_locales
  fix now :: int
  assume "0 < now"
  then show "buffers_ok now live_new \<and> phases.every now live_new \<and> legs.every now live_new"
    by (auto simp: phases.at_start legs.at_start) (simp add: buffers_ok_def live_new_def ring_ok_def ring_new_def SPARK_MIN_def)
next
  fix t lm now
  assume "buffers_ok t lm \<and> phases.every t lm \<and> legs.every t lm" "t \<le> now"
  then show "buffers_ok now lm \<and> phases.every now lm \<and> legs.every now lm"
    by (auto intro: phases.wait legs.wait) (auto simp: buffers_ok_def list_all_iff)
next
  fix now lm ev
  assume "buffers_ok now lm \<and> phases.every now lm \<and> legs.every now lm" "0 < now"
  then show "buffers_ok now (feed_step pf rd now ev lm) \<and> phases.every now (feed_step pf rd now ev lm) \<and> legs.every now (feed_step pf rd now ev lm)"
    using buffers_step phases.keeps legs.keeps by blast
qed

section \<open>Deliveries\<close>

text \<open>
  What a truck carried before the fix, and how long and how far, with the way driven since: the box counts as
  delivered only when it was held for 30 s (or since before the truck was seen) and driven 150 m.
\<close>

definition moved_off :: "pos option \<Rightarrow> pos \<Rightarrow> bool" where
  "moved_off pv p \<longleftrightarrow>
     (let c0 = str_of (Option.bind pv f_container1); c1 = str_of (f_container1 p) in
      c0 \<noteq> [] \<and> c1 \<noteq> c0 \<and>
      \<not> (c1 \<noteq> [] \<and> {#c0, str_of (Option.bind pv f_container2)#} = {#c1, str_of (f_container2 p)#}))"

definition driven :: "pos option \<Rightarrow> pos \<Rightarrow> real" where
  "driven pv p = carry_trip (carry_over pv None p)"

definition held_since :: "pos option \<Rightarrow> pos \<Rightarrow> int" where
  "held_since pv p = carry_since (carry_over pv None p)"

definition held_long :: "int \<Rightarrow> pos option \<Rightarrow> pos \<Rightarrow> bool" where
  "held_long now pv p \<longleftrightarrow> held_since pv p \<le> 0 \<or> now - held_since pv p \<ge> MIN_LOADED_MS"

lemma carry_over_topos2 [simp]:
  "carry_trip (carry_over pv t2 p) = driven pv p" "carry_since (carry_over pv t2 p) = held_since pv p"
  by (auto simp: driven_def held_since_def carry_over_def Let_def split: option.splits)

lemma truck_edge_verdict:
  "eo_completed (truck_edge dev cp aj did now pv q) \<noteq> None \<longleftrightarrow>
     moved_off pv q \<and> (carry_since q \<le> 0 \<or> now - carry_since q \<ge> MIN_LOADED_MS) \<and> carry_trip q \<ge> MIN_CARRY_TRIP_M"
  "eo_artifact (truck_edge dev cp aj did now pv q) \<longleftrightarrow>
     moved_off pv q \<and> (carry_since q \<le> 0 \<or> now - carry_since q \<ge> MIN_LOADED_MS) \<and> \<not> carry_trip q \<ge> MIN_CARRY_TRIP_M"
  by (auto simp: truck_edge_def container_edge_def leave_box_def slot_swap_def moved_off_def Let_def feed_simps)

lemma fix_step_edge:
  fixes dev aj t2 did p
  defines "q \<equiv> (carry_over (dev did) t2 p)\<lparr>is_assigned := (aj \<noteq> None)\<rparr>"
  shows "fo_completed (fix_step dev cp aj t2 did now p) = (if f_cls p = ''TT'' then eo_completed (truck_edge dev cp aj did now (dev did) q) else None)"
    "fo_artifact (fix_step dev cp aj t2 did now p) \<longleftrightarrow> f_cls p = ''TT'' \<and> eo_artifact (truck_edge dev cp aj did now (dev did) q)"
  by (simp_all add: fix_step_def Let_def truck_step_parts feed_simps q_def)

lemma moved_off_carry [simp]: "moved_off pv ((carry_over pv t2 p)\<lparr>is_assigned := b\<rparr>) = moved_off pv p"
  by (simp add: moved_off_def feed_simps)

lemma fix_step_verdict:
  "fo_completed (fix_step dev cp aj t2 did now p) \<noteq> None \<longleftrightarrow>
     f_cls p = ''TT'' \<and> moved_off (dev did) p \<and> held_long now (dev did) p \<and> driven (dev did) p \<ge> MIN_CARRY_TRIP_M"
  "fo_artifact (fix_step dev cp aj t2 did now p) \<longleftrightarrow>
     f_cls p = ''TT'' \<and> moved_off (dev did) p \<and> held_long now (dev did) p \<and> \<not> driven (dev did) p \<ge> MIN_CARRY_TRIP_M"
  unfolding fix_step_edge by (simp_all add: truck_edge_verdict held_long_def Let_def del: not_None_eq)

section \<open>The moves of a crane\<close>

definition plc_ok :: "int \<Rightarrow> plc \<Rightarrow> bool" where
  "plc_ok now e \<longleftrightarrow>
     sorted_wrt (\<lambda>a b. a + MIN_MOVE_GAP_MS \<le> b) (pl_moves e) \<and> (pl_moves e = [] \<longleftrightarrow> pl_last_move e = 0) \<and>
     (pl_moves e \<noteq> [] \<longrightarrow> last (pl_moves e) = pl_last_move e) \<and> (\<forall>m \<in> set (pl_moves e). 0 < m \<and> pl_last_move e - m \<le> MOVE_WINDOW_MS) \<and>
     pl_last_move e \<le> now"

lemma spaced_length: "sorted_wrt (\<lambda>a b. a + MIN_MOVE_GAP_MS \<le> b) (m # ms) \<Longrightarrow> m + MIN_MOVE_GAP_MS * int (length ms) \<le> last (m # ms)"
proof (induction ms arbitrary: m)
  case (Cons x xs)
  then have "x + MIN_MOVE_GAP_MS * int (length xs) \<le> last (x # xs)" "m + MIN_MOVE_GAP_MS \<le> x" by auto
  then show ?case by (simp add: algebra_simps)
qed simp

lemma plc_ok_moves: "plc_ok now e \<Longrightarrow> length (pl_moves e) \<le> 91"
proof (cases "pl_moves e")
  case (Cons m ms)
  assume "plc_ok now e"
  then have "m + MIN_MOVE_GAP_MS * int (length ms) \<le> pl_last_move e" "pl_last_move e - m \<le> MOVE_WINDOW_MS"
    using spaced_length[of m ms] Cons by (auto simp: plc_ok_def)
  then show ?thesis using Cons by (simp add: MIN_MOVE_GAP_MS_def MOVE_WINDOW_MS_def)
qed simp

lemma prune_spaced:
  assumes "sorted_wrt (\<lambda>a b. a + MIN_MOVE_GAP_MS \<le> b) xs" "m \<in> set (prune_ms now xs)"
  shows "now - m \<le> MOVE_WINDOW_MS"
  using assms by (induction xs) (auto simp: prune_ms_def MIN_MOVE_GAP_MS_def split: if_splits)

lemma sorted_wrt_dropWhile: "sorted_wrt R xs \<Longrightarrow> sorted_wrt R (dropWhile P xs)"
  by (induction xs) auto

lemma prune_append_now: "\<exists>ys. prune_ms now (xs @ [now]) = ys @ [now] \<and> set ys \<subseteq> set xs"
  by (induction xs) (auto simp: prune_ms_def MOVE_WINDOW_MS_def)

lemma spaced_last: "sorted_wrt (\<lambda>a b. a + MIN_MOVE_GAP_MS \<le> b) xs \<Longrightarrow> m \<in> set xs \<Longrightarrow> m \<le> last xs"
proof (induction xs)
  case (Cons x xs)
  then show ?case using last_in_set[of xs] by (fastforce simp: MIN_MOVE_GAP_MS_def)
qed simp

lemma plc_step_ok:
  assumes "plc_ok now e" "0 < now"
  shows "plc_ok now (plc_step now hook e)"
proof -
  define counted where "counted = (pl_moves (plc_step now hook e) \<noteq> pl_moves e \<or> pl_last_move (plc_step now hook e) \<noteq> pl_last_move e)"
  show ?thesis
  proof (cases counted)
    case False
    then show ?thesis using assms(1) by (auto simp: counted_def plc_ok_def)
  next
    case True
    then have n: "pl_moves (plc_step now hook e) = prune_ms now (pl_moves e @ [now])" "pl_last_move (plc_step now hook e) = now"
        and g: "pl_last_move e = 0 \<or> now - pl_last_move e \<ge> MIN_MOVE_GAP_MS"
      by (auto simp: counted_def plc_step_def Let_def split: if_splits)
    have "m + MIN_MOVE_GAP_MS \<le> now" if "m \<in> set (pl_moves e)" for m
      using that g assms(1) spaced_last[of "pl_moves e" m] by (auto simp: plc_ok_def)
    then have s: "sorted_wrt (\<lambda>a b. a + MIN_MOVE_GAP_MS \<le> b) (pl_moves e @ [now])"
      using assms(1) by (auto simp: plc_ok_def sorted_wrt_append)
    obtain ys where ys: "prune_ms now (pl_moves e @ [now]) = ys @ [now]" "set ys \<subseteq> set (pl_moves e)" using prune_append_now by blast
    have "sorted_wrt (\<lambda>a b. a + MIN_MOVE_GAP_MS \<le> b) (ys @ [now])" using sorted_wrt_dropWhile[OF s] ys(1) by (metis prune_ms_def)
    moreover have "now - m \<le> MOVE_WINDOW_MS" if "m \<in> set (ys @ [now])" for m using prune_spaced[OF s] that ys(1) by metis
    ultimately show ?thesis using n ys assms by (auto simp: plc_ok_def)
  qed
qed

definition plcs_ok :: "int \<Rightarrow> live_map \<Rightarrow> bool" where
  "plcs_ok now lm \<longleftrightarrow> (\<forall>crane e. lm_plc lm crane = Some e \<longrightarrow> plc_ok now e)"

lemma plc_ok_mono: "plc_ok t e \<Longrightarrow> t \<le> now \<Longrightarrow> plc_ok now e"
  by (auto simp: plc_ok_def)

lemma plc_ok_more [simp]:
  "plc_ok now (e\<lparr>pl_lock := a, pl_land := b, pl_hpos := c, pl_tpos := d, pl_last_seen := f\<rparr>) = plc_ok now e"
  by (simp add: plc_ok_def)

lemma plcs_step: "plcs_ok now lm \<Longrightarrow> 0 < now \<Longrightarrow> plcs_ok now (feed_step pf rd now ev lm)"
proof (cases ev)
  case (Gps did g)
  assume "plcs_ok now lm"
  then show ?thesis unfolding Gps feed_step.simps
    by (cases rule: ingest_effect[of pf rd now did g lm]) (auto simp: plcs_ok_def)
next
  case (Crane g)
  assume a: "plcs_ok now lm" "0 < now"
  have "plc_ok now (or_default plc0 (lm_plc lm) c)" for c
    using a by (auto simp: or_default_def plcs_ok_def plc_ok_def plc0_def split: option.splits)
  then show ?thesis using a by (auto simp: Crane ingest_ctab_def Let_def plcs_ok_def plc_step_ok split: option.splits)
qed (auto simp: plcs_ok_def refresh_def prune_lost_def retain_def Let_def split: option.splits if_splits)

interpretation moves: feed_inv pf rd plcs_ok for pf rd
  by unfold_locales (simp add: plcs_ok_def live_new_def, unfold plcs_ok_def, blast intro: plc_ok_mono, fold plcs_ok_def, rule plcs_step)

section \<open>The arrival time of the feed\<close>

lemma arr_time_bounds: "arr_time h m sec now = Some t \<Longrightarrow> 0 \<le> now \<Longrightarrow> now - 6 * 3600000 \<le> t \<and> t \<le> now + 300000"
proof -
  assume a: "arr_time h m sec now = Some t" "0 \<le> now"
  define mid where "mid = tdiv (now + TZ_MS) DAY_MS * DAY_MS - TZ_MS"
  define tod where "tod = (h * 3600 + m * 60 + sec) * 1000"
  have r: "0 \<le> h" "h < 24" "0 \<le> m" "m < 60" "0 \<le> sec" "sec < 60"
    and t: "t = (if mid + tod > now + 300000 then mid + tod - DAY_MS else mid + tod)" "now - t \<le> 6 * 3600000"
    using a(1) by (auto simp: arr_time_def Let_def mid_def tod_def split: if_splits)
  have "tod < DAY_MS" using r by (simp add: tod_def DAY_MS_def)
  moreover have "mid \<le> now" using a(2) by (simp add: mid_def tdiv_def DAY_MS_def TZ_MS_def)
  ultimately show ?thesis using t by (auto simp: DAY_MS_def)
qed

section \<open>A run\<close>

text \<open>A truck is seen empty, takes a box, and has dropped it 222 m further north.\<close>

definition frame :: "string \<Rightarrow> real \<Rightarrow> fields" where
  "frame box lat = (\<lambda>k. None)(''lat'' := Some (JNum lat), ''lon'' := Some (JNum TERMINAL_LON), ''container1'' := Some (JStr box))"

definition no_float :: parse_f64 where "no_float s = None"
definition no_int :: "string \<Rightarrow> int option" where "no_int s = None"

definition run1 :: live_map where "run1 = ingest_text no_float no_int 1000 ''TT1'' (frame [] 2.928) live_new"
definition run2 :: live_map where "run2 = ingest_text no_float no_int 2000 ''TT1'' (frame ''BOX1'' 2.928) run1"
definition run3 :: live_map where "run3 = ingest_text no_float no_int 40000 ''TT1'' (frame [] 2.93) run2"

lemma class_TT1: "device_class ''TT1'' = ''TT''"
  by (simp add: device_class_def is_alpha_def)

lemma frame_fields:
  "num pf (frame b l ''lat'') = Some l" "num pf (frame b l ''lon'') = Some TERMINAL_LON" "as_str (frame b l ''speed'') = None"
  "as_str (frame b l ''engine_on'') = None"
  "opt_str (frame b l) ''container1'' = (let t = trim b in if t = [] then None else Some t)"
  "opt_str (frame b l) ''container2'' = None" "opt_str (frame b l) ''jobtype'' = None" "opt_str (frame b l) ''vslname'' = None"
  "opt_str (frame b l) ''cur_loc'' = None" "opt_str (frame b l) ''topos1'' = None" "opt_str (frame b l) ''topos2'' = None"
  "opt_str (frame b l) ''arrival'' = None" "opt_str (frame b l) ''arr_dtime'' = None"
  by (simp_all add: frame_def num_def opt_str_def as_str_def Let_def)

lemma frame_accepted:
  assumes "l \<noteq> 0" "\<bar>l - TERMINAL_LAT\<bar> \<le> 0.1"
  shows "accepted no_float no_int now ''TT1'' (frame b l) (read_fix no_float no_int now ''TT1'' (frame b l) l TERMINAL_LON)"
proof -
  have "dist_from_terminal_m l TERMINAL_LON = \<bar>(l - TERMINAL_LAT) * 111320\<bar>" by (simp add: dist_from_terminal_m_def Let_def)
  also have "\<dots> = \<bar>l - TERMINAL_LAT\<bar> * 111320" by (subst abs_mult) simp
  also have "\<dots> \<le> TT_MAX_R_M" using assms(2) by (simp add: TT_MAX_R_M_def)
  finally show ?thesis unfolding accepted_def using assms by (simp add: frame_fields gate_fix_def class_TT1 Let_def)
qed

lemma accepted_unique: "accepted pf rd now did g p \<Longrightarrow> accepted pf rd now did g q \<Longrightarrow> p = q"
  by (auto simp: accepted_def)

text \<open>The load of a truck after a fix: an edge of the box starts a new carry, everything else goes on with it.\<close>

definition box_edge :: "pos option \<Rightarrow> pos \<Rightarrow> bool" where
  "box_edge pv p \<longleftrightarrow>
     (let c0 = str_of (Option.bind pv f_container1); c1 = str_of (f_container1 p)
      in c1 \<noteq> c0 \<and> \<not> slot_swap c0 (str_of (Option.bind pv f_container2)) c1 (str_of (f_container2 p)))"

lemma fix_step_carry:
  assumes "f_cls p = ''TT''"
  shows "carry_since (fo_pos (fix_step dev cp aj t2 did now p)) =
      (if box_edge (dev did) p then if str_of (f_container1 p) = [] then 0 else now else held_since (dev did) p)"
    "carry_trip (fo_pos (fix_step dev cp aj t2 did now p)) = (if box_edge (dev did) p then 0 else driven (dev did) p)"
    "f_container1 (fo_pos (fix_step dev cp aj t2 did now p)) = f_container1 p"
    "f_container2 (fo_pos (fix_step dev cp aj t2 did now p)) = f_container2 p"
proof -
  define q where "q = (carry_over (dev did) t2 p)\<lparr>is_assigned := (aj \<noteq> None)\<rparr>"
  obtain s where s: "fo_pos (truck_step dev cp aj did now (dev did) q) = (eo_pos (truck_edge dev cp aj did now (dev did) q))\<lparr>v2 := s\<rparr>"
    using truck_step_parts(1) by blast
  have f: "fo_pos (fix_step dev cp aj t2 did now p) = (eo_pos (truck_edge dev cp aj did now (dev did) q))\<lparr>v2 := s\<rparr>"
    unfolding fix_step_def Let_def q_def[symmetric] using s assms by (simp add: q_def feed_simps)
  have q: "f_container1 q = f_container1 p" "f_container2 q = f_container2 p" "carry_since q = held_since (dev did) p" "carry_trip q = driven (dev did) p"
    by (simp_all add: q_def feed_simps)
  show "carry_since (fo_pos (fix_step dev cp aj t2 did now p)) =
      (if box_edge (dev did) p then if str_of (f_container1 p) = [] then 0 else now else held_since (dev did) p)"
    "carry_trip (fo_pos (fix_step dev cp aj t2 did now p)) = (if box_edge (dev did) p then 0 else driven (dev did) p)"
    "f_container1 (fo_pos (fix_step dev cp aj t2 did now p)) = f_container1 p"
    "f_container2 (fo_pos (fix_step dev cp aj t2 did now p)) = f_container2 p"
    unfolding f using q
    by (auto simp: truck_edge_def container_edge_def leave_box_def next_box_def box_edge_def feed_simps Let_def)
qed

abbreviation fix1 :: "int \<Rightarrow> string \<Rightarrow> real \<Rightarrow> pos" where
  "fix1 now b l \<equiv> read_fix no_float no_int now ''TT1'' (frame b l) l TERMINAL_LON"

lemma fix1_fields:
  "f_cls (fix1 now b l) = ''TT''" "f_lat (fix1 now b l) = l" "f_lon (fix1 now b l) = TERMINAL_LON"
  "f_container1 (fix1 now b l) = (let t = trim b in if t = [] then None else Some t)" "f_container2 (fix1 now b l) = None"
  "carry_trip (fix1 now b l) = 0" "carry_since (fix1 now b l) = 0"
  by (simp_all add: read_fix_def class_TT1 frame_fields)

lemma frame_effect:
  fixes now b l lm
  assumes "l \<noteq> 0" "\<bar>l - TERMINAL_LAT\<bar> \<le> 0.1"
  defines "out \<equiv> out_of now ''TT1'' (frame b l) (fix1 now b l) lm"
  shows "lm_devices (ingest_text no_float no_int now ''TT1'' (frame b l) lm) ''TT1'' = Some (fo_pos out)"
    "lm_cycle_log (ingest_text no_float no_int now ''TT1'' (frame b l) lm) =
       (case fo_completed out of None \<Rightarrow> lm_cycle_log lm | Some c \<Rightarrow> push_capped c (lm_cycle_log lm))"
proof -
  note a = frame_accepted[OF assms(1,2), of now b]
  have "lm_devices (ingest_text no_float no_int now ''TT1'' (frame b l) lm) ''TT1'' = Some (fo_pos out) \<and>
    lm_cycle_log (ingest_text no_float no_int now ''TT1'' (frame b l) lm) =
       (case fo_completed out of None \<Rightarrow> lm_cycle_log lm | Some c \<Rightarrow> push_capped c (lm_cycle_log lm))"
  proof (cases rule: ingest_effect[of no_float no_int now "''TT1''" "frame b l" lm])
    case (taken p)
    have "p = fix1 now b l" using accepted_unique[OF taken(1) a] .
    then show ?thesis using taken(2,4) by (simp add: out_def)
  qed (use a in blast)
  then show "lm_devices (ingest_text no_float no_int now ''TT1'' (frame b l) lm) ''TT1'' = Some (fo_pos out)"
    "lm_cycle_log (ingest_text no_float no_int now ''TT1'' (frame b l) lm) =
       (case fo_completed out of None \<Rightarrow> lm_cycle_log lm | Some c \<Rightarrow> push_capped c (lm_cycle_log lm))" by blast+
qed

lemma trim_box: "trim [] = []" "trim ''BOX1'' = ''BOX1''"
  by (simp_all add: trim_def is_space_def)

lemma run1_dev: "\<exists>q. lm_devices run1 ''TT1'' = Some q \<and> f_container1 q = None \<and> f_container2 q = None \<and> f_lat q = 2.928 \<and> f_lon q = TERMINAL_LON"
  unfolding run1_def
  by (subst frame_effect(1)) (simp_all add: TERMINAL_LAT_def out_of_def fix_step_carry fix_step_feed fix1_fields trim_box Let_def)

lemma run2_dev: "\<exists>q. lm_devices run2 ''TT1'' = Some q \<and> f_container1 q = Some ''BOX1'' \<and> f_container2 q = None \<and> f_lat q = 2.928 \<and>
    f_lon q = TERMINAL_LON \<and> carry_since q = 2000 \<and> carry_trip q = 0"
proof -
  obtain q where "lm_devices run1 ''TT1'' = Some q" "f_container1 q = None" "f_container2 q = None" using run1_dev by blast
  then show ?thesis unfolding run2_def
    by (subst frame_effect(1))
       (simp_all add: TERMINAL_LAT_def out_of_def fix_step_carry fix_step_feed fix1_fields trim_box Let_def box_edge_def slot_swap_def str_of_def)
qed

lemma push_capped_in: "x \<in> set (push_capped x xs)"
proof -
  have "last (push_capped x xs) = x" "push_capped x xs \<noteq> []" by (simp_all add: push_capped_def Let_def CYCLE_BUF_MAX_def)
  then show ?thesis using last_in_set by metis
qed

lemma dist_m_meridian: "dist_m (a, x) (b, x) = \<bar>(a - b) * 111320\<bar>"
  by (simp only: dist_m_def Let_def fst_conv snd_conv diff_self mult_zero_left add_0 real_sqrt_abs2)

lemma run3_log: "\<exists>c. c \<in> set (lm_cycle_log run3)"
proof -
  obtain q where q: "lm_devices run2 ''TT1'' = Some q" "f_container1 q = Some ''BOX1''" "f_lat q = 2.928" "f_lon q = TERMINAL_LON"
      "carry_since q = 2000" "carry_trip q = 0"
    using run2_dev by blast
  let ?p = "fix1 40000 [] 2.93"
  have "dist_m (f_lat q, f_lon q) (f_lat ?p, f_lon ?p) = 222.64" unfolding q(3,4) fix1_fields dist_m_meridian by simp
  moreover have "f_lat q \<noteq> 0" "f_lat ?p \<noteq> 0" using q(3) by (auto simp: fix1_fields)
  ultimately have "driven (Some q) ?p = 222.64" using q(6) by (simp add: driven_def carry_over_def Let_def fix1_fields(1,6) MAX_FIX_STEP_M_def)
  moreover have "held_since (Some q) ?p = 2000" using q by (simp add: held_since_def carry_over_def Let_def)
  moreover have "moved_off (Some q) ?p" using q by (simp add: moved_off_def fix1_fields trim_box str_of_def Let_def)
  ultimately have "fo_completed (out_of 40000 ''TT1'' (frame [] 2.93) ?p run2) \<noteq> None"
    unfolding out_of_def fix_step_verdict q(1) by (simp add: fix1_fields held_long_def MIN_LOADED_MS_def MIN_CARRY_TRIP_M_def)
  then obtain c where "fo_completed (out_of 40000 ''TT1'' (frame [] 2.93) ?p run2) = Some c" by blast
  then have "lm_cycle_log run3 = push_capped c (lm_cycle_log run2)"
    unfolding run3_def by (subst frame_effect(2)) (simp_all add: TERMINAL_LAT_def)
  then show ?thesis using push_capped_in by metis
qed

lemma run3_reachable: "reachable no_float no_int 40000 run3"
proof -
  have "reachable no_float no_int 1000 (feed_step no_float no_int 1000 (Gps ''TT1'' (frame [] 2.928)) live_new)"
    by (rule step[OF start[of 1000]]) simp_all
  then have "reachable no_float no_int 2000 (feed_step no_float no_int 2000 (Gps ''TT1'' (frame ''BOX1'' 2.928)) run1)"
    by (intro step[of _ _ 1000]) (simp_all add: run1_def)
  then show ?thesis
    using step[of no_float no_int 2000 run2 40000 "Gps ''TT1'' (frame [] 2.93)"] by (simp add: run2_def run3_def)
qed

text \<open>A fix of a truck that discharges a box.\<close>

definition ds_fix :: "bool \<Rightarrow> real \<Rightarrow> pos" where
  "ds_fix arr speed =
     (fix1 0 ''BOX1'' 2.928)\<lparr>f_speed := speed, f_arrival := (if arr then Some ''ARRIVED'' else None), latched_jobtype := Some ''DS''\<rparr>"

section \<open>Properties\<close>




text \<open>
  C30. The memory of the feed is bounded in every reachable state: at most 5000 cycles wait in each buffer, a
  truck has at most 6 finished legs and a closed cycle between 1 and 7, a crane at most 91 moves within the
  hour, each 40 s after the one before, and the minute ring keeps its 30 cells.
\<close>

theorem feed_bounded:
  assumes "reachable pf rd now lm"
  shows "length (lm_cycle_log lm) \<le> 5000 \<and> length (lm_cycle_v2 lm) \<le> 5000 \<and>
     list_all (\<lambda>c. 1 \<le> length (cv_legs c) \<and> length (cv_legs c) \<le> 7) (lm_cycle_v2 lm) \<and>
     (\<forall>did p. lm_devices lm did = Some p \<longrightarrow> length (v2_legs (v2 p)) \<le> 6) \<and>
     (\<forall>crane e. lm_plc lm crane = Some e \<longrightarrow> sorted_wrt (\<lambda>a b. a + 40000 \<le> b) (pl_moves e) \<and> length (pl_moves e) \<le> 91) \<and>
     ring_ok (lm_ring lm)"
proof -
  have b: "buffers_ok now lm" "legs.every now lm" and m: "plcs_ok now lm"
    using buffers.reachable_inv[OF assms] moves.reachable_inv[OF assms] by auto
  have "1 \<le> length (cv_legs c) \<and> length (cv_legs c) \<le> 7" if "c \<in> set (lm_cycle_v2 lm)" for c
    using b(1) that by (cases "cv_legs c") (auto simp: buffers_ok_def list_all_iff V2_LEGS_MAX_def)
  moreover have "sorted_wrt (\<lambda>a b. a + 40000 \<le> b) (pl_moves e) \<and> length (pl_moves e) \<le> 91" if "lm_plc lm crane = Some e" for crane e
    using m that plc_ok_moves[of now e] by (auto simp: plcs_ok_def plc_ok_def MIN_MOVE_GAP_MS_def)
  moreover have "length (v2_legs (v2 p)) \<le> 6" if "lm_devices lm did = Some p" for did p
  proof -
    have "length (v2_legs (v2 p)) \<le> V2_LEGS_MAX" using b(2) that unfolding legs.every_def by blast
    then show ?thesis by (simp add: V2_LEGS_MAX_def)
  qed
  ultimately show ?thesis using b(1) by (auto simp: buffers_ok_def list_all_iff CYCLE_BUF_MAX_def)
qed

theorem feed_bounded_witness: "length (lm_cycle_log run3) \<le> 5000 \<and> ring_ok (lm_ring run3)"
  using feed_bounded[OF run3_reachable] by blast

text \<open>
  In every reachable state a tracked truck lies within 20 km of the terminal, whatever coordinates the feed
  sent, and every device is filed under the class its name begins with.
\<close>

theorem trucks_near_terminal:
  assumes "reachable pf rd now lm" "lm_devices lm did = Some p"
  shows "f_cls p = device_class did \<and> f_last_seen p \<le> now \<and>
     (f_cls p = ''TT'' \<longrightarrow> dist_from_terminal_m (f_lat p) (f_lon p) \<le> 20000)"
proof -
  have "in_place did p \<and> f_last_seen p \<le> now" using gated.reachable_inv[OF assms(1)] assms(2) unfolding gated.every_def by blast
  then show ?thesis by (simp add: in_place_def TT_MAX_R_M_def)
qed

theorem trucks_near_terminal_witness:
  "\<exists>p. lm_devices run3 ''TT1'' = Some p \<and> f_last_seen p \<le> 40000 \<and> dist_from_terminal_m (f_lat p) (f_lon p) \<le> 20000"
proof -
  have "lm_devices run3 ''TT1'' \<noteq> None" unfolding run3_def by (subst frame_effect(1)) (simp_all add: TERMINAL_LAT_def)
  then obtain p where p: "lm_devices run3 ''TT1'' = Some p" by blast
  show ?thesis using p trucks_near_terminal[OF run3_reachable p] by (auto simp: class_TT1)
qed


end
