(* ===== verification/Casts.thy ===== *)
theory Casts
  imports Prelude "HOL-Library.Word"
begin

text \<open>The cast of a 64-bit integer to 32 bits, as the rows written to the database use it.\<close>

text \<open>A cast of an \<^verbatim>\<open>i64\<close> to \<^verbatim>\<open>i32\<close> keeps the low 32 bits.\<close>

definition as_i32 :: "int \<Rightarrow> int" where
  "as_i32 x = sint (word_of_int x :: 32 word)"

lemma as_i32_small: "- (2 ^ 31) \<le> x \<Longrightarrow> x < 2 ^ 31 \<Longrightarrow> as_i32 x = x"
  by (simp add: as_i32_def sint_sbintrunc' signed_take_bit_int_eq_self)

lemma as_i32_range: "- (2 ^ 31) \<le> as_i32 x \<and> as_i32 x < 2 ^ 31"
  using sint_ge[of "word_of_int x :: 32 word"] sint_lt[of "word_of_int x :: 32 word"] by (simp add: as_i32_def)

end
