(* ===== verification/Flush.thy ===== *)
theory Flush
  imports FeedRun Casts
begin

text \<open>
  The rows the flusher writes (\<^verbatim>\<open>spawn_cycle_flusher\<close> in \<^verbatim>\<open>src/crates/api/src/livemap.rs\<close>): a completed cycle
  becomes a row of \<^verbatim>\<open>tt_cycle_log\<close>, a closed leg cycle a row of \<^verbatim>\<open>tt_cycle_v2\<close> with the missing arrivals filled
  from the first machine and the chain of times cleaned. Seconds are cast to 32 bits as in the code. The insert
  itself, which skips a row whose key is taken, is the database's.
\<close>

section \<open>Rows of the cycle log\<close>

definition to_ts :: "int \<Rightarrow> int option" where
  "to_ts ms = (if ms > 0 then Some ms else None)"

record log_row =
  lr_ytno :: string
  lr_business_date :: date
  lr_shift :: string
  lr_jobtype :: "string option"
  lr_container :: "string option"
  lr_qc :: "string option"
  lr_assigned_at :: "int option"
  lr_pickup_arrived_at :: "int option"
  lr_pickup_left_at :: "int option"
  lr_pickup_at :: "int option"
  lr_arrived_at :: "int option"
  lr_dropped_at :: int
  lr_idle_before_s :: int
  lr_empty_leg_s :: int
  lr_empty_leg_m :: real
  lr_laden_leg_s :: int
  lr_laden_leg_m :: real
  lr_cycle_s :: int
  lr_c2c :: bool

definition dur_s :: "completed_cycle \<Rightarrow> int \<Rightarrow> int option" where
  "dur_s c frm = (if frm > 0 then Some (as_i32 (tdiv (cc_dropped_at c - frm) 1000)) else None)"

text \<open>\<open>now\<close> is the terminal's wall clock at the flush.\<close>

definition log_row_of :: "naive \<Rightarrow> completed_cycle \<Rightarrow> log_row option" where
  "log_row_of now c =
     (let (bd, sh) = current now in
      map_option (\<lambda>dropped.
        \<lparr>lr_ytno = cc_ytno c, lr_business_date = bd, lr_shift = shift_label sh, lr_jobtype = cc_jobtype c, lr_container = cc_container c,
         lr_qc = cc_qc c, lr_assigned_at = to_ts (cc_assigned_at c), lr_pickup_arrived_at = to_ts (cc_pickup_arrived_at c),
         lr_pickup_left_at = to_ts (cc_pickup_left_at c), lr_pickup_at = to_ts (cc_pickup_at c), lr_arrived_at = to_ts (cc_arrived_at c),
         lr_dropped_at = dropped, lr_idle_before_s = as_i32 (tdiv (cc_idle_before c) 1000),
         lr_empty_leg_s = as_i32 (tdiv (cc_empty_leg_ms c) 1000), lr_empty_leg_m = cc_empty_leg_m c,
         lr_laden_leg_s = as_i32 (tdiv (cc_laden_leg_ms c) 1000), lr_laden_leg_m = cc_laden_leg_m c,
         lr_cycle_s = (case dur_s c (cc_assigned_at c) of None \<Rightarrow> as_i32 (tdiv (cc_laden_leg_ms c) 1000) | Some d \<Rightarrow> d),
         lr_c2c = cc_c2c c\<rparr>)
        (to_ts (cc_dropped_at c)))"

section \<open>Rows of the leg cycles\<close>

record v2_row =
  vr_ytno :: string
  vr_dropped_at :: int
  vr_opened_at :: "int option"
  vr_jobtype :: "string option"
  vr_empty_travel_start :: "int option"
  vr_empty_arrived :: "int option"
  vr_pickup_left :: "int option"
  vr_laden_arrived :: "int option"
  vr_src_pickup :: "string option"
  vr_src_drop :: "string option"
  vr_legs :: "v2_leg list"

fun position :: "('a \<Rightarrow> bool) \<Rightarrow> 'a list \<Rightarrow> nat option" where
  "position P [] = None"
| "position P (x # xs) = (if P x then Some 0 else map_option Suc (position P xs))"

text \<open>Where the pickup legs end.\<close>

definition split_point :: "completed_v2 \<Rightarrow> nat" where
  "split_point c =
     (let pickup_is_crane = (cv_jobtype c = Some ''DS''); n = length (cv_legs c) in
      case position (\<lambda>l. vl_crane l \<noteq> pickup_is_crane) (cv_legs c) of
        Some i \<Rightarrow> i
      | None \<Rightarrow> if n \<ge> 2 then n - 1 else n)"

definition opt_src :: "string \<Rightarrow> string option" where
  "opt_src s = (if s = [] then None else Some s)"

text \<open>An arrival: its time (0 for none) and its source.\<close>

type_synonym arrival = "int \<times> string"

definition leg_arr :: "v2_leg option \<Rightarrow> arrival" where
  "leg_arr l = (case l of None \<Rightarrow> (0, []) | Some l \<Rightarrow> (vl_arrived l, vl_arr_src l))"

definition first_leg :: "v2_leg list \<Rightarrow> v2_leg option" where
  "first_leg ls = (case ls of [] \<Rightarrow> None | l # _ \<Rightarrow> Some l)"

definition backfill :: "int \<Rightarrow> int \<Rightarrow> string list \<Rightarrow> arrival \<Rightarrow> arrival" where
  "backfill v1 dropped coarse a = (if v1 > 0 \<and> v1 \<le> dropped \<and> (fst a = 0 \<or> snd a \<in> set coarse) then (v1, ''v1'') else a)"

text \<open>An arrival at the pickup after the arrival at the drop: the one from the first machine goes.\<close>

definition clamp_arrivals :: "arrival \<Rightarrow> arrival \<Rightarrow> arrival \<times> arrival" where
  "clamp_arrivals p d =
     (if fst p > 0 \<and> fst d > 0 \<and> fst p > fst d
      then if snd p = ''v1'' then ((0, []), d) else if snd d = ''v1'' then (p, (0, [])) else (p, d)
      else (p, d))"

definition clamp_left :: "int \<Rightarrow> int \<Rightarrow> int \<Rightarrow> int" where
  "clamp_left p_arr d_arr p_left =
     (let p_left = (if p_left > 0 \<and> p_arr > 0 \<and> p_arr > p_left then 0 else p_left)
      in if p_left > 0 \<and> d_arr > 0 \<and> p_left > d_arr then 0 else p_left)"

definition v2_row_of :: "completed_v2 \<Rightarrow> v2_row option" where
  "v2_row_of c =
     map_option (\<lambda>dropped.
       let i = split_point c; pickup_legs = take i (cv_legs c); drop_leg = first_leg (drop i (cv_legs c));
           p_arr = find (\<lambda>l. vl_arrived l > 0) pickup_legs;
           p_left = (if pickup_legs = [] then 0 else vl_left (last pickup_legs));
           p_left = (if p_left = 0 then (case drop_leg of None \<Rightarrow> 0 | Some d \<Rightarrow> vl_assigned d) else p_left);
           d = backfill (cv_v1_drop_arrived c) (cv_dropped c) [''pre_positioned''] (leg_arr drop_leg);
           p = backfill (cv_v1_pickup_arrived c) (cv_dropped c) [''pre_positioned'', ''container1''] (leg_arr p_arr);
           (p, d) = clamp_arrivals p d; p_left = clamp_left (fst p) (fst d) p_left;
           ets = (if cv_empty_start c > 0 \<and> fst p > 0 \<and> cv_empty_start c > fst p then 0 else cv_empty_start c)
       in \<lparr>vr_ytno = cv_ytno c, vr_dropped_at = dropped, vr_opened_at = to_ts (cv_opened c), vr_jobtype = cv_jobtype c,
           vr_empty_travel_start = to_ts ets, vr_empty_arrived = to_ts (fst p), vr_pickup_left = to_ts p_left,
           vr_laden_arrived = to_ts (fst d), vr_src_pickup = opt_src (snd p), vr_src_drop = opt_src (snd d), vr_legs = cv_legs c\<rparr>)
       (to_ts (cv_dropped c))"

section \<open>Facts\<close>

lemma clamp_left_between:
  "0 < clamp_left p d l \<Longrightarrow> clamp_left p d l = l \<and> (0 < p \<longrightarrow> p \<le> l) \<and> (0 < d \<longrightarrow> l \<le> d)"
  by (auto simp: clamp_left_def Let_def split: if_splits)

lemma clamp_arrivals_ordered:
  "clamp_arrivals p d = (p', d') \<Longrightarrow> 0 < fst p' \<Longrightarrow> 0 < fst d' \<Longrightarrow> fst p' \<le> fst d' \<or> snd p' \<noteq> ''v1'' \<and> snd d' \<noteq> ''v1''"
  by (auto simp: clamp_arrivals_def split: if_splits)

lemma backfill_source: "fst a = 0 \<or> snd a \<noteq> ''v1'' \<Longrightarrow> backfill v dr co a = (v, ''v1'') \<or> backfill v dr co a = a"
  by (auto simp: backfill_def)

lemma seconds_fit:
  assumes "0 \<le> ms" "ms < 2147483648000"
  shows "as_i32 (tdiv ms 1000) = ms div 1000"
  unfolding tdiv_def using assms by (simp add: as_i32_small)

text \<open>A leg cycle whose two arrivals come from its legs, the pickup dated after the drop.\<close>

definition ahead_leg :: "string \<Rightarrow> bool \<Rightarrow> int \<Rightarrow> int \<Rightarrow> v2_leg" where
  "ahead_leg t crane asg arr = \<lparr>vl_target = t, vl_crane = crane, vl_assigned = asg, vl_arrived = arr, vl_arr_src = ''arr_dtime'', vl_left = 0, vl_lat = 0, vl_lon = 0\<rparr>"

definition ahead :: completed_v2 where
  "ahead = \<lparr>cv_ytno = ''TT1'', cv_dropped = 900000, cv_opened = 100000, cv_empty_start = 0, cv_jobtype = Some ''DS'',
     cv_legs = [ahead_leg ''C46'' True 100000 700000, ahead_leg ''07F-06'' False 400000 600000],
     cv_v1_pickup_arrived = 0, cv_v1_drop_arrived = 0\<rparr>"

section \<open>Properties\<close>

text \<open>
  Every cycle waiting in the buffer of a reachable state becomes a row of the cycle log, and until the
  clock passes 2038 the cast of its seconds to 32 bits loses nothing: the laden seconds are not negative and
  not more than the seconds of the whole cycle, which are those from the assignment to the drop.
\<close>

theorem log_rows_consistent:
  assumes "reachable pf rd now lm" "c \<in> set (lm_cycle_log lm)" "now < 2147483648000"
  shows "\<exists>r. log_row_of wall c = Some r \<and> lr_dropped_at r = cc_dropped_at c \<and> 0 \<le> lr_laden_leg_s r \<and> lr_laden_leg_s r \<le> lr_cycle_s r \<and>
     (cc_assigned_at c > 0 \<longrightarrow> lr_cycle_s r = (cc_dropped_at c - cc_assigned_at c) div 1000)"
proof -
  have c: "cycle_ok c" "cc_dropped_at c \<le> now"
    using buffers.reachable_inv[OF assms(1)] assms(2) by (auto simp: buffers_ok_def list_all_iff)
  define drop where "drop = cc_dropped_at c"
  have b: "0 < drop" "drop < 2147483648000" "0 \<le> cc_assigned_at c" "cc_assigned_at c \<le> cc_pickup_at c" "cc_pickup_at c \<le> drop"
      "cc_laden_leg_ms c = (if cc_pickup_at c > 0 then drop - cc_pickup_at c else 0)"
    using c assms(3) by (auto simp: cycle_ok_def drop_def)
  have "as_i32 (tdiv (cc_laden_leg_ms c) 1000) = cc_laden_leg_ms c div 1000" by (rule seconds_fit) (use b in auto)
  moreover have "as_i32 (tdiv (drop - cc_assigned_at c) 1000) = (drop - cc_assigned_at c) div 1000" by (rule seconds_fit) (use b in auto)
  moreover have "cc_laden_leg_ms c div 1000 \<le> (drop - cc_assigned_at c) div 1000" by (rule zdiv_mono1) (use b in auto)
  moreover have "0 \<le> cc_laden_leg_ms c div 1000" by (subst pos_imp_zdiv_nonneg_iff) (use b in auto)
  ultimately show ?thesis using b(1) by (auto simp: log_row_of_def dur_s_def to_ts_def drop_def split: prod.splits)
qed

theorem log_rows_consistent_witness:
  "\<exists>c \<in> set (lm_cycle_log run3). \<exists>r. log_row_of 0 c = Some r \<and> lr_laden_leg_s r \<le> lr_cycle_s r"
proof -
  obtain c where c: "c \<in> set (lm_cycle_log run3)" using run3_log by blast
  have "\<exists>r. log_row_of 0 c = Some r \<and> lr_laden_leg_s r \<le> lr_cycle_s r" using log_rows_consistent[OF run3_reachable c, of 0] by auto
  then show ?thesis using c by blast
qed

text \<open>
  A row of the leg cycles has its departure between its two arrivals and its empty start not after the
  pickup; an arrival at the pickup after the one at the drop survives only when neither came from the first
  machine.
\<close>

theorem v2_chain_ordered:
  assumes "v2_row_of c = Some r"
  shows "(case (vr_empty_arrived r, vr_pickup_left r) of (Some a, Some l) \<Rightarrow> a \<le> l | _ \<Rightarrow> True) \<and>
     (case (vr_pickup_left r, vr_laden_arrived r) of (Some l, Some d) \<Rightarrow> l \<le> d | _ \<Rightarrow> True) \<and>
     (case (vr_empty_travel_start r, vr_empty_arrived r) of (Some e, Some a) \<Rightarrow> e \<le> a | _ \<Rightarrow> True) \<and>
     (case (vr_empty_arrived r, vr_laden_arrived r) of
        (Some a, Some d) \<Rightarrow> a \<le> d \<or> vr_src_pickup r \<noteq> Some ''v1'' \<and> vr_src_drop r \<noteq> Some ''v1'' | _ \<Rightarrow> True)"
proof -
  define p0 where "p0 = backfill (cv_v1_pickup_arrived c) (cv_dropped c) [''pre_positioned'', ''container1'']
    (leg_arr (find (\<lambda>l. vl_arrived l > 0) (take (split_point c) (cv_legs c))))"
  define d0 where "d0 = backfill (cv_v1_drop_arrived c) (cv_dropped c) [''pre_positioned''] (leg_arr (first_leg (drop (split_point c) (cv_legs c))))"
  obtain p d where pd: "clamp_arrivals p0 d0 = (p, d)" by (cases "clamp_arrivals p0 d0")
  define l where "l = (if (if take (split_point c) (cv_legs c) = [] then 0 else vl_left (last (take (split_point c) (cv_legs c)))) = 0
      then (case first_leg (drop (split_point c) (cv_legs c)) of None \<Rightarrow> 0 | Some d \<Rightarrow> vl_assigned d)
      else (if take (split_point c) (cv_legs c) = [] then 0 else vl_left (last (take (split_point c) (cv_legs c)))))"
  note f = assms[unfolded v2_row_of_def Let_def pd[unfolded p0_def d0_def] prod.case map_option_eq_Some, folded l_def]
  have r: "vr_empty_arrived r = to_ts (fst p)" "vr_laden_arrived r = to_ts (fst d)" "vr_pickup_left r = to_ts (clamp_left (fst p) (fst d) l)"
      "vr_empty_travel_start r = to_ts (if cv_empty_start c > 0 \<and> fst p > 0 \<and> cv_empty_start c > fst p then 0 else cv_empty_start c)"
      "vr_src_pickup r = opt_src (snd p)" "vr_src_drop r = opt_src (snd d)"
    using f by (clarify, simp)+
  show ?thesis unfolding r to_ts_def opt_src_def
    using clamp_left_between[of "fst p" "fst d" l] clamp_arrivals_ordered[OF pd] by (auto simp only: split: option.splits if_splits prod.splits) 
qed

theorem v2_chain_ordered_witness:
  "\<exists>r. v2_row_of ahead = Some r \<and> (case (vr_pickup_left r, vr_laden_arrived r) of (Some l, Some d) \<Rightarrow> l \<le> d | _ \<Rightarrow> True)"
proof -
  obtain r where "v2_row_of ahead = Some r" by (cases "v2_row_of ahead") (simp_all add: v2_row_of_def ahead_def to_ts_def)
  then show ?thesis using v2_chain_ordered[of ahead r] by blast
qed

text \<open>
  The chain is not restored when both arrivals come from the legs: here the feed's own arrival times put the
  pickup 100 s after the drop, and the row keeps both.
\<close>

theorem v2_chain_gap: "map_option (\<lambda>r. (vr_empty_arrived r, vr_laden_arrived r)) (v2_row_of ahead) = Some (Some 700000, Some 600000)"
  by (simp add: v2_row_of_def ahead_def ahead_leg_def to_ts_def split_point_def backfill_def leg_arr_def first_leg_def clamp_arrivals_def Let_def)

end
