(* ===== verification/WorkPool.thy ===== *)
theory WorkPool
  imports CostModel Kpi
begin

text \<open>
  The work pool (\<^verbatim>\<open>build_workpool\<close> in \<^verbatim>\<open>src/crates/api/src/workpool.rs\<close>): the queues and moves grouped by crane,
  the timeline of each crane with the time it reaches every queue and the time the queue must be done for the
  vessel to leave, the front of urgent moves and the ranked candidates.

  The tables are lists of rows, in the order the query returned them. An instant is a number of microseconds,
  a float a real number, a cast of a float to an integer drops the fraction. The columns of a move that are only
  copied to the output are left out.
\<close>

section \<open>Rows\<close>

type_synonym instant = int

definition usecs :: "int \<Rightarrow> int" where "usecs s = s * 1000000"

text \<open>\<^verbatim>\<open>Duration::num_seconds\<close> rounds towards zero, \<^verbatim>\<open>timestamp\<close> rounds down.\<close>

definition num_seconds :: "int \<Rightarrow> int" where
  "num_seconds d = (if 0 \<le> d then d div 1000000 else - ((- d) div 1000000))"

definition timestamp :: "instant \<Rightarrow> int" where "timestamp t = t div 1000000"

definition I32_MAX :: int where "I32_MAX = 2147483647"
definition I64_MAX :: int where "I64_MAX = 9223372036854775807"

record queue_row =
  qr_qc :: string
  qr_vessel :: string
  qr_voyage :: "string option"
  qr_queuename :: string
  qr_disload :: "string option"
  qr_seq :: "int option"
  qr_total :: "int option"
  qr_comp :: "int option"

record move_row =
  mr_qc :: "string option"
  mr_queuename :: string
  mr_vessel :: string
  mr_jobtype :: "string option"
  mr_ytno :: "string option"
  mr_etw_ts :: "instant option"
  mr_etw_accurate :: "instant option"
  mr_contno :: "string option"
  mr_twintandem :: "string option"
  mr_voyage :: "string option"
  mr_twinkey :: "string option"
  mr_seqno :: "string option"
  mr_cre_ts :: "instant option"
  mr_yt_topos :: "string option"

record candidate_row =
  cr_qc :: "string option"
  cr_queuename :: string
  cr_vessel :: string
  cr_jobtype :: "string option"
  cr_src_block :: "string option"
  cr_rtg :: "string option"
  cr_n :: int

text \<open>A row of the schedule: vessel, voyage, estimated departure and end of work, actual departure.\<close>

type_synonym sched_row = "string \<times> string \<times> instant option \<times> instant option \<times> instant option"

text \<open>A row of the learned move times: crane, job type, shift, median seconds; of the wall cadence: no shift.\<close>

type_synonym move_time_row = "string \<times> string \<times> string \<times> int option"
type_synonym wall_row = "string \<times> string \<times> int option"

section \<open>Grouping by crane\<close>

record queue_out =
  qo_queuename :: string
  qo_vessel :: string
  qo_voyage :: "string option"
  qo_disload :: "string option"
  qo_seq :: "int option"
  qo_total :: int
  qo_done :: int
  qo_remaining :: int
  qo_deadline_ts :: "instant option"
  qo_work_eta_ts :: "instant option"
  qo_eta_bias_s :: int
  qo_proc_s :: "int option"
  qo_timeline_pos :: "nat option"
  qo_pace_before_n :: "int option"
  qo_pace_total_n :: "int option"
  qo_pace_finish_by :: "instant option"

record qc_out =
  qc_name :: string
  qc_vessels :: "string list"
  qc_active_moves :: nat
  qc_remaining :: int
  qc_queues :: "queue_out list"
  qc_moves :: "move_row list"
  qc_estdep_ts :: "instant option"
  qc_work_left_s :: "int option"
  qc_slack_s :: "int option"

definition filled :: "string option \<Rightarrow> bool" where
  "filled s = is_some_and s (\<lambda>x. x \<noteq> [])"

definition opt_or :: "'a \<Rightarrow> 'a option \<Rightarrow> 'a" where
  "opt_or d x = (case x of None \<Rightarrow> d | Some v \<Rightarrow> v)"

text \<open>The cranes that work now, in the order of a sorted map.\<close>

definition active_qcs :: "move_row list \<Rightarrow> queue_row list \<Rightarrow> string list" where
  "active_qcs moves queues =
     sort (remdups (List.map_filter (\<lambda>m. if filled (mr_qc m) then mr_qc m else None) moves @
       map qr_qc (filter (\<lambda>q. opt_or 0 (qr_comp q) > 0 \<and> qr_qc q \<noteq> []) queues)))"

definition etw :: "move_row \<Rightarrow> instant option" where
  "etw m = (case mr_etw_accurate m of None \<Rightarrow> mr_etw_ts m | Some t \<Rightarrow> Some t)"

text \<open>A key that puts a missing instant last.\<close>

definition none_last :: "int option \<Rightarrow> nat \<times> int" where
  "none_last t = (case t of None \<Rightarrow> (1, 0) | Some x \<Rightarrow> (0, x))"

definition left_of :: "queue_row \<Rightarrow> int" where
  "left_of q = max (opt_or 0 (qr_total q) - opt_or 0 (qr_comp q)) 0"

definition add_vessel :: "string \<Rightarrow> string list \<Rightarrow> string list" where
  "add_vessel v vs = (if v \<in> set vs then vs else vs @ [v])"

definition vessels_of :: "move_row list \<Rightarrow> queue_row list \<Rightarrow> string list" where
  "vessels_of mrows qrows =
     (let vs = fold add_vessel (map mr_vessel mrows) [] in
      if vs = [] then fold add_vessel (map qr_vessel (filter (\<lambda>q. opt_or 0 (qr_comp q) > 0) qrows)) [] else vs)"

definition queue_out_of :: "queue_row \<Rightarrow> queue_out" where
  "queue_out_of q =
     \<lparr>qo_queuename = qr_queuename q, qo_vessel = qr_vessel q, qo_voyage = qr_voyage q, qo_disload = qr_disload q, qo_seq = qr_seq q,
      qo_total = opt_or 0 (qr_total q), qo_done = opt_or 0 (qr_comp q), qo_remaining = left_of q, qo_deadline_ts = None,
      qo_work_eta_ts = None, qo_eta_bias_s = 0, qo_proc_s = None, qo_timeline_pos = None, qo_pace_before_n = None,
      qo_pace_total_n = None, qo_pace_finish_by = None\<rparr>"

definition qc_out_of :: "queue_row list \<Rightarrow> move_row list \<Rightarrow> string \<Rightarrow> qc_out" where
  "qc_out_of queues moves qc =
     (let qrows = sort_key (\<lambda>q. opt_or I32_MAX (qr_seq q)) (filter (\<lambda>q. qr_qc q = qc) queues);
          mrows = sort_key (\<lambda>m. none_last (etw m)) (filter (\<lambda>m. filled (mr_qc m) \<and> mr_qc m = Some qc) moves)
      in \<lparr>qc_name = qc, qc_vessels = vessels_of mrows qrows, qc_active_moves = length (filter (\<lambda>m. filled (mr_ytno m)) mrows),
          qc_remaining = sum_list (map left_of qrows), qc_queues = map queue_out_of qrows, qc_moves = mrows,
          qc_estdep_ts = None, qc_work_left_s = None, qc_slack_s = None\<rparr>)"

definition base_qcs :: "queue_row list \<Rightarrow> move_row list \<Rightarrow> qc_out list" where
  "base_qcs queues moves =
     sort_key (\<lambda>q. (- int (qc_active_moves q), - qc_remaining q)) (map (qc_out_of queues moves) (active_qcs moves queues))"

section \<open>Schedules and learned times\<close>

type_synonym sched_map = "string \<times> string \<rightharpoonup> instant \<times> instant option"
type_synonym fallback_map = "string \<rightharpoonup> bool \<times> instant \<times> instant option"

definition add_sched :: "sched_row \<Rightarrow> sched_map \<times> fallback_map \<Rightarrow> sched_map \<times> fallback_map" where
  "add_sched r maps = (case (r, maps) of ((v, voy, dep, wkc, act), (sv, fb)) \<Rightarrow>
     (case dep of
        None \<Rightarrow> (sv, fb)
      | Some d \<Rightarrow>
          (sv((v, voy) \<mapsto> (d, wkc)),
           if is_some_and (fb v) (\<lambda>(a, e, _). (a, e) \<le> (act \<noteq> None, d)) then fb else fb(v \<mapsto> (act \<noteq> None, d, wkc)))))"

definition sched_maps :: "sched_row list \<Rightarrow> sched_map \<times> fallback_map" where
  "sched_maps rows = fold add_sched rows (Map.empty, Map.empty)"

text \<open>The share of twin lifts of a vessel, over the rows of the pool.\<close>

definition twin_frac :: "move_row list \<Rightarrow> string \<Rightarrow> real option" where
  "twin_frac rows v =
     (let rs = filter (\<lambda>m. mr_vessel m = v) rows in
      if rs = [] then None else Some (real (length (filter (\<lambda>m. mr_twintandem m = Some ''W'') rs)) / real (length rs)))"

definition cur_shift :: "instant \<Rightarrow> string" where
  "cur_shift now = (let h = (timestamp now div 3600 + 8) mod 24 in if 6 \<le> h \<and> h < 18 then ''D'' else ''N'')"

type_synonym move_times = "string \<times> char \<rightharpoonup> real"

definition job_char :: "string \<Rightarrow> char" where
  "job_char jt = (if jt = ''LD'' then CHR ''L'' else CHR ''D'')"

definition add_move_time :: "string \<Rightarrow> move_time_row \<Rightarrow> move_times \<Rightarrow> move_times" where
  "add_move_time shift r mt = (case r of (qc, jt, sh, ms) \<Rightarrow>
     if sh = shift then (case ms of None \<Rightarrow> mt | Some s \<Rightarrow> mt((qc, job_char jt) \<mapsto> of_int s)) else mt)"

definition add_wall :: "wall_row \<Rightarrow> move_times \<Rightarrow> move_times" where
  "add_wall r mt = (case r of (qc, jt, w) \<Rightarrow> (case w of None \<Rightarrow> mt | Some s \<Rightarrow> mt((qc, job_char jt) \<mapsto> of_int s)))"

definition move_times_of :: "instant \<Rightarrow> move_time_row list \<Rightarrow> wall_row list \<Rightarrow> move_times" where
  "move_times_of now rows walls = fold add_wall walls (fold (add_move_time (cur_shift now)) rows (fold (add_move_time ''ALL'') rows Map.empty))"

definition DS_MOVE_F :: real where "DS_MOVE_F = 90"
definition LD_MOVE_F :: real where "LD_MOVE_F = 110"
definition BAY_CHANGE_S :: real where "BAY_CHANGE_S = 180"
definition HATCH_DS_S :: real where "HATCH_DS_S = 340"
definition HATCH_LD_S :: real where "HATCH_LD_S = 390"
definition FINISH_BUFFER_S :: int where "FINISH_BUFFER_S = 1800"
definition SHIFT_BREAK_S :: int where "SHIFT_BREAK_S = 500"

definition shift_breaks_between :: "instant \<Rightarrow> instant \<Rightarrow> int" where
  "shift_breaks_between a b = (if b \<le> a then 0 else timestamp b div 28800 - timestamp a div 28800)"

fun find_char :: "char \<Rightarrow> string \<Rightarrow> nat option" where
  "find_char c [] = None"
| "find_char c (x # xs) = (if x = c then Some 0 else map_option Suc (find_char c xs))"

text \<open>The name of a queue: bay, deck or hold, job.\<close>

definition parse_q :: "string \<Rightarrow> (string \<times> char \<times> char) option" where
  "parse_q qn = (case find_char CHR ''-'' qn of
     None \<Rightarrow> None
   | Some dash \<Rightarrow>
       if dash < 2 then None
       else if dash + 1 < length qn then Some (take (dash - 1) qn, qn ! (dash - 1), qn ! (dash + 1)) else None)"

section \<open>The timeline of a crane\<close>

definition voyage_of :: "queue_out list \<Rightarrow> string \<rightharpoonup> string" where
  "voyage_of qs =
     fold (\<lambda>q m. case qo_voyage q of None \<Rightarrow> m | Some v \<Rightarrow> if m (qo_vessel q) = None then m(qo_vessel q \<mapsto> v) else m) qs Map.empty"

text \<open>The time a vessel's work must be done: the planned end of work when it is plausible, or the departure less the buffer.\<close>

definition finish_target :: "instant \<times> instant option \<Rightarrow> instant" where
  "finish_target s = (case s of (dep, wkc) \<Rightarrow>
     let target = dep - usecs FINISH_BUFFER_S
     in (case wkc of Some w \<Rightarrow> if w < target \<and> dep - w \<le> usecs (6 * 3600) then w else target | None \<Rightarrow> target))"

definition schedule_of :: "sched_map \<times> fallback_map \<Rightarrow> queue_out list \<Rightarrow> string \<Rightarrow> (instant \<times> instant option) option" where
  "schedule_of maps qs v =
     (case Option.bind (voyage_of qs v) (\<lambda>voy. fst maps (v, voy)) of
        Some s \<Rightarrow> Some s
      | None \<Rightarrow> map_option (\<lambda>(_, d, w). (d, w)) (snd maps v))"

definition finish_by :: "sched_map \<times> fallback_map \<Rightarrow> queue_out list \<Rightarrow> string \<rightharpoonup> instant" where
  "finish_by maps qs v = (if v \<in> qo_vessel ` set qs then map_option finish_target (schedule_of maps qs v) else None)"

definition departure_of :: "sched_map \<times> fallback_map \<Rightarrow> queue_out list \<Rightarrow> string \<rightharpoonup> instant" where
  "departure_of maps qs v = (if v \<in> qo_vessel ` set qs then map_option fst (schedule_of maps qs v) else None)"

text \<open>The place of a queue: the vessel at the crane first, then the vessels by target, the queues of a vessel by number.\<close>

definition rank :: "string option \<Rightarrow> (string \<rightharpoonup> instant) \<Rightarrow> queue_out \<Rightarrow> (nat \<times> (nat \<times> int) \<times> string) \<times> int" where
  "rank active fb q =
     ((if active = Some (qo_vessel q) then 0 else 1, none_last (fb (qo_vessel q)), qo_vessel q), opt_or I32_MAX (qo_seq q))"

definition first_of :: "'a list \<Rightarrow> 'a option" where
  "first_of xs = (case xs of [] \<Rightarrow> None | x # _ \<Rightarrow> Some x)"

definition timeline :: "sched_map \<times> fallback_map \<Rightarrow> qc_out \<Rightarrow> nat list" where
  "timeline maps qc =
     sort_key (\<lambda>i. rank (first_of (qc_vessels qc)) (finish_by maps (qc_queues qc)) (qc_queues qc ! i)) [0..<length (qc_queues qc)]"

definition clamp_unit :: "real \<Rightarrow> real" where
  "clamp_unit x = max 0 (min 1 x)"

definition move_factor :: "(string \<Rightarrow> real option) \<Rightarrow> queue_out \<Rightarrow> real" where
  "move_factor twin q = 1 - clamp_unit (opt_or 0 (twin (qo_vessel q))) / 2"

text \<open>The seconds of one queue, after the queue before it on the timeline.\<close>

definition transition_s :: "(string \<times> char \<times> char) option \<Rightarrow> (string \<times> char \<times> char) option \<Rightarrow> char \<Rightarrow> real" where
  "transition_s prev cur job = (case (prev, cur) of
     (Some (pb, pdh, _), Some (cb, cdh, _)) \<Rightarrow>
       if pb \<noteq> cb then BAY_CHANGE_S
       else if job = CHR ''L'' \<and> pdh = CHR ''H'' \<and> cdh = CHR ''D'' then HATCH_LD_S
       else if job \<noteq> CHR ''L'' \<and> pdh = CHR ''D'' \<and> cdh = CHR ''H'' then HATCH_DS_S else 0
   | _ \<Rightarrow> 0)"

definition queue_job :: "queue_out \<Rightarrow> char" where
  "queue_job q = (case parse_q (qo_queuename q) of None \<Rightarrow> CHR ''D'' | Some (_, _, job) \<Rightarrow> job)"

definition queue_s :: "(string \<Rightarrow> real option) \<Rightarrow> move_times \<Rightarrow> string \<Rightarrow> (string \<times> char \<times> char) option \<Rightarrow> queue_out \<Rightarrow> real" where
  "queue_s twin mt qc prev q =
     (let job = queue_job q; move_s = opt_or (if job = CHR ''L'' then LD_MOVE_F else DS_MOVE_F) (mt (qc, job)); left = max (qo_remaining q) 0
      in of_int left * move_factor twin q * move_s + (if left > 0 then transition_s prev (parse_q (qo_queuename q)) job else 0))"

definition queue_moves :: "(string \<Rightarrow> real option) \<Rightarrow> queue_out \<Rightarrow> real" where
  "queue_moves twin q = of_int (max (qo_remaining q) 0) * move_factor twin q"

fun procs :: "(string \<Rightarrow> real option) \<Rightarrow> move_times \<Rightarrow> string \<Rightarrow> (string \<times> char \<times> char) option \<Rightarrow> queue_out list \<Rightarrow> real list" where
  "procs twin mt qc prev [] = []"
| "procs twin mt qc prev (q # qs) = queue_s twin mt qc prev q # procs twin mt qc (parse_q (qo_queuename q)) qs"

text \<open>The sums of what follows: position \<open>k\<close> holds the sum from \<open>k\<close> on.\<close>

fun suffix_sums :: "real list \<Rightarrow> real list" where
  "suffix_sums [] = [0]"
| "suffix_sums (p # ps) = (let r = suffix_sums ps in (hd r + p) # r)"

definition last_of :: "string list \<Rightarrow> string \<rightharpoonup> nat" where
  "last_of vs = fold (\<lambda>(k, v) m. m(v \<mapsto> k)) (enumerate 0 vs) Map.empty"

record crane_time =
  ct_procs :: "real list"
  ct_suffix :: "real list"
  ct_suffix_n :: "real list"
  ct_last :: "string \<rightharpoonup> nat"
  ct_finish :: "string \<rightharpoonup> instant"

text \<open>What a queue at place \<open>k\<close> of the timeline is told; \<open>anchor\<close> is the time of the data.\<close>

definition place_queue :: "instant \<Rightarrow> crane_time \<Rightarrow> nat \<Rightarrow> queue_out \<Rightarrow> queue_out" where
  "place_queue anchor ct k q =
     (let q = q\<lparr>qo_timeline_pos := Some k\<rparr> in
      case ct_finish ct (qo_vessel q) of
        None \<Rightarrow> q
      | Some fb \<Rightarrow>
          let before = max (ct_suffix ct ! 0 - ct_suffix ct ! k) 0; raw = anchor + usecs (trunc_real before);
              brk = shift_breaks_between anchor raw * SHIFT_BREAK_S; lst = opt_or k (ct_last ct (qo_vessel q));
              cum_after = max (ct_suffix ct ! (k + 1) - ct_suffix ct ! (lst + 1)) 0
          in q\<lparr>qo_work_eta_ts := Some (raw + usecs brk), qo_eta_bias_s := 0, qo_proc_s := Some (trunc_real (ct_procs ct ! k)),
               qo_deadline_ts := Some (fb - usecs (trunc_real cum_after)),
               qo_pace_before_n := Some (round_away (ct_suffix_n ct ! 0 - ct_suffix_n ct ! k)),
               qo_pace_total_n := Some (round_away (ct_suffix_n ct ! 0 - ct_suffix_n ct ! (lst + 1))), qo_pace_finish_by := Some fb\<rparr>)"

definition crane_time_of :: "sched_map \<times> fallback_map \<Rightarrow> (string \<Rightarrow> real option) \<Rightarrow> move_times \<Rightarrow> qc_out \<Rightarrow> crane_time" where
  "crane_time_of maps twin mt qc =
     (let qs = map (\<lambda>i. qc_queues qc ! i) (timeline maps qc); ps = procs twin mt (qc_name qc) None qs
      in \<lparr>ct_procs = ps, ct_suffix = suffix_sums ps, ct_suffix_n = suffix_sums (map (queue_moves twin) qs),
          ct_last = last_of (map qo_vessel qs), ct_finish = finish_by maps (qc_queues qc)\<rparr>)"

definition place_all :: "instant \<Rightarrow> crane_time \<Rightarrow> nat list \<Rightarrow> queue_out list \<Rightarrow> queue_out list" where
  "place_all anchor ct idxs qs = fold (\<lambda>(k, i) qs. qs[i := place_queue anchor ct k (qs ! i)]) (enumerate 0 idxs) qs"

definition head_qc :: "instant \<Rightarrow> (string \<rightharpoonup> instant) \<Rightarrow> crane_time \<Rightarrow> qc_out \<Rightarrow> qc_out" where
  "head_qc now dep ct qc = (case first_of (qc_vessels qc) of
     None \<Rightarrow> qc
   | Some v \<Rightarrow>
       (case (ct_finish ct v, ct_last ct v) of
          (Some fb, Some lst) \<Rightarrow>
            let need = max (ct_suffix ct ! 0 - ct_suffix ct ! (lst + 1)) 0
            in qc\<lparr>qc_estdep_ts := dep v, qc_work_left_s := Some (trunc_real need), qc_slack_s := Some (num_seconds (fb - now) - trunc_real need)\<rparr>
        | _ \<Rightarrow> qc))"

definition time_qc :: "instant \<Rightarrow> instant \<Rightarrow> sched_map \<times> fallback_map \<Rightarrow> (string \<Rightarrow> real option) \<Rightarrow> move_times \<Rightarrow> qc_out \<Rightarrow> qc_out" where
  "time_qc now anchor maps twin mt qc =
     (let ct = crane_time_of maps twin mt qc
      in head_qc now (departure_of maps (qc_queues qc)) ct (qc\<lparr>qc_queues := place_all anchor ct (timeline maps qc) (qc_queues qc)\<rparr>))"

section \<open>The front and the candidates\<close>

definition POOL_CAP :: nat where "POOL_CAP = 80"

definition front_of :: "move_row list \<Rightarrow> move_row list" where
  "front_of moves = take POOL_CAP (sort_key (\<lambda>m. none_last (etw m)) (filter (\<lambda>m. etw m \<noteq> None \<and> filled (mr_qc m)) moves))"

record candidate_out =
  co_qc :: "string option"
  co_queuename :: string
  co_vessel :: string
  co_jobtype :: "string option"
  co_src_block :: "string option"
  co_rtg :: "string option"
  co_n :: int
  co_moves_until :: int
  co_active :: bool

definition under_way :: "queue_row \<Rightarrow> bool" where
  "under_way q \<longleftrightarrow> opt_or 0 (qr_comp q) > 0 \<and> opt_or 0 (qr_comp q) < opt_or 0 (qr_total q)"

text \<open>The moves before a candidate's work is reached, and whether it is being worked now.\<close>

definition reach :: "queue_row list \<Rightarrow> candidate_row \<Rightarrow> int \<times> bool" where
  "reach queues c = (case cr_qc c of
     None \<Rightarrow> (I64_MAX, False)
   | Some qc \<Rightarrow>
       let qs = filter (\<lambda>q. qr_qc q = qc) queues in
       (case find (\<lambda>q. qr_queuename q = cr_queuename c) qs of
          None \<Rightarrow> (I64_MAX, False)
        | Some mine \<Rightarrow>
            if under_way mine then (0, True)
            else (sum_list (map (\<lambda>q. opt_or 0 (qr_total q) - opt_or 0 (qr_comp q)) (filter under_way qs)) +
                  sum_list (map (\<lambda>q. opt_or 0 (qr_total q))
                    (filter (\<lambda>q. opt_or 0 (qr_comp q) = 0 \<and> opt_or I32_MAX (qr_seq q) < opt_or I32_MAX (qr_seq mine)) qs)), False)))"

definition candidate_of :: "queue_row list \<Rightarrow> candidate_row \<Rightarrow> candidate_out" where
  "candidate_of queues c =
     (let (until, active) = reach queues c
      in \<lparr>co_qc = cr_qc c, co_queuename = cr_queuename c, co_vessel = cr_vessel c, co_jobtype = cr_jobtype c, co_src_block = cr_src_block c,
          co_rtg = cr_rtg c, co_n = cr_n c, co_moves_until = until, co_active = active\<rparr>)"

definition candidates_of :: "queue_row list \<Rightarrow> candidate_row list \<Rightarrow> candidate_out list" where
  "candidates_of queues rows = sort_key (\<lambda>c. (co_moves_until c, - co_n c)) (map (candidate_of queues) rows)"

section \<open>The pool\<close>

record pool_db =
  live_workqueue :: "queue_row list option"
  live_workpool :: "move_row list option"
  pool_as_of :: "instant option option"
  live_vessel_schedule :: "sched_row list"
  learn_qc_move_time :: "move_time_row list"
  learn_qc_wall_cadence :: "wall_row list"
  live_candidate :: "candidate_row list option"

record workpool_out =
  wo_as_of :: "instant option"
  wo_qc_count :: nat
  wo_active_moves :: nat
  wo_total_remaining :: int
  wo_qcs :: "qc_out list"
  wo_pool :: "move_row list"
  wo_candidates :: "candidate_out list"
  wo_candidate_total :: int

text \<open>A query of the pool that fails ends the whole with an error; a failed query of the rest reads as no rows.\<close>

definition pool_of ::
  "instant \<Rightarrow> queue_row list \<Rightarrow> move_row list \<Rightarrow> instant option \<Rightarrow> candidate_row list \<Rightarrow> sched_map \<times> fallback_map \<Rightarrow> move_times \<Rightarrow> workpool_out" where
  "pool_of now queues moves as_of cands maps mt =
     (let qcs = map (time_qc now (opt_or now as_of) maps (twin_frac moves) mt) (base_qcs queues moves)
      in \<lparr>wo_as_of = as_of, wo_qc_count = length qcs, wo_active_moves = length (filter (\<lambda>m. filled (mr_ytno m)) moves),
          wo_total_remaining = sum_list (map qc_remaining qcs), wo_qcs = qcs, wo_pool = front_of moves,
          wo_candidates = candidates_of queues cands, wo_candidate_total = sum_list (map cr_n cands)\<rparr>)"

definition build_workpool :: "instant \<Rightarrow> pool_db \<Rightarrow> workpool_out option" where
  "build_workpool now db = (case (live_workqueue db, live_workpool db, pool_as_of db, live_candidate db) of
     (Some queues, Some moves, Some as_of, Some cands) \<Rightarrow>
       Some (pool_of now queues moves as_of cands
         (sched_maps (filter (\<lambda>(_, _, dep, _). dep \<noteq> None) (live_vessel_schedule db)))
         (move_times_of now (learn_qc_move_time db) (learn_qc_wall_cadence db)))
   | _ \<Rightarrow> None)"

end
