(* ===== verification/CraneTime.thy ===== *)
theory CraneTime
  imports WorkPool
begin

text \<open>
  What the timeline of a crane promises: every queue has one place, the queues of a vessel stand together in their
  order with the vessel at the crane first, a queue later on the timeline is not reached earlier, and the times by
  which the queues of a vessel must be done rise up to the vessel's target.
\<close>

section \<open>Sums and rounding\<close>

lemma suffix_sums_nth: "k \<le> length ps \<Longrightarrow> suffix_sums ps ! k = sum_list (drop k ps)"
proof (induction ps arbitrary: k)
  case (Cons p ps)
  have "hd (suffix_sums ps) = sum_list ps" using Cons.IH[of 0] by (cases "suffix_sums ps") (auto simp: Let_def hd_conv_nth elim: suffix_sums.elims)
  then show ?case using Cons by (cases k) (auto simp: Let_def)
qed simp

lemma suffix_sums_diff: "j \<le> k \<Longrightarrow> k \<le> length ps \<Longrightarrow> suffix_sums ps ! j - suffix_sums ps ! k = sum_list (take (k - j) (drop j ps))"
proof -
  assume "j \<le> k" "k \<le> length ps"
  moreover have "drop j ps = take (k - j) (drop j ps) @ drop k ps" using \<open>j \<le> k\<close> by (metis append_take_drop_id drop_drop le_add_diff_inverse2)
  then have "sum_list (drop j ps) = sum_list (take (k - j) (drop j ps)) + sum_list (drop k ps)" by (metis sum_list_append)
  ultimately show ?thesis by (simp add: suffix_sums_nth)
qed

lemma suffix_sums_mono:
  assumes "\<And>p. p \<in> set ps \<Longrightarrow> 0 \<le> p" "j \<le> k" "k \<le> length ps"
  shows "suffix_sums ps ! k \<le> suffix_sums ps ! j"
proof -
  have "0 \<le> sum_list (take (k - j) (drop j ps))"
    by (rule sum_list_nonneg) (use assms(1) in_set_takeD in_set_dropD in metis)
  then show ?thesis using suffix_sums_diff[OF assms(2,3)] by linarith
qed

lemma trunc_real_mono: "x \<le> y \<Longrightarrow> trunc_real x \<le> trunc_real y"
  by (auto simp: trunc_real_def intro: floor_mono ceiling_mono) (smt (verit) ceiling_le_zero zero_le_floor)

lemma round_away_mono: "x \<le> y \<Longrightarrow> round_away x \<le> round_away y"
proof -
  assume a: "x \<le> y"
  consider "0 \<le> x" | "y < 0" | "x < 0" "0 \<le> y" by linarith
  then show ?thesis
  proof cases
    case 1
    then show ?thesis using a by (simp add: round_away_def floor_mono)
  next
    case 2
    then show ?thesis using a by (simp add: round_away_def ceiling_mono)
  next
    case 3
    have "\<lceil>x - 1 / 2\<rceil> \<le> 0" using 3 by (simp add: ceiling_le_iff)
    also have "0 \<le> \<lfloor>y + 1 / 2\<rfloor>" using 3 by simp
    finally show ?thesis using 3 by (simp add: round_away_def)
  qed
qed

lemma trunc_real_nonneg: "0 \<le> x \<Longrightarrow> 0 \<le> trunc_real x"
  by (simp add: trunc_real_def)

lemma round_away_nonneg: "0 \<le> x \<Longrightarrow> 0 \<le> round_away x"
  by (simp add: round_away_def)

lemma breaks_mono: "a \<le> b \<Longrightarrow> b \<le> c \<Longrightarrow> 0 \<le> shift_breaks_between a b \<and> shift_breaks_between a b \<le> shift_breaks_between a c"
  by (auto simp: shift_breaks_between_def timestamp_def intro!: zdiv_mono1)

section \<open>The processing times\<close>

definition times_ok :: "move_times \<Rightarrow> bool" where
  "times_ok mt \<longleftrightarrow> (\<forall>key s. mt key = Some s \<longrightarrow> 0 \<le> s)"

lemma move_factor_range: "1 / 2 \<le> move_factor twin q" "move_factor twin q \<le> 1"
  by (auto simp: move_factor_def clamp_unit_def)

lemma queue_moves_nonneg: "0 \<le> queue_moves twin q"
  unfolding queue_moves_def using move_factor_range(1)[of twin q] by simp

lemma transition_nonneg: "0 \<le> transition_s prev cur job"
  by (auto simp: transition_s_def BAY_CHANGE_S_def HATCH_LD_S_def HATCH_DS_S_def split: option.splits)

lemma queue_s_nonneg:
  assumes "times_ok mt"
  shows "0 \<le> queue_s twin mt qc prev q"
proof -
  have "0 \<le> opt_or (if queue_job q = CHR ''L'' then LD_MOVE_F else DS_MOVE_F) (mt (qc, queue_job q))"
    using assms by (auto simp: opt_or_def times_ok_def LD_MOVE_F_def DS_MOVE_F_def split: option.splits)
  moreover have "0 \<le> of_int (max (qo_remaining q) 0) * move_factor twin q" using queue_moves_nonneg by (simp add: queue_moves_def)
  ultimately show ?thesis by (simp add: queue_s_def Let_def transition_nonneg)
qed

lemma procs_length [simp]: "length (procs twin mt qc prev qs) = length qs"
  by (induction qs arbitrary: prev) auto

lemma procs_nonneg: "times_ok mt \<Longrightarrow> p \<in> set (procs twin mt qc prev qs) \<Longrightarrow> 0 \<le> p"
  by (induction qs arbitrary: prev) (auto simp: queue_s_nonneg)

section \<open>The places\<close>

lemma timeline_perm: "distinct (timeline maps qc)" "set (timeline maps qc) = {..<length (qc_queues qc)}" "length (timeline maps qc) = length (qc_queues qc)"
  by (auto simp: timeline_def atLeast0LessThan)

lemma place_other: "i \<notin> set idxs \<Longrightarrow> fold (\<lambda>(k, i) qs. qs[i := f k (qs ! i)]) (enumerate m idxs) qs ! i = qs ! i"
  by (induction idxs arbitrary: m qs) auto

lemma place_fold_length [simp]: "length (fold (\<lambda>(k, i) qs. qs[i := f k (qs ! i)]) (enumerate m idxs) qs) = length qs"
  by (induction idxs arbitrary: m qs) auto

lemma place_nth:
  assumes "distinct idxs" "k < length idxs" "set idxs \<subseteq> {..<length qs}"
  shows "fold (\<lambda>(k, i) qs. qs[i := f k (qs ! i)]) (enumerate m idxs) qs ! (idxs ! k) = f (m + k) (qs ! (idxs ! k))"
  using assms
proof (induction idxs arbitrary: m qs k)
  case (Cons i idxs)
  show ?case
  proof (cases k)
    case 0
    then show ?thesis using Cons.prems by (simp add: place_other)
  next
    case (Suc l)
    have "idxs ! l \<noteq> i" using Cons.prems Suc by auto
    then show ?thesis using Cons.IH[of l "qs[i := f m (qs ! i)]" "Suc m"] Cons.prems Suc by simp
  qed
qed simp

text \<open>The queues of a crane in the order of its timeline, with what they were told.\<close>

definition placed :: "instant \<Rightarrow> instant \<Rightarrow> sched_map \<times> fallback_map \<Rightarrow> (string \<Rightarrow> real option) \<Rightarrow> move_times \<Rightarrow> qc_out \<Rightarrow> queue_out list" where
  "placed now anchor maps twin mt qc = map (\<lambda>i. qc_queues (time_qc now anchor maps twin mt qc) ! i) (timeline maps qc)"

lemma head_queues [simp]: "qc_queues (head_qc now dep ct qc) = qc_queues qc"
  by (auto simp: head_qc_def Let_def split: option.splits)

lemma placed_length [simp]: "length (placed now anchor maps twin mt qc) = length (qc_queues qc)"
  by (simp add: placed_def timeline_perm)

lemma placed_nth:
  assumes "k < length (qc_queues qc)"
  shows "placed now anchor maps twin mt qc ! k = place_queue anchor (crane_time_of maps twin mt qc) k (qc_queues qc ! (timeline maps qc ! k))"
  using assms timeline_perm[of maps qc]
  by (simp add: placed_def time_qc_def Let_def place_all_def place_nth[where m = 0, simplified])

lemma place_vessel [simp]: "qo_vessel (place_queue anchor ct k q) = qo_vessel q" "qo_seq (place_queue anchor ct k q) = qo_seq q"
  "qo_timeline_pos (place_queue anchor ct k q) = Some k" "qo_remaining (place_queue anchor ct k q) = qo_remaining q"
  "qo_queuename (place_queue anchor ct k q) = qo_queuename q"
  by (auto simp: place_queue_def Let_def split: option.splits)

lemma placed_queues: "mset (placed now anchor maps twin mt qc) = mset (qc_queues (time_qc now anchor maps twin mt qc))"
proof -
  have l: "length (qc_queues (time_qc now anchor maps twin mt qc)) = length (qc_queues qc)" by (simp add: time_qc_def Let_def place_all_def)
  have "mset (timeline maps qc) = mset [0..<length (qc_queues (time_qc now anchor maps twin mt qc))]" by (simp add: timeline_def l)
  then have "mset (placed now anchor maps twin mt qc) =
      mset (map (\<lambda>i. qc_queues (time_qc now anchor maps twin mt qc) ! i) [0..<length (qc_queues (time_qc now anchor maps twin mt qc))])"
    unfolding placed_def by (metis mset_map)
  then show ?thesis by (simp add: map_nth)
qed

section \<open>The order of the timeline\<close>

abbreviation vessel_key :: "sched_map \<times> fallback_map \<Rightarrow> qc_out \<Rightarrow> string \<Rightarrow> nat \<times> (nat \<times> int) \<times> string" where
  "vessel_key maps qc v \<equiv> (if first_of (qc_vessels qc) = Some v then 0 else 1, none_last (finish_by maps (qc_queues qc) v), v)"

lemma timeline_sorted:
  assumes "j \<le> k" "k < length (qc_queues qc)"
  shows "rank (first_of (qc_vessels qc)) (finish_by maps (qc_queues qc)) (qc_queues qc ! (timeline maps qc ! j)) \<le>
    rank (first_of (qc_vessels qc)) (finish_by maps (qc_queues qc)) (qc_queues qc ! (timeline maps qc ! k))"
proof -
  let ?f = "\<lambda>i. rank (first_of (qc_vessels qc)) (finish_by maps (qc_queues qc)) (qc_queues qc ! i)"
  have "sorted (map ?f (timeline maps qc))" by (simp add: timeline_def)
  then have "map ?f (timeline maps qc) ! j \<le> map ?f (timeline maps qc) ! k" using assms timeline_perm(3)[of maps qc] by (intro sorted_nth_mono) auto
  then show ?thesis using assms timeline_perm(3)[of maps qc] by simp
qed

lemma rank_eq: "rank (first_of (qc_vessels qc)) (finish_by maps (qc_queues qc)) q = (vessel_key maps qc (qo_vessel q), opt_or I32_MAX (qo_seq q))"
  by (simp add: rank_def)

lemma placed_keys:
  assumes "j \<le> k" "k < length (qc_queues qc)"
  shows "vessel_key maps qc (qo_vessel (placed now anchor maps twin mt qc ! j)) \<le> vessel_key maps qc (qo_vessel (placed now anchor maps twin mt qc ! k))"
    "qo_vessel (placed now anchor maps twin mt qc ! j) = qo_vessel (placed now anchor maps twin mt qc ! k) \<Longrightarrow>
     opt_or I32_MAX (qo_seq (placed now anchor maps twin mt qc ! j)) \<le> opt_or I32_MAX (qo_seq (placed now anchor maps twin mt qc ! k))"
  using timeline_sorted[OF assms, of maps] assms unfolding rank_eq by (auto simp: placed_nth less_eq_prod_def)

section \<open>The times of a queue\<close>

lemma last_of_append: "last_of (vs @ [v]) = (last_of vs)(v \<mapsto> length vs)"
  by (simp add: last_of_def enumerate_append_eq)

lemma last_of_Some: "last_of vs v = Some l \<Longrightarrow> l < length vs \<and> vs ! l = v \<and> (\<forall>j < length vs. vs ! j = v \<longrightarrow> j \<le> l)"
proof (induction vs rule: rev_induct)
  case (snoc w vs)
  then show ?case by (cases "w = v") (auto simp: last_of_append nth_append less_Suc_eq split: if_splits)
qed (simp add: last_of_def)

lemma last_of_in: "v \<in> set vs \<Longrightarrow> last_of vs v \<noteq> None"
  by (induction vs rule: rev_induct) (auto simp: last_of_append)

lemma crane_time_sel:
  "ct_suffix (crane_time_of maps twin mt qc) = suffix_sums (ct_procs (crane_time_of maps twin mt qc))"
  "ct_suffix_n (crane_time_of maps twin mt qc) = suffix_sums (map (\<lambda>i. queue_moves twin (qc_queues qc ! i)) (timeline maps qc))"
  "ct_finish (crane_time_of maps twin mt qc) = finish_by maps (qc_queues qc)"
  "ct_last (crane_time_of maps twin mt qc) = last_of (map (\<lambda>i. qo_vessel (qc_queues qc ! i)) (timeline maps qc))"
  "length (ct_procs (crane_time_of maps twin mt qc)) = length (qc_queues qc)"
  by (simp_all add: crane_time_of_def Let_def timeline_perm(3) o_def)

lemma crane_suffix_mono:
  assumes "times_ok mt" "j \<le> k" "k \<le> length (qc_queues qc)"
  shows "ct_suffix (crane_time_of maps twin mt qc) ! k \<le> ct_suffix (crane_time_of maps twin mt qc) ! j"
    "ct_suffix_n (crane_time_of maps twin mt qc) ! k \<le> ct_suffix_n (crane_time_of maps twin mt qc) ! j"
  unfolding crane_time_sel
  by (rule suffix_sums_mono; use assms in \<open>auto simp: crane_time_of_def Let_def procs_nonneg queue_moves_nonneg timeline_perm(3)\<close>)+

text \<open>The last place of a vessel on the timeline.\<close>

definition vessel_last :: "sched_map \<times> fallback_map \<Rightarrow> qc_out \<Rightarrow> string \<Rightarrow> nat" where
  "vessel_last maps qc v = the (last_of (map (\<lambda>i. qo_vessel (qc_queues qc ! i)) (timeline maps qc)) v)"

lemma vessel_last:
  assumes "k < length (qc_queues qc)" "qo_vessel (qc_queues qc ! (timeline maps qc ! k)) = v"
  shows "ct_last (crane_time_of maps twin mt qc) v = Some (vessel_last maps qc v)" "k \<le> vessel_last maps qc v"
    "vessel_last maps qc v < length (qc_queues qc)"
proof -
  let ?vs = "map (\<lambda>i. qo_vessel (qc_queues qc ! i)) (timeline maps qc)"
  have n: "length ?vs = length (qc_queues qc)" "?vs ! k = v" using assms by (auto simp: timeline_perm(3))
  then have "v \<in> set ?vs" using assms(1) nth_mem by metis
  then obtain l where l: "last_of ?vs v = Some l" using last_of_in by blast
  then show "ct_last (crane_time_of maps twin mt qc) v = Some (vessel_last maps qc v)" by (simp add: crane_time_sel vessel_last_def)
  show "k \<le> vessel_last maps qc v" "vessel_last maps qc v < length (qc_queues qc)"
    using last_of_Some[OF l] n assms(1) l by (auto simp: vessel_last_def)
qed

text \<open>What a queue of a scheduled vessel is told, read off the sums.\<close>

lemma placed_times:
  fixes now anchor maps twin mt qc k
  defines "q \<equiv> placed now anchor maps twin mt qc ! k" and "ct \<equiv> crane_time_of maps twin mt qc"
  assumes "k < length (qc_queues qc)" "finish_by maps (qc_queues qc) (qo_vessel q) = Some fb"
  shows "qo_work_eta_ts q = Some (let raw = anchor + usecs (trunc_real (max (ct_suffix ct ! 0 - ct_suffix ct ! k) 0))
      in raw + usecs (shift_breaks_between anchor raw * SHIFT_BREAK_S))"
    "qo_deadline_ts q = Some (fb - usecs (trunc_real (max (ct_suffix ct ! (k + 1) - ct_suffix ct ! (vessel_last maps qc (qo_vessel q) + 1)) 0)))"
    "qo_pace_before_n q = Some (round_away (ct_suffix_n ct ! 0 - ct_suffix_n ct ! k))"
    "qo_pace_total_n q = Some (round_away (ct_suffix_n ct ! 0 - ct_suffix_n ct ! (vessel_last maps qc (qo_vessel q) + 1)))"
    "qo_pace_finish_by q = Some fb"
proof -
  let ?p = "qc_queues qc ! (timeline maps qc ! k)"
  have q: "q = place_queue anchor ct k ?p" using assms(3) by (simp add: q_def ct_def placed_nth)
  then have v: "qo_vessel q = qo_vessel ?p" by simp
  have f: "ct_finish ct (qo_vessel ?p) = Some fb" using assms(4) v by (simp add: ct_def crane_time_sel(3))
  have l: "ct_last ct (qo_vessel ?p) = Some (vessel_last maps qc (qo_vessel ?p))"
    unfolding ct_def by (rule vessel_last(1)[OF assms(3) refl])
  show "qo_work_eta_ts q = Some (let raw = anchor + usecs (trunc_real (max (ct_suffix ct ! 0 - ct_suffix ct ! k) 0))
      in raw + usecs (shift_breaks_between anchor raw * SHIFT_BREAK_S))"
    "qo_deadline_ts q = Some (fb - usecs (trunc_real (max (ct_suffix ct ! (k + 1) - ct_suffix ct ! (vessel_last maps qc (qo_vessel q) + 1)) 0)))"
    "qo_pace_before_n q = Some (round_away (ct_suffix_n ct ! 0 - ct_suffix_n ct ! k))"
    "qo_pace_total_n q = Some (round_away (ct_suffix_n ct ! 0 - ct_suffix_n ct ! (vessel_last maps qc (qo_vessel q) + 1)))"
    "qo_pace_finish_by q = Some fb"
    unfolding v by (simp_all add: q place_queue_def f l opt_or_def Let_def)
qed

lemma unplaced_times:
  assumes "k < length (qc_queues qc)" "finish_by maps (qc_queues qc) (qo_vessel (qc_queues qc ! (timeline maps qc ! k))) = None"
  shows "placed now anchor maps twin mt qc ! k = (qc_queues qc ! (timeline maps qc ! k))\<lparr>qo_timeline_pos := Some k\<rparr>"
  using assms by (simp add: placed_nth place_queue_def crane_time_sel(3))


lemma trunc_real_add: "0 \<le> x \<Longrightarrow> 0 \<le> y \<Longrightarrow> trunc_real x + trunc_real y \<le> trunc_real (x + y)"
  by (simp add: trunc_real_def le_floor_add)

lemma suffix_sums_step: "k < length ps \<Longrightarrow> suffix_sums ps ! k = ps ! k + suffix_sums ps ! (k + 1)"
  by (simp add: suffix_sums_nth Cons_nth_drop_Suc [symmetric])

lemma crane_suffix_step:
  "k < length (qc_queues qc) \<Longrightarrow>
    ct_suffix (crane_time_of maps twin mt qc) ! k = ct_procs (crane_time_of maps twin mt qc) ! k + ct_suffix (crane_time_of maps twin mt qc) ! (k + 1)"
  unfolding crane_time_sel(1) by (rule suffix_sums_step) (simp add: crane_time_sel(5))

lemma crane_procs_nonneg: "times_ok mt \<Longrightarrow> k < length (qc_queues qc) \<Longrightarrow> 0 \<le> ct_procs (crane_time_of maps twin mt qc) ! k"
proof -
  assume "times_ok mt" "k < length (qc_queues qc)"
  then have "ct_procs (crane_time_of maps twin mt qc) ! k \<in> set (ct_procs (crane_time_of maps twin mt qc))"
    by (intro nth_mem) (simp add: crane_time_sel(5))
  then show ?thesis using \<open>times_ok mt\<close> by (auto simp: crane_time_of_def Let_def intro: procs_nonneg)
qed

lemma placed_proc:
  assumes "k < length (qc_queues qc)" "finish_by maps (qc_queues qc) (qo_vessel (placed now anchor maps twin mt qc ! k)) = Some fb"
  shows "qo_proc_s (placed now anchor maps twin mt qc ! k) = Some (trunc_real (ct_procs (crane_time_of maps twin mt qc) ! k))"
proof -
  have "finish_by maps (qc_queues qc) (qo_vessel (qc_queues qc ! (timeline maps qc ! k))) = Some fb" using assms by (simp add: placed_nth)
  then show ?thesis using assms(1) by (simp add: placed_nth place_queue_def crane_time_sel(3) Let_def)
qed

text \<open>A queue is told times exactly when its vessel has a target.\<close>

lemma told_iff:
  assumes "k < length (qc_queues qc)" "\<And>q. q \<in> set (qc_queues qc) \<Longrightarrow> qo_work_eta_ts q = None"
  shows "qo_work_eta_ts (placed now anchor maps twin mt qc ! k) = None \<longleftrightarrow>
    finish_by maps (qc_queues qc) (qo_vessel (placed now anchor maps twin mt qc ! k)) = None"
proof (cases "finish_by maps (qc_queues qc) (qo_vessel (placed now anchor maps twin mt qc ! k))")
  case None
  then have "finish_by maps (qc_queues qc) (qo_vessel (qc_queues qc ! (timeline maps qc ! k))) = None" using assms(1) by (simp add: placed_nth)
  moreover have "timeline maps qc ! k \<in> {..<length (qc_queues qc)}"
    unfolding timeline_perm(2)[of maps qc, symmetric] using assms(1) by (intro nth_mem) (simp add: timeline_perm(3))
  then have "qc_queues qc ! (timeline maps qc ! k) \<in> set (qc_queues qc)" by simp
  ultimately show ?thesis using None assms by (simp add: unplaced_times)
next
  case (Some fb)
  then show ?thesis using placed_times(1)[OF assms(1) Some] by simp
qed

section \<open>A crane with two queues\<close>

definition two_queues :: qc_out where
  "two_queues = qc_out_of
     [\<lparr>qr_qc = ''C1'', qr_vessel = ''V'', qr_voyage = Some ''1'', qr_queuename = ''10D-D'', qr_disload = Some ''D'', qr_seq = Some 1, qr_total = Some 8, qr_comp = Some 3\<rparr>,
      \<lparr>qr_qc = ''C1'', qr_vessel = ''V'', qr_voyage = Some ''1'', qr_queuename = ''10H-D'', qr_disload = Some ''D'', qr_seq = Some 2, qr_total = Some 4, qr_comp = None\<rparr>] [] ''C1''"

definition two_maps :: "sched_map \<times> fallback_map" where
  "two_maps = sched_maps [(''V'', ''1'', Some (usecs 36000), None, None)]"

lemma two_queues_facts:
  "length (qc_queues two_queues) = 2" "\<forall>q \<in> set (qc_queues two_queues). qo_vessel q = ''V''"
  by (simp_all add: two_queues_def qc_out_of_def queue_out_of_def Let_def opt_or_def)

lemma two_finish: "finish_by two_maps (qc_queues two_queues) ''V'' = Some (usecs 34200)"
  by (simp add: two_queues_def two_maps_def finish_by_def schedule_of_def sched_maps_def add_sched_def voyage_of_def finish_target_def
      qc_out_of_def queue_out_of_def Let_def opt_or_def FINISH_BUFFER_S_def usecs_def is_some_and_def)

lemma two_vessel: "k < 2 \<Longrightarrow> qo_vessel (placed now anchor two_maps twin mt two_queues ! k) = ''V''"
proof -
  assume k: "k < 2"
  then have "timeline two_maps two_queues ! k \<in> {..<length (qc_queues two_queues)}"
    unfolding timeline_perm(2)[of two_maps two_queues, symmetric] by (intro nth_mem) (simp add: timeline_perm(3) two_queues_facts)
  then show ?thesis using k two_queues_facts by (simp add: placed_nth)
qed

lemmas two_told = two_queues_facts(1) two_vessel two_finish times_ok_def

section \<open>The promises\<close>

text \<open>
  The timeline of a crane is its queues, each at one place and told that place; the queues of one vessel stand together,
  the vessel the crane works now comes before the others, and the queues of a vessel follow their sequence numbers.
\<close>

theorem timeline_blocks:
  fixes now anchor maps twin mt qc
  defines "P \<equiv> placed now anchor maps twin mt qc"
  shows "mset P = mset (qc_queues (time_qc now anchor maps twin mt qc))
    \<and> map qo_timeline_pos P = map Some [0..<length (qc_queues qc)]
    \<and> (\<forall>j k l. j \<le> k \<and> k \<le> l \<and> l < length P \<and> qo_vessel (P ! j) = qo_vessel (P ! l) \<longrightarrow> qo_vessel (P ! k) = qo_vessel (P ! l))
    \<and> (\<forall>j k. j \<le> k \<and> k < length P \<and> first_of (qc_vessels qc) = Some (qo_vessel (P ! k)) \<longrightarrow> qo_vessel (P ! j) = qo_vessel (P ! k))
    \<and> (\<forall>j k. j \<le> k \<and> k < length P \<and> qo_vessel (P ! j) = qo_vessel (P ! k) \<longrightarrow>
        opt_or I32_MAX (qo_seq (P ! j)) \<le> opt_or I32_MAX (qo_seq (P ! k)))"
proof (intro conjI allI impI)
  show "mset P = mset (qc_queues (time_qc now anchor maps twin mt qc))" by (simp add: P_def placed_queues)
  show "map qo_timeline_pos P = map Some [0..<length (qc_queues qc)]" by (rule nth_equalityI) (simp_all add: P_def placed_nth)
  have key: "vessel_key maps qc (qo_vessel (P ! j)) \<le> vessel_key maps qc (qo_vessel (P ! k))" if "j \<le> k" "k < length P" for j k
    using placed_keys(1)[of j k qc] that by (simp add: P_def)
  show "qo_vessel (P ! k) = qo_vessel (P ! l)" if "j \<le> k \<and> k \<le> l \<and> l < length P \<and> qo_vessel (P ! j) = qo_vessel (P ! l)" for j k l
  proof -
    have "vessel_key maps qc (qo_vessel (P ! k)) = vessel_key maps qc (qo_vessel (P ! l))"
      using key[of j k] key[of k l] that by (intro antisym) auto
    then show ?thesis by simp
  qed
  show "qo_vessel (P ! j) = qo_vessel (P ! k)" if "j \<le> k \<and> k < length P \<and> first_of (qc_vessels qc) = Some (qo_vessel (P ! k))" for j k
    using key[of j k] that by (auto simp: less_eq_prod_def split: if_splits)
  show "opt_or I32_MAX (qo_seq (P ! j)) \<le> opt_or I32_MAX (qo_seq (P ! k))"
    if "j \<le> k \<and> k < length P \<and> qo_vessel (P ! j) = qo_vessel (P ! k)" for j k
    using placed_keys(2)[of j k qc] that by (simp add: P_def)
qed

theorem timeline_blocks_witness:
  "map qo_timeline_pos (placed 0 0 two_maps (\<lambda>_. None) Map.empty two_queues) = [Some 0, Some 1]"
  using timeline_blocks[of 0 0 two_maps "\<lambda>_. None" Map.empty two_queues] by (simp add: two_queues_facts numeral_2_eq_2)

text \<open>
  With learned move times that are not negative, a crane is not told to be at a queue before it has done the queues in
  front of it: the time it reaches a queue is at least the time it reaches an earlier queue and the seconds that queue takes,
  and never before the time of the data.
\<close>

theorem eta_leaves_room:
  fixes now anchor maps twin mt qc
  defines "P \<equiv> placed now anchor maps twin mt qc"
  assumes "times_ok mt" "j < k" "k < length (qc_queues qc)"
    and "finish_by maps (qc_queues qc) (qo_vessel (P ! j)) = Some fj" "finish_by maps (qc_queues qc) (qo_vessel (P ! k)) = Some fk"
  shows "\<exists>a p b. qo_work_eta_ts (P ! j) = Some a \<and> qo_proc_s (P ! j) = Some p \<and> qo_work_eta_ts (P ! k) = Some b
    \<and> anchor \<le> a \<and> 0 \<le> p \<and> a + usecs p \<le> b"
proof -
  define ct where "ct = crane_time_of maps twin mt qc"
  define raw where "raw i = anchor + usecs (trunc_real (max (ct_suffix ct ! 0 - ct_suffix ct ! i) 0))" for i
  have j: "j < length (qc_queues qc)" using assms(3,4) by simp
  have m: "ct_suffix ct ! (j + 1) \<le> ct_suffix ct ! 0" "ct_suffix ct ! j \<le> ct_suffix ct ! 0" "ct_suffix ct ! k \<le> ct_suffix ct ! (j + 1)"
    using crane_suffix_mono(1)[OF assms(2)] assms(3,4) j by (auto simp: ct_def)
  have p: "0 \<le> ct_procs ct ! j" using crane_procs_nonneg[OF assms(2) j] by (simp add: ct_def)
  have st: "ct_suffix ct ! j = ct_procs ct ! j + ct_suffix ct ! (j + 1)" using crane_suffix_step[OF j] by (simp add: ct_def)
  have "trunc_real (ct_suffix ct ! 0 - ct_suffix ct ! j) + trunc_real (ct_procs ct ! j) \<le> trunc_real (ct_suffix ct ! 0 - ct_suffix ct ! (j + 1))"
    using trunc_real_add[of "ct_suffix ct ! 0 - ct_suffix ct ! j" "ct_procs ct ! j"] p m st by simp
  also have "\<dots> \<le> trunc_real (ct_suffix ct ! 0 - ct_suffix ct ! k)" by (rule trunc_real_mono) (use m in simp)
  finally have r: "raw j + usecs (trunc_real (ct_procs ct ! j)) \<le> raw k" using m by (simp add: raw_def usecs_def)
  have pos: "0 \<le> trunc_real (ct_procs ct ! j)" "anchor \<le> raw j" using p trunc_real_nonneg by (simp_all add: raw_def usecs_def)
  then have rr: "raw j \<le> raw k" using r by (simp add: usecs_def)
  have b: "0 \<le> shift_breaks_between anchor (raw j)" "shift_breaks_between anchor (raw j) \<le> shift_breaks_between anchor (raw k)"
    using breaks_mono[OF pos(2) rr] by simp_all
  have "qo_work_eta_ts (P ! j) = Some (raw j + usecs (shift_breaks_between anchor (raw j) * SHIFT_BREAK_S))"
    using placed_times(1)[OF j] assms(5) by (simp add: P_def raw_def ct_def Let_def)
  moreover have "qo_work_eta_ts (P ! k) = Some (raw k + usecs (shift_breaks_between anchor (raw k) * SHIFT_BREAK_S))"
    using placed_times(1)[OF assms(4)] assms(6) by (simp add: P_def raw_def ct_def Let_def)
  moreover have "qo_proc_s (P ! j) = Some (trunc_real (ct_procs ct ! j))" using placed_proc[OF j] assms(5) by (simp add: P_def ct_def)
  ultimately show ?thesis using pos r b by (auto simp: usecs_def SHIFT_BREAK_S_def)
qed

theorem eta_leaves_room_witness:
  "\<exists>a p b. qo_work_eta_ts (placed 0 0 two_maps (\<lambda>_. None) Map.empty two_queues ! 0) = Some a
    \<and> qo_proc_s (placed 0 0 two_maps (\<lambda>_. None) Map.empty two_queues ! 0) = Some p
    \<and> qo_work_eta_ts (placed 0 0 two_maps (\<lambda>_. None) Map.empty two_queues ! 1) = Some b \<and> 0 \<le> a \<and> 0 \<le> p \<and> a + usecs p \<le> b"
  by (rule eta_leaves_room[where fj = "usecs 34200" and fk = "usecs 34200"]) (simp_all add: two_told)

text \<open>
  C25. The deadlines of a vessel's queues at a crane run backwards from the vessel's target: the last queue is due at the
  target, no queue is due later, and a queue is due early enough to leave the seconds of the queue after it.
\<close>

theorem deadlines_leave_room:
  fixes now anchor maps twin mt qc
  defines "P \<equiv> placed now anchor maps twin mt qc"
  assumes "times_ok mt" "k < length (qc_queues qc)" "finish_by maps (qc_queues qc) (qo_vessel (P ! k)) = Some fb"
  shows "\<exists>d. qo_deadline_ts (P ! k) = Some d \<and> d \<le> fb
    \<and> ((\<forall>l < length P. qo_vessel (P ! l) = qo_vessel (P ! k) \<longrightarrow> l \<le> k) \<longrightarrow> d = fb)
    \<and> (Suc k < length P \<and> qo_vessel (P ! Suc k) = qo_vessel (P ! k) \<longrightarrow>
       (\<exists>p e. qo_proc_s (P ! Suc k) = Some p \<and> qo_deadline_ts (P ! Suc k) = Some e \<and> d + usecs p \<le> e))"
proof -
  define ct where "ct = crane_time_of maps twin mt qc"
  define L where "L = vessel_last maps qc (qo_vessel (P ! k))"
  have v: "qo_vessel (P ! i) = qo_vessel (qc_queues qc ! (timeline maps qc ! i))" if "i < length (qc_queues qc)" for i
    using that by (simp add: P_def placed_nth)
  have L: "k \<le> L" "L < length (qc_queues qc)" using vessel_last(2,3)[OF assms(3) refl, of maps] v[OF assms(3)] by (simp_all add: L_def)
  have Lv: "qo_vessel (P ! L) = qo_vessel (P ! k)"
  proof -
    let ?vs = "map (\<lambda>i. qo_vessel (qc_queues qc ! i)) (timeline maps qc)"
    have "last_of ?vs (qo_vessel (P ! k)) = Some L"
      using vessel_last(1)[OF assms(3) refl, of maps] v[OF assms(3)] by (simp add: L_def crane_time_sel(4))
    then have "?vs ! L = qo_vessel (P ! k)" using last_of_Some by blast
    then show ?thesis using v[OF L(2)] L(2) by (simp add: timeline_perm(3))
  qed
  have d: "qo_deadline_ts (P ! k) = Some (fb - usecs (trunc_real (ct_suffix ct ! (k + 1) - ct_suffix ct ! (L + 1))))"
    using placed_times(2)[OF assms(3)] assms(4) crane_suffix_mono(1)[OF assms(2), of "k + 1" "L + 1" qc] L
    by (simp add: P_def ct_def L_def)
  have nn: "0 \<le> ct_suffix ct ! (k + 1) - ct_suffix ct ! (L + 1)"
    using crane_suffix_mono(1)[OF assms(2), of "k + 1" "L + 1" qc maps twin] L by (simp add: ct_def)
  have nxt: "\<exists>p e. qo_proc_s (P ! Suc k) = Some p \<and> qo_deadline_ts (P ! Suc k) = Some e
      \<and> fb - usecs (trunc_real (ct_suffix ct ! (k + 1) - ct_suffix ct ! (L + 1))) + usecs p \<le> e"
    if a: "Suc k < length P" "qo_vessel (P ! Suc k) = qo_vessel (P ! k)"
  proof -
    have k: "Suc k < length (qc_queues qc)" using a(1) by (simp add: P_def)
    have "Suc k \<le> L" using vessel_last(2)[OF k refl, of maps] v[OF k] a(2) by (simp add: L_def)
    then have m: "ct_suffix ct ! (L + 1) \<le> ct_suffix ct ! (k + 2)"
      using crane_suffix_mono(1)[OF assms(2), of "k + 2" "L + 1" qc] L by (simp add: ct_def)
    have p: "0 \<le> ct_procs ct ! Suc k" using crane_procs_nonneg[OF assms(2) k] by (simp add: ct_def)
    have st: "ct_suffix ct ! (k + 1) = ct_procs ct ! Suc k + ct_suffix ct ! (k + 2)" using crane_suffix_step[OF k] by (simp add: ct_def)
    have f: "finish_by maps (qc_queues qc) (qo_vessel (P ! Suc k)) = Some fb" using assms(4) a(2) by simp
    have "qo_deadline_ts (P ! Suc k) = Some (fb - usecs (trunc_real (ct_suffix ct ! (k + 2) - ct_suffix ct ! (L + 1))))"
      using placed_times(2)[OF k f[unfolded P_def]] a(2) m by (simp add: P_def ct_def L_def)
    moreover have "qo_proc_s (P ! Suc k) = Some (trunc_real (ct_procs ct ! Suc k))" using placed_proc[OF k f[unfolded P_def]] by (simp add: P_def ct_def)
    moreover have "trunc_real (ct_procs ct ! Suc k) + trunc_real (ct_suffix ct ! (k + 2) - ct_suffix ct ! (L + 1))
        \<le> trunc_real (ct_suffix ct ! (k + 1) - ct_suffix ct ! (L + 1))"
      using trunc_real_add[OF p, of "ct_suffix ct ! (k + 2) - ct_suffix ct ! (L + 1)"] m st by (simp add: add_diff_eq)
    ultimately show ?thesis by (simp add: usecs_def)
  qed
  have "k = L" if "\<forall>l < length P. qo_vessel (P ! l) = qo_vessel (P ! k) \<longrightarrow> l \<le> k"
    using that[rule_format, of L] Lv L by (simp add: P_def)
  then show ?thesis using d nxt trunc_real_nonneg[OF nn] by (auto simp: usecs_def trunc_real_def)
qed

theorem deadlines_leave_room_witness:
  "\<exists>d. qo_deadline_ts (placed 0 0 two_maps (\<lambda>_. None) Map.empty two_queues ! 0) = Some d \<and> d \<le> usecs 34200
    \<and> (\<exists>p e. qo_proc_s (placed 0 0 two_maps (\<lambda>_. None) Map.empty two_queues ! 1) = Some p
      \<and> qo_deadline_ts (placed 0 0 two_maps (\<lambda>_. None) Map.empty two_queues ! 1) = Some e \<and> d + usecs p \<le> e)"
  using deadlines_leave_room[of Map.empty 0 two_queues two_maps 0 0 "\<lambda>_. None" "usecs 34200"] by (auto simp: two_told)

text \<open>
  The pace handed to the dispatch stage is sound: a queue's moves before it are not negative and not more than the moves
  up to the end of its vessel.
\<close>

theorem pace_within_total:
  fixes now anchor maps twin mt qc k
  defines "q \<equiv> placed now anchor maps twin mt qc ! k"
  assumes "times_ok mt" "k < length (qc_queues qc)" "finish_by maps (qc_queues qc) (qo_vessel q) = Some fb"
  shows "\<exists>b t. qo_pace_before_n q = Some b \<and> qo_pace_total_n q = Some t \<and> 0 \<le> b \<and> b \<le> t \<and> qo_pace_finish_by q = Some fb"
proof -
  have "qo_vessel q = qo_vessel (qc_queues qc ! (timeline maps qc ! k))" using assms(3) by (simp add: q_def placed_nth)
  then have L: "k \<le> vessel_last maps qc (qo_vessel q)" "vessel_last maps qc (qo_vessel q) < length (qc_queues qc)"
    using vessel_last(2,3)[OF assms(3) refl, of maps] by simp_all
  have "0 \<le> round_away (ct_suffix_n (crane_time_of maps twin mt qc) ! 0 - ct_suffix_n (crane_time_of maps twin mt qc) ! k)"
    by (rule round_away_nonneg) (use crane_suffix_mono(2)[OF assms(2), of 0 k qc] assms(3) in simp)
  moreover have "round_away (ct_suffix_n (crane_time_of maps twin mt qc) ! 0 - ct_suffix_n (crane_time_of maps twin mt qc) ! k) \<le>
      round_away (ct_suffix_n (crane_time_of maps twin mt qc) ! 0 - ct_suffix_n (crane_time_of maps twin mt qc) ! (vessel_last maps qc (qo_vessel q) + 1))"
    by (rule round_away_mono) (use crane_suffix_mono(2)[OF assms(2), of k "vessel_last maps qc (qo_vessel q) + 1" qc] L in simp)
  ultimately show ?thesis using placed_times(3-5)[OF assms(3) assms(4)[unfolded q_def]] by (simp add: q_def)
qed

theorem pace_within_total_witness:
  "\<exists>b t. qo_pace_before_n (placed 0 0 two_maps (\<lambda>_. None) Map.empty two_queues ! 1) = Some b
    \<and> qo_pace_total_n (placed 0 0 two_maps (\<lambda>_. None) Map.empty two_queues ! 1) = Some t \<and> 0 \<le> b \<and> b \<le> t
    \<and> qo_pace_finish_by (placed 0 0 two_maps (\<lambda>_. None) Map.empty two_queues ! 1) = Some (usecs 34200)"
  by (rule pace_within_total) (simp_all add: two_told)

end
