(* ===== verification/WorkDemand.thy ===== *)
theory WorkDemand
  imports CraneTime
begin

text \<open>
  The work the matcher is offered (\<^verbatim>\<open>stage2_work_candidates\<close> in \<^verbatim>\<open>src/crates/api/src/workpool.rs\<close>): one item per
  truck load of the boxes that are listed one by one, and one item per bucket for the queues that have no such box; each
  with the time a truck has to be sent. And what the page shows of it (\<^verbatim>\<open>workpool\<close>): the vessels at berth.

  The grouping of the boxes into loads and their place in the stowage plan is a query of the database; it is written
  out over lists of rows. The loads come in the order of their first row, which the query leaves open; the statements
  are about the items and not about their order.
\<close>

section \<open>Rows\<close>

text \<open>A finished crane move: box, job type, time. A row of the stowage plan: vessel, voyage, queue, box, number.\<close>

type_synonym done_row = "string \<times> string \<times> instant"
type_synonym plan_row = "string \<times> string \<times> string \<times> string \<times> int option"

record demand_db = pool_db +
  learn_dispatch_lead :: "(string \<times> int) list"
  learn_qc_slot_step :: "wall_row list"
  qc_move_log :: "done_row list"
  live_stow_plan :: "plan_row list"

record stage2_work =
  s2_qc :: string
  s2_vessel :: string
  s2_queuename :: string
  s2_jobtype :: string
  s2_src_block :: "string option"
  s2_n :: int
  s2_work_eta_ts :: "instant option"
  s2_deadline_ts :: "instant option"
  s2_proc_s :: "int option"
  s2_dispatch_deadline_ts :: "instant option"
  s2_dd_lead_s :: int
  s2_slot_idx :: "int option"
  s2_move_s :: "int option"
  s2_tos_assigned :: bool
  s2_contno :: "string option"
  s2_contnos :: "string list"

section \<open>Learned values\<close>

definition clamp_int :: "int \<Rightarrow> int \<Rightarrow> int \<Rightarrow> int" where
  "clamp_int lo hi x = max lo (min hi x)"

definition LEAD_DS_S :: int where "LEAD_DS_S = 450"
definition LEAD_LD_S :: int where "LEAD_LD_S = 1180"
definition BOX_MOVE_DS_S :: int where "BOX_MOVE_DS_S = 99"
definition BOX_MOVE_LD_S :: int where "BOX_MOVE_LD_S = 126"

text \<open>The last row of a job type wins.\<close>

definition lead_realized :: "(string \<times> int) list \<Rightarrow> string \<rightharpoonup> int" where
  "lead_realized rows = map_of (rev (map (\<lambda>(j, v). (j, clamp_int 60 3600 v)) rows))"

definition lead_of :: "(string \<times> int) list \<Rightarrow> string \<Rightarrow> int" where
  "lead_of rows jt = opt_or (if jt = ''LD'' then LEAD_LD_S else LEAD_DS_S) (lead_realized rows jt)"

type_synonym step_map = "string \<times> char \<rightharpoonup> int"

definition add_step :: "(int \<Rightarrow> int) \<Rightarrow> wall_row \<Rightarrow> step_map \<Rightarrow> step_map" where
  "add_step f r mt = (case r of (qc, jt, w) \<Rightarrow> (case w of None \<Rightarrow> mt | Some s \<Rightarrow> mt((qc, job_char jt) \<mapsto> f s)))"

definition box_move_time :: "move_time_row list \<Rightarrow> wall_row list \<Rightarrow> step_map" where
  "box_move_time rows walls =
     fold (add_step id) walls (fold (add_step (clamp_int 30 600)) (map (\<lambda>(qc, jt, _, ms). (qc, jt, ms)) rows) Map.empty)"

definition slot_step :: "wall_row list \<Rightarrow> step_map" where
  "slot_step rows = fold (add_step (clamp_int 30 600)) rows Map.empty"

definition opt_else :: "'a option \<Rightarrow> 'a option \<Rightarrow> 'a option" where
  "opt_else x y = (case x of None \<Rightarrow> y | Some v \<Rightarrow> Some v)"

definition move_s_of :: "step_map \<Rightarrow> step_map \<Rightarrow> string \<Rightarrow> string \<Rightarrow> int" where
  "move_s_of step mt qc jt =
     (let jc = job_char jt
      in opt_or (if jt = ''LD'' then BOX_MOVE_LD_S else BOX_MOVE_DS_S)
           (opt_else (step (qc, jc)) (opt_else (step (''*'', jc)) (mt (qc, jc)))))"

section \<open>The times of a queue\<close>

type_synonym queue_key = "string \<times> string \<times> string"
type_synonym eta_row = "instant \<times> instant option \<times> int option \<times> int option \<times> int option \<times> instant option"

definition add_eta :: "string \<Rightarrow> queue_out \<Rightarrow> (queue_key \<rightharpoonup> eta_row) \<Rightarrow> (queue_key \<rightharpoonup> eta_row)" where
  "add_eta qc q m = (case qo_work_eta_ts q of
     None \<Rightarrow> m
   | Some e \<Rightarrow> m((qc, qo_vessel q, qo_queuename q) \<mapsto>
       (e, qo_deadline_ts q, qo_proc_s q, qo_pace_before_n q, qo_pace_total_n q, qo_pace_finish_by q)))"

definition eta_map :: "workpool_out \<Rightarrow> queue_key \<rightharpoonup> eta_row" where
  "eta_map wp = fold (\<lambda>qc m. fold (add_eta (qc_name qc)) (qc_queues qc) m) (wo_qcs wp) Map.empty"

definition int_quot :: "int \<Rightarrow> int \<Rightarrow> int" where
  "int_quot a b = (if 0 \<le> a then a div b else - ((- a) div b))"

text \<open>The seconds each move may take so that the vessel leaves on time, at least one.\<close>

definition pace_of :: "instant \<Rightarrow> instant \<Rightarrow> int \<Rightarrow> int" where
  "pace_of now_ts fb total_n = max (int_quot (num_seconds (fb - now_ts)) total_n) 1"

text \<open>The time the move at place \<open>slot\<close> of a queue is due; without a target, the time the crane reaches it.\<close>

definition move_due :: "instant \<Rightarrow> eta_row option \<Rightarrow> int \<Rightarrow> instant option \<Rightarrow> instant option" where
  "move_due now_ts row slot eta = (case row of
     Some (_, _, _, before_n, total_n, Some fb) \<Rightarrow>
       Some (now_ts + usecs ((max (opt_or 0 before_n) 0 + slot) * pace_of now_ts fb (max (opt_or 0 total_n) 1)))
   | _ \<Rightarrow> eta)"

definition send_by :: "instant option \<Rightarrow> int \<Rightarrow> instant option" where
  "send_by due lead = map_option (\<lambda>e. e - usecs lead) due"

definition row_eta :: "eta_row option \<Rightarrow> instant option" where
  "row_eta row = map_option fst row"
definition row_deadline :: "eta_row option \<Rightarrow> instant option" where
  "row_deadline row = Option.bind row (\<lambda>(_, d, _). d)"
definition row_proc :: "eta_row option \<Rightarrow> int option" where
  "row_proc row = Option.bind row (\<lambda>(_, _, p, _). p)"

section \<open>Loads\<close>

definition nonempty :: "string option \<Rightarrow> string option" where
  "nonempty s = (if s = Some [] then None else s)"

text \<open>A row of the work pool that lists one box of a discharge or a load.\<close>

definition boxed :: "move_row \<Rightarrow> bool" where
  "boxed w \<longleftrightarrow> (mr_jobtype w = Some ''DS'' \<or> mr_jobtype w = Some ''LD'') \<and> filled (mr_qc w) \<and> filled (mr_contno w)"

definition boxed_keys :: "move_row list \<Rightarrow> queue_key set" where
  "boxed_keys moves = set (map (\<lambda>w. (the (mr_qc w), mr_vessel w, mr_queuename w)) (filter boxed moves))"

text \<open>The crane has handled the box in the last twelve hours.\<close>

definition crane_done :: "instant \<Rightarrow> done_row list \<Rightarrow> move_row \<Rightarrow> bool" where
  "crane_done now_ts moved w \<longleftrightarrow>
     list_ex (\<lambda>(c, jt, comp). mr_contno w = Some c \<and> mr_jobtype w = Some jt \<and> now_ts - usecs (12 * 3600) < comp) moved"

text \<open>The key of a load: crane, vessel, voyage, queue, job type, and the twin pair or the box itself.\<close>

type_synonym load_key = "string option \<times> string \<times> string option \<times> string \<times> string option \<times> string option"

definition load_key_of :: "move_row \<Rightarrow> load_key" where
  "load_key_of w = (mr_qc w, mr_vessel w, mr_voyage w, mr_queuename w, mr_jobtype w, opt_else (nonempty (mr_twinkey w)) (mr_contno w))"

text \<open>The least value of a column that is not null.\<close>

definition least :: "'a::linorder option list \<Rightarrow> 'a option" where
  "least xs = (case List.map_filter id xs of [] \<Rightarrow> None | y # ys \<Rightarrow> Some (fold min ys y))"

record load_row =
  lo_key :: load_key
  lo_src_block :: "string option"
  lo_seqno :: "string option"
  lo_cre_ts :: "instant option"
  lo_contno :: "string option"
  lo_contnos :: "string list"
  lo_tos_assigned :: bool

definition src_block_of :: "move_row \<Rightarrow> string option" where
  "src_block_of w = (if mr_jobtype w = Some ''LD'' then nonempty (map_option (take 3) (mr_yt_topos w)) else None)"

definition load_of :: "move_row list \<Rightarrow> load_key \<Rightarrow> load_row" where
  "load_of rows key =
     (let g = filter (\<lambda>w. load_key_of w = key) rows
      in \<lparr>lo_key = key, lo_src_block = least (map src_block_of g), lo_seqno = least (map mr_seqno g), lo_cre_ts = least (map mr_cre_ts g),
          lo_contno = least (map mr_contno g), lo_contnos = sort (remdups (List.map_filter mr_contno g)),
          lo_tos_assigned = list_ex (\<lambda>w. filled (mr_ytno w)) g\<rparr>)"

definition loads :: "instant \<Rightarrow> done_row list \<Rightarrow> move_row list \<Rightarrow> load_row list" where
  "loads now_ts moved moves =
     (let rows = filter (\<lambda>w. boxed w \<and> \<not> crane_done now_ts moved w) moves
      in map (load_of rows) (remdups (map load_key_of rows)))"

text \<open>The number of the rows before a row, in the order of a window.\<close>

definition pos_in :: "('a \<Rightarrow> 'b::linorder) \<Rightarrow> ('a \<Rightarrow> bool) \<Rightarrow> 'a list \<Rightarrow> nat option" where
  "pos_in key p xs = (let ys = takeWhile (\<lambda>x. \<not> p x) (sort_key key xs) in if length ys < length xs then Some (length ys) else None)"

text \<open>The place of a box in the plan of its queue, counted over the whole plan.\<close>

definition plan_pos :: "plan_row list \<Rightarrow> string \<Rightarrow> string \<Rightarrow> string \<Rightarrow> string \<Rightarrow> nat option" where
  "plan_pos plan vessel voyage queue box =
     pos_in (\<lambda>(_, _, _, c, s). (none_last s, c)) (\<lambda>(_, _, _, c, _). c = box) (filter (\<lambda>(v, y, q, _). v = vessel \<and> y = voyage \<and> q = queue) plan)"

definition twinkey_frac :: "move_row list \<Rightarrow> string \<Rightarrow> real option" where
  "twinkey_frac rows v =
     (let rs = filter (\<lambda>m. mr_vessel m = v) rows in
      if rs = [] then None else Some (real (length (filter (\<lambda>m. nonempty (mr_twinkey m) \<noteq> None) rs)) / real (length rs)))"

text \<open>A key that puts a missing text last.\<close>

definition text_last :: "string option \<Rightarrow> nat \<times> string" where
  "text_last t = (case t of None \<Rightarrow> (1, []) | Some x \<Rightarrow> (0, x))"

definition issue_pos :: "load_row list \<Rightarrow> load_row \<Rightarrow> int" where
  "issue_pos ls l = (case lo_key l of (qc, v, _, q, _) \<Rightarrow>
     int (opt_or 0 (pos_in (\<lambda>l. (text_last (nonempty (lo_seqno l)), none_last (lo_cre_ts l), text_last (lo_contno l))) (\<lambda>x. x = l)
       (filter (\<lambda>l'. case lo_key l' of (qc', v', _, q', _) \<Rightarrow> qc' = qc \<and> v' = v \<and> q' = q) ls))))"

definition slot_idx :: "plan_row list \<Rightarrow> move_row list \<Rightarrow> load_row list \<Rightarrow> load_row \<Rightarrow> int" where
  "slot_idx plan moves ls l = (case lo_key l of (_, v, voy, q, _) \<Rightarrow>
     (case Option.bind voy (\<lambda>y. Option.bind (lo_contno l) (plan_pos plan v y q)) of
        Some p \<Rightarrow> \<lfloor>real p * (1 - opt_or 0 (twinkey_frac moves v) / 2)\<rfloor>
      | None \<Rightarrow> issue_pos ls l))"

section \<open>The items\<close>

definition bucket_item :: "instant \<Rightarrow> demand_db \<Rightarrow> (queue_key \<rightharpoonup> eta_row) \<Rightarrow> string \<Rightarrow> candidate_out \<Rightarrow> stage2_work" where
  "bucket_item now_ts db eta qc c =
     (let jt = opt_or [] (co_jobtype c); lead = lead_of (learn_dispatch_lead db) jt; row = eta (qc, co_vessel c, co_queuename c)
      in \<lparr>s2_qc = qc, s2_vessel = co_vessel c, s2_queuename = co_queuename c, s2_jobtype = jt, s2_src_block = co_src_block c, s2_n = co_n c,
          s2_work_eta_ts = row_eta row, s2_deadline_ts = row_deadline row, s2_proc_s = row_proc row,
          s2_dispatch_deadline_ts = send_by (move_due now_ts row 0 (row_eta row)) lead, s2_dd_lead_s = lead, s2_slot_idx = None, s2_move_s = None,
          s2_tos_assigned = False, s2_contno = None, s2_contnos = []\<rparr>)"

definition bucket_items :: "instant \<Rightarrow> demand_db \<Rightarrow> (queue_key \<rightharpoonup> eta_row) \<Rightarrow> move_row list \<Rightarrow> candidate_out list \<Rightarrow> stage2_work list" where
  "bucket_items now_ts db eta moves cands =
     List.map_filter (\<lambda>c. case co_qc c of
         None \<Rightarrow> None
       | Some qc \<Rightarrow> if qc = [] \<or> (qc, co_vessel c, co_queuename c) \<in> boxed_keys moves then None else Some (bucket_item now_ts db eta qc c)) cands"

definition box_item :: "instant \<Rightarrow> demand_db \<Rightarrow> (queue_key \<rightharpoonup> eta_row) \<Rightarrow> load_row \<Rightarrow> int \<Rightarrow> stage2_work" where
  "box_item now_ts db eta l slot = (case lo_key l of (qc, v, _, q, jt, _) \<Rightarrow>
     let qc = opt_or [] qc; jt = opt_or [] jt; lead = lead_of (learn_dispatch_lead db) jt;
         step = move_s_of (slot_step (learn_qc_slot_step db)) (box_move_time (learn_qc_move_time db) (learn_qc_wall_cadence db)) qc jt;
         row = eta (qc, v, q); box_eta = map_option (\<lambda>e. e + usecs (slot * step)) (row_eta row)
      in \<lparr>s2_qc = qc, s2_vessel = v, s2_queuename = q, s2_jobtype = jt, s2_src_block = lo_src_block l, s2_n = 1,
          s2_work_eta_ts = box_eta, s2_deadline_ts = row_deadline row, s2_proc_s = row_proc row,
          s2_dispatch_deadline_ts = send_by (move_due now_ts row slot box_eta) lead, s2_dd_lead_s = lead, s2_slot_idx = Some slot,
          s2_move_s = Some step, s2_tos_assigned = lo_tos_assigned l, s2_contno = lo_contno l, s2_contnos = lo_contnos l\<rparr>)"

definition box_items :: "instant \<Rightarrow> demand_db \<Rightarrow> (queue_key \<rightharpoonup> eta_row) \<Rightarrow> move_row list \<Rightarrow> stage2_work list" where
  "box_items now_ts db eta moves =
     (let ls = loads now_ts (qc_move_log db) moves
      in map (\<lambda>l. box_item now_ts db eta l (slot_idx (live_stow_plan db) moves ls l)) ls)"

definition stage2_work_candidates :: "instant \<Rightarrow> instant \<Rightarrow> demand_db \<Rightarrow> (workpool_out \<times> stage2_work list) option" where
  "stage2_work_candidates now now_ts db = (case build_workpool now (pool_db.truncate db) of
     None \<Rightarrow> None
   | Some wp \<Rightarrow>
       let moves = opt_or [] (live_workpool db); eta = eta_map wp
       in Some (wp, bucket_items now_ts db eta moves (wo_candidates wp) @ box_items now_ts db eta moves))"

section \<open>The page\<close>

text \<open>A vessel at berth: its name and voyage.\<close>

type_synonym berth_row = "string \<times> string option"

record box_deadline =
  bd_qc :: string
  bd_vessel :: string
  bd_queuename :: string
  bd_contno :: string
  bd_contnos :: "string list"
  bd_jobtype :: string
  bd_slot_idx :: "int option"
  bd_tos_assigned :: bool
  bd_dispatch_deadline_ts :: "instant option"
  bd_dd_lead_s :: int

definition at_berth :: "berth_row list \<Rightarrow> queue_out \<Rightarrow> bool" where
  "at_berth berthed q = (case qo_voyage q of
     Some voy \<Rightarrow> (qo_vessel q, Some voy) \<in> set berthed
   | None \<Rightarrow> qo_vessel q \<in> fst ` set berthed)"

definition keep_berthed :: "berth_row list \<Rightarrow> qc_out \<Rightarrow> qc_out" where
  "keep_berthed berthed qc =
     (let qs = filter (at_berth berthed) (qc_queues qc) in qc\<lparr>qc_queues := qs, qc_remaining := sum_list (map qo_remaining qs)\<rparr>)"

definition filter_page :: "berth_row list \<Rightarrow> workpool_out \<Rightarrow> workpool_out" where
  "filter_page berthed wp =
     (if berthed = [] then wp
      else let qcs = filter (\<lambda>qc. qc_queues qc \<noteq> [] \<or> qc_moves qc \<noteq> []) (map (keep_berthed berthed) (wo_qcs wp))
           in wp\<lparr>wo_qcs := qcs, wo_qc_count := length qcs, wo_total_remaining := sum_list (map qc_remaining qcs)\<rparr>)"

definition box_deadline_of :: "stage2_work \<Rightarrow> box_deadline option" where
  "box_deadline_of w = map_option (\<lambda>contno.
     \<lparr>bd_qc = s2_qc w, bd_vessel = s2_vessel w, bd_queuename = s2_queuename w, bd_contno = contno,
      bd_contnos = (if s2_contnos w = [] then [contno] else s2_contnos w), bd_jobtype = s2_jobtype w, bd_slot_idx = s2_slot_idx w,
      bd_tos_assigned = s2_tos_assigned w, bd_dispatch_deadline_ts = s2_dispatch_deadline_ts w, bd_dd_lead_s = s2_dd_lead_s w\<rparr>) (s2_contno w)"

definition box_deadlines :: "berth_row list \<Rightarrow> stage2_work list \<Rightarrow> box_deadline list" where
  "box_deadlines berthed cand =
     List.map_filter box_deadline_of (filter (\<lambda>w. berthed = [] \<or> s2_vessel w \<in> fst ` set berthed) cand)"

definition workpool :: "berth_row list \<Rightarrow> instant \<Rightarrow> instant \<Rightarrow> demand_db \<Rightarrow> (workpool_out \<times> box_deadline list) option" where
  "workpool berthed now now_ts db =
     map_option (\<lambda>(wp, cand). (filter_page berthed wp, box_deadlines berthed cand)) (stage2_work_candidates now now_ts db)"

end
