(* ===== verification/DemandFacts.thy ===== *)
theory DemandFacts
  imports WorkDemand
begin

text \<open>
  What the work pool and the list for the matcher promise: every move of a crane is shown once, no box is offered to the
  matcher twice, the items are well formed, the times to send a truck follow the place of the box and keep to the vessel's
  target, and the page shows the vessels at berth with totals that agree.
\<close>

section \<open>Grouping\<close>

lemma group_parts: "distinct ks \<Longrightarrow> mset (concat (map (\<lambda>k. filter (\<lambda>x. f x = k) xs) ks)) = filter_mset (\<lambda>x. f x \<in> set ks) (mset xs)"
proof (induction ks)
  case (Cons k ks)
  have "filter_mset (\<lambda>x. f x \<in> set (k # ks)) (mset xs) = filter_mset (\<lambda>x. f x = k) (mset xs) + filter_mset (\<lambda>x. f x \<in> set ks) (mset xs)"
    using Cons.prems by (auto simp: multiset_eq_iff)
  then show ?case using Cons by simp
qed simp

lemma group_all: "mset (concat (map (\<lambda>k. filter (\<lambda>x. f x = k) xs) (remdups (map f xs)))) = mset xs"
proof -
  have "filter_mset (\<lambda>x. f x \<in> f ` set xs) (mset xs) = filter_mset (\<lambda>_. True) (mset xs)" by (rule filter_mset_cong) auto
  then show ?thesis by (simp add: group_parts)
qed

lemma map_filter_in: "y \<in> set (List.map_filter f xs) \<longleftrightarrow> (\<exists>x \<in> set xs. f x = Some y)"
  by (force simp: List.map_filter_def)

lemma map_filter_Some: "(\<And>x. x \<in> set xs \<Longrightarrow> f x \<noteq> None) \<Longrightarrow> List.map_filter f xs = map (\<lambda>x. the (f x)) xs"
  by (simp add: List.map_filter_def)

lemma least_in: "(\<And>x. x \<in> set xs \<Longrightarrow> x \<noteq> None) \<Longrightarrow> xs \<noteq> [] \<Longrightarrow> \<exists>y. least xs = Some y \<and> Some y \<in> set xs"
proof -
  assume a: "\<And>x. x \<in> set xs \<Longrightarrow> x \<noteq> None" "xs \<noteq> []"
  have m: "List.map_filter id xs = map the xs" using a(1) by (simp add: map_filter_Some)
  obtain x ys where xs: "xs = x # ys" using a(2) by (cases xs) auto
  have "fold min ys y \<in> insert y (set ys)" for y :: 'a and ys by (induction ys arbitrary: y) (auto simp: min_def)
  then have "fold min (map the ys) (the x) \<in> set (map the xs)" using xs by force
  then obtain z where "z \<in> set xs" "fold min (map the ys) (the x) = the z" by auto
  then have "Some (fold min (map the ys) (the x)) \<in> set xs" using a(1) by (metis option.collapse)
  then show ?thesis using m xs by (simp add: least_def)
qed

section \<open>The cranes of the pool\<close>

lemma qc_moves_of: "qc_moves (qc_out_of queues moves qc) = sort_key (\<lambda>m. none_last (etw m)) (filter (\<lambda>m. filled (mr_qc m) \<and> mr_qc m = Some qc) moves)"
  by (simp add: qc_out_of_def Let_def)

lemma time_qc_sel [simp]:
  "qc_moves (time_qc now anchor maps twin mt qc) = qc_moves qc" "qc_name (time_qc now anchor maps twin mt qc) = qc_name qc"
  "qc_remaining (time_qc now anchor maps twin mt qc) = qc_remaining qc" "qc_active_moves (time_qc now anchor maps twin mt qc) = qc_active_moves qc"
  by (auto simp: time_qc_def head_qc_def Let_def split: option.splits)

lemma active_distinct: "distinct (active_qcs moves queues)"
  by (simp add: active_qcs_def)

lemma active_has: "m \<in> set moves \<Longrightarrow> filled (mr_qc m) \<Longrightarrow> the (mr_qc m) \<in> set (active_qcs moves queues)"
  by (cases "mr_qc m") (auto simp: active_qcs_def map_filter_in filled_def is_some_and_def intro!: bexI[of _ m])

lemma mset_concat_cong: "(\<And>x. x \<in> set xs \<Longrightarrow> mset (f x) = mset (g x)) \<Longrightarrow> mset (concat (map f xs)) = mset (concat (map g xs))"
  by (induction xs) auto

abbreviation sched_of :: "('a) pool_db_scheme \<Rightarrow> sched_map \<times> fallback_map" where
  "sched_of db \<equiv> sched_maps (filter (\<lambda>(_, _, dep, _). dep \<noteq> None) (live_vessel_schedule db))"

abbreviation times_of :: "instant \<Rightarrow> ('a) pool_db_scheme \<Rightarrow> move_times" where
  "times_of now db \<equiv> move_times_of now (learn_qc_move_time db) (learn_qc_wall_cadence db)"

lemma build_parts:
  assumes "build_workpool now db = Some wp"
  shows "\<exists>queues moves as_of cands. live_workqueue db = Some queues \<and> live_workpool db = Some moves \<and> pool_as_of db = Some as_of
    \<and> live_candidate db = Some cands \<and> wp = pool_of now queues moves as_of cands (sched_of db) (times_of now db)"
  using assms by (simp add: build_workpool_def split: option.splits)

lemma mset_concat_perm:
  assumes "mset xs = mset ys"
  shows "mset (concat (map f xs)) = mset (concat (map f ys))"
proof -
  have "mset (concat (map f zs)) = sum_mset (image_mset (\<lambda>x. mset (f x)) (mset zs))" for zs
    by (induction zs) auto
  then show ?thesis using assms by simp
qed

lemma count_in_groups: "sum_list (map (\<lambda>x. length (filter p (f x))) xs) = size (filter_mset p (mset (concat (map f xs))))"
  by (induction xs) (simp_all flip: size_mset)

text \<open>
  The work pool shows every move that has a crane exactly once, under its crane, and every crane once; the moves with a truck
  that the cranes count are the moves with a truck that have a crane.
\<close>

theorem pool_shows_every_move:
  assumes "build_workpool now db = Some wp" "live_workpool db = Some moves"
  shows "mset (concat (map qc_moves (wo_qcs wp))) = filter_mset (\<lambda>m. filled (mr_qc m)) (mset moves)
    \<and> distinct (map qc_name (wo_qcs wp)) \<and> (\<forall>qc \<in> set (wo_qcs wp). \<forall>m \<in> set (qc_moves qc). mr_qc m = Some (qc_name qc))
    \<and> sum_list (map qc_active_moves (wo_qcs wp)) = length (filter (\<lambda>m. filled (mr_qc m) \<and> filled (mr_ytno m)) moves)
    \<and> wo_qc_count wp = length (wo_qcs wp) \<and> wo_total_remaining wp = sum_list (map qc_remaining (wo_qcs wp))"
proof -
  obtain queues as_of cands where wp0: "wp = pool_of now queues moves as_of cands (sched_of db) (times_of now db)"
    using build_parts[OF assms(1)] assms(2) by auto
  define maps mt where "maps = sched_of db" and "mt = times_of now db"
  have wp: "wp = pool_of now queues moves as_of cands maps mt" using wp0 by (simp add: maps_def mt_def)
  let ?A = "active_qcs moves queues" and ?base = "base_qcs queues moves"
  have mb: "mset ?base = mset (map (qc_out_of queues moves) ?A)" by (simp add: base_qcs_def)
  have qcs: "wo_qcs wp = map (time_qc now (opt_or now as_of) maps (twin_frac moves) mt) ?base" by (simp add: wp pool_of_def Let_def)
  have "mset (concat (map qc_moves (wo_qcs wp))) = mset (concat (map qc_moves ?base))" by (simp add: qcs o_def)
  also have "\<dots> = mset (concat (map qc_moves (map (qc_out_of queues moves) ?A)))"
    by (rule mset_concat_perm[OF mb])
  also have "\<dots> = mset (concat (map (\<lambda>k. filter (\<lambda>m. the (mr_qc m) = k) (filter (\<lambda>m. filled (mr_qc m)) moves)) ?A))"
    by (simp add: o_def qc_moves_of, rule mset_concat_cong)
       (auto simp: filter_filter_mset filled_def is_some_and_def intro!: filter_mset_cong split: option.splits)
  also have "\<dots> = filter_mset (\<lambda>m. the (mr_qc m) \<in> set ?A) (mset (filter (\<lambda>m. filled (mr_qc m)) moves))"
    by (rule group_parts[OF active_distinct])
  also have "\<dots> = filter_mset (\<lambda>m. filled (mr_qc m)) (mset moves)"
    by (auto simp: filter_filter_mset active_has intro!: filter_mset_cong)
  finally have m: "mset (concat (map qc_moves (wo_qcs wp))) = filter_mset (\<lambda>m. filled (mr_qc m)) (mset moves)" .
  have "mset (map qc_name (wo_qcs wp)) = image_mset qc_name (mset ?base)" by (simp add: qcs o_def)
  also have "\<dots> = mset (map qc_name (map (qc_out_of queues moves) ?A))" unfolding mb by (rule mset_map[symmetric])
  also have "\<dots> = mset ?A" by (simp add: o_def qc_out_of_def Let_def)
  finally have d: "distinct (map qc_name (wo_qcs wp))" using active_distinct mset_eq_imp_distinct_iff by metis
  have own: "\<forall>qc \<in> set (wo_qcs wp). qc_active_moves qc = length (filter (\<lambda>m. filled (mr_ytno m)) (qc_moves qc)) \<and> (\<forall>m \<in> set (qc_moves qc). mr_qc m = Some (qc_name qc))"
  proof -
    have "set ?base = set (map (qc_out_of queues moves) ?A)" using mset_eq_setD[OF mb] .
    moreover have "qc_active_moves (qc_out_of queues moves x) = length (filter (\<lambda>m. filled (mr_ytno m)) (qc_moves (qc_out_of queues moves x)))
        \<and> (\<forall>m \<in> set (qc_moves (qc_out_of queues moves x)). mr_qc m = Some (qc_name (qc_out_of queues moves x)))" for x
      by (simp add: qc_out_of_def Let_def)
    ultimately show ?thesis by (simp add: qcs)
  qed
  have "sum_list (map qc_active_moves (wo_qcs wp)) = sum_list (map (\<lambda>qc. length (filter (\<lambda>m. filled (mr_ytno m)) (qc_moves qc))) (wo_qcs wp))"
    using own by (intro arg_cong[where f = sum_list] map_cong) auto
  also have "\<dots> = size (filter_mset (\<lambda>m. filled (mr_ytno m)) (mset (concat (map qc_moves (wo_qcs wp)))))"
    by (rule count_in_groups)
  also have "\<dots> = length (filter (\<lambda>m. filled (mr_qc m) \<and> filled (mr_ytno m)) moves)"
    unfolding m by (simp add: filter_filter_mset flip: size_mset)
  finally show ?thesis using m d own by (simp add: wp pool_of_def Let_def)
qed


text \<open>A crane without queues or moves beyond one discharge.\<close>

definition one_move :: move_row where
  "one_move = \<lparr>mr_qc = Some ''C1'', mr_queuename = ''10D-D'', mr_vessel = ''V'', mr_jobtype = Some ''DS'', mr_ytno = Some ''TT1'', mr_etw_ts = None,
     mr_etw_accurate = None, mr_contno = Some ''B1'', mr_twintandem = None, mr_voyage = Some ''1'', mr_twinkey = None, mr_seqno = None,
     mr_cre_ts = None, mr_yt_topos = None\<rparr>"

definition one_db :: demand_db where
  "one_db = \<lparr>live_workqueue = Some [], live_workpool = Some [one_move], pool_as_of = Some None, live_vessel_schedule = [],
     learn_qc_move_time = [], learn_qc_wall_cadence = [], live_candidate = Some [], learn_dispatch_lead = [], learn_qc_slot_step = [],
     qc_move_log = [], live_stow_plan = []\<rparr>"

lemma one_built: "\<exists>wp. build_workpool 0 (pool_db.truncate one_db) = Some wp" "live_workpool (pool_db.truncate one_db) = Some [one_move]"
  by (simp_all add: build_workpool_def one_db_def pool_db.truncate_def)

theorem pool_shows_every_move_witness:
  "\<exists>wp. build_workpool 0 (pool_db.truncate one_db) = Some wp \<and> mset (concat (map qc_moves (wo_qcs wp))) = {#one_move#}"
proof -
  obtain wp where wp: "build_workpool 0 (pool_db.truncate one_db) = Some wp" using one_built(1) by blast
  then show ?thesis using pool_shows_every_move[OF wp one_built(2)] by (simp add: one_move_def filled_def is_some_and_def)
qed

text \<open>
  The moves before a candidate are counted for the first queue of its crane with the candidate's queue name, whatever the vessel: a
  candidate of a second vessel whose queue has not started is reported as being worked when the first vessel has a queue of that name under way.
\<close>

theorem candidate_takes_other_vessel:
  "reach
     [\<lparr>qr_qc = ''C1'', qr_vessel = ''V'', qr_voyage = None, qr_queuename = ''10D-D'', qr_disload = None, qr_seq = Some 1, qr_total = Some 8, qr_comp = Some 3\<rparr>,
      \<lparr>qr_qc = ''C1'', qr_vessel = ''W'', qr_voyage = None, qr_queuename = ''10D-D'', qr_disload = None, qr_seq = Some 1, qr_total = Some 4, qr_comp = None\<rparr>]
     \<lparr>cr_qc = Some ''C1'', cr_queuename = ''10D-D'', cr_vessel = ''W'', cr_jobtype = Some ''DS'', cr_src_block = None, cr_rtg = None, cr_n = 4\<rparr> = (0, True)"
  by (simp add: reach_def under_way_def opt_or_def Let_def)

section \<open>The items for the matcher\<close>

abbreviation open_rows :: "instant \<Rightarrow> done_row list \<Rightarrow> move_row list \<Rightarrow> move_row list" where
  "open_rows now_ts moved moves \<equiv> filter (\<lambda>w. boxed w \<and> \<not> crane_done now_ts moved w) moves"

abbreviation item_key :: "stage2_work \<Rightarrow> queue_key" where
  "item_key w \<equiv> (s2_qc w, s2_vessel w, s2_queuename w)"

lemma stage2_parts:
  assumes "stage2_work_candidates now now_ts db = Some (wp, ws)"
  shows "\<exists>moves. live_workpool db = Some moves \<and> build_workpool now (pool_db.truncate db) = Some wp
    \<and> ws = bucket_items now_ts db (eta_map wp) moves (wo_candidates wp) @ box_items now_ts db (eta_map wp) moves"
proof -
  have b: "build_workpool now (pool_db.truncate db) = Some wp" using assms by (simp add: stage2_work_candidates_def Let_def split: option.splits)
  then obtain moves where "live_workpool db = Some moves" using build_parts[OF b] by (auto simp: pool_db.truncate_def)
  then show ?thesis using assms b by (simp add: stage2_work_candidates_def Let_def opt_or_def)
qed

lemma boxed_contno: "boxed r \<Longrightarrow> \<exists>c. mr_contno r = Some c"
  by (cases "mr_contno r") (auto simp: boxed_def filled_def is_some_and_def)

lemma in_nonempty: "x \<in> set xs \<Longrightarrow> map f xs \<noteq> []"
  by auto

lemma distinct_the:
  assumes "distinct (map f xs)" "\<And>x. x \<in> set xs \<Longrightarrow> f x \<noteq> None"
  shows "distinct (map (\<lambda>x. the (f x)) xs)"
proof -
  have "inj_on (\<lambda>x. the (f x)) (set xs)"
  proof (rule inj_onI)
    fix x y assume "x \<in> set xs" "y \<in> set xs" "the (f x) = the (f y)"
    then have "f x = f y" using assms(2) by (meson option.expand)
    then show "x = y" using \<open>x \<in> set xs\<close> \<open>y \<in> set xs\<close> assms(1) by (simp add: distinct_map inj_on_def)
  qed
  then show ?thesis using assms(1) by (simp add: distinct_map)
qed

lemma load_rows:
  assumes "l \<in> set (loads now_ts moved moves)"
  shows "\<exists>w \<in> set (open_rows now_ts moved moves). l = load_of (open_rows now_ts moved moves) (load_key_of w)"
  using assms by (auto simp: loads_def Let_def)

lemma load_box:
  assumes "w \<in> set (open_rows now_ts moved moves)"
  defines "l \<equiv> load_of (open_rows now_ts moved moves) (load_key_of w)"
  shows "\<exists>c. lo_contno l = Some c \<and> c \<in> set (lo_contnos l)"
proof -
  let ?g = "filter (\<lambda>v. load_key_of v = load_key_of w) (open_rows now_ts moved moves)"
  have b: "mr_contno v \<noteq> None" if "v \<in> set ?g" for v using that boxed_contno by auto
  have "w \<in> set ?g" using assms(1) by simp
  then have "map mr_contno ?g \<noteq> []" by (rule in_nonempty)
  then obtain c where c: "least (map mr_contno ?g) = Some c" "Some c \<in> set (map mr_contno ?g)" using least_in[of "map mr_contno ?g"] b by auto
  moreover have "c \<in> set (List.map_filter mr_contno ?g)" using c(2) unfolding map_filter_in by force
  ultimately show ?thesis by (simp add: l_def load_of_def Let_def)
qed

lemma lead_range: "60 \<le> lead_of rows jt \<and> lead_of rows jt \<le> 3600"
proof (cases "lead_realized rows jt")
  case (Some v)
  then have "(jt, v) \<in> set (rev (map (\<lambda>(j, v). (j, clamp_int 60 3600 v)) rows))" unfolding lead_realized_def by (rule map_of_SomeD)
  then have "60 \<le> v \<and> v \<le> 3600" by (auto simp: clamp_int_def)
  then show ?thesis using Some by (simp add: lead_of_def opt_or_def)
qed (simp add: lead_of_def opt_or_def LEAD_DS_S_def LEAD_LD_S_def)

lemma twinkey_frac_range: "0 \<le> opt_or 0 (twinkey_frac rows v)" "opt_or 0 (twinkey_frac rows v) \<le> 1"
  by (auto simp: twinkey_frac_def opt_or_def Let_def divide_le_eq_1 simp del: filter_filter intro: length_filter_le)

lemma slot_nonneg: "0 \<le> slot_idx plan moves ls l"
proof -
  have "0 \<le> real p * (1 - opt_or 0 (twinkey_frac moves v) / 2)" for p v
    using twinkey_frac_range(2)[of moves v] by (intro mult_nonneg_nonneg) auto
  then show ?thesis by (simp add: slot_idx_def issue_pos_def split: option.split prod.split)
qed

text \<open>The well-formedness of an item: a load lists its boxes and a place, a bucket lists none.\<close>

definition item_ok :: "stage2_work \<Rightarrow> bool" where
  "item_ok w \<longleftrightarrow> s2_qc w \<noteq> [] \<and> 60 \<le> s2_dd_lead_s w \<and> s2_dd_lead_s w \<le> 3600 \<and>
     (case s2_contno w of
        Some c \<Rightarrow> c \<in> set (s2_contnos w) \<and> s2_n w = 1 \<and> s2_jobtype w \<in> {''DS'', ''LD''} \<and> is_some_and (s2_slot_idx w) (\<lambda>i. 0 \<le> i) \<and> s2_move_s w \<noteq> None
      | None \<Rightarrow> s2_contnos w = [] \<and> s2_slot_idx w = None \<and> s2_move_s w = None \<and> \<not> s2_tos_assigned w)"

lemma bucket_ok:
  assumes "w \<in> set (bucket_items now_ts db eta moves cands)"
  shows "item_ok w" "s2_contno w = None" "s2_contnos w = []" "item_key w \<notin> boxed_keys moves"
proof -
  obtain c qc where "qc \<noteq> []" "(qc, co_vessel c, co_queuename c) \<notin> boxed_keys moves" "w = bucket_item now_ts db eta qc c"
    using assms by (auto simp: bucket_items_def map_filter_in split: option.splits if_splits)
  then show "item_ok w" "s2_contno w = None" "s2_contnos w = []" "item_key w \<notin> boxed_keys moves"
    using lead_range by (simp_all add: bucket_item_def Let_def item_ok_def)
qed

lemma box_item_sel:
  "s2_contno (box_item now_ts db eta l slot) = lo_contno l" "s2_contnos (box_item now_ts db eta l slot) = lo_contnos l"
  "s2_slot_idx (box_item now_ts db eta l slot) = Some slot" "s2_n (box_item now_ts db eta l slot) = 1"
  by (auto simp: box_item_def Let_def split: prod.split)

lemma box_ok:
  assumes "x \<in> set (box_items now_ts db eta moves)"
  shows "item_ok x" "s2_contno x \<noteq> None" "item_key x \<in> boxed_keys moves"
proof -
  let ?rows = "open_rows now_ts (qc_move_log db) moves"
  obtain l i where l: "l \<in> set (loads now_ts (qc_move_log db) moves)" "x = box_item now_ts db eta l i" "0 \<le> i"
    using assms slot_nonneg by (auto simp: box_items_def Let_def)
  then obtain w where w: "w \<in> set ?rows" "l = load_of ?rows (load_key_of w)" using load_rows by blast
  then obtain qc jt where q: "mr_qc w = Some qc" "qc \<noteq> []" "mr_jobtype w = Some jt" "jt \<in> {''DS'', ''LD''}" "boxed w" "w \<in> set moves"
    by (auto simp: boxed_def filled_def is_some_and_def split: option.splits)
  obtain c where c: "lo_contno l = Some c" "c \<in> set (lo_contnos l)" using load_box[OF w(1)] w(2) by blast
  have k: "lo_key l = (Some qc, mr_vessel w, mr_voyage w, mr_queuename w, Some jt, opt_else (nonempty (mr_twinkey w)) (mr_contno w))"
    using w(2) q by (simp add: load_of_def Let_def load_key_of_def)
  have *: "item_key x = (qc, mr_vessel w, mr_queuename w)" "s2_jobtype x = jt" "s2_dd_lead_s x = lead_of (learn_dispatch_lead db) jt" "s2_move_s x \<noteq> None"
    by (simp_all add: l(2) box_item_def k opt_or_def Let_def)
  show "item_key x \<in> boxed_keys moves" unfolding *(1) using q by (force simp: boxed_keys_def)
  show "s2_contno x \<noteq> None" using c by (simp add: l(2) box_item_sel)
  show "item_ok x" using * q c l(3) lead_range unfolding item_ok_def l(2) box_item_sel by (simp add: is_some_and_def)
qed

text \<open>
  C32. Every item offered to the matcher is well formed: it names a crane, its truck lead is between one minute and one hour; an item
  for listed boxes is one truck's load with its boxes, its job and a place that is not negative; a bucket lists no box.
\<close>

theorem items_well_formed:
  assumes "stage2_work_candidates now now_ts db = Some (wp, ws)" "w \<in> set ws"
  shows "item_ok w"
  using stage2_parts[OF assms(1)] assms(2) bucket_ok(1) box_ok(1) by auto

lemma offered_items: "\<lbrakk>stage2_work_candidates now now_ts db = Some (wp, ws); live_workpool db = Some moves\<rbrakk> \<Longrightarrow>
    ws = bucket_items now_ts db (eta_map wp) moves (wo_candidates wp) @ box_items now_ts db (eta_map wp) moves"
  using stage2_parts by force

lemma offered_keys:
  assumes "stage2_work_candidates now now_ts db = Some (wp, ws)" "live_workpool db = Some moves" "w \<in> set ws"
  shows "s2_contno w = None \<longleftrightarrow> item_key w \<notin> boxed_keys moves"
proof -
  from assms(3) consider "w \<in> set (bucket_items now_ts db (eta_map wp) moves (wo_candidates wp))" | "w \<in> set (box_items now_ts db (eta_map wp) moves)"
    unfolding offered_items[OF assms(1,2)] by auto
  then show ?thesis by cases (simp_all only: bucket_ok(2,4) box_ok(2,3) simp_thms not_True_eq_False not_False_eq_True)
qed

lemma offered_boxes:
  assumes "stage2_work_candidates now now_ts db = Some (wp, ws)" "live_workpool db = Some moves"
  defines "rows \<equiv> open_rows now_ts (qc_move_log db) moves"
  shows "concat (map s2_contnos ws) = concat (map (\<lambda>k. sort (remdups (List.map_filter mr_contno (filter (\<lambda>w. load_key_of w = k) rows)))) (remdups (map load_key_of rows)))"
proof -
  have "concat (map s2_contnos (bucket_items now_ts db (eta_map wp) moves (wo_candidates wp))) = []" using bucket_ok(3) by simp
  moreover have "map s2_contnos (box_items now_ts db (eta_map wp) moves) = map lo_contnos (loads now_ts (qc_move_log db) moves)"
    by (simp add: box_items_def Let_def o_def box_item_sel)
  moreover have "\<dots> = map (\<lambda>k. sort (remdups (List.map_filter mr_contno (filter (\<lambda>w. load_key_of w = k) rows)))) (remdups (map load_key_of rows))"
    by (simp add: loads_def load_of_def Let_def o_def rows_def)
  ultimately show ?thesis by (simp add: offered_items[OF assms(1,2)])
qed

lemma offered_box_set:
  assumes "stage2_work_candidates now now_ts db = Some (wp, ws)" "live_workpool db = Some moves"
  shows "set (concat (map s2_contnos ws)) = {c. \<exists>r \<in> set moves. boxed r \<and> \<not> crane_done now_ts (qc_move_log db) r \<and> mr_contno r = Some c}"
  unfolding offered_boxes[OF assms] by (auto simp: map_filter_in) blast



lemma one_stage2: "\<exists>wp ws. stage2_work_candidates 0 0 one_db = Some (wp, ws) \<and> length ws = 1"
  using one_built
  by (auto simp: stage2_work_candidates_def Let_def bucket_items_def box_items_def loads_def one_move_def boxed_def filled_def is_some_and_def
      crane_done_def one_db_def opt_or_def build_workpool_def pool_db.truncate_def pool_of_def candidates_of_def List.map_filter_def)

theorem items_well_formed_witness: "\<exists>wp w. stage2_work_candidates 0 0 one_db = Some (wp, [w]) \<and> item_ok w"
proof -
  obtain wp ws where ws: "stage2_work_candidates 0 0 one_db = Some (wp, ws)" "length ws = 1" using one_stage2 by blast
  then obtain w where "ws = [w]" by (auto simp: length_Suc_conv)
  then show ?thesis using items_well_formed[OF ws(1), of w] ws(1) by auto
qed


section \<open>The times to send a truck\<close>

lemma pace_pos: "1 \<le> pace_of now_ts fb n"
  by (simp add: pace_of_def)

lemma due_target: "move_due now_ts (Some (e, d, p, b, t, Some fb)) slot eta =
    Some (now_ts + usecs ((max (opt_or 0 b) 0 + slot) * pace_of now_ts fb (max (opt_or 0 t) 1)))"
  by (simp add: move_due_def)

text \<open>
  The loads of a queue whose vessel has a target are due in the order of their places, at least a second apart for every
  place between them, so a load further back is never asked for a truck before one in front of it.
\<close>

theorem send_times_follow_places:
  assumes "lo_key l = (Some qc, v, voy, q, Some jt, k)" "lo_key l' = (Some qc, v, voy', q, Some jt, k')"
    and "eta (qc, v, q) = Some (e, d, p, b, t, Some fb)" "i \<le> j"
  shows "\<exists>x y. s2_dispatch_deadline_ts (box_item now_ts db eta l i) = Some x \<and> s2_dispatch_deadline_ts (box_item now_ts db eta l' j) = Some y
    \<and> x + usecs (j - i) \<le> y"
proof -
  let ?pace = "pace_of now_ts fb (max (opt_or 0 t) 1)"
  have "(j - i) * 1 \<le> (j - i) * ?pace" using pace_pos assms(4) by (intro mult_left_mono) auto
  then have le: "i * ?pace + (j - i) \<le> j * ?pace" by (simp add: algebra_simps)
  define due where "due s = now_ts + usecs ((max (opt_or 0 b) 0 + s) * ?pace) - usecs (lead_of (learn_dispatch_lead db) jt)" for s
  have o: "opt_or [] (Some x) = x" for x :: string by (simp add: opt_or_def)
  have "s2_dispatch_deadline_ts (box_item now_ts db eta l i) = Some (due i)"
    "s2_dispatch_deadline_ts (box_item now_ts db eta l' j) = Some (due j)"
    using assms(1-3) by (simp_all add: box_item_def Let_def o due_target send_by_def due_def)
  moreover have "due i + usecs (j - i) \<le> due j" using le by (simp add: due_def usecs_def distrib_right)
  ultimately show ?thesis by blast
qed

theorem send_times_follow_places_witness:
  "\<exists>x y. s2_dispatch_deadline_ts (box_item 0 one_db [(''C1'', ''V'', ''10D-D'') \<mapsto> (0, None, None, Some 2, Some 9, Some (usecs 3600))]
       (load_of [one_move] (load_key_of one_move)) 1) = Some x
     \<and> s2_dispatch_deadline_ts (box_item 0 one_db [(''C1'', ''V'', ''10D-D'') \<mapsto> (0, None, None, Some 2, Some 9, Some (usecs 3600))]
       (load_of [one_move] (load_key_of one_move)) 4) = Some y \<and> x + usecs 3 \<le> y"
  using send_times_follow_places[of "load_of [one_move] (load_key_of one_move)" "''C1''" "''V''" "Some ''1''" "''10D-D''" "''DS''" "Some ''B1''"
      "load_of [one_move] (load_key_of one_move)" "Some ''1''" "Some ''B1''"
      "[(''C1'', ''V'', ''10D-D'') \<mapsto> (0, None, None, Some 2, Some 9, Some (usecs 3600))]" 0 None None "Some 2" "Some 9" "usecs 3600" 1 4 0 one_db]
  by (simp add: load_of_def load_key_of_def Let_def one_move_def opt_else_def nonempty_def)

lemma int_quot_le: "0 \<le> a \<Longrightarrow> 1 \<le> n \<Longrightarrow> 0 \<le> k \<Longrightarrow> k \<le> n \<Longrightarrow> k * int_quot a n \<le> a"
proof -
  assume a: "0 \<le> a" "1 \<le> n" "0 \<le> k" "k \<le> n"
  have "k * (a div n) \<le> n * (a div n)" using a by (intro mult_right_mono) (auto simp: pos_imp_zdiv_nonneg_iff)
  also have "\<dots> \<le> a" using a div_mult_mod_eq[of a n] pos_mod_sign[of n a] by (smt (verit) mult.commute)
  finally show ?thesis using a by (simp add: int_quot_def)
qed

text \<open>
  C35. The pace keeps to the target. With \<open>b\<close> moves before the queue and \<open>t\<close> up to the end of the vessel's work, the very first
  move is due at once; a move among the \<open>t\<close> is due by the target whenever a second per move is left; and when the target has passed, the
  moves are due a second apart in their order.
\<close>

theorem due_keeps_target:
  assumes "0 \<le> b" "0 \<le> i" "b + i \<le> t" "1 \<le> t"
  shows "\<exists>x. move_due now_ts (Some (e, d, p, Some b, Some t, Some fb)) i eta = Some x \<and> now_ts \<le> x \<and> (b + i = 0 \<longrightarrow> x = now_ts)
    \<and> (now_ts + usecs t \<le> fb \<longrightarrow> x \<le> fb) \<and> (fb \<le> now_ts \<longrightarrow> x = now_ts + usecs (b + i))"
proof -
  let ?s = "num_seconds (fb - now_ts)" and ?pace = "pace_of now_ts fb t"
  have m: "max (opt_or 0 (Some b)) 0 = b" "max (opt_or 0 (Some t)) 1 = t" using assms by (auto simp: opt_or_def)
  have x: "move_due now_ts (Some (e, d, p, Some b, Some t, Some fb)) i eta = Some (now_ts + usecs ((b + i) * ?pace))" unfolding due_target m ..
  have nn: "0 \<le> (b + i) * ?pace" using assms(1,2) pace_pos[of now_ts fb t] by simp
  have fits: "now_ts + usecs ((b + i) * ?pace) \<le> fb" if "now_ts + usecs t \<le> fb"
  proof -
    have s: "t \<le> ?s" "usecs ?s \<le> fb - now_ts" using that assms(4) by (auto simp: num_seconds_def usecs_def)
    have "1 \<le> int_quot ?s t" using s(1) assms(4) by (simp add: int_quot_def pos_imp_zdiv_pos_iff int_one_le_iff_zero_less)
    then have "?pace = int_quot ?s t" by (simp add: pace_of_def)
    then have "(b + i) * ?pace \<le> ?s" using int_quot_le[of ?s t "b + i"] s(1) assms by simp
    then show ?thesis using s(2) by (simp add: usecs_def)
  qed
  have late: "?pace = 1" if "fb \<le> now_ts"
  proof -
    have "?s \<le> 0" using that by (simp add: num_seconds_def) (smt (verit) pos_imp_zdiv_nonneg_iff)
    then have "int_quot ?s t \<le> 0" using assms(4) by (auto simp: int_quot_def pos_imp_zdiv_nonneg_iff)
    then show ?thesis by (simp add: pace_of_def)
  qed
  show ?thesis using nn fits late by (auto simp: x usecs_def)
qed

theorem due_keeps_target_witness:
  "\<exists>x. move_due 0 (Some (0, None, None, Some 2, Some 9, Some (usecs 3600))) 4 None = Some x \<and> 0 \<le> x \<and> x \<le> usecs 3600"
  using due_keeps_target[of 2 4 9 0 0 None None "usecs 3600" None] by (auto simp: usecs_def)

section \<open>The page\<close>

lemma keep_sel [simp]: "qc_queues (keep_berthed b qc) = filter (at_berth b) (qc_queues qc)" "qc_moves (keep_berthed b qc) = qc_moves qc"
  "qc_name (keep_berthed b qc) = qc_name qc" "qc_remaining (keep_berthed b qc) = sum_list (map qo_remaining (filter (at_berth b) (qc_queues qc)))"
  by (simp_all add: keep_berthed_def Let_def)

text \<open>
  The page shows the vessels at berth: with no vessel known at berth nothing is hidden; otherwise the queues shown are exactly the
  queues of the voyages at berth, no crane with such a queue or with a move is hidden, and every total is the sum of what is shown.
\<close>

theorem page_shows_berthed:
  "(berthed = [] \<longrightarrow> filter_page berthed wp = wp)
   \<and> (berthed \<noteq> [] \<longrightarrow>
       concat (map qc_queues (wo_qcs (filter_page berthed wp))) = filter (at_berth berthed) (concat (map qc_queues (wo_qcs wp)))
       \<and> concat (map qc_moves (wo_qcs (filter_page berthed wp))) = concat (map qc_moves (wo_qcs wp))
       \<and> wo_qc_count (filter_page berthed wp) = length (wo_qcs (filter_page berthed wp))
       \<and> wo_total_remaining (filter_page berthed wp) = sum_list (map qo_remaining (concat (map qc_queues (wo_qcs (filter_page berthed wp))))))"
proof -
  have q: "concat (map qc_queues (filter (\<lambda>qc. qc_queues qc \<noteq> [] \<or> qc_moves qc \<noteq> []) xs)) = concat (map qc_queues xs)"
    "concat (map qc_moves (filter (\<lambda>qc. qc_queues qc \<noteq> [] \<or> qc_moves qc \<noteq> []) xs)) = concat (map qc_moves xs)" for xs :: "qc_out list"
    by (induction xs) auto
  have k: "concat (map qc_queues (map (keep_berthed berthed) xs)) = filter (at_berth berthed) (concat (map qc_queues xs))"
    "concat (map qc_moves (map (keep_berthed berthed) xs)) = concat (map qc_moves xs)" for xs
    by (induction xs) auto
  have r: "sum_list (map qc_remaining xs) = sum_list (map qo_remaining (concat (map qc_queues xs)))"
    if "\<forall>qc \<in> set xs. qc_remaining qc = sum_list (map qo_remaining (qc_queues qc))" for xs :: "qc_out list"
    using that by (induction xs) auto
  show ?thesis
  proof (cases "berthed = []")
    case True
    then show ?thesis by (simp add: filter_page_def)
  next
    case False
    define qcs where "qcs = filter (\<lambda>qc. qc_queues qc \<noteq> [] \<or> qc_moves qc \<noteq> []) (map (keep_berthed berthed) (wo_qcs wp))"
    have p: "filter_page berthed wp = wp\<lparr>wo_qcs := qcs, wo_qc_count := length qcs, wo_total_remaining := sum_list (map qc_remaining qcs)\<rparr>"
      using False by (simp add: filter_page_def qcs_def Let_def)
    have "\<forall>qc \<in> set qcs. qc_remaining qc = sum_list (map qo_remaining (qc_queues qc))" by (auto simp: qcs_def)
    then have "sum_list (map qc_remaining qcs) = sum_list (map qo_remaining (concat (map qc_queues qcs)))" by (rule r)
    moreover have "concat (map qc_queues qcs) = filter (at_berth berthed) (concat (map qc_queues (wo_qcs wp)))"
      "concat (map qc_moves qcs) = concat (map qc_moves (wo_qcs wp))"
      unfolding qcs_def q k by simp_all
    ultimately show ?thesis using False by (simp add: p)
  qed
qed

theorem page_shows_berthed_witness:
  "\<exists>wp. stage2_work_candidates 0 0 one_db = Some (wp, snd (the (stage2_work_candidates 0 0 one_db)))
    \<and> concat (map qc_moves (wo_qcs (filter_page [(''V'', Some ''1'')] wp))) = concat (map qc_moves (wo_qcs wp))"
  using one_stage2 page_shows_berthed[of "[(''V'', Some ''1'')]"] by auto

end
