(* ===== verification/RunLog.thy ===== *)
theory RunLog
  imports Periods Casts
begin

text \<open>
  The log of the extracts and the freshness of their sources (\<^verbatim>\<open>start_run\<close>, \<^verbatim>\<open>finish_run\<close> in
  \<^verbatim>\<open>src/crates/extractor/src/db.rs\<close> and \<^verbatim>\<open>run_logged\<close> in \<^verbatim>\<open>src/crates/extractor/src/kpis/common.rs\<close>).

  The two tables are the state; \<open>now\<close> is the clock of the database. A statement or a transaction of the log that the
  database refuses is given by a flag: it changes nothing and its error is returned.
\<close>

section \<open>State and operations\<close>

record run_row =
  rr_id :: int
  rr_key :: string
  rr_date :: date
  rr_status :: string
  rr_rows :: "int option"
  rr_error :: "string option"
  rr_finished_at :: "int option"

record freshness =
  fr_success_date :: "date option"
  fr_success_at :: "int option"
  fr_attempt_at :: int
  fr_status :: string
  fr_is_stale :: bool

record run_db =
  rb_next :: int
  etl_run_log :: "run_row list"
  data_freshness :: "string \<rightharpoonup> freshness"

definition start_run :: "string \<Rightarrow> date \<Rightarrow> run_db \<Rightarrow> int \<times> run_db" where
  "start_run key d db =
     (rb_next db,
      db\<lparr>rb_next := rb_next db + 1,
         etl_run_log := etl_run_log db @
           [\<lparr>rr_id = rb_next db, rr_key = key, rr_date = d, rr_status = ''RUNNING'', rr_rows = None, rr_error = None, rr_finished_at = None\<rparr>]\<rparr>)"

definition finish_row :: "int \<Rightarrow> int \<Rightarrow> string \<Rightarrow> int option \<Rightarrow> string option \<Rightarrow> run_row \<Rightarrow> run_row" where
  "finish_row now run_id status rows err r =
     (if rr_id r = run_id
      then r\<lparr>rr_status := status, rr_rows := map_option as_i32 rows, rr_error := err, rr_finished_at := Some now\<rparr> else r)"

definition is_success :: "string \<Rightarrow> bool" where
  "is_success status \<longleftrightarrow> status = ''OK'' \<or> status = ''PARTIAL''"

definition touch_freshness :: "int \<Rightarrow> date \<Rightarrow> string \<Rightarrow> freshness option \<Rightarrow> freshness" where
  "touch_freshness now d status old = (case old of
     None \<Rightarrow>
       \<lparr>fr_success_date = (if is_success status then Some d else None), fr_success_at = (if is_success status then Some now else None),
        fr_attempt_at = now, fr_status = status, fr_is_stale = False\<rparr>
   | Some f \<Rightarrow>
       \<lparr>fr_success_date = (if is_success status then Some d else fr_success_date f), fr_success_at = (if is_success status then Some now else fr_success_at f),
        fr_attempt_at = now, fr_status = status, fr_is_stale = False\<rparr>)"

definition finish_run :: "int \<Rightarrow> int \<Rightarrow> string \<Rightarrow> date \<Rightarrow> string \<Rightarrow> int option \<Rightarrow> string option \<Rightarrow> run_db \<Rightarrow> run_db" where
  "finish_run now run_id key d status rows err db =
     db\<lparr>etl_run_log := map (finish_row now run_id status rows err) (etl_run_log db),
        data_freshness := (data_freshness db)(key \<mapsto> touch_freshness now d status (data_freshness db key))\<rparr>"

text \<open>
  The work of a run acts on the other tables \<open>'t\<close> and gives the number of rows or an error; \<open>start_ok\<close> and \<open>finish_ok\<close>
  say whether the database accepts the two writes of the log.
\<close>

definition run_logged ::
  "bool \<Rightarrow> bool \<Rightarrow> int \<Rightarrow> string \<Rightarrow> date \<Rightarrow> ('t \<Rightarrow> (string + int) \<times> 't) \<Rightarrow> 't \<times> run_db \<Rightarrow> (string + int) \<times> 't \<times> run_db" where
  "run_logged start_ok finish_ok now key d work s =
     (case s of (t, db) \<Rightarrow>
        if \<not> start_ok then (Inl ''inserting etl_run_log RUNNING row'', t, db)
        else let (run_id, db1) = start_run key d db; (res, t1) = work t
             in (case res of
                   Inr n \<Rightarrow> if finish_ok then (Inr n, t1, finish_run now run_id key d ''OK'' (Some n) None db1) else (Inl ''finish_run'', t1, db1)
                 | Inl e \<Rightarrow> if finish_ok then (Inl e, t1, finish_run now run_id key d ''FAILED'' None (Some e) db1) else (Inl ''finish_run'', t1, db1)))"

section \<open>The states of the log\<close>

text \<open>
  Any extract may start a run or finish a run it started; the processes of the extractor interleave. The third component
  of a state is the history: the finished runs, oldest first, as key, date, status and time.
\<close>

type_synonym fin = "string \<times> date \<times> string \<times> int"

inductive log_reach :: "run_db \<Rightarrow> fin list \<Rightarrow> bool" where
  empty: "log_reach \<lparr>rb_next = 1, etl_run_log = [], data_freshness = Map.empty\<rparr> []"
| start: "log_reach db h \<Longrightarrow> log_reach (snd (start_run key d db)) h"
| finish: "log_reach db h \<Longrightarrow> r \<in> set (etl_run_log db) \<Longrightarrow> rr_finished_at r = None \<Longrightarrow> status \<noteq> ''RUNNING'' \<Longrightarrow>
    log_reach (finish_run now (rr_id r) (rr_key r) (rr_date r) status rows err db) (h @ [(rr_key r, rr_date r, status, now)])"

text \<open>What the history says of a key: its last attempt and its last success.\<close>

definition of_key :: "string \<Rightarrow> fin list \<Rightarrow> fin list" where
  "of_key key h = filter (\<lambda>(k, _). k = key) h"

definition last_of_list :: "'a list \<Rightarrow> 'a option" where
  "last_of_list xs = (if xs = [] then None else Some (last xs))"

definition freshness_spec :: "fin list \<Rightarrow> string \<Rightarrow> freshness option" where
  "freshness_spec h key = (case last_of_list (of_key key h) of
     None \<Rightarrow> None
   | Some (_, _, status, now) \<Rightarrow>
       let good = last_of_list (filter (\<lambda>(_, _, st, _). is_success st) (of_key key h))
       in Some \<lparr>fr_success_date = map_option (\<lambda>(_, d, _). d) good, fr_success_at = map_option (\<lambda>(_, _, _, t). t) good,
            fr_attempt_at = now, fr_status = status, fr_is_stale = False\<rparr>)"

lemma last_of_list_snoc [simp]: "last_of_list (xs @ [x]) = Some x"
  by (simp add: last_of_list_def)

lemma freshness_spec_snoc:
  "freshness_spec (h @ [(k, d, status, now)]) key =
    (if key = k then Some (touch_freshness now d status (freshness_spec h key)) else freshness_spec h key)"
proof (cases "of_key key h = []")
  case True
  then have "filter p (of_key key h) = []" for p by simp
  then show ?thesis using True
    by (auto simp: freshness_spec_def of_key_def touch_freshness_def last_of_list_def Let_def simp del: filter_filter)
next
  case False
  obtain a b c e where l: "last_of_list (of_key key h) = Some (a, b, c, e)" using False by (metis last_of_list_def prod_cases4)
  show ?thesis
  proof (cases "is_success status")
    case True
    then show ?thesis using l by (auto simp: freshness_spec_def of_key_def touch_freshness_def Let_def)
  next
    case nf: False
    then show ?thesis using l by (auto simp: freshness_spec_def of_key_def touch_freshness_def Let_def)
  qed
qed

text \<open>
  C19. The freshness table is a faithful summary of the finished runs, whatever runs overlap: for every source it shows the
  status and time of the last finished run, and the date and time of the last successful one, which a failure never erases.
\<close>

theorem freshness_summarises_runs:
  assumes "log_reach db h"
  shows "data_freshness db key = freshness_spec h key"
  using assms
proof (induction arbitrary: key rule: log_reach.induct)
  case empty
  then show ?case by (simp add: freshness_spec_def of_key_def last_of_list_def)
next
  case (start db h key d)
  then show ?case by (simp add: start_run_def)
next
  case (finish db h r status now rows err)
  then show ?case by (simp add: finish_run_def freshness_spec_snoc)
qed

lemma two_runs: "log_reach (finish_run 90 1 ''ETW'' 5 ''OK'' (Some 3) None (snd (start_run ''ETW'' 5 \<lparr>rb_next = 1, etl_run_log = [], data_freshness = Map.empty\<rparr>)))
    [(''ETW'', 5, ''OK'', 90)]"
  using log_reach.finish[OF log_reach.start[OF log_reach.empty, of "''ETW''" 5],
      of "\<lparr>rr_id = 1, rr_key = ''ETW'', rr_date = 5, rr_status = ''RUNNING'', rr_rows = None, rr_error = None, rr_finished_at = None\<rparr>" "''OK''" 90 "Some 3" None]
  by (simp add: start_run_def)

theorem freshness_summarises_runs_witness:
  "data_freshness (finish_run 90 1 ''ETW'' 5 ''OK'' (Some 3) None (snd (start_run ''ETW'' 5 \<lparr>rb_next = 1, etl_run_log = [], data_freshness = Map.empty\<rparr>))) ''ETW'' =
    Some \<lparr>fr_success_date = Some 5, fr_success_at = Some 90, fr_attempt_at = 90, fr_status = ''OK'', fr_is_stale = False\<rparr>"
  using freshness_summarises_runs[OF two_runs, of "''ETW''"] by (simp add: freshness_spec_def of_key_def last_of_list_def is_success_def)

text \<open>The numbers of the runs are distinct, and a run is running exactly when it has no end.\<close>

definition log_ok :: "run_db \<Rightarrow> bool" where
  "log_ok db \<longleftrightarrow> distinct (map rr_id (etl_run_log db)) \<and>
     list_all (\<lambda>r. rr_id r < rb_next db \<and> (rr_status r = ''RUNNING'' \<longleftrightarrow> rr_finished_at r = None)) (etl_run_log db)"

lemma finish_row_id [simp]: "rr_id (finish_row now i status rows err r) = rr_id r"
  by (simp add: finish_row_def)

lemma log_reach_ok: "log_reach db h \<Longrightarrow> log_ok db"
proof (induction rule: log_reach.induct)
  case empty
  then show ?case by (simp add: log_ok_def)
next
  case (start db h key d)
  then show ?case by (force simp: log_ok_def start_run_def list_all_iff)
next
  case (finish db h r status now rows err)
  have "map rr_id (map (finish_row now (rr_id r) status rows err) (etl_run_log db)) = map rr_id (etl_run_log db)" by simp
  moreover have "rr_id (finish_row now (rr_id r) status rows err x) < rb_next db
      \<and> (rr_status (finish_row now (rr_id r) status rows err x) = ''RUNNING'' \<longleftrightarrow> rr_finished_at (finish_row now (rr_id r) status rows err x) = None)"
    if "x \<in> set (etl_run_log db)" for x
    using finish that by (auto simp: finish_row_def log_ok_def list_all_iff)
  ultimately show ?case using finish by (simp add: log_ok_def finish_run_def list_all_iff del: map_map)
qed

text \<open>
  A logged run leaves one row: when the log accepts its two writes, the result and the tables are those of the work, one row with a new
  number is added that says whether the work succeeded, and every older row stays as it was.
\<close>

theorem run_logged_leaves_row:
  assumes "log_ok db"
  shows "\<exists>row. run_logged True True now key d work (t, db) =
      (fst (work t), snd (work t), db\<lparr>rb_next := rb_next db + 1, etl_run_log := etl_run_log db @ [row],
        data_freshness := (data_freshness db)(key \<mapsto> touch_freshness now d (rr_status row) (data_freshness db key))\<rparr>)
    \<and> rr_id row \<notin> rr_id ` set (etl_run_log db) \<and> rr_key row = key \<and> rr_finished_at row = Some now
    \<and> (case fst (work t) of Inr n \<Rightarrow> rr_status row = ''OK'' \<and> rr_rows row = Some (as_i32 n) | Inl e \<Rightarrow> rr_status row = ''FAILED'' \<and> rr_error row = Some e)"
proof -
  obtain res t1 where w: "work t = (res, t1)" by force
  have f: "map (finish_row now (rb_next db) status rows err) (etl_run_log db) = etl_run_log db" for status rows err
    by (rule map_idI) (use assms in \<open>auto simp: log_ok_def list_all_iff finish_row_def\<close>)
  have n: "rb_next db \<notin> rr_id ` set (etl_run_log db)" using assms by (auto simp: log_ok_def list_all_iff)
  show ?thesis
  proof (cases res)
    case (Inl e)
    then show ?thesis using n
      by (intro exI[of _ "\<lparr>rr_id = rb_next db, rr_key = key, rr_date = d, rr_status = ''FAILED'', rr_rows = None, rr_error = Some e, rr_finished_at = Some now\<rparr>"])
         (simp add: w run_logged_def start_run_def finish_run_def f, simp add: finish_row_def)
  next
    case (Inr m)
    then show ?thesis using n
      by (intro exI[of _ "\<lparr>rr_id = rb_next db, rr_key = key, rr_date = d, rr_status = ''OK'', rr_rows = Some (as_i32 m), rr_error = None, rr_finished_at = Some now\<rparr>"])
         (simp add: w run_logged_def start_run_def finish_run_def f, simp add: finish_row_def)
  qed
qed

theorem run_logged_leaves_row_witness:
  "\<exists>row. run_logged True True 90 ''ETW'' 5 (\<lambda>t. (Inl ''refused'', t)) ((), \<lparr>rb_next = 1, etl_run_log = [], data_freshness = Map.empty\<rparr>) =
      (Inl ''refused'', (), \<lparr>rb_next = 2, etl_run_log = [row], data_freshness = [''ETW'' \<mapsto> touch_freshness 90 5 (rr_status row) None]\<rparr>) \<and> rr_status row = ''FAILED''"
  using run_logged_leaves_row[of "\<lparr>rb_next = 1, etl_run_log = [], data_freshness = Map.empty\<rparr>" 90 "''ETW''" 5 "\<lambda>t. (Inl ''refused'', t)" "()"]
  by (auto simp: log_ok_def)

end
