(* ===== verification/PoolTick.thy ===== *)
theory PoolTick
  imports DemandFacts RunLog "HOL-Library.AList"
begin

text \<open>
  The minute tick that fills the work pool (\<^verbatim>\<open>src/crates/extractor/src/workpool.rs\<close>): one fetch is split into the queues
  and the moves, the queues and the moves replace the rows of the last tick, the unassigned moves are summed into candidate
  buckets, and the exact times of the boxes are asked of the gateway for the voyages whose stored answer has expired.

  The fetched rows are an input (the Oracle tool and the decoding are outside), so are the answers of the gateway, the parser of JSON,
  of dates and of RFC 3339 times. A transaction the database refuses is given by a flag and changes nothing. The columns of a
  move that are only copied to the table are left out, and the texts of the errors are shortened.
\<close>

section \<open>The fetched rows\<close>

record tick_queue_row =
  tq_qc :: string
  tq_vessel :: string
  tq_voyage :: "string option"
  tq_queuename :: string
  tq_disload :: "string option"
  tq_seq :: "int option"
  tq_total_qty :: "int option"
  tq_comp_qty :: "int option"

record tick_move_row =
  tm_queuename :: "string option"
  tm_vessel :: string
  tm_voyage :: "string option"
  tm_jobtype :: "string option"
  tm_jobstatus :: "string option"
  tm_ytno :: "string option"
  tm_armgc :: "string option"
  tm_etw_dt :: "string option"
  tm_cre_dt :: "string option"
  tm_contno :: "string option"
  tm_seqno :: "string option"
  tm_yt_topos :: "string option"
  tm_twintandem :: "string option"
  tm_twinkey :: "string option"

text \<open>A row of the merged scan has the columns of both.\<close>

record pool_tick_row = tick_move_row +
  pt_src :: string
  pt_qc :: "string option"
  pt_disload :: "string option"
  pt_seq :: "int option"
  pt_total_qty :: "int option"
  pt_comp_qty :: "int option"

definition queue_part :: "pool_tick_row \<Rightarrow> tick_queue_row option" where
  "queue_part r = (case (pt_qc r, tm_queuename r) of
     (Some qc, Some qn) \<Rightarrow> Some \<lparr>tq_qc = qc, tq_vessel = tm_vessel r, tq_voyage = tm_voyage r, tq_queuename = qn, tq_disload = pt_disload r,
       tq_seq = pt_seq r, tq_total_qty = pt_total_qty r, tq_comp_qty = pt_comp_qty r\<rparr>
   | _ \<Rightarrow> None)"

fun split_pool_tick :: "pool_tick_row list \<Rightarrow> tick_queue_row list \<times> tick_move_row list" where
  "split_pool_tick [] = ([], [])"
| "split_pool_tick (r # rs) =
     (let (wq, wp) = split_pool_tick rs
      in if pt_src r = ''WQ'' then (case queue_part r of None \<Rightarrow> (wq, wp) | Some q \<Rightarrow> (q # wq, wp))
         else (wq, tick_move_row.truncate r # wp))"

text \<open>The scans of a tick, each answered with rows or an error: one merged scan, or two when the switch asks for it.\<close>

datatype pool_scan = Merged "string + pool_tick_row list" | Split "string + tick_queue_row list" "string + tick_move_row list"

fun scan_rows :: "pool_scan \<Rightarrow> string + (tick_queue_row list \<times> tick_move_row list)" where
  "scan_rows (Merged (Inl e)) = Inl e"
| "scan_rows (Merged (Inr rows)) = Inr (split_pool_tick rows)"
| "scan_rows (Split (Inl e) _) = Inl e"
| "scan_rows (Split (Inr _) (Inl e)) = Inl e"
| "scan_rows (Split (Inr wq) (Inr wp)) = Inr (wq, wp)"

text \<open>Which writes of the log and which transactions the database accepts, by the key of the run.\<close>

record db_faults =
  ok_start :: "string \<Rightarrow> bool"
  ok_finish :: "string \<Rightarrow> bool"
  ok_commit :: "string \<Rightarrow> bool"

definition fetch_pool_tick ::
  "db_faults \<Rightarrow> int \<Rightarrow> date \<Rightarrow> pool_scan \<Rightarrow> run_db \<Rightarrow> (string + (tick_queue_row list \<times> tick_move_row list)) \<times> run_db" where
  "fetch_pool_tick f now d scan db =
     (if \<not> ok_start f ''POOL_FETCH'' then (Inl ''inserting etl_run_log RUNNING row'', db)
      else let (run_id, db1) = start_run ''POOL_FETCH'' d db in
        if \<not> ok_finish f ''POOL_FETCH'' then (Inl ''finish_run'', db1)
        else (case scan_rows scan of
            Inr (wq, wp) \<Rightarrow> (Inr (wq, wp), finish_run now run_id ''POOL_FETCH'' d ''OK'' (Some (int (length wq + length wp))) None db1)
          | Inl e \<Rightarrow> (Inl e, finish_run now run_id ''POOL_FETCH'' d ''FAILED'' None (Some e) db1)))"

text \<open>\<open>dt\<close> reads fourteen digits as a local date and time in microseconds, none when it is no date.\<close>

definition parse_etw :: "(string \<Rightarrow> int option) \<Rightarrow> string \<Rightarrow> instant option" where
  "parse_etw dt raw =
     (let s = trim raw in
      if length s < 14 \<or> \<not> list_all is_digit (take 14 s) then None else map_option (\<lambda>t. t - usecs terminal_offset) (dt (take 14 s)))"

section \<open>Landing the queues\<close>

text \<open>
  The exact times: keyed by vessel, voyage and box, the time at the crane and at the vessel, the end of its validity and
  the time the row was written.
\<close>

type_synonym etw_table = "((string \<times> string \<times> string) \<times> (instant option \<times> instant option \<times> instant option \<times> instant)) list"

record pool_tables =
  t_workqueue :: "queue_row list"
  t_workpool :: "move_row list"
  t_as_of :: "instant option"
  t_candidate :: "candidate_row list"
  t_assigned :: "(string \<times> string option) list"
  t_etw :: etw_table

definition queue_row_of :: "tick_queue_row \<Rightarrow> queue_row" where
  "queue_row_of r =
     \<lparr>qr_qc = tq_qc r, qr_vessel = tq_vessel r, qr_voyage = tq_voyage r, qr_queuename = tq_queuename r, qr_disload = tq_disload r,
      qr_seq = map_option as_i32 (tq_seq r), qr_total = map_option as_i32 (tq_total_qty r), qr_comp = map_option as_i32 (tq_comp_qty r)\<rparr>"

definition queue_pk :: "queue_row \<Rightarrow> string \<times> string \<times> string" where
  "queue_pk q = (qr_qc q, qr_vessel q, qr_queuename q)"

text \<open>Insert, or replace the row of the same key.\<close>

definition upsert :: "('a \<Rightarrow> 'k) \<Rightarrow> 'a \<Rightarrow> 'a list \<Rightarrow> 'a list" where
  "upsert pk q tbl = (if pk q \<in> pk ` set tbl then map (\<lambda>x. if pk x = pk q then q else x) tbl else tbl @ [q])"

definition src_workqueue :: "db_faults \<Rightarrow> tick_queue_row list \<Rightarrow> pool_tables \<Rightarrow> (string + int) \<times> pool_tables" where
  "src_workqueue f rows t =
     (if ok_commit f ''WORKQUEUE'' then (Inr (int (length rows)), t\<lparr>t_workqueue := fold (upsert queue_pk) (map queue_row_of rows) []\<rparr>)
      else (Inl ''insert live_workqueue'', t))"

section \<open>Landing the moves\<close>

definition truck_of :: "tick_move_row \<Rightarrow> string" where
  "truck_of r = trim (opt_or [] (tm_ytno r))"

text \<open>The trucks with an order, with the trimmed status.\<close>

definition assigned_of :: "tick_move_row list \<Rightarrow> (string \<times> string option) list" where
  "assigned_of rows = remdups (map (\<lambda>r. (truck_of r, map_option trim (tm_jobstatus r))) (filter (\<lambda>r. truck_of r \<noteq> []) rows))"

definition is_ds_ld :: "tick_move_row \<Rightarrow> bool" where
  "is_ds_ld r \<longleftrightarrow> tm_jobtype r = Some ''DS'' \<or> tm_jobtype r = Some ''LD''"

text \<open>A dispatched row, and a row that waits for a truck.\<close>

definition dispatched :: "tick_move_row \<Rightarrow> bool" where
  "dispatched r \<longleftrightarrow> is_ds_ld r \<and> (tm_jobstatus r = Some ''A'' \<or> (tm_jobstatus r = Some ''Q'' \<and> truck_of r \<noteq> []))"

definition waiting :: "tick_move_row \<Rightarrow> bool" where
  "waiting r \<longleftrightarrow> is_ds_ld r \<and> tm_jobstatus r = Some ''Q'' \<and> truck_of r = []"

definition move_row_of :: "(string \<Rightarrow> int option) \<Rightarrow> string \<Rightarrow> string option \<Rightarrow> tick_move_row \<Rightarrow> move_row" where
  "move_row_of dt queuename ytno r =
     \<lparr>mr_qc = None, mr_queuename = queuename, mr_vessel = tm_vessel r, mr_jobtype = tm_jobtype r, mr_ytno = ytno,
      mr_etw_ts = Option.bind (tm_etw_dt r) (parse_etw dt), mr_etw_accurate = None, mr_contno = tm_contno r, mr_twintandem = tm_twintandem r,
      mr_voyage = tm_voyage r, mr_twinkey = tm_twinkey r, mr_seqno = tm_seqno r, mr_cre_ts = Option.bind (tm_cre_dt r) (parse_etw dt),
      mr_yt_topos = tm_yt_topos r\<rparr>"

text \<open>The rows of the pool; a row without a queue name is refused by the table.\<close>

fun land_moves :: "(string \<Rightarrow> int option) \<Rightarrow> tick_move_row list \<Rightarrow> string + move_row list" where
  "land_moves dt [] = Inr []"
| "land_moves dt (r # rs) =
     (if dispatched r \<or> waiting r
      then (case tm_queuename r of
          None \<Rightarrow> Inl (if waiting r then ''insert live_workpool (Q unassigned)'' else ''insert live_workpool'')
        | Some q \<Rightarrow> (case land_moves dt rs of Inl e \<Rightarrow> Inl e | Inr ms \<Rightarrow> Inr (move_row_of dt q (if waiting r then None else tm_ytno r) r # ms)))
      else land_moves dt rs)"

definition before_dash :: "string \<Rightarrow> string" where
  "before_dash s = trim (takeWhile (\<lambda>c. c \<noteq> CHR ''-'') s)"

type_synonym cand_key = "string \<times> string \<times> string \<times> string option"

definition cand_key_of :: "tick_move_row \<Rightarrow> cand_key" where
  "cand_key_of r =
     (let jt = opt_or [] (tm_jobtype r)
      in (opt_or [] (tm_queuename r), tm_vessel r, jt, if jt = ''LD'' then nonempty (map_option before_dash (tm_yt_topos r)) else None))"

text \<open>A bucket: the truck loads, a yard crane, and the twin pairs counted so far.\<close>

record cand_acc =
  ca_n :: int
  ca_rtg :: "string option"
  ca_seen :: "string list"

definition bump_cand :: "tick_move_row \<Rightarrow> cand_acc \<Rightarrow> cand_acc" where
  "bump_cand r e =
     (let e = (case nonempty (tm_twinkey r) of
                 Some tk \<Rightarrow> if tk \<in> set (ca_seen e) then e else e\<lparr>ca_seen := tk # ca_seen e, ca_n := ca_n e + 1\<rparr>
               | None \<Rightarrow> e\<lparr>ca_n := ca_n e + 1\<rparr>)
      in if ca_rtg e = None then e\<lparr>ca_rtg := nonempty (tm_armgc r)\<rparr> else e)"

definition new_cand :: cand_acc where
  "new_cand = \<lparr>ca_n = 0, ca_rtg = None, ca_seen = []\<rparr>"

text \<open>The buckets in the order of their first row; the hash map of the code leaves the order open.\<close>

definition add_cand :: "tick_move_row \<Rightarrow> (cand_key \<times> cand_acc) list \<Rightarrow> (cand_key \<times> cand_acc) list" where
  "add_cand r m =
     (let k = cand_key_of r in
      if k \<in> fst ` set m then map (\<lambda>(k', e). (k', if k' = k then bump_cand r e else e)) m else m @ [(k, bump_cand r new_cand)])"

definition cand_row_of :: "cand_key \<times> cand_acc \<Rightarrow> candidate_row" where
  "cand_row_of ke = (case ke of ((q, v, jt, blk), e) \<Rightarrow>
     \<lparr>cr_qc = None, cr_queuename = q, cr_vessel = v, cr_jobtype = Some jt, cr_src_block = blk, cr_rtg = ca_rtg e, cr_n = as_i32 (ca_n e)\<rparr>)"

text \<open>The crane of a queue; with several cranes the database takes one of them, by \<open>pk\<close>.\<close>

definition crane_of :: "(string list \<Rightarrow> string) \<Rightarrow> queue_row list \<Rightarrow> string \<Rightarrow> string \<Rightarrow> string option" where
  "crane_of pk queues v q =
     (let cs = map qr_qc (filter (\<lambda>x. qr_vessel x = v \<and> qr_queuename x = q) queues) in if cs = [] then None else Some (pk cs))"

definition attach_move :: "(string list \<Rightarrow> string) \<Rightarrow> queue_row list \<Rightarrow> move_row \<Rightarrow> move_row" where
  "attach_move pk queues m = m\<lparr>mr_qc := crane_of pk queues (mr_vessel m) (mr_queuename m)\<rparr>"

definition attach_cand :: "(string list \<Rightarrow> string) \<Rightarrow> queue_row list \<Rightarrow> candidate_row \<Rightarrow> candidate_row" where
  "attach_cand pk queues c = c\<lparr>cr_qc := crane_of pk queues (cr_vessel c) (cr_queuename c)\<rparr>"

definition src_workpool ::
  "db_faults \<Rightarrow> (string \<Rightarrow> int option) \<Rightarrow> (string list \<Rightarrow> string) \<Rightarrow> (string list \<Rightarrow> string) \<Rightarrow> instant \<Rightarrow> tick_move_row list \<Rightarrow> pool_tables
   \<Rightarrow> (string + int) \<times> pool_tables" where
  "src_workpool f dt pk pk2 as_of rows t =
     (if \<not> ok_commit f ''WORKPOOL'' then (Inl ''live_workpool'', t)
      else (case land_moves dt rows of
          Inl e \<Rightarrow> (Inl e, t)
        | Inr ms \<Rightarrow>
            (Inr (int (length rows)),
             t\<lparr>t_assigned := assigned_of rows, t_workpool := map (attach_move pk (t_workqueue t)) ms,
               t_as_of := (if ms = [] then None else Some as_of),
               t_candidate := map (attach_cand pk2 (t_workqueue t)) (map cand_row_of (fold add_cand (filter waiting rows) []))\<rparr>)))"

section \<open>The exact times\<close>

text \<open>A JSON value, as far as the snapshot is read.\<close>

datatype json = Js string | Jl "json list" | Jo "(string \<times> json) list" | Jother

definition jget :: "string \<Rightarrow> json \<Rightarrow> json option" where
  "jget k v = (case v of Jo kvs \<Rightarrow> map_of (rev kvs) k | _ \<Rightarrow> None)"

definition jstr :: "json option \<Rightarrow> string option" where
  "jstr v = (case v of Some (Js s) \<Rightarrow> Some s | _ \<Rightarrow> None)"

datatype etw_fetch = Fetched string | NotFound | Failed string

text \<open>The answer of the tool: whether it ended well, and its output, the body and the code on the last line.\<close>

definition last_line :: "string \<Rightarrow> string \<times> string" where
  "last_line out = (if CHR 0x0A \<in> set out
     then (let r = rev out; code = takeWhile (\<lambda>c. c \<noteq> CHR 0x0A) r in (rev (drop (length code + 1) r), trim (rev code)))
     else ([], trim out))"

definition classify_etw_fetch :: "bool \<Rightarrow> string \<Rightarrow> etw_fetch" where
  "classify_etw_fetch exit_ok out =
     (if \<not> exit_ok then Failed ''gateway unreachable''
      else let (body, code) = last_line out
           in if code = ''200'' then Fetched body else if code = ''404'' then NotFound else Failed (''HTTP '' @ code))"

definition etw_cntrs :: "json \<Rightarrow> string + (string \<times> json) list" where
  "etw_cntrs sj = (case jget ''cntr_list'' sj of
     Some (Jl xs) \<Rightarrow>
       let rows = List.map_filter (\<lambda>c. case jstr (jget ''cntr_no'' c) of Some n \<Rightarrow> if n = [] then None else Some (n, c) | None \<Rightarrow> None) xs
       in if rows = [] \<and> xs \<noteq> [] then Inl ''entries, none with cntr_no'' else Inr rows
   | _ \<Rightarrow> Inl ''snapshot has no cntr_list array'')"

record etw_tally =
  et_fetched :: nat
  et_skipped :: nat
  et_not_found :: nat
  et_failed :: nat

definition etw_outcome :: "etw_tally \<Rightarrow> string option \<Rightarrow> string option" where
  "etw_outcome t first_err =
     (if et_fetched t > 0 then None
      else if et_failed t > 0 then Some (''ETW gateway: all snapshot fetches failed: '' @ opt_or ''?'' first_err)
      else if et_not_found t > 0 \<and> et_skipped t = 0 then Some ''ETW gateway: all voyages answered 404 and none has a current snapshot'' else None)"

text \<open>The gateway as the tick meets it: the answer for a voyage (none when the tool does not start), and the parsers.\<close>

record gateway =
  gw_answer :: "string \<Rightarrow> string \<Rightarrow> (bool \<times> string) option"
  gw_json :: "string \<Rightarrow> json option"
  gw_time :: "string \<Rightarrow> instant option"

definition read_time :: "gateway \<Rightarrow> json \<Rightarrow> string \<Rightarrow> instant option" where
  "read_time g v k = Option.bind (jstr (jget k v)) (gw_time g)"

text \<open>One fetch: an error, no such voyage, or the snapshot with its boxes.\<close>

datatype snapshot_res = Unknown | Bad string | Good json "(string \<times> json) list"

definition fetch_snapshot :: "gateway \<Rightarrow> string \<Rightarrow> string \<Rightarrow> snapshot_res" where
  "fetch_snapshot g vessel voyage =
     (case (case gw_answer g vessel voyage of Some (exit_ok, out) \<Rightarrow> classify_etw_fetch exit_ok out | None \<Rightarrow> Failed ''spawn curl'') of
        NotFound \<Rightarrow> Unknown
      | Failed why \<Rightarrow> Bad why
      | Fetched body \<Rightarrow>
          (case gw_json g body of
             None \<Rightarrow> Bad ''snapshot is not JSON''
           | Some sj \<Rightarrow> (case etw_cntrs sj of Inl why \<Rightarrow> Bad why | Inr cntrs \<Rightarrow> Good sj cntrs)))"

definition upsert_etw :: "gateway \<Rightarrow> instant \<Rightarrow> string \<Rightarrow> string \<Rightarrow> json \<Rightarrow> string \<times> json \<Rightarrow> etw_table \<Rightarrow> etw_table" where
  "upsert_etw g now vessel voyage sj cj tbl = (case cj of (cntr, c) \<Rightarrow>
     AList.update (vessel, voyage, cntr) (read_time g c ''qc_etw_utc'', read_time g c ''vessel_etw_utc'', read_time g sj ''expires_at_utc'', now) tbl)"

text \<open>The latest stored end of validity of a voyage lies ahead.\<close>

definition unexpired :: "etw_table \<Rightarrow> instant \<Rightarrow> string \<Rightarrow> string \<Rightarrow> bool" where
  "unexpired tbl now vessel voyage \<longleftrightarrow>
     list_ex (\<lambda>((v, y, _), (_, _, expires, _)). v = vessel \<and> y = voyage \<and> is_some_and expires (\<lambda>e. now < e)) tbl"

record etw_run =
  er_table :: etw_table
  er_tally :: etw_tally
  er_first :: "string option"
  er_n :: int

definition etw_voyage :: "gateway \<Rightarrow> bool \<Rightarrow> etw_table \<Rightarrow> instant \<Rightarrow> string \<times> string \<Rightarrow> etw_run \<Rightarrow> etw_run" where
  "etw_voyage g honor old now vv s = (case vv of (vessel, voyage) \<Rightarrow>
     let t = er_tally s in
     if honor \<and> unexpired old now vessel voyage then s\<lparr>er_tally := t\<lparr>et_skipped := et_skipped t + 1\<rparr>\<rparr>
     else (case fetch_snapshot g vessel voyage of
         Unknown \<Rightarrow> s\<lparr>er_tally := t\<lparr>et_not_found := et_not_found t + 1\<rparr>\<rparr>
       | Bad why \<Rightarrow> s\<lparr>er_tally := t\<lparr>et_failed := et_failed t + 1\<rparr>, er_first := (if er_first s = None then Some why else er_first s)\<rparr>
       | Good sj cntrs \<Rightarrow>
           s\<lparr>er_tally := t\<lparr>et_fetched := et_fetched t + 1\<rparr>, er_table := fold (upsert_etw g now vessel voyage sj) cntrs (er_table s),
             er_n := er_n s + int (length cntrs)\<rparr>))"

definition voyages_of :: "move_row list \<Rightarrow> (string \<times> string) list" where
  "voyages_of rows = remdups (List.map_filter (\<lambda>m. map_option (\<lambda>y. (mr_vessel m, y)) (nonempty (mr_voyage m))) rows)"

definition sweep :: "instant \<Rightarrow> etw_table \<Rightarrow> etw_table" where
  "sweep now tbl = filter (\<lambda>(_, (_, _, _, updated_at)). \<not> updated_at < now - usecs 7200) tbl"

definition etw_loop :: "gateway \<Rightarrow> bool \<Rightarrow> instant \<Rightarrow> (string \<times> string) list \<Rightarrow> etw_table \<Rightarrow> etw_run" where
  "etw_loop g honor now vs tbl =
     fold (etw_voyage g honor tbl now) vs
       \<lparr>er_table = tbl, er_tally = \<lparr>et_fetched = 0, et_skipped = 0, et_not_found = 0, et_failed = 0\<rparr>, er_first = None, er_n = 0\<rparr>"

definition src_etw :: "db_faults \<Rightarrow> gateway \<Rightarrow> bool \<Rightarrow> instant \<Rightarrow> pool_tables \<Rightarrow> (string + int) \<times> pool_tables" where
  "src_etw f g honor now t =
     (if \<not> ok_commit f ''ETW'' then (Inl ''upsert tos_etw_cntr'', t)
      else let s = etw_loop g honor now (voyages_of (t_workpool t)) (t_etw t); t1 = t\<lparr>t_etw := sweep now (er_table s)\<rparr>
           in (case etw_outcome (er_tally s) (er_first s) of Some e \<Rightarrow> (Inl e, t1) | None \<Rightarrow> (Inr (er_n s), t1)))"

section \<open>The vessel schedule\<close>

text \<open>A row of the schedule as fetched, with texts for the times, and as landed; the fields only shown are left out.\<close>

record sched_fetch_row =
  sf_vessel :: string
  sf_voyage :: string
  sf_estwkc :: "string option"
  sf_estdep :: "string option"
  sf_actber :: "string option"
  sf_actdep :: "string option"

record sched_table_row =
  sc_vessel :: string
  sc_voyage :: string
  sc_estwkc_ts :: "instant option"
  sc_estdep_ts :: "instant option"
  sc_actber_ts :: "instant option"
  sc_actdep_ts :: "instant option"

definition sched_row_of :: "(string \<Rightarrow> int option) \<Rightarrow> sched_fetch_row \<Rightarrow> sched_table_row" where
  "sched_row_of dt r =
     (let ts = (\<lambda>s. Option.bind s (parse_etw dt))
      in \<lparr>sc_vessel = sf_vessel r, sc_voyage = sf_voyage r, sc_estwkc_ts = ts (sf_estwkc r), sc_estdep_ts = ts (sf_estdep r),
          sc_actber_ts = ts (sf_actber r), sc_actdep_ts = ts (sf_actdep r)\<rparr>)"

definition sched_pk :: "sched_table_row \<Rightarrow> string \<times> string" where
  "sched_pk r = (sc_vessel r, sc_voyage r)"

definition src_vessel_schedule ::
  "db_faults \<Rightarrow> (string \<Rightarrow> int option) \<Rightarrow> string + sched_fetch_row list \<Rightarrow> sched_table_row list \<Rightarrow> (string + int) \<times> sched_table_row list" where
  "src_vessel_schedule f dt fetched tbl = (case fetched of
     Inl e \<Rightarrow> (Inl e, tbl)
   | Inr rows \<Rightarrow>
       if ok_commit f ''VESSEL_SCHEDULE'' then (Inr (int (length rows)), fold (upsert sched_pk) (map (sched_row_of dt) rows) [])
       else (Inl ''insert live_vessel_schedule'', tbl))"

definition tick_vessel_schedule ::
  "db_faults \<Rightarrow> (string \<Rightarrow> int option) \<Rightarrow> int \<Rightarrow> date \<Rightarrow> string + sched_fetch_row list \<Rightarrow> sched_table_row list \<times> run_db \<Rightarrow> (string + int) \<times> sched_table_row list \<times> run_db" where
  "tick_vessel_schedule f dt now d fetched s =
     run_logged (ok_start f ''VESSEL_SCHEDULE'') (ok_finish f ''VESSEL_SCHEDULE'') now ''VESSEL_SCHEDULE'' d (src_vessel_schedule f dt fetched) s"

section \<open>The tick\<close>

definition logged :: "db_faults \<Rightarrow> int \<Rightarrow> date \<Rightarrow> string \<Rightarrow> ('t \<Rightarrow> (string + int) \<times> 't) \<Rightarrow> 't \<times> run_db \<Rightarrow> 't \<times> run_db" where
  "logged f now d key work s = snd (run_logged (ok_start f key) (ok_finish f key) now key d work s)"

text \<open>A failed fetch marks both landings as failed, as far as the log can be written.\<close>

definition mark_failed :: "db_faults \<Rightarrow> int \<Rightarrow> date \<Rightarrow> string \<Rightarrow> string \<Rightarrow> run_db \<Rightarrow> run_db" where
  "mark_failed f now d msg key db =
     (if \<not> ok_start f key then db
      else let (run_id, db1) = start_run key d db in if ok_finish f key then finish_run now run_id key d ''FAILED'' None (Some msg) db1 else db1)"

definition tick_workpool ::
  "db_faults \<Rightarrow> (string \<Rightarrow> int option) \<Rightarrow> (string list \<Rightarrow> string) \<Rightarrow> (string list \<Rightarrow> string) \<Rightarrow> gateway \<Rightarrow> bool \<Rightarrow> int \<Rightarrow> date \<Rightarrow> instant \<Rightarrow> instant \<Rightarrow> pool_scan
   \<Rightarrow> pool_tables \<times> run_db \<Rightarrow> pool_tables \<times> run_db" where
  "tick_workpool f dt pk pk2 g honor now d as_of etw_now scan s =
     (case s of (t, db) \<Rightarrow>
        let (res, db1) = fetch_pool_tick f now d scan db;
            s1 = (case res of
              Inr (wq, wp) \<Rightarrow>
                logged f now d ''WORKPOOL'' (src_workpool f dt pk pk2 as_of wp) (logged f now d ''WORKQUEUE'' (src_workqueue f wq) (t, db1))
            | Inl msg \<Rightarrow> (t, mark_failed f now d msg ''WORKPOOL'' (mark_failed f now d msg ''WORKQUEUE'' db1)))
        in logged f now d ''ETW'' (src_etw f g honor etw_now) s1)"

end
