(* ===== verification/TickFacts.thy ===== *)
theory TickFacts
  imports PoolTick
begin

text \<open>
  What the tick of the work pool promises: a landing replaces its tables by the fetched rows or leaves them alone, the buckets
  count truck loads, every voyage is accounted for in the verdict on the gateway, old times are swept whatever happens,
  a failure stays in its step, and what is landed is what the matcher is offered.
\<close>

section \<open>A tick with one queue and a twin pair\<close>

definition calm :: db_faults where
  "calm = \<lparr>ok_start = (\<lambda>_. True), ok_finish = (\<lambda>_. True), ok_commit = (\<lambda>_. True)\<rparr>"

definition one_queue :: tick_queue_row where
  "one_queue = \<lparr>tq_qc = ''C1'', tq_vessel = ''V'', tq_voyage = Some ''1'', tq_queuename = ''10D-D'', tq_disload = Some ''D'', tq_seq = Some 1,
     tq_total_qty = Some 8, tq_comp_qty = Some 3\<rparr>"

definition twin_row :: "string \<Rightarrow> tick_move_row" where
  "twin_row box = \<lparr>tm_queuename = Some ''10D-D'', tm_vessel = ''V'', tm_voyage = Some ''1'', tm_jobtype = Some ''DS'', tm_jobstatus = Some ''Q'',
     tm_ytno = None, tm_armgc = None, tm_etw_dt = None, tm_cre_dt = None, tm_contno = Some box, tm_seqno = None, tm_yt_topos = None,
     tm_twintandem = Some ''W'', tm_twinkey = Some ''K''\<rparr>"

definition no_tables :: pool_tables where
  "no_tables = \<lparr>t_workqueue = [queue_row_of one_queue], t_workpool = [], t_as_of = None, t_candidate = [], t_assigned = [], t_etw = []\<rparr>"

definition no_runs :: run_db where
  "no_runs = \<lparr>rb_next = 1, etl_run_log = [], data_freshness = Map.empty\<rparr>"

definition dead_gateway :: gateway where
  "dead_gateway = \<lparr>gw_answer = (\<lambda>_ _. None), gw_json = (\<lambda>_. None), gw_time = (\<lambda>_. None)\<rparr>"

lemma twin_waits: "waiting (twin_row b)" "\<not> dispatched (twin_row b)" "tm_queuename (twin_row b) = Some ''10D-D''" "tm_contno (twin_row b) = Some b"
  by (simp_all add: waiting_def dispatched_def twin_row_def is_ds_ld_def truck_of_def opt_or_def trim_def)

section \<open>Landing\<close>

lemma land_moves_Inr:
  "land_moves dt rows = Inr ms \<Longrightarrow> \<not> list_ex (\<lambda>r. (dispatched r \<or> waiting r) \<and> tm_queuename r = None) rows \<and>
      ms = map (\<lambda>r. move_row_of dt (the (tm_queuename r)) (if waiting r then None else tm_ytno r) r) (filter (\<lambda>r. dispatched r \<or> waiting r) rows)"
  by (induction rows arbitrary: ms) (auto split: if_splits option.splits sum.splits)

lemma land_moves_Inl: "land_moves dt rows = Inl e \<Longrightarrow> list_ex (\<lambda>r. (dispatched r \<or> waiting r) \<and> tm_queuename r = None) rows"
  by (induction rows arbitrary: e) (auto split: if_splits option.splits sum.splits)

text \<open>The rows of the pool that a fetch means.\<close>

definition landed :: "(string \<Rightarrow> int option) \<Rightarrow> (string list \<Rightarrow> string) \<Rightarrow> queue_row list \<Rightarrow> tick_move_row list \<Rightarrow> move_row list" where
  "landed dt pk queues rows =
     map (\<lambda>r. attach_move pk queues (move_row_of dt (the (tm_queuename r)) (if waiting r then None else tm_ytno r) r)) (filter (\<lambda>r. dispatched r \<or> waiting r) rows)"


lemma upsert_distinct: "distinct (map pk tbl) \<Longrightarrow> distinct (map pk (upsert pk q tbl))"
proof (cases "pk q \<in> pk ` set tbl")
  case True
  then have "map pk (upsert pk q tbl) = map pk tbl" by (simp add: upsert_def)
  moreover assume "distinct (map pk tbl)"
  ultimately show ?thesis by simp
qed (auto simp: upsert_def)

lemma upsert_last: "distinct (map pk tbl) \<Longrightarrow> x \<in> set (upsert pk q tbl) \<longleftrightarrow> x = q \<or> (x \<in> set tbl \<and> pk x \<noteq> pk q)"
  by (auto simp: upsert_def image_iff)

text \<open>The last row of a key.\<close>

definition last_rows :: "('a \<Rightarrow> 'k) \<Rightarrow> 'a list \<Rightarrow> 'a set" where
  "last_rows pk qs = {qs ! i |i. i < length qs \<and> (\<forall>j. i < j \<and> j < length qs \<longrightarrow> pk (qs ! j) \<noteq> pk (qs ! i))}"

lemma last_rows_snoc: "last_rows pk (qs @ [q]) = insert q {x \<in> last_rows pk qs. pk x \<noteq> pk q}"
proof (rule set_eqI)
  fix x
  have "x \<in> last_rows pk (qs @ [q]) \<longleftrightarrow>
      x = q \<or> (\<exists>i < length qs. x = qs ! i \<and> (\<forall>j. i < j \<and> j < length qs \<longrightarrow> pk (qs ! j) \<noteq> pk (qs ! i)) \<and> pk q \<noteq> pk (qs ! i))"
    (is "?l \<longleftrightarrow> ?r")
  proof
    assume ?l
    then obtain i where i: "i < Suc (length qs)" "x = (qs @ [q]) ! i"
      "\<forall>j. i < j \<and> j < Suc (length qs) \<longrightarrow> pk ((qs @ [q]) ! j) \<noteq> pk ((qs @ [q]) ! i)" by (auto simp: last_rows_def)
    show ?r
    proof (cases "i = length qs")
      case False
      then have "i < length qs" using i(1) by simp
      moreover have "pk q \<noteq> pk (qs ! i)" using i(3)[rule_format, of "length qs"] \<open>i < length qs\<close> by (simp add: nth_append)
      moreover have "\<forall>j. i < j \<and> j < length qs \<longrightarrow> pk (qs ! j) \<noteq> pk (qs ! i)" using i(3) \<open>i < length qs\<close> by (metis less_SucI nth_append)
      ultimately show ?thesis using i(2) by (auto simp: nth_append)
    qed (use i in simp)
  next
    assume ?r
    then show ?l
    proof
      assume "x = q"
      then show ?l by (auto simp: last_rows_def intro!: exI[of _ "length qs"])
    next
      assume "\<exists>i < length qs. x = qs ! i \<and> (\<forall>j. i < j \<and> j < length qs \<longrightarrow> pk (qs ! j) \<noteq> pk (qs ! i)) \<and> pk q \<noteq> pk (qs ! i)"
      then obtain i where "i < length qs" "x = qs ! i" "\<forall>j. i < j \<and> j < length qs \<longrightarrow> pk (qs ! j) \<noteq> pk (qs ! i)" "pk q \<noteq> pk (qs ! i)" by blast
      then show ?l by (auto simp: last_rows_def nth_append less_Suc_eq intro!: exI[of _ i])
    qed
  qed
  then show "x \<in> last_rows pk (qs @ [q]) \<longleftrightarrow> x \<in> insert q {x \<in> last_rows pk qs. pk x \<noteq> pk q}" by (auto simp: last_rows_def)
qed

lemma fold_upsert: "distinct (map pk (fold (upsert pk) qs [])) \<and> set (fold (upsert pk) qs []) = last_rows pk qs"
proof (induction qs rule: rev_induct)
  case (snoc q qs)
  then show ?case using upsert_distinct[of pk "fold (upsert pk) qs []" q] upsert_last[of pk "fold (upsert pk) qs []" _ q] by (auto simp: last_rows_snoc)
qed (simp add: last_rows_def)

text \<open>
  The landing of the queues gives a table with one row per crane, vessel and queue name, the last row of the fetch for that key, with the
  numbers cut to 32 bits.
\<close>

theorem queue_table_has_last_rows:
  assumes "ok_commit f ''WORKQUEUE''"
  shows "distinct (map queue_pk (t_workqueue (snd (src_workqueue f rows t))))
    \<and> set (t_workqueue (snd (src_workqueue f rows t))) = last_rows queue_pk (map queue_row_of rows)"
  using assms fold_upsert[of queue_pk "map queue_row_of rows"] by (simp add: src_workqueue_def)

theorem queue_table_has_last_rows_witness:
  "set (t_workqueue (snd (src_workqueue calm [one_queue, one_queue\<lparr>tq_comp_qty := Some 4\<rparr>] no_tables))) =
    last_rows queue_pk (map queue_row_of [one_queue, one_queue\<lparr>tq_comp_qty := Some 4\<rparr>])"
  using queue_table_has_last_rows[of calm "[one_queue, one_queue\<lparr>tq_comp_qty := Some 4\<rparr>]" no_tables] by (simp add: calm_def)


section \<open>The buckets\<close>

text \<open>The truck loads of rows: one for every twin pair and one for every row without a pair.\<close>

definition truck_loads :: "tick_move_row list \<Rightarrow> nat" where
  "truck_loads rs = length (filter (\<lambda>r. nonempty (tm_twinkey r) = None) rs) + card (set (List.map_filter (\<lambda>r. nonempty (tm_twinkey r)) rs))"

definition acc_ok :: "tick_move_row list \<Rightarrow> cand_acc \<Rightarrow> bool" where
  "acc_ok rs e \<longleftrightarrow> ca_n e = int (truck_loads rs) \<and> set (ca_seen e) = set (List.map_filter (\<lambda>r. nonempty (tm_twinkey r)) rs)"

lemma bump_ok: "acc_ok rs e \<Longrightarrow> acc_ok (rs @ [r]) (bump_cand r e)"
  by (cases "nonempty (tm_twinkey r)") (auto simp: acc_ok_def bump_cand_def truck_loads_def Let_def List.map_filter_def insert_absorb)

lemma new_ok: "acc_ok [] new_cand"
  by (simp add: acc_ok_def new_cand_def truck_loads_def List.map_filter_def)

lemma add_cand_keys: "fst ` set (add_cand r m) = insert (cand_key_of r) (fst ` set m)"
proof (cases "cand_key_of r \<in> fst ` set m")
  case True
  then have "map fst (add_cand r m) = map fst m" by (simp add: add_cand_def Let_def case_prod_beta o_def)
  then have "fst ` set (add_cand r m) = fst ` set m" by (metis list.set_map)
  then show ?thesis using True by (simp only: insert_absorb)
qed (simp add: add_cand_def Let_def)

lemma buckets_ok:
  "distinct (map fst (fold add_cand rs [])) \<and> fst ` set (fold add_cand rs []) = set (map cand_key_of rs)
    \<and> (\<forall>(k, e) \<in> set (fold add_cand rs []). acc_ok (filter (\<lambda>r. cand_key_of r = k) rs) e)"
proof (induction rs rule: rev_induct)
  case (snoc r rs)
  let ?m = "fold add_cand rs []"
  have keys: "fst ` set (fold add_cand (rs @ [r]) []) = set (map cand_key_of (rs @ [r]))" using snoc add_cand_keys[of r ?m] by simp
  show ?case
  proof (cases "cand_key_of r \<in> fst ` set ?m")
    case True
    then have m: "add_cand r ?m = map (\<lambda>(k', e). (k', if k' = cand_key_of r then bump_cand r e else e)) ?m" by (simp add: add_cand_def)
    have "map fst (add_cand r ?m) = map fst ?m" unfolding m by (simp add: case_prod_beta o_def)
    moreover have "\<forall>(k, e) \<in> set (add_cand r ?m). acc_ok (filter (\<lambda>x. cand_key_of x = k) (rs @ [r])) e"
    proof
      fix x assume "x \<in> set (add_cand r ?m)"
      then obtain k e where x: "(k, e) \<in> set ?m" "x = (k, if k = cand_key_of r then bump_cand r e else e)" unfolding m by auto
      have "acc_ok (filter (\<lambda>x. cand_key_of x = k) rs) e" using snoc x(1) by blast
      then show "case x of (k, e) \<Rightarrow> acc_ok (filter (\<lambda>x. cand_key_of x = k) (rs @ [r])) e" by (auto simp: x(2) intro: bump_ok)
    qed
    ultimately show ?thesis using snoc keys by simp
  next
    case False
    then have m: "add_cand r ?m = ?m @ [(cand_key_of r, bump_cand r new_cand)]" by (simp add: add_cand_def Let_def)
    have "cand_key_of r \<notin> cand_key_of ` set rs" using False snoc by simp
    then have none: "filter (\<lambda>x. cand_key_of x = cand_key_of r) rs = []" unfolding filter_empty_conv by (metis imageI)
    have "acc_ok (filter (\<lambda>x. cand_key_of x = k) (rs @ [r])) e" if "(k, e) \<in> set ?m" for k e
    proof -
      have "cand_key_of r \<noteq> k" using False that by force
      then show ?thesis using snoc that by auto
    qed
    then have "\<forall>(k, e) \<in> set (add_cand r ?m). acc_ok (filter (\<lambda>x. cand_key_of x = k) (rs @ [r])) e"
      unfolding m using bump_ok[OF new_ok] none by auto
    moreover have "distinct (map fst (add_cand r ?m))" unfolding m using snoc False by simp
    ultimately show ?thesis using keys by simp
  qed
qed simp

text \<open>
  C26. The candidate buckets count truck loads: there is one bucket for every queue, vessel, job type and source block among the waiting rows, and its
  number is that of the twin pairs and the single boxes of those rows, as long as it fits in 32 bits.
\<close>

theorem buckets_count_truck_loads:
  assumes "int (length rows) < 2 ^ 31"
  defines "bs \<equiv> fold add_cand (filter waiting rows) []"
  shows "distinct (map fst bs) \<and> fst ` set bs = cand_key_of ` set (filter waiting rows)
    \<and> (\<forall>b \<in> set bs. cr_n (cand_row_of b) = int (truck_loads (filter (\<lambda>r. waiting r \<and> cand_key_of r = fst b) rows)))"
proof (intro conjI ballI)
  show "distinct (map fst bs)" "fst ` set bs = cand_key_of ` set (filter waiting rows)" using buckets_ok[of "filter waiting rows"] by (simp_all add: bs_def)
  fix b assume b: "b \<in> set bs"
  let ?rs = "filter (\<lambda>r. waiting r \<and> cand_key_of r = fst b) rows"
  have "acc_ok ?rs (snd b)" using buckets_ok[of "filter waiting rows"] b by (auto simp: bs_def conj_commute)
  then have n: "ca_n (snd b) = int (truck_loads ?rs)" by (simp add: acc_ok_def)
  have "card (set (List.map_filter (\<lambda>r. nonempty (tm_twinkey r)) ?rs)) \<le> length (List.map_filter (\<lambda>r. nonempty (tm_twinkey r)) ?rs)" by (rule card_length)
  also have "\<dots> = length (filter (\<lambda>r. nonempty (tm_twinkey r) \<noteq> None) ?rs)" by (simp add: List.map_filter_def)
  finally have "truck_loads ?rs \<le> length ?rs"
    using sum_length_filter_compl[of "\<lambda>r. nonempty (tm_twinkey r) = None" ?rs] by (simp only: truck_loads_def)
  also have "\<dots> \<le> length rows" by simp
  finally have "int (truck_loads ?rs) < 2 ^ 31" using assms(1) by linarith
  then show "cr_n (cand_row_of b) = int (truck_loads ?rs)" using n as_i32_small[of "int (truck_loads ?rs)"] by (simp add: cand_row_of_def case_prod_beta)
qed

theorem buckets_count_truck_loads_witness:
  "\<exists>b. b \<in> set (fold add_cand (filter waiting [twin_row ''B1'', twin_row ''B2'']) []) \<and> cr_n (cand_row_of b) = 1"
proof -
  let ?rows = "[twin_row ''B1'', twin_row ''B2'']"
  have p: "int (length ?rows) < 2 ^ 31" by simp
  define key where "key = cand_key_of (twin_row [])"
  have k: "cand_key_of (twin_row x) = key" for x by (simp add: key_def cand_key_of_def twin_row_def Let_def opt_or_def)
  have "key \<in> fst ` set (fold add_cand (filter waiting ?rows) [])"
    using buckets_count_truck_loads[OF p] by (simp add: twin_waits k)
  then obtain b where b: "b \<in> set (fold add_cand (filter waiting ?rows) [])" "fst b = key" by (elim imageE) simp
  moreover have "truck_loads (filter (\<lambda>r. waiting r \<and> cand_key_of r = fst b) ?rows) = 1"
    by (simp add: twin_waits k b(2)) (simp add: truck_loads_def twin_row_def nonempty_def List.map_filter_def)
  moreover have "cr_n (cand_row_of b) = int (truck_loads (filter (\<lambda>r. waiting r \<and> cand_key_of r = fst b) ?rows))"
    by (rule bspec[OF conjunct2[OF conjunct2[OF buckets_count_truck_loads[OF p]]] b(1)])
  ultimately show ?thesis by (intro exI[of _ b]) simp
qed

section \<open>The exact times\<close>

abbreviation asked_total :: "etw_tally \<Rightarrow> nat" where
  "asked_total t \<equiv> et_fetched t + et_skipped t + et_not_found t + et_failed t"

lemma voyage_counted: "asked_total (er_tally (etw_voyage g honor old now vv s)) = asked_total (er_tally s) + 1"
  by (cases vv) (auto simp: etw_voyage_def Let_def split: snapshot_res.splits)

lemma loop_counted: "asked_total (er_tally (fold (etw_voyage g honor old now) vs s)) = asked_total (er_tally s) + length vs"
proof (induction vs arbitrary: s)
  case (Cons v vs)
  show ?case using Cons.IH[of "etw_voyage g honor old now v s"] voyage_counted[of g honor old now v s] by simp
qed simp

lemma first_with_failed: "er_first (fold (etw_voyage g honor old now) vs s) = None \<Longrightarrow>
    (er_first s = None \<longrightarrow> et_failed (er_tally s) = 0) \<Longrightarrow> et_failed (er_tally (fold (etw_voyage g honor old now) vs s)) = 0"
proof (induction vs arbitrary: s)
  case (Cons v vs)
  have "er_first (etw_voyage g honor old now v s) = None \<longrightarrow> et_failed (er_tally (etw_voyage g honor old now v s)) = 0"
    using Cons.prems(2) by (cases v) (auto simp: etw_voyage_def Let_def split: snapshot_res.splits)
  then show ?case using Cons by simp
next
  case Nil
  then show ?case by simp
qed

text \<open>
  The verdict on the gateway is sound: every voyage of the pool is counted once, as landed, still valid, unknown or failed; the step fails exactly when
  nothing landed and either some voyage failed, or some were unknown and none was still valid; and a failure with failed voyages names the first of them.
\<close>

theorem etw_verdict_sound:
  fixes g honor now t
  assumes "ok_commit f ''ETW''"
  defines "s \<equiv> etw_loop g honor now (voyages_of (t_workpool t)) (t_etw t)"
  shows "asked_total (er_tally s) = length (voyages_of (t_workpool t))
    \<and> ((\<exists>e. fst (src_etw f g honor now t) = Inl e) \<longleftrightarrow>
       et_fetched (er_tally s) = 0 \<and> (0 < et_failed (er_tally s) \<or> 0 < et_not_found (er_tally s) \<and> et_skipped (er_tally s) = 0))
    \<and> (0 < et_failed (er_tally s) \<longrightarrow> er_first s \<noteq> None)"
proof (intro conjI)
  show "asked_total (er_tally s) = length (voyages_of (t_workpool t))" unfolding s_def etw_loop_def loop_counted by simp
  show "(\<exists>e. fst (src_etw f g honor now t) = Inl e) \<longleftrightarrow>
       et_fetched (er_tally s) = 0 \<and> (0 < et_failed (er_tally s) \<or> 0 < et_not_found (er_tally s) \<and> et_skipped (er_tally s) = 0)"
    using assms(1) by (auto simp: src_etw_def Let_def etw_outcome_def s_def)
  show "0 < et_failed (er_tally s) \<longrightarrow> er_first s \<noteq> None"
    using first_with_failed[of g honor "t_etw t" now "voyages_of (t_workpool t)"
        "\<lparr>er_table = t_etw t, er_tally = \<lparr>et_fetched = 0, et_skipped = 0, et_not_found = 0, et_failed = 0\<rparr>, er_first = None, er_n = 0\<rparr>"]
    unfolding s_def etw_loop_def by (intro impI notI) simp
qed

theorem etw_verdict_sound_witness:
  "\<exists>e. fst (src_etw calm dead_gateway True 0 (no_tables\<lparr>t_workpool := [one_move]\<rparr>)) = Inl e"
proof -
  have c: "ok_commit calm ''ETW''" by (simp add: calm_def)
  have "voyages_of (t_workpool (no_tables\<lparr>t_workpool := [one_move]\<rparr>)) = [(''V'', ''1'')]"
    by (simp add: voyages_of_def one_move_def nonempty_def List.map_filter_def)
  then show ?thesis using etw_verdict_sound[OF c, of dead_gateway True 0 "no_tables\<lparr>t_workpool := [one_move]\<rparr>"]
    by (simp add: etw_loop_def etw_voyage_def unexpired_def no_tables_def fetch_snapshot_def dead_gateway_def Let_def)
qed

lemma upserts_touch:
  assumes "map_of (fold (upsert_etw g now vessel voyage sj) cs tbl) (v, y, c) = Some row"
  shows "map_of tbl (v, y, c) = Some row \<or> (v = vessel \<and> y = voyage \<and> snd (snd (snd row)) = now)"
  using assms
proof (induction cs arbitrary: tbl)
  case (Cons x cs)
  obtain n j where x: "x = (n, j)" by force
  from Cons.IH[of "upsert_etw g now vessel voyage sj x tbl"] Cons.prems
  consider "map_of (upsert_etw g now vessel voyage sj x tbl) (v, y, c) = Some row" | "v = vessel \<and> y = voyage \<and> snd (snd (snd row)) = now" by auto
  then show ?case
  proof cases
    case 1
    then show ?thesis unfolding x upsert_etw_def by (auto simp: AList.update_conv' split: if_splits)
  qed simp
qed simp

lemma loop_rows:
  assumes "map_of (er_table (fold (etw_voyage g honor old now) vs s)) (v, y, c) = Some row"
  shows "map_of (er_table s) (v, y, c) = Some row \<or> ((v, y) \<in> set vs \<and> snd (snd (snd row)) = now \<and> \<not> (honor \<and> unexpired old now v y))"
  using assms
proof (induction vs arbitrary: s)
  case (Cons x vs)
  obtain vessel voyage where x: "x = (vessel, voyage)" by force
  from Cons.IH[of "etw_voyage g honor old now x s"] Cons.prems
  consider "map_of (er_table (etw_voyage g honor old now x s)) (v, y, c) = Some row"
    | "(v, y) \<in> set vs \<and> snd (snd (snd row)) = now \<and> \<not> (honor \<and> unexpired old now v y)" by auto
  then show ?case
  proof cases
    case 1
    then show ?thesis using upserts_touch[of g now vessel voyage _ _ "er_table s" v y c row] unfolding x
      by (auto simp: etw_voyage_def Let_def split: if_splits snapshot_res.splits)
  qed simp
qed simp

text \<open>
  C36. The stored times stay recent: after the step, whatever the gateway answered, every row was written in the last two hours, and a row that changed belongs
  to a voyage of the pool whose stored answer had expired; when the database refuses the step nothing changes.
\<close>

theorem etw_rows_recent:
  fixes f g honor now t
  defines "t' \<equiv> snd (src_etw f g honor now t)"
  assumes "distinct (map fst (t_etw t))" "map_of (t_etw t') (v, y, c) = Some row"
  shows "if ok_commit f ''ETW'' then now - usecs 7200 \<le> snd (snd (snd row))
      \<and> (map_of (t_etw t) (v, y, c) = Some row \<or> ((v, y) \<in> set (voyages_of (t_workpool t)) \<and> snd (snd (snd row)) = now \<and> \<not> (honor \<and> unexpired (t_etw t) now v y)))
    else t' = t"
proof (cases "ok_commit f ''ETW''")
  case True
  define s where "s = etw_loop g honor now (voyages_of (t_workpool t)) (t_etw t)"
  have u: "distinct (map fst (fold (upsert_etw g now vessel voyage sj) cs tbl))" if "distinct (map fst tbl)" for vessel voyage sj cs tbl
    using that by (induction cs arbitrary: tbl) (auto simp: upsert_etw_def case_prod_beta AList.distinct_update)
  have w: "distinct (map fst (er_table (etw_voyage g honor old now x r)))" if "distinct (map fst (er_table r))" for old x r
    using that u by (cases x) (auto simp: etw_voyage_def Let_def split: snapshot_res.splits)
  have "distinct (map fst (er_table (fold (etw_voyage g honor old now) vs r)))" if "distinct (map fst (er_table r))" for old vs r
    using that w by (induction vs arbitrary: r) auto
  then have d: "distinct (map fst (er_table s))" using assms(2) by (simp add: s_def etw_loop_def)
  have t': "t_etw t' = sweep now (er_table s)" using True by (auto simp: t'_def src_etw_def Let_def s_def split: option.split)
  have "((v, y, c), row) \<in> set (sweep now (er_table s))" using assms(3) unfolding t' by (rule map_of_SomeD)
  then have r: "((v, y, c), row) \<in> set (er_table s)" "now - usecs 7200 \<le> snd (snd (snd row))" by (auto simp: sweep_def)
  have "map_of (er_table s) (v, y, c) = Some row" using d r(1) by simp
  from loop_rows[OF this[unfolded s_def etw_loop_def]] show ?thesis using r(2) True by simp
qed (simp add: t'_def src_etw_def)


theorem etw_rows_recent_witness:
  "0 - usecs 7200 \<le> (- usecs 60 :: int)
    \<and> map_of (t_etw (snd (src_etw calm dead_gateway True 0 (no_tables\<lparr>t_etw := [((''V'', ''1'', ''B1''), (None, None, None, - usecs 60))]\<rparr>)))) (''V'', ''1'', ''B1'') =
      Some (None, None, None, - usecs 60)"
proof -
  let ?t = "no_tables\<lparr>t_etw := [((''V'', ''1'', ''B1''), (None, None, None, - usecs 60))]\<rparr>"
  have d: "distinct (map fst (t_etw ?t))" by (simp add: no_tables_def)
  have m: "map_of (t_etw (snd (src_etw calm dead_gateway True 0 ?t))) (''V'', ''1'', ''B1'') = Some (None, None, None, - usecs 60)"
    by (simp add: src_etw_def calm_def no_tables_def voyages_of_def List.map_filter_def etw_loop_def Let_def etw_outcome_def sweep_def usecs_def)
  show ?thesis using etw_rows_recent[OF d m] m by (simp add: calm_def)
qed

section \<open>The tick as a whole\<close>

lemma logged_tables: "ok_start f key \<Longrightarrow> fst (logged f now d key work s) = snd (work (fst s))"
  by (cases s) (auto simp: logged_def run_logged_def Let_def start_run_def split: prod.splits sum.splits)

lemma src_etw_keeps: "t_workqueue (snd (src_etw f g honor now t)) = t_workqueue t" "t_workpool (snd (src_etw f g honor now t)) = t_workpool t"
  "t_candidate (snd (src_etw f g honor now t)) = t_candidate t" "t_assigned (snd (src_etw f g honor now t)) = t_assigned t"
  by (auto simp: src_etw_def Let_def split: option.split)

lemma src_workqueue_keeps: "t_workpool (snd (src_workqueue f rows t)) = t_workpool t" "t_candidate (snd (src_workqueue f rows t)) = t_candidate t"
  "t_assigned (snd (src_workqueue f rows t)) = t_assigned t" "t_etw (snd (src_workqueue f rows t)) = t_etw t"
  by (auto simp: src_workqueue_def)

definition log_ready :: "db_faults \<Rightarrow> bool" where
  "log_ready f \<longleftrightarrow> ok_start f = (\<lambda>_. True) \<and> ok_finish f = (\<lambda>_. True)"

lemma tick_tables:
  assumes "log_ready f"
  shows "fst (tick_workpool f dt pk pk2 g honor now d as_of etw_now scan (t, db)) =
    snd (src_etw f g honor etw_now (case scan_rows scan of
        Inl e \<Rightarrow> t
      | Inr (wq, wp) \<Rightarrow> snd (src_workpool f dt pk pk2 as_of wp (snd (src_workqueue f wq t)))))"
proof -
  have l: "fst (logged f now d key work s) = snd (work (fst s))" for key work and s :: "pool_tables \<times> run_db"
    using assms by (intro logged_tables) (simp add: log_ready_def)
  have "fst (fetch_pool_tick f now d scan db) = scan_rows scan"
    using assms by (auto simp: fetch_pool_tick_def log_ready_def Let_def start_run_def split: sum.split)
  then show ?thesis by (cases "scan_rows scan") (simp_all add: tick_workpool_def Let_def case_prod_beta l)
qed

lemma finish_fresh: "data_freshness (finish_run now i key d st n e db) k = (if k = key then Some (touch_freshness now d st (data_freshness db key)) else data_freshness db k)"
  by (simp add: finish_run_def)

lemma start_fresh: "data_freshness (snd (start_run key d db)) = data_freshness db" "fst (start_run key d db) = rb_next db"
  by (simp_all add: start_run_def)

lemma run_logged_fresh: "k \<noteq> key \<Longrightarrow> data_freshness (snd (snd (run_logged ok ok2 now key d work s))) k = data_freshness (snd s) k"
  by (auto simp: run_logged_def Let_def finish_fresh start_run_def split: prod.splits sum.splits)



section \<open>The vessel schedule and the page\<close>

text \<open>The vessels at berth, as the page asks for them.\<close>

definition berthed_of :: "sched_table_row list \<Rightarrow> berth_row list" where
  "berthed_of tbl = map (\<lambda>r. (sc_vessel r, Some (sc_voyage r))) (filter (\<lambda>r. sc_actber_ts r \<noteq> None \<and> sc_actdep_ts r = None) tbl)"

text \<open>
  The page follows the schedule: after the schedule is landed, a queue of a voyage counts as at berth exactly when the last fetched row of that voyage has a time
  of berthing and none of departure.
\<close>

theorem berth_follows_schedule:
  assumes "ok_commit f ''VESSEL_SCHEDULE''" "qo_voyage q = Some y"
  shows "at_berth (berthed_of (snd (src_vessel_schedule f dt (Inr rows) tbl))) q \<longleftrightarrow>
    (\<exists>r \<in> last_rows sched_pk (map (sched_row_of dt) rows). sched_pk r = (qo_vessel q, y) \<and> sc_actber_ts r \<noteq> None \<and> sc_actdep_ts r = None)"
  using assms fold_upsert[of sched_pk "map (sched_row_of dt) rows"] by (auto simp: at_berth_def berthed_of_def src_vessel_schedule_def sched_pk_def image_iff)

theorem berth_follows_schedule_witness:
  "at_berth (berthed_of (snd (src_vessel_schedule calm (\<lambda>_. Some 0)
      (Inr [\<lparr>sf_vessel = ''V'', sf_voyage = ''1'', sf_estwkc = None, sf_estdep = None, sf_actber = Some ''20260609094228'', sf_actdep = None\<rparr>]) [])))
    (queue_out_of (queue_row_of one_queue))"
proof -
  let ?r = "\<lparr>sf_vessel = ''V'', sf_voyage = ''1'', sf_estwkc = None, sf_estdep = None, sf_actber = Some ''20260609094228'', sf_actdep = None\<rparr>"
  have v: "qo_voyage (queue_out_of (queue_row_of one_queue)) = Some ''1''" "qo_vessel (queue_out_of (queue_row_of one_queue)) = ''V''"
    by (simp_all add: queue_out_of_def queue_row_of_def one_queue_def)
  have c: "ok_commit calm ''VESSEL_SCHEDULE''" by (simp add: calm_def)
  have "parse_etw (\<lambda>_. Some 0) ''20260609094228'' = Some (0 - usecs terminal_offset)" by (simp add: parse_etw_def trim_def is_space_def is_digit_def)
  then have "sched_row_of (\<lambda>_. Some 0) ?r \<in> last_rows sched_pk (map (sched_row_of (\<lambda>_. Some 0)) [?r]) \<and> sched_pk (sched_row_of (\<lambda>_. Some 0) ?r) = (''V'', ''1'')
      \<and> sc_actber_ts (sched_row_of (\<lambda>_. Some 0) ?r) \<noteq> None \<and> sc_actdep_ts (sched_row_of (\<lambda>_. Some 0) ?r) = None"
    by (simp add: last_rows_def sched_row_of_def sched_pk_def Let_def)
  then show ?thesis using berth_follows_schedule[OF c v(1), of "\<lambda>_. Some 0" "[?r]" "[]"] v(2) by auto
qed

section \<open>From the tick to the matcher\<close>

text \<open>What the queries of the work pool read from the landed tables; the exact time is joined by vessel, voyage and box.\<close>

definition join_etw :: "etw_table \<Rightarrow> move_row \<Rightarrow> move_row" where
  "join_etw etws m = m\<lparr>mr_etw_accurate :=
     Option.bind (mr_voyage m) (\<lambda>y. Option.bind (mr_contno m) (\<lambda>c. Option.bind (map_of etws (mr_vessel m, y, c)) (\<lambda>(qc, vsl, _). opt_else qc vsl)))\<rparr>"

definition pool_view :: "pool_tables \<Rightarrow> demand_db \<Rightarrow> demand_db" where
  "pool_view t db = db\<lparr>live_workqueue := Some (t_workqueue t), live_workpool := Some (map (join_etw (t_etw t)) (t_workpool t)),
     pool_as_of := Some (t_as_of t), live_candidate := Some (t_candidate t)\<rparr>"

text \<open>A row whose box and queue are known: it has a box, and its queue is in the table with a crane.\<close>

definition known_row :: "queue_row list \<Rightarrow> tick_move_row \<Rightarrow> bool" where
  "known_row queues r \<longleftrightarrow> filled (tm_contno r) \<and> (\<exists>q \<in> set queues. qr_vessel q = tm_vessel r \<and> tm_queuename r = Some (qr_queuename q) \<and> qr_qc q \<noteq> [])"

definition picks :: "(string list \<Rightarrow> string) \<Rightarrow> bool" where
  "picks pk \<longleftrightarrow> (\<forall>xs. xs \<noteq> [] \<longrightarrow> pk xs \<in> set xs)"

lemma in_set_nonempty: "x \<in> set xs \<Longrightarrow> xs \<noteq> []"
  by auto

lemma crane_unique:
  assumes "picks pk" "distinct (map (\<lambda>q. (qr_vessel q, qr_queuename q)) queues)" "q \<in> set queues"
  shows "crane_of pk queues (qr_vessel q) (qr_queuename q) = Some (qr_qc q)"
proof -
  let ?cs = "map qr_qc (filter (\<lambda>x. qr_vessel x = qr_vessel q \<and> qr_queuename x = qr_queuename q) queues)"
  have "x = q" if "x \<in> set queues" "qr_vessel x = qr_vessel q" "qr_queuename x = qr_queuename q" for x
    using assms(2,3) that by (auto simp: distinct_map inj_on_def)
  then have sub: "set ?cs \<subseteq> {qr_qc q}" by auto
  have "qr_qc q \<in> set ?cs" using assms(3) by auto
  then have ne: "?cs \<noteq> []" by (rule in_set_nonempty)
  then have "pk ?cs \<in> set ?cs" using assms(1) unfolding picks_def by blast
  then have "pk ?cs = qr_qc q" using sub by blast
  then show ?thesis using ne by (simp only: crane_of_def Let_def if_False)
qed

lemma landed_boxed:
  assumes "picks pk" "distinct (map (\<lambda>q. (qr_vessel q, qr_queuename q)) queues)" "known_row queues r" "dispatched r \<or> waiting r" "r \<in> set rows"
  shows "\<exists>m \<in> set (map (join_etw etws) (landed dt pk queues rows)). \<exists>qc. crane_of pk queues (tm_vessel r) (the (tm_queuename r)) = Some qc \<and> qc \<noteq> []
    \<and> boxed m \<and> mr_qc m = Some qc \<and> mr_vessel m = tm_vessel r \<and> tm_queuename r = Some (mr_queuename m) \<and> mr_contno m = tm_contno r \<and> mr_jobtype m = tm_jobtype r"
proof -
  obtain q where q: "q \<in> set queues" "qr_vessel q = tm_vessel r" "tm_queuename r = Some (qr_queuename q)" "qr_qc q \<noteq> []" "filled (tm_contno r)"
    using assms(3) by (auto simp: known_row_def)
  have c: "crane_of pk queues (tm_vessel r) (qr_queuename q) = Some (qr_qc q)" using crane_unique[OF assms(1,2) q(1)] q(2) by simp
  let ?m = "attach_move pk queues (move_row_of dt (the (tm_queuename r)) (if waiting r then None else tm_ytno r) r)"
  have "?m \<in> set (landed dt pk queues rows)" using assms(4,5) by (auto simp: landed_def)
  then have "join_etw etws ?m \<in> set (map (join_etw etws) (landed dt pk queues rows))" by (simp only: set_map imageI)
  moreover have sel: "mr_qc (join_etw etws ?m) = Some (qr_qc q)" "mr_vessel (join_etw etws ?m) = tm_vessel r" "mr_queuename (join_etw etws ?m) = qr_queuename q"
    "mr_contno (join_etw etws ?m) = tm_contno r" "mr_jobtype (join_etw etws ?m) = tm_jobtype r"
    using q c by (simp_all add: join_etw_def attach_move_def move_row_of_def)
  moreover have "boxed (join_etw etws ?m)"
    unfolding boxed_def sel using assms(4) q(4,5) by (auto simp: filled_def is_some_and_def dispatched_def waiting_def is_ds_ld_def)
  ultimately show ?thesis using q(3,4) c by (intro bexI[of _ "join_etw etws ?m"] exI[of _ "qr_qc q"]) (simp_all only: option.sel simp_thms)
qed

lemma bucket_source:
  assumes "w \<in> set (bucket_items now_ts db eta moves cands)"
  shows "\<exists>c \<in> set cands. \<exists>qc. co_qc c = Some qc \<and> item_key w = (qc, co_vessel c, co_queuename c)"
proof -
  obtain c qc where "c \<in> set cands" "co_qc c = Some qc" "w = bucket_item now_ts db eta qc c"
    using assms by (auto simp: bucket_items_def map_filter_in split: option.splits if_splits)
  then show ?thesis by (auto simp: bucket_item_def Let_def)
qed

lemma candidates_source:
  assumes "c \<in> set (candidates_of queues rows)"
  shows "\<exists>r \<in> set rows. co_qc c = cr_qc r \<and> co_vessel c = cr_vessel r \<and> co_queuename c = cr_queuename r"
  using assms by (auto simp: candidates_of_def candidate_of_def Let_def case_prod_beta)

lemma landed_tables:
  assumes "src_workpool f dt pk pk2 as_of rows t = (Inr n, t')"
  shows "t_workpool t' = landed dt pk (t_workqueue t) rows"
    and "t_candidate t' = map (attach_cand pk2 (t_workqueue t)) (map cand_row_of (fold add_cand (filter waiting rows) []))"
    and "t_workqueue t' = t_workqueue t"
  using assms land_moves_Inr[of dt rows] by (auto simp: src_workpool_def landed_def split: if_splits sum.splits)

lemma offered_bucket:
  assumes "stage2_work_candidates now now_ts db = Some (wp, ws)" "live_workpool db = Some moves" "w \<in> set ws" "s2_contno w = None"
    and "live_workqueue db = Some qs" "live_candidate db = Some cands"
  shows "w \<in> set (bucket_items now_ts db (eta_map wp) moves (candidates_of qs cands))"
proof -
  have "build_workpool now (pool_db.truncate db) = Some wp" using stage2_parts[OF assms(1)] by blast
  then have "wo_candidates wp = candidates_of qs cands"
    using build_parts[of now "pool_db.truncate db" wp] assms(5,6) by (auto simp: pool_db.truncate_def pool_of_def Let_def)
  then show ?thesis using assms(3,4) box_ok(2)[of w now_ts db "eta_map wp" moves] unfolding offered_items[OF assms(1,2)] by auto
qed

lemma bucket_candidate:
  assumes "w \<in> set (bucket_items now_ts db eta moves (candidates_of qs cands))"
  shows "\<exists>cr \<in> set cands. \<exists>qc. cr_qc cr = Some qc \<and> item_key w = (qc, cr_vessel cr, cr_queuename cr)"
proof -
  obtain c qc where c: "c \<in> set (candidates_of qs cands)" "co_qc c = Some qc" "item_key w = (qc, co_vessel c, co_queuename c)" using bucket_source[OF assms] by blast
  then obtain cr where "cr \<in> set cands" "co_qc c = cr_qc cr" "co_vessel c = cr_vessel cr" "co_queuename c = cr_queuename cr"
    using candidates_source[of c qs cands] by auto
  then show ?thesis using c by (intro bexI[of _ cr] exI[of _ qc]) auto
qed

lemma candidate_row_source:
  assumes "cr \<in> set (map (attach_cand pk qs) (map cand_row_of (fold add_cand (filter waiting rows) [])))"
  shows "\<exists>r \<in> set rows. waiting r \<and> cr_queuename cr = opt_or [] (tm_queuename r) \<and> cr_vessel cr = tm_vessel r
    \<and> cr_qc cr = crane_of pk qs (tm_vessel r) (opt_or [] (tm_queuename r))"
proof -
  obtain b where b: "b \<in> set (fold add_cand (filter waiting rows) [])" "cr = attach_cand pk qs (cand_row_of b)" using assms by auto
  have "fst b \<in> fst ` set (fold add_cand (filter waiting rows) [])" using b(1) by (rule imageI)
  also have "\<dots> = cand_key_of ` set (filter waiting rows)" using buckets_ok[of "filter waiting rows"] by simp
  finally obtain r where "r \<in> set rows" "waiting r" "fst b = cand_key_of r" by auto
  then show ?thesis using b(2) by (intro bexI[of _ r]) (auto simp: attach_cand_def cand_row_of_def cand_key_of_def Let_def case_prod_beta)
qed




end
