(* ===== verification/TruckState.thy ===== *)
theory TruckState
  imports Ingest Kpi
begin

text \<open>
  The state of a truck and what the live page shows of it (\<^verbatim>\<open>src/crates/api/src/livemap.rs\<close>): \<^verbatim>\<open>classify_tt\<close>, \<^verbatim>\<open>free_in\<close>,
  \<^verbatim>\<open>dist_bin_of\<close>, the figures of \<^verbatim>\<open>positions\<close>, the verdict of \<^verbatim>\<open>health\<close>, and the loggers of the first entry into a
  state (\<^verbatim>\<open>spawn_soon_idle_logger\<close>) and of the samples (\<^verbatim>\<open>spawn_free_in_logger\<close>).

  A float is a real number, an infinite distance is none. The maps of devices and cranes are functions by name; the names of the
  devices are a list. A reason is the kind of the text the page shows, with its numbers. What the pages only copy, the mean accuracy and
  the utilisation read from the database are left out.
\<close>

section \<open>The state of a truck\<close>

definition SWAP_MIN_M :: real where "SWAP_MIN_M = 500"
definition GEOFENCE_DROP_M :: real where "GEOFENCE_DROP_M = 70"

definition soon_idle_gate_m :: "nat \<Rightarrow> real" where
  "soon_idle_gate_m mm = real mm / 1000"

definition dist_bin_of :: "real option \<Rightarrow> int" where
  "dist_bin_of d = (case d of None \<Rightarrow> -1 | Some m \<Rightarrow> if m \<le> 30 then 0 else if m \<le> 80 then 1 else if m \<le> 150 then 2 else 3)"

datatype tt_state = Idle | Staging | EmptyTravel | Delivering | SoonIdle | WaitRtg

datatype reason = Dispatched | NoTarget | NearTarget real | StillFar real | UnknownTarget | ToQuay | ToBlock | UnderWay | AtQuay string bool bool | RtgNear real
  | AtBlock bool "real option"

record classed =
  cl_state :: tt_state
  cl_reason :: "reason option"
  cl_nearest_rtg_m :: "real option"
  cl_dest_remaining_m :: "real option"
  cl_swappable :: "bool option"

definition st :: "tt_state \<Rightarrow> reason option \<Rightarrow> classed" where
  "st s r = \<lparr>cl_state = s, cl_reason = r, cl_nearest_rtg_m = None, cl_dest_remaining_m = None, cl_swappable = None\<rparr>"

definition has_text :: "string option \<Rightarrow> bool" where
  "has_text s = is_some_and s (\<lambda>x. x \<noteq> [])"

definition tenth :: "real \<Rightarrow> real" where
  "tenth x = of_int (round_away (x * 10)) / 10"

text \<open>Where a target is: a crane by its live or learned position, a block by its learned point or that of its prefix.\<close>

definition centre :: "(string \<rightharpoonup> centroid) \<Rightarrow> string \<Rightarrow> coord option" where
  "centre cents k = map_option (\<lambda>c. (ce_lat c, ce_lon c)) (cents k)"

definition target_pos :: "(string \<rightharpoonup> coord) \<Rightarrow> (string \<rightharpoonup> centroid) \<Rightarrow> string \<Rightarrow> coord option" where
  "target_pos cranes cents t =
     (if is_crane_code t then (case cranes t of None \<Rightarrow> centre cents t | Some p \<Rightarrow> Some p)
      else (case centre cents t of None \<Rightarrow> centre cents (block_prefix t) | Some p \<Rightarrow> Some p))"

definition text_of :: "string option \<Rightarrow> string" where
  "text_of s = (case s of None \<Rightarrow> [] | Some x \<Rightarrow> x)"

definition classify_empty :: "pos \<Rightarrow> (string \<rightharpoonup> coord) \<Rightarrow> (string \<rightharpoonup> centroid) \<Rightarrow> classed" where
  "classify_empty p cranes cents =
     (let topos = text_of (f_topos1 p) in
      if topos = [] then (st EmptyTravel (Some NoTarget))\<lparr>cl_swappable := Some False\<rparr>
      else let remaining = map_option (dist_m (f_lat p, f_lon p)) (target_pos cranes cents topos)
           in (st EmptyTravel (Some (case remaining of
                 Some r \<Rightarrow> if r < SWAP_MIN_M then NearTarget r else StillFar r
               | None \<Rightarrow> UnknownTarget)))
              \<lparr>cl_dest_remaining_m := map_option tenth remaining, cl_swappable := Some (case remaining of None \<Rightarrow> True | Some r \<Rightarrow> SWAP_MIN_M \<le> r)\<rparr>)"

text \<open>Whether the job is unloaded at the quay crane.\<close>

definition drop_at_crane :: "string option \<Rightarrow> bool \<Rightarrow> bool" where
  "drop_at_crane jobtype is_crane =
     (let jt = text_of jobtype in if jt = ''LD'' then True else if jt \<in> {''DS'', ''MO'', ''MI''} then False else is_crane)"

fun nearest_of :: "coord \<Rightarrow> coord list \<Rightarrow> real option" where
  "nearest_of c [] = None"
| "nearest_of c (r # rs) = Some (case nearest_of c rs of None \<Rightarrow> dist_m c r | Some d \<Rightarrow> min (dist_m c r) d)"

definition classify_arrived ::
  "real \<Rightarrow> pos \<Rightarrow> coord list \<Rightarrow> (string \<rightharpoonup> plc) \<Rightarrow> int \<Rightarrow> string \<Rightarrow> bool \<Rightarrow> bool \<Rightarrow> real option \<Rightarrow> classed" where
  "classify_arrived gate p rtgs plc now topos at_crane arrived_flag drop_dist =
     (if at_crane
      then st SoonIdle (Some (AtQuay topos (is_some_and (plc topos) (\<lambda>c. tdiv (now - pl_last_seen c) 1000 \<le> STALE_AFTER_S)) (\<not> arrived_flag)))
      else let d = map_option tenth (nearest_of (f_lat p, f_lon p) rtgs)
           in (case d of
                 Some dm \<Rightarrow> if dm \<le> gate then (st SoonIdle (Some (RtgNear dm)))\<lparr>cl_nearest_rtg_m := Some dm\<rparr>
                            else (st WaitRtg (Some (AtBlock (\<not> arrived_flag) drop_dist)))\<lparr>cl_nearest_rtg_m := Some dm\<rparr>
               | None \<Rightarrow> st WaitRtg (Some (AtBlock (\<not> arrived_flag) drop_dist))))"

definition classify_tt ::
  "real \<Rightarrow> pos \<Rightarrow> coord list \<Rightarrow> (string \<rightharpoonup> plc) \<Rightarrow> (string \<rightharpoonup> coord) \<Rightarrow> (string \<rightharpoonup> centroid) \<Rightarrow> int \<Rightarrow> classed" where
  "classify_tt gate p rtgs plc cranes cents now =
     (let assigned = has_text (f_container1 p) \<or> has_text (latched_container p) \<or> has_text (latched_topos p);
          loaded = has_text (f_container1 p)
      in if \<not> loaded then
           if f_speed p < IDLE_SPEED_KMH then (if assigned then st Staging (Some Dispatched) else st Idle None)
           else classify_empty p cranes cents
         else
           let topos = text_of (f_topos1 p); is_crane = is_crane_code topos; at_crane = drop_at_crane (f_jobtype p) is_crane in
           if at_crane \<and> \<not> is_crane then st Delivering (Some ToQuay)
           else if \<not> at_crane \<and> is_crane then st Delivering (Some ToBlock)
           else
             let drop_dist = map_option (dist_m (f_lat p, f_lon p)) (target_pos cranes cents topos);
                 arrived_flag = (f_arrival p = Some ''ARRIVED'');
                 geofence_arrived = (f_speed p < IDLE_SPEED_KMH \<and> is_some_and drop_dist (\<lambda>d. d \<le> GEOFENCE_DROP_M))
             in if \<not> arrived_flag \<and> \<not> geofence_arrived then st Delivering (Some UnderWay)
                else classify_arrived gate p rtgs plc now topos at_crane arrived_flag drop_dist)"

definition free_in :: "tt_state \<Rightarrow> string option \<Rightarrow> int option \<times> int option" where
  "free_in s jobtype =
     (let ds = (jobtype = Some ''DS'') in
      if s = Delivering \<and> ds then (Some 1030, Some 2420)
      else if s = WaitRtg \<and> ds then (Some 480, Some 1620)
      else if s = SoonIdle then (Some 120, Some 360) else (None, None))"

section \<open>The live page\<close>

definition age_s :: "int \<Rightarrow> int \<Rightarrow> int" where
  "age_s now seen = tdiv (now - seen) 1000"

definition is_fresh :: "int \<Rightarrow> pos \<Rightarrow> bool" where
  "is_fresh now p \<longleftrightarrow> age_s now (f_last_seen p) \<le> STALE_AFTER_S"

text \<open>The devices by the order of their names.\<close>

definition device_list :: "string list \<Rightarrow> live_map \<Rightarrow> (string \<times> pos) list" where
  "device_list ids lm = List.map_filter (\<lambda>i. map_option (\<lambda>p. (i, p)) (lm_devices lm i)) (sort ids)"

definition rtgs_of :: "int \<Rightarrow> (string \<times> pos) list \<Rightarrow> coord list" where
  "rtgs_of now ds = map (\<lambda>(_, p). (f_lat p, f_lon p)) (filter (\<lambda>(_, p). f_cls p = ''RTG'' \<and> is_fresh now p) ds)"

definition cranes_of :: "int \<Rightarrow> live_map \<Rightarrow> string \<rightharpoonup> coord" where
  "cranes_of now lm i = (case lm_devices lm i of
     Some p \<Rightarrow> if f_cls p \<in> {''C'', ''M'', ''Z''} \<and> is_fresh now p then Some (f_lat p, f_lon p) else None
   | None \<Rightarrow> None)"

text \<open>The pool the matcher published: its time and the seconds to free of each candidate.\<close>

record stage2_pool =
  sp_as_of :: int
  sp_bases :: "string \<rightharpoonup> int"

definition pool_age :: "int \<Rightarrow> stage2_pool \<Rightarrow> int option" where
  "pool_age now sp = (if sp_as_of sp > 0 then Some (max (age_s now (sp_as_of sp)) 0) else None)"

definition pool_fresh :: "int \<Rightarrow> stage2_pool \<Rightarrow> bool" where
  "pool_fresh now sp = is_some_and (pool_age now sp) (\<lambda>a. a \<le> 180)"

text \<open>What is shown of a crane's controller, when it was heard within two minutes.\<close>

record plc_out =
  xo_is_loaded :: bool
  xo_age_s :: int
  xo_mph :: int
  xo_last_move_age_s :: "int option"

record device_out =
  do_id :: string
  do_in_pool :: "bool option"
  do_age_s :: int
  do_dispatch :: "tt_state option"
  do_free_in_s :: "int option"
  do_free_in_hi_s :: "int option"
  do_class :: "classed option"
  do_plc :: "plc_out option"

definition recent :: "int \<Rightarrow> int list \<Rightarrow> nat" where
  "recent now ts = length (filter (\<lambda>t. now - t \<le> MOVE_WINDOW_MS) ts)"

definition obs_hours :: "int \<Rightarrow> int \<Rightarrow> real" where
  "obs_hours now started = max 0.1 (min 1 (of_int (now - started) / 3600000))"

definition plc_out_of :: "int \<Rightarrow> real \<Rightarrow> plc \<Rightarrow> plc_out option" where
  "plc_out_of now obs_h c =
     (let pa = age_s now (pl_last_seen c)
      in if pa \<le> STALE_AFTER_S
         then Some \<lparr>xo_is_loaded = is_some_and (pl_load c) (\<lambda>t. 1 \<le> t), xo_age_s = max pa 0,
                xo_mph = round_away (real (recent now (pl_moves c)) / obs_h),
                xo_last_move_age_s = (if pl_last_move c \<noteq> 0 then Some (tdiv (now - pl_last_move c) 1000) else None)\<rparr>
         else None)"

definition device_of :: "int \<Rightarrow> real \<Rightarrow> stage2_pool \<Rightarrow> (string \<rightharpoonup> plc) \<Rightarrow> (pos \<Rightarrow> classed) \<Rightarrow> string \<times> pos \<Rightarrow> device_out option" where
  "device_of now obs_h sp plcs classify ip = (case ip of (i, p) \<Rightarrow>
     if age_s now (f_last_seen p) > STALE_AFTER_S then None
     else let c = (if f_cls p = ''TT'' then Some (classify p) else None); dispatch = map_option cl_state c;
              bases = (if pool_fresh now sp then sp_bases sp else Map.empty);
              (free, hi) = (case (bases i, dispatch) of
                  (Some b, _) \<Rightarrow> (Some b, None)
                | (None, Some s) \<Rightarrow> free_in s (f_jobtype p)
                | (None, None) \<Rightarrow> (None, None))
          in Some \<lparr>do_id = i, do_in_pool = (if f_cls p = ''TT'' \<and> pool_fresh now sp then Some (bases i \<noteq> None) else None),
               do_age_s = max (age_s now (f_last_seen p)) 0, do_dispatch = dispatch, do_free_in_s = free, do_free_in_hi_s = hi,
               do_class = c, do_plc = Option.bind (plcs i) (plc_out_of now obs_h)\<rparr>)"

definition count_state :: "device_out list \<Rightarrow> tt_state \<Rightarrow> nat" where
  "count_state ds s = length (filter (\<lambda>d. do_dispatch d = Some s) ds)"

definition all_states :: "tt_state list" where
  "all_states = [Idle, Staging, EmptyTravel, Delivering, SoonIdle, WaitRtg]"

text \<open>The moves of the last hour over the cranes that moved, and their mean rate.\<close>

definition crane_rate :: "int \<Rightarrow> real \<Rightarrow> plc list \<Rightarrow> nat \<times> nat \<times> real option" where
  "crane_rate now obs_h cs =
     (let ms = filter (\<lambda>m. 0 < m) (map (\<lambda>c. recent now (pl_moves c)) cs)
      in (sum_list ms, length ms, if 0 < length ms then Some (tenth (real (sum_list ms) / real (length ms) / obs_h)) else None))"

definition MIN_CYCLE_SAMPLES :: nat where "MIN_CYCLE_SAMPLES = 20"

definition pctile :: "int list \<Rightarrow> real \<Rightarrow> int option" where
  "pctile v p = (let i = min (nat \<lfloor>real (length v) * p\<rfloor>) (length v - 1) in if i < length v then Some (v ! i) else None)"

definition littles :: "nat \<Rightarrow> nat \<Rightarrow> real \<Rightarrow> int option" where
  "littles cycling drops obs_h =
     (let lam = real drops / (obs_h * 3600) in if 0 < cycling \<and> 0 < lam then Some (round_away (real cycling / lam)) else None)"

record positions_out =
  po_devices :: "device_out list"
  po_dispatch_counts :: "tt_state \<Rightarrow> nat"
  po_active_trucks :: nat
  po_crane_moves_60m :: nat
  po_cranes_working :: nat
  po_crane_mph :: "real option"
  po_littles_s :: "int option"
  po_median_s :: "int option"
  po_p25_s :: "int option"
  po_p75_s :: "int option"
  po_drops_60m :: nat
  po_samples :: nat
  po_artifacts_60m :: nat
  po_artifacts_near_60m :: nat
  po_window_fill_min :: int

definition positions ::
  "int \<Rightarrow> int \<Rightarrow> int \<Rightarrow> real \<Rightarrow> stage2_pool \<Rightarrow> quay_line \<Rightarrow> (string \<rightharpoonup> crane_wp) \<Rightarrow> string list \<Rightarrow> string list \<Rightarrow> live_map \<Rightarrow> positions_out" where
  "positions now started connected_since gate sp ql wps ids plc_ids lm =
     (let ds = device_list ids lm; cranes = resolve_crane_wp ql wps (cranes_of now lm);
          classify = (\<lambda>p. classify_tt gate p (rtgs_of now ds) (lm_plc lm) cranes (lm_centroids lm) now);
          devices = List.map_filter (device_of now (obs_hours now started) sp (lm_plc lm) classify) ds; obs_h = obs_hours now started;
          (moves, working, mph) = crane_rate now obs_h (List.map_filter (lm_plc lm) plc_ids);
          cycling = count_state devices EmptyTravel + count_state devices Delivering + count_state devices SoonIdle;
          drops = recent now (lm_drops lm); cyc = sort (map snd (filter (\<lambda>(t, _). now - t \<le> MOVE_WINDOW_MS) (lm_cycles lm)));
          have_median = (MIN_CYCLE_SAMPLES \<le> length cyc)
      in \<lparr>po_devices = devices, po_dispatch_counts = count_state devices,
          po_active_trucks = sum_list (map (count_state devices) (filter (\<lambda>s. s \<noteq> Idle) all_states)),
          po_crane_moves_60m = moves, po_cranes_working = working, po_crane_mph = mph, po_littles_s = littles cycling drops obs_h,
          po_median_s = (if have_median then Some (cyc ! (length cyc div 2)) else None),
          po_p25_s = (if have_median then pctile cyc (1 / 4) else None), po_p75_s = (if have_median then pctile cyc (3 / 4) else None),
          po_drops_60m = drops, po_samples = length cyc, po_artifacts_60m = recent now (lm_artifacts lm), po_artifacts_near_60m = recent now (lm_artifacts_near lm),
          po_window_fill_min = (if connected_since > 0 then max 0 (min (MOVE_WINDOW_MS div 60000) (tdiv (now - connected_since) 60000)) else 0)\<rparr>)"

section \<open>The health of the feed\<close>

definition FRESH_UNDER_S :: int where "FRESH_UNDER_S = 15"

datatype colour = Green | Amber | Red

record health_out =
  ho_color :: colour
  ho_fresh :: nat
  ho_stale :: nat
  ho_lost :: nat
  ho_total :: nat
  ho_by_class :: "string \<Rightarrow> nat"
  ho_plc_devices :: nat
  ho_engine_on :: nat
  ho_with_job :: nat
  ho_rate_per_min :: nat
  ho_sparkline :: "nat list"

definition health_color :: "bool \<Rightarrow> int option \<Rightarrow> nat \<Rightarrow> colour" where
  "health_color conn last_age active =
     (if \<not> conn then Red
      else if (case last_age of None \<Rightarrow> True | Some a \<Rightarrow> a > 60) then Red
      else if active = 0 then Amber
      else if is_some_and last_age (\<lambda>a. a > 20) then Amber else Green)"

definition health :: "int \<Rightarrow> bool \<Rightarrow> string list \<Rightarrow> string list \<Rightarrow> live_map \<Rightarrow> health_out \<times> live_map" where
  "health now conn ids plc_ids lm =
     (let ring = ring_advance (tdiv now 60000) (lm_ring lm); ps = map snd (device_list ids lm); ages = map (\<lambda>p. age_s now (f_last_seen p)) ps;
          fresh = length (filter (\<lambda>a. a \<le> FRESH_UNDER_S) ages); stale = length (filter (\<lambda>a. FRESH_UNDER_S < a \<and> a \<le> STALE_AFTER_S) ages);
          lost = length (filter (\<lambda>a. STALE_AFTER_S < a) ages); live = filter (is_fresh now) ps;
          last_age = (if lm_last_msg lm \<noteq> 0 then Some (age_s now (lm_last_msg lm)) else None)
      in (\<lparr>ho_color = health_color conn last_age (fresh + stale), ho_fresh = fresh, ho_stale = stale, ho_lost = lost, ho_total = fresh + stale + lost,
           ho_by_class = (\<lambda>c. length (filter (\<lambda>p. f_cls p = c) live)),
           ho_plc_devices = length (filter (\<lambda>c. age_s now (pl_last_seen c) \<le> STALE_AFTER_S) (List.map_filter (lm_plc lm) plc_ids)),
           ho_engine_on = length (filter (\<lambda>p. f_engine p = 1) live), ho_with_job = length (filter (\<lambda>p. has_text (f_jobtype p)) live),
           ho_rate_per_min = ring_rate ring, ho_sparkline = ring_series ring\<rparr>,
          lm\<lparr>lm_ring := ring\<rparr>))"

section \<open>The loggers\<close>

text \<open>The box a truck carries: the live one, the latched one, or that of its order.\<close>

definition trip_box :: "pos \<Rightarrow> assigned_job option \<Rightarrow> string option" where
  "trip_box p aj = (if has_text (f_container1 p) then f_container1 p
     else case latched_container p of Some c \<Rightarrow> Some c | None \<Rightarrow> Option.bind aj aj_contno)"

type_synonym trip = "string \<times> string"

text \<open>A tick sees the boxes carried now and the trucks in each of the two states.\<close>

record idle_view =
  iv_carried :: "trip list"
  iv_soon :: "trip list"
  iv_near :: "trip list"

definition see_truck :: "int \<Rightarrow> (pos \<Rightarrow> classed) \<Rightarrow> live_map \<Rightarrow> string \<times> pos \<Rightarrow> idle_view \<Rightarrow> idle_view" where
  "see_truck now classify lm ip v = (case ip of (i, p) \<Rightarrow>
     if f_cls p \<noteq> ''TT'' \<or> \<not> is_fresh now p then v
     else case trip_box p (lm_assigned_pool lm i) of
         None \<Rightarrow> v
       | Some c \<Rightarrow>
           let v = v\<lparr>iv_carried := iv_carried v @ [(i, c)]\<rparr> in
           (case cl_state (classify p) of
              SoonIdle \<Rightarrow> v\<lparr>iv_soon := iv_soon v @ [(i, c)]\<rparr>
            | WaitRtg \<Rightarrow> v\<lparr>iv_near := iv_near v @ [(i, c)]\<rparr>
            | _ \<Rightarrow> v))"

definition see_all :: "int \<Rightarrow> (pos \<Rightarrow> classed) \<Rightarrow> live_map \<Rightarrow> (string \<times> pos) list \<Rightarrow> idle_view" where
  "see_all now classify lm ds = fold (see_truck now classify lm) ds \<lparr>iv_carried = [], iv_soon = [], iv_near = []\<rparr>"

text \<open>The trips logged and still under way; a trip ends when its truck no longer carries its box.\<close>

definition keep_open :: "trip list \<Rightarrow> trip list \<Rightarrow> trip list" where
  "keep_open carried opn = filter (\<lambda>(yt, c). map_of carried yt = Some c) opn"

fun log_new :: "trip list \<Rightarrow> trip list \<Rightarrow> trip list \<times> trip list" where
  "log_new opn [] = (opn, [])"
| "log_new opn (t # ts) =
     (if t \<in> set opn then log_new opn ts else (let (opn', ls) = log_new (t # opn) ts in (opn', t # ls)))"

definition idle_tick :: "idle_view \<Rightarrow> trip list \<times> trip list \<Rightarrow> (trip list \<times> trip list) \<times> trip list \<times> trip list" where
  "idle_tick v s =
     (let (soon_open, soon_rows) = log_new (keep_open (iv_carried v) (fst s)) (iv_soon v);
          (near_open, near_rows) = log_new (keep_open (iv_carried v) (snd s)) (iv_near v)
      in ((soon_open, near_open), soon_rows, near_rows))"

text \<open>A sample of the time to free: truck, state, prediction, and whether it is about to be free.\<close>

definition free_in_row :: "int \<Rightarrow> (pos \<Rightarrow> classed) \<Rightarrow> string \<times> pos \<Rightarrow> (string \<times> tt_state \<times> int \<times> bool) option" where
  "free_in_row now classify ip = (case ip of (i, p) \<Rightarrow>
     if f_cls p \<noteq> ''TT'' \<or> \<not> is_fresh now p then None
     else let s = cl_state (classify p); jt = (case f_jobtype p of Some j \<Rightarrow> Some j | None \<Rightarrow> latched_jobtype p)
          in map_option (\<lambda>pred. (i, s, pred, s = SoonIdle)) (fst (free_in s jt)))"

end
