(* ===== verification/TruckFacts.thy ===== *)
theory TruckFacts
  imports TruckState
begin

text \<open>
  What the state of a truck means, that the figures of the live page agree with each other and with those of the health page,
  and that the loggers write the first entry of every trip once.
\<close>

section \<open>The state of a truck\<close>

lemma tenth_near: "\<bar>tenth x - x\<bar> \<le> 1 / 20"
  using round_away_near[of "x * 10"] by (simp add: tenth_def abs_le_iff field_simps)

lemma nearest_of_in: "nearest_of c rs = Some d \<Longrightarrow> \<exists>r \<in> set rs. dist_m c r = d"
  by (induction rs arbitrary: d) (auto simp: min_def split: option.splits if_splits)

definition side_ok :: "pos \<Rightarrow> bool" where
  "side_ok p \<longleftrightarrow> drop_at_crane (f_jobtype p) (is_crane_code (text_of (f_topos1 p))) = is_crane_code (text_of (f_topos1 p))"

definition at_target :: "pos \<Rightarrow> (string \<rightharpoonup> coord) \<Rightarrow> (string \<rightharpoonup> centroid) \<Rightarrow> bool" where
  "at_target p cranes cents \<longleftrightarrow> f_arrival p = Some ''ARRIVED'' \<or> (f_speed p < IDLE_SPEED_KMH \<and>
     (\<exists>t. target_pos cranes cents (text_of (f_topos1 p)) = Some t \<and> dist_m (f_lat p, f_lon p) t \<le> GEOFENCE_DROP_M))"

lemma arrived_states: "cl_state (classify_arrived gate p rtgs plc now topos at_crane flag dd) \<in> {SoonIdle, WaitRtg}"
  by (auto simp: classify_arrived_def st_def Let_def split: option.split)

lemma arrived_soon:
  assumes "cl_state (classify_arrived gate p rtgs plc now topos False flag dd) = SoonIdle"
  shows "\<exists>r \<in> set rtgs. dist_m (f_lat p, f_lon p) r \<le> gate + 1 / 20"
proof -
  obtain d where d: "nearest_of (f_lat p, f_lon p) rtgs = Some d" "tenth d \<le> gate"
    using assms by (auto simp: classify_arrived_def st_def Let_def split: option.splits if_splits)
  then obtain r where "r \<in> set rtgs" "dist_m (f_lat p, f_lon p) r = d" using nearest_of_in by blast
  moreover have "d \<le> gate + 1 / 20" using tenth_near[of d] d(2) by linarith
  ultimately show ?thesis by (intro bexI[of _ r]) simp_all
qed

lemma empty_state: "cl_state (classify_empty p cranes cents) = EmptyTravel"
  by (auto simp: classify_empty_def st_def Let_def)

lemma classify_cases:
  "cl_state (classify_tt gate p rtgs plc cranes cents now) =
    (if \<not> has_text (f_container1 p) then
       if f_speed p < IDLE_SPEED_KMH then (if has_text (latched_container p) \<or> has_text (latched_topos p) then Staging else Idle) else EmptyTravel
     else if \<not> side_ok p \<or> \<not> at_target p cranes cents then Delivering
     else let t = text_of (f_topos1 p) in cl_state (classify_arrived gate p rtgs plc now t (is_crane_code t) (f_arrival p = Some ''ARRIVED'')
       (map_option (dist_m (f_lat p, f_lon p)) (target_pos cranes cents t))))"
proof (cases "has_text (f_container1 p)")
  case False
  then show ?thesis by (auto simp: classify_tt_def Let_def st_def empty_state)
next
  case True
  let ?t = "text_of (f_topos1 p)"
  have g: "at_target p cranes cents \<longleftrightarrow> f_arrival p = Some ''ARRIVED'' \<or> (f_speed p < IDLE_SPEED_KMH \<and>
      is_some_and (map_option (dist_m (f_lat p, f_lon p)) (target_pos cranes cents ?t)) (\<lambda>d. d \<le> GEOFENCE_DROP_M))"
    by (auto simp: at_target_def is_some_and_def split: option.splits)
  show ?thesis
  proof (cases "side_ok p")
    case False
    then show ?thesis using True by (auto simp: classify_tt_def Let_def st_def side_ok_def)
  next
    case s: True
    then have "drop_at_crane (f_jobtype p) (is_crane_code ?t) = is_crane_code ?t" by (simp add: side_ok_def)
    then show ?thesis using True s g by (simp add: classify_tt_def Let_def st_def)
  qed
qed


text \<open>A discharge has arrived at its block, a yard crane stands beside it.\<close>

definition at_block :: pos where
  "at_block = (read_fix (\<lambda>_. None) (\<lambda>_. None) 1000 ''TT1'' (\<lambda>_. None) TERMINAL_LAT TERMINAL_LON)
     \<lparr>f_jobtype := Some ''DS'', f_container1 := Some ''BOX1'', f_topos1 := Some ''07F-06'', f_arrival := Some ''ARRIVED''\<rparr>"

lemma at_block_fields:
  "f_container1 at_block = Some ''BOX1''" "f_topos1 at_block = Some ''07F-06''" "f_arrival at_block = Some ''ARRIVED''" "f_jobtype at_block = Some ''DS''"
  "f_lat at_block = TERMINAL_LAT" "f_lon at_block = TERMINAL_LON"
  by (simp_all add: at_block_def read_fix_def)

lemma block_code: "\<not> is_crane_code ''07F-06''"
  by (simp add: is_crane_code_def)

lemma dist_self: "dist_m c c = 0"
  by (cases c) (simp add: dist_m_def)

lemma at_block_soon: "cl_state (classify_tt 50 at_block [(TERMINAL_LAT, TERMINAL_LON)] (\<lambda>_. None) (\<lambda>_. None) (\<lambda>_. None) 1000) = SoonIdle"
  by (simp add: classify_cases side_ok_def at_target_def at_block_fields drop_at_crane_def text_of_def has_text_def is_some_and_def block_code
    classify_arrived_def Let_def st_def dist_self tenth_def round_away_def)


section \<open>The live page\<close>

lemma all_states_all: "s \<in> set all_states" "distinct all_states"
  by (cases s) (auto simp: all_states_def)

lemma count_all: "(\<Sum>s\<leftarrow>all_states. count_state ds s) = length (filter (\<lambda>d. do_dispatch d \<noteq> None) ds)"
proof (induction ds)
  case (Cons d ds)
  have "(\<Sum>s\<leftarrow>all_states. count_state (d # ds) s) = (\<Sum>s\<leftarrow>all_states. count_state ds s) + (if do_dispatch d \<noteq> None then 1 else 0)"
    by (cases "do_dispatch d"; cases "the (do_dispatch d)") (auto simp: count_state_def all_states_def)
  then show ?case using Cons by simp
qed (simp add: count_state_def)

lemma device_of_Some: "device_of now obs_h sp plcs classify (i, p) = Some d \<Longrightarrow>
    is_fresh now p \<and> do_id d = i \<and> (do_dispatch d \<noteq> None \<longleftrightarrow> f_cls p = ''TT'') \<and> do_dispatch d = (if f_cls p = ''TT'' then Some (cl_state (classify p)) else None)"
  by (auto simp: device_of_def is_fresh_def Let_def split: if_splits option.splits prod.splits)

lemma device_of_None: "device_of now obs_h sp plcs classify (i, p) = None \<longleftrightarrow> \<not> is_fresh now p"
  by (auto simp: device_of_def is_fresh_def Let_def split: if_splits option.splits prod.splits)

lemma shown_length: "length (List.map_filter (device_of now obs_h sp plcs classify) ds) = length (filter (\<lambda>(_, p). is_fresh now p) ds)"
proof (induction ds)
  case (Cons d ds)
  then show ?case using device_of_None[of now obs_h sp plcs classify "fst d" "snd d"] by (auto simp: List.map_filter_def case_prod_beta split: option.split)
qed (simp add: List.map_filter_def)

lemma shown_trucks: "length (filter (\<lambda>d. do_dispatch d \<noteq> None) (List.map_filter (device_of now obs_h sp plcs classify) ds)) =
    length (filter (\<lambda>(_, p). is_fresh now p \<and> f_cls p = ''TT'') ds)"
proof (induction ds)
  case (Cons d ds)
  obtain i p where d: "d = (i, p)" by force
  show ?case
  proof (cases "device_of now obs_h sp plcs classify (i, p)")
    case None
    then show ?thesis using Cons device_of_None[of now obs_h sp plcs classify i p] by (simp add: d List.map_filter_def)
  next
    case (Some x)
    then show ?thesis using Cons device_of_Some[OF Some] by (simp add: d List.map_filter_def)
  qed
qed (simp add: List.map_filter_def)

lemma near_or_late: "length (filter (\<lambda>a. a \<le> FRESH_UNDER_S) xs) + length (filter (\<lambda>a. FRESH_UNDER_S < a \<and> a \<le> STALE_AFTER_S) xs) = length (filter (\<lambda>a. a \<le> STALE_AFTER_S) xs)"
  by (induction xs) (auto simp: FRESH_UNDER_S_def STALE_AFTER_S_def)

lemma positions_devices: "\<exists>obs_h plcs classify. po_devices (positions now started since gate sp ql wps ids plc_ids lm) = List.map_filter (device_of now obs_h sp plcs classify) (device_list ids lm)"
  by (auto simp: positions_def Let_def case_prod_beta)

text \<open>
  C35. The figures of the live page agree. The counts by state add up to the trucks seen in the last two minutes, the active trucks are those
  not idle, and the devices shown are those the health page counts as fresh or stale; the health page counts every device once.
\<close>

theorem page_counts_agree:
  fixes now started since gate sp ql wps ids plc_ids lm conn
  defines "P \<equiv> positions now started since gate sp ql wps ids plc_ids lm" and "H \<equiv> fst (health now conn ids plc_ids lm)"
  shows "(\<Sum>s\<leftarrow>all_states. po_dispatch_counts P s) = length (filter (\<lambda>(_, p). is_fresh now p \<and> f_cls p = ''TT'') (device_list ids lm))
    \<and> po_active_trucks P + po_dispatch_counts P Idle = (\<Sum>s\<leftarrow>all_states. po_dispatch_counts P s)
    \<and> length (po_devices P) = ho_fresh H + ho_stale H \<and> ho_total H = length (device_list ids lm)"
proof -
  obtain obs_h plcs classify where c: "po_devices P = List.map_filter (device_of now obs_h sp plcs classify) (device_list ids lm)" using positions_devices P_def by blast
  have pc: "po_dispatch_counts P = count_state (po_devices P)" "po_active_trucks P = sum_list (map (count_state (po_devices P)) (filter (\<lambda>s. s \<noteq> Idle) all_states))"
    by (simp_all add: P_def positions_def Let_def case_prod_beta)
  have a: "po_active_trucks P + po_dispatch_counts P Idle = (\<Sum>s\<leftarrow>all_states. po_dispatch_counts P s)" unfolding pc by (simp add: all_states_def)
  have all: "length (filter (\<lambda>a. a \<le> STALE_AFTER_S) xs) + length (filter (\<lambda>a. STALE_AFTER_S < a) xs) = length xs" for xs :: "int list"
    by (induction xs) auto
  let ?ages = "map (\<lambda>x. age_s now (f_last_seen (snd x))) (device_list ids lm)"
  have h: "ho_fresh H = length (filter (\<lambda>a. a \<le> FRESH_UNDER_S) ?ages)" "ho_stale H = length (filter (\<lambda>a. FRESH_UNDER_S < a \<and> a \<le> STALE_AFTER_S) ?ages)"
    "ho_total H = ho_fresh H + ho_stale H + length (filter (\<lambda>a. STALE_AFTER_S < a) ?ages)"
    by (simp_all add: H_def health_def Let_def filter_map comp_def)
  have "length (filter (\<lambda>a. a \<le> STALE_AFTER_S) ?ages) = length (filter (\<lambda>(_, p). is_fresh now p) (device_list ids lm))"
    by (auto simp: filter_map comp_def is_fresh_def intro!: arg_cong[where f = length] filter_cong)
  then have "length (po_devices P) = ho_fresh H + ho_stale H" using c near_or_late[of ?ages] h(1,2) shown_length[of now obs_h sp plcs classify "device_list ids lm"] by simp
  moreover have "ho_total H = length (device_list ids lm)" using h near_or_late[of ?ages] all[of ?ages] by simp
  moreover have "(\<Sum>s\<leftarrow>all_states. po_dispatch_counts P s) = length (filter (\<lambda>(_, p). is_fresh now p \<and> f_cls p = ''TT'') (device_list ids lm))"
    unfolding pc(1) count_all c shown_trucks ..
  ultimately show ?thesis using a by simp
qed

text \<open>
  The cycle times shown are ordered: with at least twenty cycles in the last hour the quartiles are cycles of that hour and lie on either
  side of the median, with fewer none is shown.
\<close>

theorem quartiles_ordered:
  fixes now started since gate sp ql wps ids plc_ids lm
  defines "P \<equiv> positions now started since gate sp ql wps ids plc_ids lm"
    and "cyc \<equiv> map snd (filter (\<lambda>(t, _). now - t \<le> MOVE_WINDOW_MS) (lm_cycles lm))"
  shows "case (po_p25_s P, po_median_s P, po_p75_s P) of
      (Some a, Some m, Some b) \<Rightarrow> MIN_CYCLE_SAMPLES \<le> length cyc \<and> a \<le> m \<and> m \<le> b \<and> {a, m, b} \<subseteq> set cyc
    | (None, None, None) \<Rightarrow> length cyc < MIN_CYCLE_SAMPLES
    | _ \<Rightarrow> False"
proof (cases "MIN_CYCLE_SAMPLES \<le> length cyc")
  case True
  let ?v = "sort cyc" and ?n = "length cyc"
  have n: "20 \<le> ?n" using True by (simp add: MIN_CYCLE_SAMPLES_def)
  let ?a = "nat \<lfloor>real ?n * (1 / 4)\<rfloor>" and ?b = "nat \<lfloor>real ?n * (3 / 4)\<rfloor>"
  have i: "?a \<le> ?n div 2" "?n div 2 \<le> ?b" "?b < ?n" using n by linarith+
  have pc: "pctile ?v q = Some (?v ! nat \<lfloor>real ?n * q\<rfloor>)" if "nat \<lfloor>real ?n * q\<rfloor> < ?n" for q
    using that by (auto simp: pctile_def Let_def min_def)
  have "po_p25_s P = pctile ?v (1 / 4)" "po_median_s P = Some (?v ! (?n div 2))" "po_p75_s P = pctile ?v (3 / 4)"
    using True by (simp_all add: P_def positions_def Let_def case_prod_beta cyc_def)
  then have "po_p25_s P = Some (?v ! ?a)" "po_median_s P = Some (?v ! (?n div 2))" "po_p75_s P = Some (?v ! ?b)"
    using pc[of "1 / 4"] pc[of "3 / 4"] i by simp_all
  moreover have "?v ! ?a \<le> ?v ! (?n div 2)" "?v ! (?n div 2) \<le> ?v ! ?b" using i by (auto intro!: sorted_nth_mono)
  moreover have "?v ! ?a \<in> set cyc" "?v ! (?n div 2) \<in> set cyc" "?v ! ?b \<in> set cyc" using i nth_mem[of _ ?v] by auto
  ultimately show ?thesis using True by simp
next
  case False
  then show ?thesis by (simp add: P_def positions_def Let_def case_prod_beta cyc_def)
qed


section \<open>The health of the feed\<close>

text \<open>
  The verdict of the health page: green exactly when the socket is up, the last message came within twenty seconds and some device is not
  lost; red exactly when the socket is down or no message came within a minute.
\<close>

theorem health_verdict:
  fixes now conn ids plc_ids lm
  defines "H \<equiv> fst (health now conn ids plc_ids lm)"
  shows "(ho_color H = Green \<longleftrightarrow> conn \<and> lm_last_msg lm \<noteq> 0 \<and> age_s now (lm_last_msg lm) \<le> 20 \<and> (\<exists>(i, p) \<in> set (device_list ids lm). is_fresh now p))
    \<and> (ho_color H = Red \<longleftrightarrow> \<not> conn \<or> lm_last_msg lm = 0 \<or> 60 < age_s now (lm_last_msg lm))"
proof -
  let ?ages = "map (\<lambda>x. age_s now (f_last_seen (snd x))) (device_list ids lm)"
  have "ho_fresh H + ho_stale H = length (filter (\<lambda>a. a \<le> STALE_AFTER_S) ?ages)"
    using near_or_late[of ?ages] by (simp add: H_def health_def Let_def filter_map comp_def)
  then have "ho_fresh H + ho_stale H = 0 \<longleftrightarrow> \<not> (\<exists>(i, p) \<in> set (device_list ids lm). is_fresh now p)"
    by (auto simp: is_fresh_def filter_empty_conv filter_map comp_def)
  moreover have "ho_color H = health_color conn (if lm_last_msg lm \<noteq> 0 then Some (age_s now (lm_last_msg lm)) else None) (ho_fresh H + ho_stale H)"
    by (simp add: H_def health_def Let_def)
  ultimately show ?thesis by (auto simp: health_color_def is_some_and_def)
qed

section \<open>The loggers\<close>

lemma log_new_open: "set (fst (log_new opn ts)) = set opn \<union> set ts"
  by (induction opn ts rule: log_new.induct) (auto simp: Let_def case_prod_beta)

lemma log_new_rows: "set (snd (log_new opn ts)) = set ts - set opn" "distinct (snd (log_new opn ts))"
  by (induction opn ts rule: log_new.induct) (auto simp: Let_def case_prod_beta)

lemma keep_open_in: "t \<in> set (keep_open carried opn) \<longleftrightarrow> t \<in> set opn \<and> map_of carried (fst t) = Some (snd t)"
  by (auto simp: keep_open_def)

text \<open>The rows of a run of one logger.\<close>

fun log_run :: "trip list \<Rightarrow> (trip list \<times> trip list) list \<Rightarrow> trip list list" where
  "log_run opn [] = []"
| "log_run opn (v # vs) = (let new = log_new (keep_open (fst v) opn) (snd v) in snd new # log_run (fst new) vs)"

definition carries :: "trip list \<times> trip list \<Rightarrow> trip \<Rightarrow> bool" where
  "carries v t \<longleftrightarrow> map_of (fst v) (fst t) = Some (snd t)"

lemma log_run_length: "length (log_run opn vs) = length vs"
  by (induction opn vs rule: log_run.induct) (auto simp: Let_def case_prod_beta)

lemma logged_or_open:
  assumes "j < length vs" "t \<in> set (snd (vs ! j))"
  shows "(t \<in> set opn \<and> (\<forall>k \<le> j. carries (vs ! k) t)) \<or> (\<exists>i \<le> j. t \<in> set (log_run opn vs ! i) \<and> (\<forall>k. i < k \<and> k \<le> j \<longrightarrow> carries (vs ! k) t))"
  using assms
proof (induction opn vs arbitrary: j rule: log_run.induct)
  case (2 opn v vs)
  let ?vs = "v # vs" and ?new = "log_new (keep_open (fst v) opn) (snd v)"
  have run: "log_run opn ?vs = snd ?new # log_run (fst ?new) vs" by (simp add: Let_def case_prod_beta)
  have first: "(t \<in> set opn \<and> carries v t) \<or> t \<in> set (snd ?new)" if "t \<in> set (fst ?new)"
    using that by (auto simp: log_new_open log_new_rows keep_open_in carries_def)
  show ?case
  proof (cases j)
    case 0
    then have "t \<in> set (fst ?new)" using 2(3) by (simp add: log_new_open)
    then show ?thesis using first 0 unfolding run by auto
  next
    case (Suc j')
    have IH: "(t \<in> set (fst ?new) \<and> (\<forall>k \<le> j'. carries (vs ! k) t)) \<or>
        (\<exists>i \<le> j'. t \<in> set (log_run (fst ?new) vs ! i) \<and> (\<forall>k. i < k \<and> k \<le> j' \<longrightarrow> carries (vs ! k) t))"
      using 2(1)[OF refl, of j'] 2(2,3) Suc by simp
    have split: "(\<forall>k \<le> Suc j'. P k) \<longleftrightarrow> P 0 \<and> (\<forall>k \<le> j'. P (Suc k))" for P :: "nat \<Rightarrow> bool"
      by (metis Suc_le_mono le0 not0_implies_Suc)
    show ?thesis
      using IH
    proof (elim disjE conjE exE)
      assume a: "t \<in> set (fst ?new)" "\<forall>k \<le> j'. carries (vs ! k) t"
      from first[OF a(1)] show ?thesis
      proof
        assume "t \<in> set opn \<and> carries v t"
        then show ?thesis using a(2) unfolding Suc split by simp
      next
        assume "t \<in> set (snd ?new)"
        moreover have "\<forall>k. 0 < k \<and> k \<le> j \<longrightarrow> carries (?vs ! k) t" using a(2) Suc by (auto simp: gr0_conv_Suc)
        ultimately show ?thesis unfolding run by (intro disjI2 exI[of _ 0]) simp
      qed
    next
      fix i assume i: "i \<le> j'" "t \<in> set (log_run (fst ?new) vs ! i)" "\<forall>k. i < k \<and> k \<le> j' \<longrightarrow> carries (vs ! k) t"
      have "\<forall>k. Suc i < k \<and> k \<le> j \<longrightarrow> carries (?vs ! k) t"
      proof (intro allI impI)
        fix k assume "Suc i < k \<and> k \<le> j"
        then show "carries (?vs ! k) t" using i(3) Suc by (cases k) auto
      qed
      then show ?thesis unfolding run using i(1,2) Suc by (intro disjI2 exI[of _ "Suc i"]) simp
    qed
  qed
qed simp

lemma open_not_logged: "\<lbrakk>j < length vs; t \<in> set opn; t \<in> set (log_run opn vs ! j)\<rbrakk> \<Longrightarrow> \<exists>k \<le> j. \<not> carries (vs ! k) t"
proof (induction opn vs arbitrary: j rule: log_run.induct)
  case (2 opn v vs)
  let ?new = "log_new (keep_open (fst v) opn) (snd v)"
  show ?case
  proof (cases "carries v t")
    case True
    then have o: "t \<in> set (keep_open (fst v) opn)" using 2(3) by (simp add: keep_open_in carries_def)
    obtain j' where j: "j = Suc j'" using 2(4) o by (cases j) (auto simp: Let_def case_prod_beta log_new_rows)
    then have "\<exists>k \<le> j'. \<not> carries (vs ! k) t"
      using 2(1)[OF refl, of j'] 2(2,4) o by (simp add: Let_def case_prod_beta log_new_open)
    then obtain k where "k \<le> j'" "\<not> carries (vs ! k) t" by blast
    then show ?thesis using j by (intro exI[of _ "Suc k"]) simp
  qed (auto intro: exI[of _ 0])
qed simp

lemma logged_once: "\<lbrakk>i < j; j < length vs; t \<in> set (log_run opn vs ! i); t \<in> set (log_run opn vs ! j)\<rbrakk> \<Longrightarrow> \<exists>k. i < k \<and> k \<le> j \<and> \<not> carries (vs ! k) t"
proof (induction opn vs arbitrary: i j rule: log_run.induct)
  case (2 opn v vs)
  let ?new = "log_new (keep_open (fst v) opn) (snd v)"
  have run: "log_run opn (v # vs) = snd ?new # log_run (fst ?new) vs" by (simp add: Let_def case_prod_beta)
  obtain j' where j: "j = Suc j'" using 2(2) by (cases j) auto
  show ?case
  proof (cases i)
    case 0
    then have "t \<in> set (fst ?new)" using 2(4) unfolding run by (auto simp: log_new_open log_new_rows)
    then obtain k where "k \<le> j'" "\<not> carries (vs ! k) t" using open_not_logged[of j' vs t "fst ?new"] 2(3,5) j unfolding run by auto
    then show ?thesis using j 0 by (intro exI[of _ "Suc k"]) simp
  next
    case (Suc i')
    then obtain k where "i' < k" "k \<le> j'" "\<not> carries (vs ! k) t"
      using 2(1)[OF refl, of i' j'] 2(2-5) j unfolding run by auto
    then show ?thesis using j Suc by (intro exI[of _ "Suc k"]) simp
  qed
qed simp

text \<open>The rows of both loggers, tick by tick.\<close>

fun idle_run :: "trip list \<times> trip list \<Rightarrow> idle_view list \<Rightarrow> (trip list \<times> trip list) list" where
  "idle_run s [] = []"
| "idle_run s (v # vs) = (let (s', rows) = idle_tick v s in rows # idle_run s' vs)"

lemma idle_run_length: "length (idle_run s vs) = length vs"
  by (induction vs arbitrary: s) (auto simp: Let_def case_prod_beta)

lemma idle_run_logs:
  "map fst (idle_run s vs) = log_run (fst s) (map (\<lambda>v. (iv_carried v, iv_soon v)) vs)"
  "map snd (idle_run s vs) = log_run (snd s) (map (\<lambda>v. (iv_carried v, iv_near v)) vs)"
  by (induction vs arbitrary: s) (auto simp: idle_tick_def Let_def case_prod_beta)


text \<open>A truck is soon idle with one box at two ticks, drops it, and comes back with it.\<close>

definition four_ticks :: "idle_view list" where
  "four_ticks = (let with_box = \<lparr>iv_carried = [(''TT1'', ''BOX1'')], iv_soon = [(''TT1'', ''BOX1'')], iv_near = []\<rparr>;
     without = \<lparr>iv_carried = [], iv_soon = [], iv_near = []\<rparr> in [with_box, with_box, without, with_box])"


end
