(* ===== verification/MapMatch.thy ===== *)
theory MapMatch
  imports Ingest Casts
begin

text \<open>
  The shadow map matcher of \<^verbatim>\<open>src/crates/api/src/livemap.rs\<close> (\<^verbatim>\<open>MapMatch\<close>, \<^verbatim>\<open>mm_finalize\<close>, \<^verbatim>\<open>spawn_mapmatch_shadow\<close>): a truck's
  fixes are projected on the road route to its target, and a row is written at the end of every leg.

  A distance that may be infinite is an option, none for infinity. Floats are reals, so the casts to single precision are exact. The
  state is the list of the entries of the hash map. The route comes from the router of this library, whose search always ends on a loaded graph.
\<close>

section \<open>A leg\<close>

definition MM_GATE_M :: real where "MM_GATE_M = 80"

record map_match =
  mm_dest :: string
  mm_dest_xy :: "real \<times> real"
  mm_rxy :: "(real \<times> real) list"
  mm_arc :: "real list"
  mm_total_m :: real
  mm_routed :: bool
  mm_progress_m :: real
  mm_started :: int
  mm_last_upd :: int
  mm_last_gps :: int
  mm_max_gap_s :: real
  mm_min_dest_m :: "real option"
  mm_max_jump_m :: real
  mm_last_xy :: "(real \<times> real) option"
  mm_saw_arrived :: bool
  mm_is_crane :: bool

definition mm_default :: map_match where
  "mm_default = \<lparr>mm_dest = [], mm_dest_xy = (0, 0), mm_rxy = [], mm_arc = [], mm_total_m = 0, mm_routed = False, mm_progress_m = 0,
     mm_started = 0, mm_last_upd = 0, mm_last_gps = 0, mm_max_gap_s = 0, mm_min_dest_m = Some 0, mm_max_jump_m = 0, mm_last_xy = None,
     mm_saw_arrived = False, mm_is_crane = False\<rparr>"

definition hypot :: "real \<Rightarrow> real \<Rightarrow> real" where
  "hypot x y = sqrt (x * x + y * y)"

definition gap_xy :: "real \<times> real \<Rightarrow> real \<times> real \<Rightarrow> real" where
  "gap_xy p q = hypot (fst p - fst q) (snd p - snd q)"

definition lay_point :: "nat \<times> coord \<Rightarrow> (real \<times> real) list \<times> real list \<times> real \<Rightarrow> (real \<times> real) list \<times> real list \<times> real" where
  "lay_point ip s = (case (ip, s) of ((i, la, lo), rxy, arc, acc) \<Rightarrow>
     let p = to_local la lo; acc = (if i > 0 then acc + gap_xy p (rxy ! (i - 1)) else acc)
     in (rxy @ [p], arc @ [acc], acc))"

definition set_route :: "route_path \<Rightarrow> map_match \<Rightarrow> map_match" where
  "set_route rp m = (case fold lay_point (List.enumerate 0 (rp_pts rp)) (mm_rxy m, mm_arc m, 0) of (rxy, arc, acc) \<Rightarrow>
     m\<lparr>mm_rxy := rxy, mm_arc := arc, mm_total_m := acc, mm_routed := (acc > 1 \<and> length rxy \<ge> 2)\<rparr>)"

text \<open>The nearest point of a segment: how far it is, and how far along the segment.\<close>

definition seg_hit :: "real \<times> real \<Rightarrow> real \<times> real \<Rightarrow> real \<times> real \<Rightarrow> (real \<times> real) option" where
  "seg_hit g p0 p1 =
     (let dx = fst p1 - fst p0; dy = snd p1 - snd p0; l2 = dx * dx + dy * dy in
      if l2 < 1 / 1000000 then None
      else let t = max 0 (min 1 (((fst g - fst p0) * dx + (snd g - snd p0) * dy) / l2))
           in Some (gap_xy g (fst p0 + t * dx, snd p0 + t * dy), t))"

definition nearer :: "real \<times> real \<Rightarrow> map_match \<Rightarrow> nat \<Rightarrow> real option \<times> real \<Rightarrow> real option \<times> real" where
  "nearer g m i best = (case seg_hit g (mm_rxy m ! i) (mm_rxy m ! (i + 1)) of
     None \<Rightarrow> best
   | Some (d, t) \<Rightarrow>
       if (case fst best of None \<Rightarrow> True | Some b \<Rightarrow> d < b) then (Some d, mm_arc m ! i + t * (mm_arc m ! (i + 1) - mm_arc m ! i)) else best)"

definition best_hit :: "real \<times> real \<Rightarrow> map_match \<Rightarrow> real option \<times> real" where
  "best_hit g m = fold (nearer g m) [0..<length (mm_rxy m) - 1] (None, 0)"

definition min_dest :: "real \<Rightarrow> real option \<Rightarrow> real option" where
  "min_dest d old = (case old of None \<Rightarrow> Some d | Some b \<Rightarrow> if d < b then Some d else old)"

definition project :: "real \<Rightarrow> real \<Rightarrow> map_match \<Rightarrow> map_match" where
  "project lat lon m =
     (let g = to_local lat lon; m = m\<lparr>mm_min_dest_m := min_dest (gap_xy g (mm_dest_xy m)) (mm_min_dest_m m)\<rparr> in
      if \<not> mm_routed m then m
      else let best = best_hit g m
           in if is_some_and (fst best) (\<lambda>d. d \<le> MM_GATE_M) then m\<lparr>mm_progress_m := max (mm_progress_m m) (snd best)\<rparr> else m)"

record mm_row =
  mw_ytno :: string
  mw_dest :: string
  mw_is_crane :: bool
  mw_dur_s :: int
  mw_route_m :: real
  mw_prog_frac :: real
  mw_min_dest_m :: real
  mw_saw_arrived :: bool
  mw_max_gap_s :: real
  mw_max_jump_m :: real

definition mm_finalize :: "string \<Rightarrow> map_match \<Rightarrow> mm_row option" where
  "mm_finalize ytno m =
     (if \<not> mm_routed m \<or> mm_started m = 0 \<or> mm_total_m m \<le> 0 then None
      else let dur = as_i32 (tdiv (mm_last_upd m - mm_started m) 1000) in
        if dur < 20 then None
        else Some \<lparr>mw_ytno = ytno, mw_dest = mm_dest m, mw_is_crane = mm_is_crane m, mw_dur_s = dur, mw_route_m = mm_total_m m,
               mw_prog_frac = max 0 (min 1 (mm_progress_m m / mm_total_m m)),
               mw_min_dest_m = (case mm_min_dest_m m of Some d \<Rightarrow> d | None \<Rightarrow> -1), mw_saw_arrived = mm_saw_arrived m,
               mw_max_gap_s = mm_max_gap_s m, mw_max_jump_m = mm_max_jump_m m\<rparr>)"

section \<open>A tick\<close>

text \<open>What a tick sees of a truck.\<close>

record mm_fix =
  mf_lat :: real
  mf_lon :: real
  mf_topos1 :: "string option"
  mf_arrived :: bool
  mf_last_seen :: int

definition dest_of :: "mm_fix \<Rightarrow> string option" where
  "dest_of x = (case mf_topos1 x of Some t \<Rightarrow> if t \<noteq> [] \<and> t \<noteq> ''0'' then Some t else None | None \<Rightarrow> None)"

definition route_or_none :: "road_graph \<Rightarrow> coord \<Rightarrow> coord \<Rightarrow> route_path option" where
  "route_or_none g a b = (case route_path_of g (fst a) (snd a) (fst b) (snd b) of Some r \<Rightarrow> r | None \<Rightarrow> None)"

definition open_leg :: "road_graph \<Rightarrow> int \<Rightarrow> (string \<rightharpoonup> coord) \<Rightarrow> mm_fix \<Rightarrow> string \<Rightarrow> map_match" where
  "open_leg g now cents x dt =
     (let e = mm_default\<lparr>mm_dest := dt, mm_is_crane := is_crane_code dt, mm_started := now, mm_last_upd := now, mm_min_dest_m := None\<rparr>
      in (case (case cents dt of None \<Rightarrow> cents (block_prefix dt) | Some p \<Rightarrow> Some p) of
            None \<Rightarrow> e
          | Some d \<Rightarrow>
              let e = e\<lparr>mm_dest_xy := to_local (fst d) (snd d)\<rparr>
              in (case route_or_none g (mf_lat x, mf_lon x) d of None \<Rightarrow> e | Some rp \<Rightarrow> set_route rp e)))"

definition note_gap :: "int \<Rightarrow> map_match \<Rightarrow> map_match" where
  "note_gap seen m =
     (let gap = of_int (seen - mm_last_gps m) / 1000
      in if mm_last_gps m > 0 \<and> seen > mm_last_gps m \<and> gap > mm_max_gap_s m then m\<lparr>mm_max_gap_s := gap\<rparr> else m)"

definition note_jump :: "real \<times> real \<Rightarrow> map_match \<Rightarrow> map_match" where
  "note_jump xy m = (case mm_last_xy m of
     None \<Rightarrow> m
   | Some l \<Rightarrow> if gap_xy xy l > mm_max_jump_m m then m\<lparr>mm_max_jump_m := gap_xy xy l\<rparr> else m)"

definition track :: "int \<Rightarrow> mm_fix \<Rightarrow> map_match \<Rightarrow> map_match" where
  "track now x m =
     (let xy = to_local (mf_lat x) (mf_lon x); m = project (mf_lat x) (mf_lon x) (note_jump xy (note_gap (mf_last_seen x) m))
      in m\<lparr>mm_saw_arrived := (mm_saw_arrived m \<or> mf_arrived x), mm_last_gps := mf_last_seen x, mm_last_xy := Some xy, mm_last_upd := now\<rparr>)"

definition follow :: "road_graph \<Rightarrow> int \<Rightarrow> (string \<rightharpoonup> coord) \<Rightarrow> string \<Rightarrow> mm_fix \<Rightarrow> map_match \<Rightarrow> map_match \<times> mm_row option" where
  "follow g now cents i x e = (case dest_of x of
     Some dt \<Rightarrow>
       let (e, r) = (if dt = mm_dest e \<and> mm_started e \<noteq> 0 then (e, None) else (open_leg g now cents x dt, mm_finalize i e))
       in (if mm_routed e then track now x e else e, r)
   | None \<Rightarrow> (mm_default, mm_finalize i e))"

type_synonym mm_state = "(string \<times> map_match) list"

definition see_fix :: "road_graph \<Rightarrow> int \<Rightarrow> (string \<rightharpoonup> coord) \<Rightarrow> string \<times> mm_fix \<Rightarrow> mm_state \<times> mm_row list \<Rightarrow> mm_state \<times> mm_row list" where
  "see_fix g now cents ix s = (case (ix, s) of ((i, x), st, rows) \<Rightarrow>
     let e = (case map_of st i of None \<Rightarrow> mm_default | Some e \<Rightarrow> e); (e', r) = follow g now cents i x e
     in (AList.update i e' st, rows @ (case r of None \<Rightarrow> [] | Some r \<Rightarrow> [r])))"

definition drop_gone :: "string list \<Rightarrow> mm_state \<Rightarrow> mm_state \<times> mm_row list" where
  "drop_gone present st =
     (filter (\<lambda>(i, _). i \<in> set present) st, List.map_filter (\<lambda>(i, m). mm_finalize i m) (filter (\<lambda>(i, _). i \<notin> set present) st))"

definition fix_of :: "pos \<Rightarrow> mm_fix" where
  "fix_of p = \<lparr>mf_lat = f_lat p, mf_lon = f_lon p, mf_topos1 = f_topos1 p, mf_arrived = (f_arrival p = Some ''ARRIVED''), mf_last_seen = f_last_seen p\<rparr>"

definition mm_trucks :: "int \<Rightarrow> (string \<times> pos) list \<Rightarrow> (string \<times> mm_fix) list" where
  "mm_trucks now ds = map (\<lambda>(i, p). (i, fix_of p)) (filter (\<lambda>(_, p). f_cls p = ''TT'' \<and> tdiv (now - f_last_seen p) 1000 \<le> 600) ds)"

definition match_all :: "road_graph \<Rightarrow> int \<Rightarrow> (string \<rightharpoonup> coord) \<Rightarrow> (string \<times> mm_fix) list \<Rightarrow> mm_state \<Rightarrow> mm_state \<times> mm_row list" where
  "match_all g now cents tts st =
     (let (st, rows) = fold (see_fix g now cents) tts (st, []); (st, ended) = drop_gone (map fst tts) st
      in (st, rows @ ended))"

record mm_task =
  mt_graph :: "road_graph option"
  mt_age_s :: int
  mt_state :: mm_state

text \<open>The graph is read again when there is none or after an hour; an unreadable graph leaves the old one.\<close>

definition mm_tick :: "road_graph option \<Rightarrow> int \<Rightarrow> (string \<rightharpoonup> centroid) \<Rightarrow> (string \<times> pos) list \<Rightarrow> mm_task \<Rightarrow> mm_task \<times> mm_row list" where
  "mm_tick read now cents ds t =
     (let age = mt_age_s t + 5;
          t = (if mt_graph t = None \<or> age \<ge> 3600 then t\<lparr>mt_graph := (case read of Some gg \<Rightarrow> Some gg | None \<Rightarrow> mt_graph t), mt_age_s := 0\<rparr> else t\<lparr>mt_age_s := age\<rparr>)
      in (case mt_graph t of
            None \<Rightarrow> (t, [])
          | Some g \<Rightarrow>
              let (st, rows) = match_all g now (\<lambda>k. map_option (\<lambda>c. (ce_lat c, ce_lon c)) (cents k)) (mm_trucks now ds) (mt_state t)
              in (t\<lparr>mt_state := st\<rparr>, rows)))"

definition mm_start :: "road_graph option \<Rightarrow> mm_task" where
  "mm_start read = \<lparr>mt_graph = read, mt_age_s = 0, mt_state = []\<rparr>"

inductive mm_reach :: "mm_task \<Rightarrow> mm_row list \<Rightarrow> bool" where
  start: "mm_reach (mm_start read) []"
| tick: "\<lbrakk>mm_reach t rows; distinct (map fst ds); mm_tick read now cents ds t = (t', new)\<rbrakk> \<Longrightarrow> mm_reach t' (rows @ new)"

end
