(* ===== verification/MapMatchFacts.thy ===== *)
theory MapMatchFacts
  imports MapMatch
begin

text \<open>
  The map matcher keeps to its route: progress lies between nothing and the length of the route in every reachable state, and the row of a
  leg is the summary of all its fixes.
\<close>

section \<open>The route\<close>

definition route_ok :: "map_match \<Rightarrow> bool" where
  "route_ok m \<longleftrightarrow> 2 \<le> length (mm_rxy m) \<and> length (mm_arc m) = length (mm_rxy m) \<and> sorted (mm_arc m) \<and> hd (mm_arc m) = 0
     \<and> last (mm_arc m) = mm_total_m m \<and> 1 < mm_total_m m \<and> 0 \<le> mm_progress_m m \<and> mm_progress_m m \<le> mm_total_m m"

definition laid :: "nat \<Rightarrow> (real \<times> real) list \<times> real list \<times> real \<Rightarrow> bool" where
  "laid n s \<longleftrightarrow> (case s of (rxy, arc, acc) \<Rightarrow> length rxy = n \<and> length arc = n \<and> sorted arc \<and> (\<forall>a \<in> set arc. a \<le> acc) \<and> 0 \<le> acc
     \<and> (if n = 0 then acc = 0 else hd arc = 0 \<and> last arc = acc))"

lemma gap_xy_nonneg [simp]: "0 \<le> gap_xy p q"
  by (simp add: gap_xy_def hypot_def)

lemma lay_point_laid: "laid n s \<Longrightarrow> laid (Suc n) (lay_point (n, p) s)"
  by (cases s; cases p; cases n) (auto simp: laid_def lay_point_def Let_def sorted_append hd_append intro: add_increasing2 order_trans)

lemma lay_all: "laid n s \<Longrightarrow> laid (n + length ps) (fold lay_point (List.enumerate n ps) s)"
proof (induction ps arbitrary: n s)
  case (Cons p ps)
  then show ?case using Cons.IH[OF lay_point_laid[OF Cons.prems]] by simp
qed simp

lemma set_route_ok:
  assumes "mm_rxy m = []" "mm_arc m = []" "mm_progress_m m = 0" "mm_routed (set_route rp m)"
  shows "route_ok (set_route rp m)"
proof -
  have "laid 0 (mm_rxy m, mm_arc m, 0)" using assms(1,2) by (simp add: laid_def)
  from lay_all[OF this, of "rp_pts rp"] show ?thesis
    using assms by (auto simp: set_route_def route_ok_def laid_def split: prod.splits if_splits)
qed

lemma set_route_keeps: "mm_min_dest_m (set_route rp m) = mm_min_dest_m m" "mm_started (set_route rp m) = mm_started m" "mm_dest (set_route rp m) = mm_dest m"
  "mm_last_gps (set_route rp m) = mm_last_gps m" "mm_max_gap_s (set_route rp m) = mm_max_gap_s m" "mm_max_jump_m (set_route rp m) = mm_max_jump_m m"
  "mm_saw_arrived (set_route rp m) = mm_saw_arrived m" "mm_progress_m (set_route rp m) = mm_progress_m m" "mm_last_upd (set_route rp m) = mm_last_upd m"
  by (simp_all add: set_route_def split: prod.splits)

lemma open_leg_fields:
  "mm_min_dest_m (open_leg g now cents x dt) = None" "mm_started (open_leg g now cents x dt) = now" "mm_dest (open_leg g now cents x dt) = dt"
  "mm_max_gap_s (open_leg g now cents x dt) = 0" "mm_max_jump_m (open_leg g now cents x dt) = 0"
  "mm_saw_arrived (open_leg g now cents x dt) = False" "mm_progress_m (open_leg g now cents x dt) = 0"
  by (simp_all add: open_leg_def Let_def mm_default_def set_route_keeps split: option.splits)

lemma open_leg_ok: "mm_routed (open_leg g now cents x dt) \<Longrightarrow> route_ok (open_leg g now cents x dt)"
  by (auto simp: open_leg_def Let_def mm_default_def intro!: set_route_ok split: option.splits)

section \<open>A projection\<close>

lemma along_segment:
  assumes "sorted arc" "hd arc = 0" "last arc = (T :: real)" "Suc i < length arc" "0 \<le> t" "t \<le> 1"
  shows "0 \<le> arc ! i + t * (arc ! Suc i - arc ! i) \<and> arc ! i + t * (arc ! Suc i - arc ! i) \<le> T"
proof -
  have le: "arc ! i \<le> arc ! Suc i" using assms by (intro sorted_nth_mono) auto
  have lo: "0 \<le> arc ! i" using assms(2,4) sorted_nth_mono[OF assms(1), of 0 i] by (cases arc) (auto simp: hd_conv_nth)
  have hi: "arc ! Suc i \<le> T" using assms(3,4) sorted_nth_mono[OF assms(1), of "Suc i" "length arc - 1"] by (cases arc) (auto simp: last_conv_nth)
  have "0 \<le> t * (arc ! Suc i - arc ! i)" "t * (arc ! Suc i - arc ! i) \<le> 1 * (arc ! Suc i - arc ! i)"
    using le assms(5,6) by (simp_all add: mult_left_le_one_le)
  then show ?thesis using lo hi by auto
qed

lemma seg_hit_range: "seg_hit g p0 p1 = Some (d, t) \<Longrightarrow> 0 \<le> d \<and> 0 \<le> t \<and> t \<le> 1"
  by (auto simp: seg_hit_def Let_def split: if_splits)

lemma best_hit_range:
  assumes "route_ok m"
  shows "0 \<le> snd (best_hit g m) \<and> snd (best_hit g m) \<le> mm_total_m m"
proof -
  have "0 \<le> snd (fold (nearer g m) is b) \<and> snd (fold (nearer g m) is b) \<le> mm_total_m m"
    if "\<forall>i \<in> set is. Suc i < length (mm_arc m)" "0 \<le> snd b \<and> snd b \<le> mm_total_m m" for "is" b
    using that
  proof (induction "is" arbitrary: b)
    case (Cons i js)
    have "0 \<le> snd (nearer g m i b) \<and> snd (nearer g m i b) \<le> mm_total_m m"
      using Cons.prems assms along_segment[of "mm_arc m" "mm_total_m m" i]
      by (auto simp: nearer_def route_ok_def dest: seg_hit_range split: option.splits)
    then show ?case using Cons by simp
  qed simp
  moreover have "\<forall>i \<in> set [0..<length (mm_rxy m) - 1]. Suc i < length (mm_arc m)" using assms by (auto simp: route_ok_def)
  ultimately show ?thesis using assms unfolding best_hit_def by (simp add: route_ok_def)
qed

text \<open>How far along the route a fix is, when it is on the route.\<close>

definition on_route :: "map_match \<Rightarrow> mm_fix \<Rightarrow> bool" where
  "on_route m x \<longleftrightarrow> is_some_and (fst (best_hit (to_local (mf_lat x) (mf_lon x)) m)) (\<lambda>d. d \<le> MM_GATE_M)"

definition along :: "map_match \<Rightarrow> mm_fix \<Rightarrow> real" where
  "along m x = snd (best_hit (to_local (mf_lat x) (mf_lon x)) m)"

definition to_dest :: "map_match \<Rightarrow> mm_fix \<Rightarrow> real" where
  "to_dest m x = gap_xy (to_local (mf_lat x) (mf_lon x)) (mm_dest_xy m)"

text \<open>Two entries on the same route to the same target.\<close>

definition same_leg :: "map_match \<Rightarrow> map_match \<Rightarrow> bool" where
  "same_leg m m' \<longleftrightarrow> mm_rxy m' = mm_rxy m \<and> mm_arc m' = mm_arc m \<and> mm_total_m m' = mm_total_m m \<and> mm_routed m' = mm_routed m
     \<and> mm_dest m' = mm_dest m \<and> mm_dest_xy m' = mm_dest_xy m \<and> mm_started m' = mm_started m \<and> mm_is_crane m' = mm_is_crane m"

lemma best_hit_cong: "\<lbrakk>mm_rxy m' = mm_rxy m; mm_arc m' = mm_arc m\<rbrakk> \<Longrightarrow> best_hit g m' = best_hit g m"
proof -
  assume a: "mm_rxy m' = mm_rxy m" "mm_arc m' = mm_arc m"
  have "nearer g m' = nearer g m" unfolding fun_eq_iff nearer_def a by simp
  then show ?thesis using a(1) by (simp add: best_hit_def)
qed

lemma same_leg_cong: "same_leg m m' \<Longrightarrow> on_route m' x = on_route m x" "same_leg m m' \<Longrightarrow> along m' x = along m x" "same_leg m m' \<Longrightarrow> to_dest m' x = to_dest m x"
  using best_hit_cong[of m' m] by (simp_all add: same_leg_def on_route_def along_def to_dest_def)

lemma note_keeps:
  "same_leg m (note_jump xy (note_gap seen m))" "mm_progress_m (note_jump xy (note_gap seen m)) = mm_progress_m m"
  "mm_min_dest_m (note_jump xy (note_gap seen m)) = mm_min_dest_m m" "mm_saw_arrived (note_jump xy (note_gap seen m)) = mm_saw_arrived m"
  "mm_max_gap_s m \<le> mm_max_gap_s (note_jump xy (note_gap seen m))" "mm_max_jump_m m \<le> mm_max_jump_m (note_jump xy (note_gap seen m))"
  by (simp_all add: note_jump_def note_gap_def same_leg_def Let_def split: option.split)

lemma project_effect:
  assumes "mm_routed m"
  shows "same_leg m (project (mf_lat x) (mf_lon x) m)"
    and "mm_progress_m (project (mf_lat x) (mf_lon x) m) = (if on_route m x then max (mm_progress_m m) (along m x) else mm_progress_m m)"
    and "mm_min_dest_m (project (mf_lat x) (mf_lon x) m) = min_dest (to_dest m x) (mm_min_dest_m m)"
    and "mm_saw_arrived (project (mf_lat x) (mf_lon x) m) = mm_saw_arrived m"
    and "mm_max_gap_s (project (mf_lat x) (mf_lon x) m) = mm_max_gap_s m" "mm_max_jump_m (project (mf_lat x) (mf_lon x) m) = mm_max_jump_m m"
  using assms by (simp_all add: project_def Let_def same_leg_def on_route_def along_def to_dest_def best_hit_cong[of "m\<lparr>mm_min_dest_m := _\<rparr>" m])

lemma same_leg_trans: "same_leg a b \<Longrightarrow> same_leg b c \<Longrightarrow> same_leg a c"
  by (simp add: same_leg_def)

lemma track_effect:
  assumes "mm_routed m"
  shows "same_leg m (track now x m)"
    and "mm_progress_m (track now x m) = (if on_route m x then max (mm_progress_m m) (along m x) else mm_progress_m m)"
    and "mm_min_dest_m (track now x m) = min_dest (to_dest m x) (mm_min_dest_m m)"
    and "mm_saw_arrived (track now x m) \<longleftrightarrow> mm_saw_arrived m \<or> mf_arrived x"
    and "mm_last_upd (track now x m) = now"
    and "mm_max_gap_s m \<le> mm_max_gap_s (track now x m)" "mm_max_jump_m m \<le> mm_max_jump_m (track now x m)"
proof -
  define n where "n = note_jump (to_local (mf_lat x) (mf_lon x)) (note_gap (mf_last_seen x) m)"
  have leg: "same_leg m n" and n: "mm_progress_m n = mm_progress_m m" "mm_min_dest_m n = mm_min_dest_m m" "mm_saw_arrived n = mm_saw_arrived m"
    "mm_max_gap_s m \<le> mm_max_gap_s n" "mm_max_jump_m m \<le> mm_max_jump_m n" unfolding n_def by (rule note_keeps)+
  have r: "mm_routed n" using leg assms by (simp add: same_leg_def)
  note p = project_effect[OF r, of x]
  have t: "track now x m = (project (mf_lat x) (mf_lon x) n)\<lparr>mm_saw_arrived := (mm_saw_arrived (project (mf_lat x) (mf_lon x) n) \<or> mf_arrived x),
      mm_last_gps := mf_last_seen x, mm_last_xy := Some (to_local (mf_lat x) (mf_lon x)), mm_last_upd := now\<rparr>"
    by (simp add: track_def n_def Let_def)
  have "same_leg m (project (mf_lat x) (mf_lon x) n)" by (rule same_leg_trans[OF leg p(1)])
  then show "same_leg m (track now x m)" by (simp add: t same_leg_def)
  show "mm_progress_m (track now x m) = (if on_route m x then max (mm_progress_m m) (along m x) else mm_progress_m m)"
    "mm_min_dest_m (track now x m) = min_dest (to_dest m x) (mm_min_dest_m m)" "mm_saw_arrived (track now x m) \<longleftrightarrow> mm_saw_arrived m \<or> mf_arrived x"
    "mm_last_upd (track now x m) = now" "mm_max_gap_s m \<le> mm_max_gap_s (track now x m)" "mm_max_jump_m m \<le> mm_max_jump_m (track now x m)"
    using p(2-) n same_leg_cong[OF leg, of x] by (simp_all add: t)
qed

section \<open>Reachable states\<close>

definition mm_ok :: "map_match \<Rightarrow> bool" where
  "mm_ok m \<longleftrightarrow> 0 \<le> mm_max_gap_s m \<and> 0 \<le> mm_max_jump_m m \<and> (case mm_min_dest_m m of Some d \<Rightarrow> 0 \<le> d | None \<Rightarrow> \<not> mm_routed m)
     \<and> (mm_routed m \<longrightarrow> route_ok m \<and> mm_dest m \<noteq> [])"

definition row_ok :: "mm_row \<Rightarrow> bool" where
  "row_ok r \<longleftrightarrow> mw_dest r \<noteq> [] \<and> 20 \<le> mw_dur_s r \<and> 1 < mw_route_m r \<and> 0 \<le> mw_prog_frac r \<and> mw_prog_frac r \<le> 1
     \<and> 0 \<le> mw_min_dest_m r \<and> 0 \<le> mw_max_gap_s r \<and> 0 \<le> mw_max_jump_m r"

lemma default_ok: "mm_ok mm_default"
  by (simp add: mm_ok_def mm_default_def)

lemma route_ok_progress: "\<lbrakk>route_ok m; same_leg m m'; 0 \<le> mm_progress_m m'; mm_progress_m m' \<le> mm_total_m m\<rbrakk> \<Longrightarrow> route_ok m'"
  by (simp add: route_ok_def same_leg_def)

lemma track_route:
  assumes "route_ok m" "mm_routed m"
  shows "route_ok (track now x m)"
proof (rule route_ok_progress[OF assms(1) track_effect(1)[OF assms(2)]])
  show "0 \<le> mm_progress_m (track now x m)" "mm_progress_m (track now x m) \<le> mm_total_m m"
    using best_hit_range[OF assms(1)] assms by (auto simp: track_effect(2) along_def route_ok_def)
qed

lemma track_ok:
  assumes "route_ok m" "mm_routed m" "mm_dest m \<noteq> []" "0 \<le> mm_max_gap_s m" "0 \<le> mm_max_jump_m m" "\<forall>d. mm_min_dest_m m = Some d \<longrightarrow> 0 \<le> d"
  shows "mm_ok (track now x m)"
proof -
  have "0 \<le> mm_max_gap_s (track now x m)" "0 \<le> mm_max_jump_m (track now x m)"
    using track_effect(6,7)[OF assms(2), of now x] assms(4,5) by linarith+
  moreover have "mm_dest (track now x m) \<noteq> []" using track_effect(1)[OF assms(2), of now x] assms(3) by (simp add: same_leg_def)
  moreover have "case mm_min_dest_m (track now x m) of Some d \<Rightarrow> 0 \<le> d | None \<Rightarrow> \<not> mm_routed (track now x m)"
    unfolding track_effect(3)[OF assms(2)] using assms(6) by (auto simp: min_dest_def to_dest_def split: option.split)
  ultimately show ?thesis using track_route[OF assms(1,2)] by (simp add: mm_ok_def)
qed

lemma mm_finalize_ok: "\<lbrakk>mm_ok m; mm_finalize i m = Some r\<rbrakk> \<Longrightarrow> row_ok r"
  by (auto simp: mm_finalize_def mm_ok_def row_ok_def route_ok_def Let_def split: if_splits option.splits)

lemma dest_of_text: "dest_of x = Some dt \<Longrightarrow> dt \<noteq> []"
  by (auto simp: dest_of_def split: option.splits if_splits)

lemma follow_ok:
  assumes "mm_ok e"
  shows "mm_ok (fst (follow g now cents i x e)) \<and> (\<forall>r. snd (follow g now cents i x e) = Some r \<longrightarrow> row_ok r)"
proof (cases "dest_of x")
  case None
  then show ?thesis using mm_finalize_ok[OF assms] by (simp add: follow_def default_ok)
next
  case (Some dt)
  have new: "mm_ok (if mm_routed e' then track now x e' else e')" if "e' = open_leg g now cents x dt" for e'
  proof (cases "mm_routed e'")
    case True
    then have "mm_ok (track now x e')" using that open_leg_ok[of g now cents x dt] dest_of_text[OF Some] by (intro track_ok) (simp_all add: open_leg_fields)
    then show ?thesis using True by simp
  qed (simp add: that open_leg_fields mm_ok_def)
  have old: "mm_ok (if mm_routed e then track now x e else e)"
  proof (cases "mm_routed e")
    case True
    then have "mm_ok (track now x e)" using assms by (intro track_ok) (auto simp: mm_ok_def split: option.splits)
    then show ?thesis using True by simp
  qed (use assms in simp)
  show ?thesis using Some new old mm_finalize_ok[OF assms] by (simp add: follow_def Let_def)
qed

definition entries_ok :: "mm_state \<Rightarrow> bool" where
  "entries_ok st \<longleftrightarrow> hm_ok st \<and> (\<forall>(i, m) \<in> set st. mm_ok m)"

lemma entries_ok_get: "entries_ok st \<longleftrightarrow> hm_ok st \<and> (\<forall>i m. map_of st i = Some m \<longrightarrow> mm_ok m)"
  by (auto simp: entries_ok_def hm_mem)

lemma see_fix_ok:
  assumes "entries_ok st" "\<forall>r \<in> set rows. row_ok r"
  shows "entries_ok (fst (see_fix g now cents ix (st, rows))) \<and> (\<forall>r \<in> set (snd (see_fix g now cents ix (st, rows))). row_ok r)"
proof -
  obtain i x where ix: "ix = (i, x)" by force
  define e where "e = (case map_of st i of None \<Rightarrow> mm_default | Some e \<Rightarrow> e)"
  have "mm_ok e" using assms(1) default_ok by (auto simp: entries_ok_get e_def split: option.splits)
  from follow_ok[OF this, of g now cents i x] show ?thesis
    using assms by (auto simp: see_fix_def ix Let_def case_prod_beta e_def[symmetric] entries_ok_get hm split: option.splits if_splits)
qed

lemma see_all_ok:
  "\<lbrakk>entries_ok st; \<forall>r \<in> set rows. row_ok r\<rbrakk> \<Longrightarrow>
    entries_ok (fst (fold (see_fix g now cents) tts (st, rows))) \<and> (\<forall>r \<in> set (snd (fold (see_fix g now cents) tts (st, rows))). row_ok r)"
proof (induction tts arbitrary: st rows)
  case (Cons x tts)
  from see_fix_ok[OF Cons.prems, of g now cents x] show ?case
    using Cons.IH[of "fst (see_fix g now cents x (st, rows))" "snd (see_fix g now cents x (st, rows))"] by simp
qed simp

lemma drop_gone_ok: "entries_ok st \<Longrightarrow> entries_ok (fst (drop_gone present st)) \<and> (\<forall>r \<in> set (snd (drop_gone present st)). row_ok r)"
  by (auto simp: drop_gone_def entries_ok_def hm_ok_retain set_map_filter intro: mm_finalize_ok)

lemma match_all_ok:
  assumes "entries_ok st"
  shows "entries_ok (fst (match_all g now cents tts st)) \<and> (\<forall>r \<in> set (snd (match_all g now cents tts st)). row_ok r)"
  using see_all_ok[OF assms, of "[]" g now cents tts] drop_gone_ok[of "fst (fold (see_fix g now cents) tts (st, []))" "map fst tts"]
  by (auto simp: match_all_def Let_def case_prod_beta)

lemma mm_tick_ok:
  assumes "entries_ok (mt_state t)" "mm_tick read now cents ds t = (t', new)"
  shows "entries_ok (mt_state t') \<and> (\<forall>r \<in> set new. row_ok r)"
proof -
  have "t' = fst (mm_tick read now cents ds t)" "new = snd (mm_tick read now cents ds t)" using assms(2) by simp_all
  then show ?thesis using assms(1) match_all_ok[OF assms(1)] by (simp add: mm_tick_def Let_def case_prod_beta split: option.split)
qed

text \<open>
  C34. The map matcher stays on its route. In every state its ticks can reach, whatever graphs and targets come and go, an entry with a route has
  the lengths along the route in order from nothing to its total and a progress between them; and every row ever written has a target, at
  least twenty seconds, a progress between none and all of the route and distances that are not negative, so that neither the clamp of the
  progress nor the mark for an unknown distance is ever used.
\<close>

theorem matcher_rows_sound:
  assumes "mm_reach t rows"
  shows "(\<forall>(i, m) \<in> set (mt_state t). mm_ok m) \<and> distinct (map fst (mt_state t)) \<and> (\<forall>r \<in> set rows. row_ok r)"
proof -
  have "entries_ok (mt_state t) \<and> (\<forall>r \<in> set rows. row_ok r)" using assms
  proof induction
    case (tick t rows ds read now cents t' new)
    then show ?case using mm_tick_ok[of t read now cents ds t' new] by auto
  qed (simp add: mm_start_def entries_ok_def)
  then show ?thesis by (simp add: entries_ok_def hm_ok_def)
qed

section \<open>A whole leg\<close>

text \<open>The fixes of a leg, each with the graph and the points of its tick.\<close>

type_synonym leg_fix = "road_graph \<times> int \<times> (string \<rightharpoonup> coord) \<times> mm_fix"

definition lf_fix :: "leg_fix \<Rightarrow> mm_fix" where "lf_fix s = snd (snd (snd s))"
definition lf_now :: "leg_fix \<Rightarrow> int" where "lf_now s = fst (snd s)"

fun follow_leg :: "string \<Rightarrow> leg_fix list \<Rightarrow> map_match \<Rightarrow> map_match \<times> mm_row list" where
  "follow_leg i [] e = (e, [])"
| "follow_leg i ((g, now, cents, x) # ss) e =
     (let (e', r) = follow g now cents i x e; (e'', rs) = follow_leg i ss e' in (e'', (case r of None \<Rightarrow> [] | Some r \<Rightarrow> [r]) @ rs))"

definition on_fixes :: "map_match \<Rightarrow> leg_fix list \<Rightarrow> mm_fix list" where
  "on_fixes m ss = filter (on_route m) (map lf_fix ss)"

definition leg_sum :: "map_match \<Rightarrow> leg_fix list \<Rightarrow> map_match \<Rightarrow> bool" where
  "leg_sum m ss e \<longleftrightarrow> same_leg m e \<and> mm_progress_m e = fold max (map (along m) (on_fixes m ss)) 0
     \<and> (ss \<noteq> [] \<longrightarrow> mm_min_dest_m e = Some (Min (to_dest m ` lf_fix ` set ss)) \<and> mm_last_upd e = lf_now (last ss))
     \<and> (mm_saw_arrived e \<longleftrightarrow> (\<exists>s \<in> set ss. mf_arrived (lf_fix s)))"

lemma fold_max_between: "\<lbrakk>\<forall>a \<in> set xs. a \<le> T; b \<le> (T :: real)\<rbrakk> \<Longrightarrow> b \<le> fold max xs b \<and> fold max xs b \<le> T"
proof (induction xs arbitrary: b)
  case (Cons x xs)
  then show ?case using Cons.IH[of "max x b"] by auto
qed simp

lemma track_sum:
  assumes "leg_sum m ss e" "mm_routed m" "ss = [] \<longrightarrow> mm_min_dest_m e = None"
  shows "leg_sum m (ss @ [(g, now, cents, x)]) (track now x e)"
proof -
  have leg: "same_leg m e" and r: "mm_routed e" using assms(1,2) by (auto simp: leg_sum_def same_leg_def)
  note t = track_effect[OF r, of now x]
  have "mm_min_dest_m (track now x e) = Some (Min (to_dest m ` lf_fix ` set (ss @ [(g, now, cents, x)])))"
  proof (cases "ss = []")
    case True
    then show ?thesis using assms(3) t(3) same_leg_cong[OF leg] by (simp add: min_dest_def lf_fix_def)
  next
    case False
    then have e: "mm_min_dest_m e = Some (Min (to_dest m ` lf_fix ` set ss))" using assms(1) by (simp add: leg_sum_def)
    have "Min (to_dest m ` lf_fix ` set (ss @ [(g, now, cents, x)])) = min (to_dest m x) (Min (to_dest m ` lf_fix ` set ss))"
      using False by (simp add: lf_fix_def Min_insert[symmetric] del: Min_insert)
    then show ?thesis using t(3) e same_leg_cong[OF leg] by (simp add: min_dest_def min_def)
  qed
  moreover have "mm_progress_m (track now x e) = fold max (map (along m) (on_fixes m (ss @ [(g, now, cents, x)]))) 0"
    using assms(1) t(2) same_leg_cong[OF leg] by (simp add: leg_sum_def on_fixes_def lf_fix_def max.commute)
  moreover have "mm_saw_arrived (track now x e) \<longleftrightarrow> (\<exists>s \<in> set (ss @ [(g, now, cents, x)]). mf_arrived (lf_fix s))"
    using assms(1) t(4) by (auto simp: leg_sum_def lf_fix_def)
  ultimately show ?thesis using t(5) same_leg_trans[OF leg t(1)] by (simp add: leg_sum_def lf_now_def)
qed

lemma follow_same:
  "\<lbrakk>dest_of x = Some (mm_dest e); mm_started e \<noteq> 0; mm_routed e\<rbrakk> \<Longrightarrow> follow g now cents i x e = (track now x e, None)"
  by (simp add: follow_def)

lemma follow_leg_sum:
  assumes "leg_sum m ss e" "ss \<noteq> []" "mm_routed m" "mm_started m \<noteq> 0" "\<forall>s \<in> set ts. dest_of (lf_fix s) = Some (mm_dest m)"
  shows "leg_sum m (ss @ ts) (fst (follow_leg i ts e)) \<and> snd (follow_leg i ts e) = []"
  using assms
proof (induction ts arbitrary: ss e)
  case (Cons s ts)
  obtain g now cents x where s: "s = (g, now, cents, x)" by (metis prod_cases4)
  have "same_leg m e" using Cons.prems(1) by (simp add: leg_sum_def)
  then have f: "follow g now cents i x e = (track now x e, None)"
    using Cons.prems(3,4,5) by (intro follow_same) (auto simp: same_leg_def s lf_fix_def)
  have "leg_sum m (ss @ [s]) (track now x e)" unfolding s by (rule track_sum[OF Cons.prems(1,3)]) (use Cons.prems(2) in simp)
  from Cons.IH[OF this _ Cons.prems(3,4)] show ?case using Cons.prems(5) by (simp add: s f case_prod_beta Let_def)
qed simp


section \<open>Examples\<close>

text \<open>A truck drives along the only road of a small graph.\<close>

lemma small_path: "path small_graph 0 v p d l \<Longrightarrow> (v = 0 \<and> p = [0]) \<or> (v = 1 \<and> p = [0, 1])"
  by (induction rule: path.induct) (auto simp: small_graph_def)

lemma small_route: "\<exists>rp. route_or_none small_graph (1, 100) (2, 100) = Some rp \<and> rp_pts rp = [(1, 100), (2, 100)]"
proof -
  have e: "path small_graph 0 1 ([0] @ [1]) (0 + 3.6) (0 + 36)" by (rule path.edge[OF path.start]) (simp add: small_graph_def)
  obtain r where r: "route_path_of small_graph 1 100 2 100 = Some r" "case r of None \<Rightarrow> \<nexists>p d m. path small_graph 0 1 p d m
     | Some r \<Rightarrow> \<exists>p d. least_time small_graph 0 1 d \<and> path small_graph 0 1 p d (rp_dist_m r) \<and> rp_pts r = map ((!) (nodes small_graph)) p"
    using bh.route_path_least[OF load_graph_ok[OF small_load small_lengths] small_snap(1,3)] unfolding route_path_of_def by blast
  then obtain rp p d where "r = Some rp" "path small_graph 0 1 p d (rp_dist_m rp)" "rp_pts rp = map ((!) (nodes small_graph)) p"
    using e by (cases r) auto
  moreover from this(2) have "p = [0, 1]" using small_path by fastforce
  ultimately show ?thesis using r(1) by (simp add: route_or_none_def small_graph_def)
qed

definition small_points :: "string \<rightharpoonup> coord" where "small_points = [''07F'' \<mapsto> (2, 100)]"

definition small_fix :: mm_fix where
  "small_fix = \<lparr>mf_lat = 1, mf_lon = 100, mf_topos1 = Some ''07F'', mf_arrived = False, mf_last_seen = 1000\<rparr>"

lemma small_leg: "mm_routed (open_leg small_graph 1000 small_points small_fix ''07F'')"
proof -
  obtain rp where "route_or_none small_graph (1, 100) (2, 100) = Some rp" "rp_pts rp = [(1, 100), (2, 100)]" using small_route by blast
  then show ?thesis
    by (simp add: open_leg_def small_points_def small_fix_def Let_def set_route_def mm_default_def lay_point_def gap_xy_def hypot_def to_local_def)
qed


definition small_truck :: pos where
  "small_truck = read_fix (\<lambda>_. None) (\<lambda>_. None) 1000 ''TT1'' (\<lambda>_. None) 1 100"

theorem matcher_rows_sound_witness:
  "\<exists>t rows m. mm_reach t rows \<and> mt_state t = [(''TT1'', m)] \<and> mm_ok m"
proof -
  obtain t' new where t: "mm_tick None 1000 (\<lambda>_. None) [(''TT1'', small_truck)] (mm_start (Some small_graph)) = (t', new)" by force
  have "f_cls small_truck = ''TT''" "f_last_seen small_truck = 1000" by (simp_all add: small_truck_def read_fix_def device_class_def is_alpha_def)
  then have tt: "mm_trucks 1000 [(''TT1'', small_truck)] = [(''TT1'', fix_of small_truck)]" by (simp add: mm_trucks_def tdiv_def)
  have "\<exists>m. mt_state (fst (mm_tick None 1000 (\<lambda>_. None) [(''TT1'', small_truck)] (mm_start (Some small_graph)))) = [(''TT1'', m)]"
    by (simp add: mm_tick_def mm_start_def Let_def case_prod_beta match_all_def tt see_fix_def drop_gone_def)
  then obtain m where m: "mt_state t' = [(''TT1'', m)]" using t by auto
  have r: "mm_reach t' ([] @ new)" by (rule mm_reach.tick[OF mm_reach.start _ t]) simp
  then show ?thesis using matcher_rows_sound[OF r] m by (intro exI[of _ t'] exI[of _ "[] @ new"] exI[of _ m]) auto
qed

end
