(* ===== verification/Learned.thy ===== *)
theory Learned
  imports Ingest Casts
begin

text \<open>
  What the service learns survives a restart (\<^verbatim>\<open>src/crates/api/src/livemap.rs\<close>): the learned points and lanes are written every five minutes
  (\<^verbatim>\<open>spawn_learn_persist\<close>) and read at the start (\<^verbatim>\<open>load_centroids\<close>, \<^verbatim>\<open>load_lanes\<close>); the density of the trucks is sampled every minute
  (\<^verbatim>\<open>spawn_density_sampler\<close>).

  A table is a function from its key to its row. Whether the database accepts the write of a key is a parameter; the quality figures, which are
  computed inside the database, are left out. Floats are reals.
\<close>

section \<open>Points\<close>

definition as_i64 :: "int \<Rightarrow> int" where
  "as_i64 x = sint (word_of_int x :: 64 word)"

record point_row =
  lp_is_crane :: bool
  lp_lat :: real
  lp_lon :: real
  lp_n :: int
  lp_obs :: int
  lp_spread_m :: "real option"

definition point_row_of :: "quay_line \<Rightarrow> (string \<rightharpoonup> crane_wp) \<Rightarrow> string \<Rightarrow> centroid \<Rightarrow> point_row" where
  "point_row_of ql cwp topos c =
     (let (plat, plon, spread) = (if is_crane_code topos
            then (case Option.bind (cwp topos) crane_wp_centroid of
                    Some (cx, cy) \<Rightarrow> let (px, py) = quay_project ql cx cy; (la, lo) = from_local px py in (la, lo, 15)
                  | None \<Rightarrow> (ce_lat c, ce_lon c, spread_m c))
            else (ce_lat c, ce_lon c, spread_m c))
      in \<lparr>lp_is_crane = is_crane_code topos, lp_lat = plat, lp_lon = plon, lp_n = as_i32 (int (ce_n c)), lp_obs = as_i64 (int (ce_obs c)),
          lp_spread_m = Some spread\<rparr>)"

text \<open>The points are written one by one; the first refusal ends the round.\<close>

fun save_points :: "(string \<Rightarrow> bool) \<Rightarrow> quay_line \<Rightarrow> (string \<rightharpoonup> crane_wp) \<Rightarrow> (string \<times> centroid) list \<Rightarrow> (string \<rightharpoonup> point_row) \<Rightarrow> string \<rightharpoonup> point_row" where
  "save_points ok ql cwp [] tbl = tbl"
| "save_points ok ql cwp ((topos, c) # cs) tbl =
     (if ce_obs c = 0 then save_points ok ql cwp cs tbl
      else if ok topos then save_points ok ql cwp cs (tbl(topos \<mapsto> point_row_of ql cwp topos c))
      else tbl)"

definition centroid_of_row :: "point_row \<Rightarrow> centroid" where
  "centroid_of_row r =
     (let half = (case lp_spread_m r of Some s \<Rightarrow> s | None \<Rightarrow> 0) / sqrt 2; cs = max \<bar>cos (to_radians (lp_lat r))\<bar> (1 / 10 ^ 6)
      in \<lparr>ce_lat = lp_lat r, ce_lon = lp_lon r, ce_n = nat (max (lp_n r) 0), ce_obs = nat (max (lp_obs r) 0),
          ce_var_lat = (half / 111320) ^ 2, ce_var_lon = (half / (111320 * cs)) ^ 2\<rparr>)"

definition load_centroids :: "(string \<rightharpoonup> point_row) \<Rightarrow> (string \<rightharpoonup> centroid) \<Rightarrow> string \<rightharpoonup> centroid" where
  "load_centroids tbl cents k = (case tbl k of Some r \<Rightarrow> Some (centroid_of_row r) | None \<Rightarrow> cents k)"

section \<open>Lanes\<close>

record lane_row =
  lr_passes :: int
  lr_heading_deg :: "real option"
  lr_directionality :: "real option"
  lr_mean_speed :: "real option"

definition lane_row_of :: "lane_cell \<Rightarrow> lane_row" where
  "lane_row_of c = \<lparr>lr_passes = as_i64 (int (lc_passes c)), lr_heading_deg = Some (heading_deg c), lr_directionality = Some (directionality c),
     lr_mean_speed = Some (mean_speed c)\<rparr>"

fun save_lanes :: "(int \<times> int \<Rightarrow> bool) \<Rightarrow> ((int \<times> int) \<times> lane_cell) list \<Rightarrow> (int \<times> int \<rightharpoonup> lane_row) \<Rightarrow> int \<times> int \<rightharpoonup> lane_row" where
  "save_lanes ok [] tbl = tbl"
| "save_lanes ok ((k, c) # cs) tbl =
     (if lc_passes c < 3 then save_lanes ok cs tbl
      else if ok k then save_lanes ok cs (tbl(k \<mapsto> lane_row_of c))
      else tbl)"

definition lane_of_row :: "lane_row \<Rightarrow> lane_cell" where
  "lane_of_row r =
     (let passes = nat (max (lr_passes r) 0); res = (case lr_directionality r of Some d \<Rightarrow> d | None \<Rightarrow> 0) * real passes;
          h = to_radians (case lr_heading_deg r of Some d \<Rightarrow> d | None \<Rightarrow> 0)
      in \<lparr>lc_passes = passes, lc_sum_sin = res * sin h, lc_sum_cos = res * cos h,
          lc_sum_speed = (case lr_mean_speed r of Some s \<Rightarrow> s | None \<Rightarrow> 0) * real passes\<rparr>)"

definition load_lanes :: "(int \<times> int \<rightharpoonup> lane_row) \<Rightarrow> (int \<times> int \<rightharpoonup> lane_cell) \<Rightarrow> int \<times> int \<rightharpoonup> lane_cell" where
  "load_lanes tbl lanes k = (case tbl k of Some r \<Rightarrow> Some (lane_of_row r) | None \<Rightarrow> lanes k)"

section \<open>A round and a restart\<close>

record learn_db =
  ld_points :: "string \<rightharpoonup> point_row"
  ld_lanes :: "int \<times> int \<rightharpoonup> lane_row"

definition persist ::
  "(string \<Rightarrow> bool) \<Rightarrow> (int \<times> int \<Rightarrow> bool) \<Rightarrow> (string \<times> centroid) list \<Rightarrow> ((int \<times> int) \<times> lane_cell) list \<Rightarrow> live_map \<Rightarrow> learn_db \<Rightarrow> learn_db" where
  "persist okp okl points lanes lm db =
     db\<lparr>ld_points := save_points okp (lm_quay_line lm) (lm_crane_wp lm) points (ld_points db), ld_lanes := save_lanes okl lanes (ld_lanes db)\<rparr>"

definition boot :: "learn_db \<Rightarrow> live_map \<Rightarrow> live_map" where
  "boot db lm = lm\<lparr>lm_centroids := load_centroids (ld_points db) (lm_centroids lm), lm_lanes := load_lanes (ld_lanes db) (lm_lanes lm)\<rparr>"

section \<open>Density\<close>

definition density_sizes :: "int list" where "density_sizes = [50, 100, 150, 200]"

definition density_cell :: "int \<Rightarrow> pos \<Rightarrow> int \<times> int \<times> int" where
  "density_cell m p = (let deg = of_int m / 111320 in (m, round_away (f_lat p / deg), round_away (f_lon p / deg)))"

definition count_cell :: "int \<times> int \<times> int \<Rightarrow> (int \<times> int \<times> int \<Rightarrow> nat) \<Rightarrow> int \<times> int \<times> int \<Rightarrow> nat" where
  "count_cell k counts = counts(k := counts k + 1)"

definition sample_truck :: "int \<Rightarrow> pos \<Rightarrow> (int \<times> int \<times> int \<Rightarrow> nat) \<Rightarrow> int \<times> int \<times> int \<Rightarrow> nat" where
  "sample_truck now p counts =
     (if f_cls p \<noteq> ''TT'' \<or> tdiv (now - f_last_seen p) 1000 > STALE_AFTER_S then counts
      else fold (\<lambda>m. count_cell (density_cell m p)) density_sizes counts)"

definition sample_density :: "int \<Rightarrow> pos list \<Rightarrow> int \<times> int \<times> int \<Rightarrow> nat" where
  "sample_density now ps = fold (sample_truck now) ps (\<lambda>_. 0)"

end
