(* ===== verification/LearnedFacts.thy ===== *)
theory LearnedFacts
  imports Learned
begin

text \<open>
  A restart keeps what was written: a lane is read back exactly, a learned point with its place, its counts and its spread; and the density
  counts every fresh truck once per grid size.
\<close>

section \<open>Angles\<close>

lemma atan2_polar: "sqrt (y * y + x * x) * cos (atan2 y x) = x \<and> sqrt (y * y + x * x) * sin (atan2 y x) = y"
proof -
  have *: "sqrt (y * y + x * x) * cos (arctan (y / x)) = \<bar>x\<bar> \<and> sqrt (y * y + x * x) * sin (arctan (y / x)) = \<bar>x\<bar> * (y / x)" if "x \<noteq> 0"
  proof -
    have "sqrt (y * y + x * x) = sqrt ((x * x) * (1 + (y / x)\<^sup>2))" using that by (simp add: power2_eq_square field_simps)
    also have "\<dots> = \<bar>x\<bar> * sqrt (1 + (y / x)\<^sup>2)" by (simp add: real_sqrt_mult)
    finally have r: "sqrt (y * y + x * x) = \<bar>x\<bar> * sqrt (1 + (y / x)\<^sup>2)" .
    have "0 < 1 + (y / x)\<^sup>2" by (simp add: add_pos_nonneg)
    then have "sqrt (1 + (y / x)\<^sup>2) \<noteq> 0" by (metis less_irrefl real_sqrt_eq_zero_cancel_iff)
    then show ?thesis unfolding r cos_arctan sin_arctan by simp
  qed
  consider "0 < x" | "x < 0" | "x = 0" by linarith
  then show ?thesis
  proof cases
    case 1
    then show ?thesis using * by (simp add: atan2_def)
  next
    case 2
    then show ?thesis using * by (auto simp: atan2_def cos_add sin_add cos_diff sin_diff)
  next
    case 3
    then show ?thesis by (auto simp: atan2_def)
  qed
qed

lemma turn: "cos (to_radians (d - 360 * of_int k)) = cos (to_radians d)" "sin (to_radians (d - 360 * of_int k)) = sin (to_radians d)"
proof -
  have "to_radians (d - 360 * of_int k) = to_radians d - 2 * pi * of_int k" by (simp add: to_radians_def field_simps)
  then show "cos (to_radians (d - 360 * of_int k)) = cos (to_radians d)" "sin (to_radians (d - 360 * of_int k)) = sin (to_radians d)"
    by (simp_all add: cos_diff sin_diff)
qed

lemma heading_angle: "cos (to_radians (heading_deg c)) = cos (atan2 (lc_sum_sin c) (lc_sum_cos c))"
    "sin (to_radians (heading_deg c)) = sin (atan2 (lc_sum_sin c) (lc_sum_cos c))"
proof -
  let ?a = "atan2 (lc_sum_sin c) (lc_sum_cos c)"
  have h: "heading_deg c = to_degrees ?a - 360 * of_int (trunc_real ((to_degrees ?a + 360) / 360) - 1)"
    by (simp add: heading_deg_def frem_def algebra_simps)
  have "to_radians (to_degrees ?a) = ?a" by (simp add: to_radians_def to_degrees_def)
  then show "cos (to_radians (heading_deg c)) = cos ?a" "sin (to_radians (heading_deg c)) = sin ?a" unfolding h turn by simp_all
qed

lemma as_i64_small: "0 \<le> x \<Longrightarrow> x < 2 ^ 63 \<Longrightarrow> as_i64 x = x"
  by (simp add: as_i64_def sint_sbintrunc' signed_take_bit_int_eq_self)

lemma lane_exact:
  assumes "0 < lc_passes c" "int (lc_passes c) < 2 ^ 63"
  shows "lane_of_row (lane_row_of c) = c"
proof -
  have "real (lc_passes c) \<noteq> 0" using assms(1) by simp
  then show ?thesis
    using assms atan2_polar[of "lc_sum_sin c" "lc_sum_cos c"]
    by (simp add: lane_of_row_def lane_row_of_def as_i64_small Let_def directionality_def mean_speed_def heading_angle)
qed

section \<open>Spread\<close>

lemma spread_nonneg: "0 \<le> spread_m c"
  unfolding spread_m_def Let_def
  by (cases "ce_n c < 2") (simp_all only: if_True if_False order_refl real_sqrt_ge_zero add_nonneg_nonneg zero_le_square)

lemma spread_back:
  assumes "0 \<le> s" "2 \<le> ce_n c" "1 / 10 ^ 6 \<le> \<bar>cos (to_radians (ce_lat c))\<bar>"
    and "ce_var_lat c = (s / sqrt 2 / 111320) ^ 2" "ce_var_lon c = (s / sqrt 2 / (111320 * \<bar>cos (to_radians (ce_lat c))\<bar>)) ^ 2"
  shows "spread_m c = s"
proof -
  let ?co = "cos (to_radians (ce_lat c))"
  have "(0 :: real) < 1 / 10 ^ 6" by simp
  then have "0 < \<bar>?co\<bar>" using assms(3) by linarith
  then have "?co \<noteq> 0" by auto
  have "sqrt (ce_var_lat c) * 111320 = s / sqrt 2" using assms(1,4) by (simp add: real_sqrt_abs)
  moreover have "(sqrt (ce_var_lon c) * 111320 * ?co) * (sqrt (ce_var_lon c) * 111320 * ?co) = s / sqrt 2 * (s / sqrt 2)"
  proof -
    have "sqrt (ce_var_lon c) = s / sqrt 2 / (111320 * \<bar>?co\<bar>)" unfolding assms(5) using assms(1) by simp
    then have "sqrt (ce_var_lon c) * 111320 * ?co = s / sqrt 2 * (?co / \<bar>?co\<bar>)" by simp
    moreover have "?co / \<bar>?co\<bar> * (?co / \<bar>?co\<bar>) = 1" using \<open>?co \<noteq> 0\<close> by (simp add: abs_if)
    ultimately show ?thesis by (metis mult.assoc mult.commute mult_1)
  qed
  ultimately have "spread_m c = sqrt (s / sqrt 2 * (s / sqrt 2) + s / sqrt 2 * (s / sqrt 2))" using assms(2) unfolding spread_m_def Let_def
    by (simp only: not_less[symmetric] if_False)
  also have "s / sqrt 2 * (s / sqrt 2) + s / sqrt 2 * (s / sqrt 2) = s * s" by (simp add: field_simps)
  finally show ?thesis using assms(1) by simp
qed

lemma point_back:
  fixes ql cwp topos c
  assumes "int (ce_n c) < 2 ^ 31" "int (ce_obs c) < 2 ^ 63" "1 / 10 ^ 6 \<le> \<bar>cos (to_radians (ce_lat c))\<bar>"
    and "\<not> is_crane_code topos \<or> Option.bind (cwp topos) crane_wp_centroid = None"
  defines "c' \<equiv> centroid_of_row (point_row_of ql cwp topos c)"
  shows "ce_lat c' = ce_lat c \<and> ce_lon c' = ce_lon c \<and> ce_n c' = ce_n c \<and> ce_obs c' = ce_obs c \<and> spread_m c' = spread_m c"
proof -
  have row: "point_row_of ql cwp topos c = \<lparr>lp_is_crane = is_crane_code topos, lp_lat = ce_lat c, lp_lon = ce_lon c, lp_n = int (ce_n c), lp_obs = int (ce_obs c),
      lp_spread_m = Some (spread_m c)\<rparr>"
    using assms(1,2,4) by (auto simp: point_row_of_def Let_def as_i32_small as_i64_small)
  have c': "ce_lat c' = ce_lat c" "ce_lon c' = ce_lon c" "ce_n c' = ce_n c" "ce_obs c' = ce_obs c"
    "ce_var_lat c' = (spread_m c / sqrt 2 / 111320) ^ 2" "ce_var_lon c' = (spread_m c / sqrt 2 / (111320 * \<bar>cos (to_radians (ce_lat c))\<bar>)) ^ 2"
    using assms(3) by (simp_all add: c'_def row centroid_of_row_def Let_def max_absorb1)
  have "spread_m c' = spread_m c"
  proof (cases "2 \<le> ce_n c")
    case True
    then show ?thesis using spread_back[of "spread_m c" c'] c' spread_nonneg assms(3) by simp
  next
    case False
    then show ?thesis using c'(3) by (simp add: spread_m_def)
  qed
  then show ?thesis using c' by simp
qed

section \<open>Rounds\<close>

lemma save_points_other: "topos \<notin> fst ` set cs \<Longrightarrow> save_points ok ql cwp cs tbl topos = tbl topos"
  by (induction ok ql cwp cs tbl rule: save_points.induct) auto

lemma save_points_cases:
  assumes "distinct (map fst cs)" "(topos, c) \<in> set cs"
  shows "save_points ok ql cwp cs tbl topos \<in> {tbl topos, Some (point_row_of ql cwp topos c)}
    \<and> ((\<forall>k. ok k) \<and> ce_obs c \<noteq> 0 \<longrightarrow> save_points ok ql cwp cs tbl topos = Some (point_row_of ql cwp topos c))"
  using assms
proof (induction ok ql cwp cs tbl rule: save_points.induct)
  case (2 ok ql cwp t0 c0 cs tbl)
  show ?case
  proof (cases "topos = t0")
    case True
    then have "c0 = c" "topos \<notin> fst ` set cs" using 2(3,4) by (force simp: image_iff)+
    then show ?thesis using True by (auto simp: save_points_other)
  next
    case False
    then show ?thesis using 2 by (auto simp: fun_upd_def)
  qed
qed simp

lemma save_lanes_other: "k \<notin> fst ` set cs \<Longrightarrow> save_lanes ok cs tbl k = tbl k"
  by (induction ok cs tbl rule: save_lanes.induct) auto

lemma save_lanes_cases:
  assumes "distinct (map fst cs)" "(k, c) \<in> set cs"
  shows "save_lanes ok cs tbl k \<in> {tbl k, Some (lane_row_of c)}
    \<and> ((\<forall>k. ok k) \<and> 3 \<le> lc_passes c \<longrightarrow> save_lanes ok cs tbl k = Some (lane_row_of c))"
  using assms
proof (induction ok cs tbl rule: save_lanes.induct)
  case (2 ok k0 c0 cs tbl)
  show ?case
  proof (cases "k = k0")
    case True
    then have "c0 = c" "k \<notin> fst ` set cs" using 2(3,4) by (force simp: image_iff)+
    then show ?thesis using True by (cases k0) (auto simp: save_lanes_other)
  next
    case False
    then show ?thesis using 2 by (cases k0) (auto simp: fun_upd_def)
  qed
qed simp

text \<open>
  C21. What was learned survives a restart. After a round the database accepts, a process that starts again has every lane with three passes exactly
  as it was, and every point with an observation at its place, with its counts and its spread; a crane's point that has a work point is at the
  work point on the quay line. When the database refuses some write, a point or a lane is either that of this round or that of the round before: none is lost.
\<close>

theorem learning_survives_restart:
  fixes points lanes lm db
  assumes "distinct (map fst points)" "distinct (map fst lanes)"
  defines "lm' \<equiv> \<lambda>okp okl. boot (persist okp okl points lanes lm db) live_new"
  shows "(\<forall>(k, c) \<in> set lanes. 3 \<le> lc_passes c \<and> int (lc_passes c) < 2 ^ 63 \<longrightarrow> lm_lanes (lm' (\<lambda>_. True) (\<lambda>_. True)) k = Some c)
    \<and> (\<forall>(topos, c) \<in> set points. ce_obs c \<noteq> 0 \<and> int (ce_n c) < 2 ^ 31 \<and> int (ce_obs c) < 2 ^ 63 \<and> 1 / 10 ^ 6 \<le> \<bar>cos (to_radians (ce_lat c))\<bar>
        \<and> (is_crane_code topos \<longrightarrow> Option.bind (lm_crane_wp lm topos) crane_wp_centroid = None) \<longrightarrow>
        (\<exists>c'. lm_centroids (lm' (\<lambda>_. True) (\<lambda>_. True)) topos = Some c' \<and> ce_lat c' = ce_lat c \<and> ce_lon c' = ce_lon c \<and> ce_n c' = ce_n c
           \<and> ce_obs c' = ce_obs c \<and> spread_m c' = spread_m c))
    \<and> (\<forall>okp okl topos. ld_points db topos \<noteq> None \<longrightarrow> lm_centroids (lm' okp okl) topos \<noteq> None)
    \<and> (\<forall>okp okl k. ld_lanes db k \<noteq> None \<longrightarrow> lm_lanes (lm' okp okl) k \<noteq> None)"
proof -
  have p: "lm_centroids (lm' okp okl) topos = map_option centroid_of_row (save_points okp (lm_quay_line lm) (lm_crane_wp lm) points (ld_points db) topos)" for okp okl topos
    by (simp add: lm'_def boot_def persist_def load_centroids_def live_new_def split: option.split)
  have l: "lm_lanes (lm' okp okl) k = map_option lane_of_row (save_lanes okl lanes (ld_lanes db) k)" for okp okl k
    by (simp add: lm'_def boot_def persist_def load_lanes_def live_new_def split: option.split)
  have "lm_lanes (lm' (\<lambda>_. True) (\<lambda>_. True)) k = Some c" if "(k, c) \<in> set lanes" "3 \<le> lc_passes c" "int (lc_passes c) < 2 ^ 63" for k c
    using save_lanes_cases[OF assms(2) that(1), of "\<lambda>_. True" "ld_lanes db"] that(2,3) lane_exact[of c] by (simp add: l)
  moreover have "\<exists>c'. lm_centroids (lm' (\<lambda>_. True) (\<lambda>_. True)) topos = Some c' \<and> ce_lat c' = ce_lat c \<and> ce_lon c' = ce_lon c \<and> ce_n c' = ce_n c
      \<and> ce_obs c' = ce_obs c \<and> spread_m c' = spread_m c"
    if "(topos, c) \<in> set points" "ce_obs c \<noteq> 0" "int (ce_n c) < 2 ^ 31" "int (ce_obs c) < 2 ^ 63" "1 / 10 ^ 6 \<le> \<bar>cos (to_radians (ce_lat c))\<bar>"
      "is_crane_code topos \<longrightarrow> Option.bind (lm_crane_wp lm topos) crane_wp_centroid = None" for topos c
  proof -
    have "lm_centroids (lm' (\<lambda>_. True) (\<lambda>_. True)) topos = Some (centroid_of_row (point_row_of (lm_quay_line lm) (lm_crane_wp lm) topos c))"
      using save_points_cases[OF assms(1) that(1), of "\<lambda>_. True" "lm_quay_line lm" "lm_crane_wp lm" "ld_points db"] that(2) by (simp add: p)
    moreover have "\<not> is_crane_code topos \<or> Option.bind (lm_crane_wp lm topos) crane_wp_centroid = None" using that(6) by simp
    ultimately show ?thesis using point_back[OF that(3-5), of topos "lm_crane_wp lm" "lm_quay_line lm"] by simp
  qed
  moreover have "lm_centroids (lm' okp okl) topos \<noteq> None" if "ld_points db topos \<noteq> None" for okp okl topos
  proof (cases "topos \<in> fst ` set points")
    case True
    then obtain c where "(topos, c) \<in> set points" by force
    then show ?thesis using save_points_cases[OF assms(1), of topos c okp "lm_quay_line lm" "lm_crane_wp lm" "ld_points db"] that by (auto simp: p)
  qed (use that save_points_other[of topos points] in \<open>simp add: p\<close>)
  moreover have "lm_lanes (lm' okp okl) k \<noteq> None" if "ld_lanes db k \<noteq> None" for okp okl k
  proof (cases "k \<in> fst ` set lanes")
    case True
    then obtain c where "(k, c) \<in> set lanes" by force
    then show ?thesis using save_lanes_cases[OF assms(2), of k c okl "ld_lanes db"] that by (auto simp: l)
  qed (use that save_lanes_other[of k lanes] in \<open>simp add: l\<close>)
  ultimately show ?thesis by blast
qed

theorem learning_survives_restart_witness:
  "lm_lanes (boot (persist (\<lambda>_. True) (\<lambda>_. True) [] [((7, 8), \<lparr>lc_passes = 4, lc_sum_sin = 2, lc_sum_cos = 3, lc_sum_speed = 80\<rparr>)] live_new
     \<lparr>ld_points = Map.empty, ld_lanes = Map.empty\<rparr>) live_new) (7, 8) = Some \<lparr>lc_passes = 4, lc_sum_sin = 2, lc_sum_cos = 3, lc_sum_speed = 80\<rparr>"
  using learning_survives_restart[of "[]" "[((7, 8), \<lparr>lc_passes = 4, lc_sum_sin = 2, lc_sum_cos = 3, lc_sum_speed = 80\<rparr>)]" live_new
    "\<lparr>ld_points = Map.empty, ld_lanes = Map.empty\<rparr>"] by simp

section \<open>Density\<close>

definition sampled :: "int \<Rightarrow> pos \<Rightarrow> bool" where
  "sampled now p \<longleftrightarrow> f_cls p = ''TT'' \<and> tdiv (now - f_last_seen p) 1000 \<le> STALE_AFTER_S"

lemma sample_truck_count:
  "sample_truck now p counts k = counts k + (if sampled now p \<and> k \<in> (\<lambda>m. density_cell m p) ` set density_sizes then 1 else 0)"
  by (auto simp: sample_truck_def sampled_def density_sizes_def count_cell_def density_cell_def Let_def)

text \<open>
  The density counts trucks: the number in a cell is that of the trucks heard in the last two minutes that lie in the cell, so that every such truck is
  counted once for every size of the grid.
\<close>

theorem density_counts_trucks:
  "sample_density now ps k = length (filter (\<lambda>p. sampled now p \<and> (\<exists>m \<in> set density_sizes. density_cell m p = k)) ps)"
proof -
  have "fold (sample_truck now) ps counts k = counts k + length (filter (\<lambda>p. sampled now p \<and> (\<exists>m \<in> set density_sizes. density_cell m p = k)) ps)" for counts
    by (induction ps arbitrary: counts) (auto simp: sample_truck_count)
  then show ?thesis by (simp add: sample_density_def)
qed

end
