(* ===== verification/StowPlan.thy ===== *)
theory StowPlan
  imports PoolTick
begin

text \<open>
  The mirror of the stow plan (\<^verbatim>\<open>src/crates/extractor/src/stowplan.rs\<close> and the three queries \<^verbatim>\<open>src/crates/extractor/sql/stowplan*.sql\<close>): the snapshot that
  replaces the mirror (\<^verbatim>\<open>src_stowplan_snapshot\<close>), the delta that merges what changed since the watermark (\<^verbatim>\<open>src_stowplan_delta\<close>), and the
  hourly reconciliation (\<^verbatim>\<open>reconcile_stowplan\<close>).

  The source table is a list of rows; a tick that cannot read it gets an error. Tables are lists of rows, a transaction that the database refuses leaves
  them as they were. The texts of the time stamps are written and read by functions that are parameters. The column with the time of the write is left out.
\<close>

section \<open>The source and its queries\<close>

record ship_row =
  sh_vessel :: string
  sh_voyage :: string
  sh_queuename :: "string option"
  sh_disload :: "string option"
  sh_contno :: "string option"
  sh_planseq :: "int option"
  sh_planst :: string
  sh_compdate :: "string option"
  sh_upd :: int

type_synonym voyage = "string \<times> string"

definition sh_voy :: "ship_row \<Rightarrow> voyage" where
  "sh_voy s = (sh_vessel s, sh_voyage s)"

record plan_fetch =
  pf_vessel :: string
  pf_voyage :: string
  pf_queuename :: "string option"
  pf_disload :: "string option"
  pf_contno :: "string option"
  pf_planseq :: "int option"

record plan_delta = plan_fetch +
  pd_compdate :: "string option"
  pd_upd :: "string option"

text \<open>How the two systems write and read a time stamp.\<close>

record calendar =
  to_char :: "int \<Rightarrow> string"
  of_text :: "string \<Rightarrow> int option"

definition planned :: "ship_row \<Rightarrow> bool" where
  "planned s \<longleftrightarrow> sh_disload s \<in> {Some ''D'', Some ''L''} \<and> sh_planst s = ''P''"

definition sql_stowplan :: "voyage list \<Rightarrow> ship_row list \<Rightarrow> plan_fetch list" where
  "sql_stowplan vs ship =
     map (\<lambda>s. \<lparr>pf_vessel = sh_vessel s, pf_voyage = sh_voyage s, pf_queuename = sh_queuename s, pf_disload = sh_disload s, pf_contno = sh_contno s, pf_planseq = sh_planseq s\<rparr>)
       (filter (\<lambda>s. planned s \<and> sh_compdate s = None \<and> sh_voy s \<in> set vs) ship)"

definition delta_row :: "calendar \<Rightarrow> ship_row \<Rightarrow> plan_delta" where
  "delta_row cal s =
     \<lparr>pf_vessel = sh_vessel s, pf_voyage = sh_voyage s, pf_queuename = sh_queuename s, pf_disload = sh_disload s, pf_contno = sh_contno s, pf_planseq = sh_planseq s,
      pd_compdate = sh_compdate s, pd_upd = Some (to_char cal (sh_upd s))\<rparr>"

definition sql_stowplan_delta :: "calendar \<Rightarrow> int \<Rightarrow> voyage list \<Rightarrow> ship_row list \<Rightarrow> plan_delta list" where
  "sql_stowplan_delta cal wm vs ship = map (delta_row cal) (filter (\<lambda>s. planned s \<and> wm \<le> sh_upd s \<and> sh_voy s \<in> set vs) ship)"

definition sql_stowplan_seed :: "calendar \<Rightarrow> voyage list \<Rightarrow> ship_row list \<Rightarrow> plan_delta list" where
  "sql_stowplan_seed cal vs ship = map (delta_row cal) (filter (\<lambda>s. planned s \<and> sh_compdate s = None \<and> sh_voy s \<in> set vs) ship)"

section \<open>The mirror\<close>

record mirror_row =
  ms_vessel :: string
  ms_voyage :: string
  ms_queuename :: string
  ms_disload :: "string option"
  ms_contno :: string
  ms_planseq :: "int option"

type_synonym plan_key = "string \<times> string \<times> string \<times> string option"

definition ms_key :: "mirror_row \<Rightarrow> plan_key" where
  "ms_key m = (ms_vessel m, ms_voyage m, ms_contno m, ms_disload m)"

definition ms_voy :: "mirror_row \<Rightarrow> voyage" where
  "ms_voy m = (ms_vessel m, ms_voyage m)"

text \<open>The unique key has a column that may be null; a null conflicts with nothing.\<close>

definition put_plan :: "mirror_row \<Rightarrow> mirror_row list \<Rightarrow> mirror_row list" where
  "put_plan m tbl = (if ms_disload m = None then tbl @ [m] else upsert ms_key m tbl)"

record stow_db =
  sd_workqueue :: "queue_row list"
  sd_plan :: "mirror_row list"
  sd_marks :: "(date \<times> string) list"

definition MAX_VOYAGES :: nat where "MAX_VOYAGES = 40"
definition WM_FLOOR :: string where "WM_FLOOR = ''19700101000000''"
definition SAFETY_LAG_S :: int where "SAFETY_LAG_S = 120"

definition queue_voy :: "queue_row \<Rightarrow> voyage option" where
  "queue_voy q = map_option (\<lambda>y. (qr_vessel q, y)) (qr_voyage q)"

definition active_voyages :: "queue_row list \<Rightarrow> voyage list" where
  "active_voyages qs =
     (let working = List.map_filter queue_voy (filter (\<lambda>q. is_some_and (qr_comp q) (\<lambda>c. c > 0)) qs);
          live = List.map_filter queue_voy (filter (\<lambda>q. qr_qc q \<noteq> [] \<and> is_some_and (qr_voyage q) (\<lambda>y. y \<noteq> [])
            \<and> (case (qr_total q, qr_comp q) of (Some t, Some c) \<Rightarrow> t - c > 0 | _ \<Rightarrow> False)) qs)
      in sort (remdups (filter (\<lambda>v. v \<in> set working) live)))"

definition used_voyages :: "stow_db \<Rightarrow> voyage list" where
  "used_voyages db = take MAX_VOYAGES (active_voyages (sd_workqueue db))"

section \<open>Snapshot\<close>

definition kept_plan :: "plan_fetch \<Rightarrow> mirror_row option" where
  "kept_plan r = (case (pf_queuename r, pf_contno r) of
     (Some q, Some c) \<Rightarrow> if q = [] \<or> c = [] then None
       else Some \<lparr>ms_vessel = pf_vessel r, ms_voyage = pf_voyage r, ms_queuename = q, ms_disload = pf_disload r, ms_contno = c, ms_planseq = map_option as_i32 (pf_planseq r)\<rparr>
   | _ \<Rightarrow> None)"

definition land_plan :: "plan_fetch list \<Rightarrow> mirror_row list" where
  "land_plan rows = fold put_plan (List.map_filter kept_plan rows) []"

definition src_stowplan_snapshot :: "bool \<Rightarrow> string + ship_row list \<Rightarrow> stow_db \<Rightarrow> (string + int) \<times> stow_db" where
  "src_stowplan_snapshot commit_ok src db =
     (if active_voyages (sd_workqueue db) = [] then (Inr 0, db)
      else (case src of
          Inl e \<Rightarrow> (Inl e, db)
        | Inr ship \<Rightarrow>
            let rows = sql_stowplan (used_voyages db) ship in
            if commit_ok then (Inr (int (length (List.map_filter kept_plan rows))), db\<lparr>sd_plan := land_plan rows\<rparr>)
            else (Inl ''insert live_stow_plan'', db)))"

section \<open>Delta\<close>

definition well_formed :: "string \<Rightarrow> bool" where
  "well_formed u \<longleftrightarrow> length u = 14 \<and> list_all is_digit u"

definition newest :: "string option \<Rightarrow> string option \<Rightarrow> string option" where
  "newest upd mx = (case upd of
     Some u \<Rightarrow> if well_formed u \<and> (case mx of None \<Rightarrow> True | Some m \<Rightarrow> m < u) then Some u else mx
   | None \<Rightarrow> mx)"

definition box_of :: "plan_delta \<Rightarrow> string option" where
  "box_of r = (case pf_contno r of Some c \<Rightarrow> if trim c = [] then None else Some (trim c) | None \<Rightarrow> None)"

definition completed :: "plan_delta \<Rightarrow> bool" where
  "completed r \<longleftrightarrow> is_some_and (pd_compdate r) (\<lambda>s. trim s \<noteq> [])"

definition merge_row :: "plan_delta \<Rightarrow> mirror_row list \<Rightarrow> mirror_row list" where
  "merge_row r tbl = (case box_of r of
     None \<Rightarrow> tbl
   | Some c \<Rightarrow>
       if completed r then filter (\<lambda>m. ms_key m \<noteq> (pf_vessel r, pf_voyage r, c, pf_disload r)) tbl
       else (case pf_queuename r of
           Some q \<Rightarrow> if q = [] then tbl
             else put_plan \<lparr>ms_vessel = pf_vessel r, ms_voyage = pf_voyage r, ms_queuename = q, ms_disload = pf_disload r, ms_contno = c,
                 ms_planseq = map_option as_i32 (pf_planseq r)\<rparr> tbl
         | None \<Rightarrow> tbl))"

fun max_text :: "string list \<Rightarrow> string option" where
  "max_text [] = None"
| "max_text (x # xs) = Some (case max_text xs of None \<Rightarrow> x | Some y \<Rightarrow> max x y)"

definition watermark :: "stow_db \<Rightarrow> string option" where
  "watermark db = max_text (map snd (sd_marks db))"

definition put_mark :: "date \<Rightarrow> string \<Rightarrow> (date \<times> string) list \<Rightarrow> (date \<times> string) list" where
  "put_mark d new ms = (case map_of ms d of
     Some old \<Rightarrow> AList.update d (max old new) ms
   | None \<Rightarrow> AList.update d new ms)"

definition lagged :: "calendar \<Rightarrow> string \<Rightarrow> string" where
  "lagged cal mx = (case of_text cal mx of Some t \<Rightarrow> to_char cal (t - SAFETY_LAG_S) | None \<Rightarrow> mx)"

definition seed_voyages :: "stow_db \<Rightarrow> voyage list" where
  "seed_voyages db = (if watermark db = None then [] else filter (\<lambda>v. v \<notin> ms_voy ` set (sd_plan db)) (used_voyages db))"

definition delta_rows :: "calendar \<Rightarrow> int \<Rightarrow> stow_db \<Rightarrow> ship_row list \<Rightarrow> plan_delta list" where
  "delta_rows cal wm db ship = sql_stowplan_delta cal wm (used_voyages db) ship @ sql_stowplan_seed cal (seed_voyages db) ship"

definition merge_plan :: "stow_db \<Rightarrow> plan_delta list \<Rightarrow> mirror_row list" where
  "merge_plan db rows = fold merge_row rows
     (if watermark db = None then filter (\<lambda>m. ms_voy m \<notin> set (used_voyages db)) (sd_plan db) else sd_plan db)"

definition src_stowplan_delta :: "calendar \<Rightarrow> bool \<Rightarrow> date \<Rightarrow> string + ship_row list \<Rightarrow> stow_db \<Rightarrow> (string + int) \<times> stow_db" where
  "src_stowplan_delta cal commit_ok d src db =
     (if active_voyages (sd_workqueue db) = [] then (Inr 0, db)
      else (case (of_text cal (case watermark db of Some w \<Rightarrow> w | None \<Rightarrow> WM_FLOOR), src) of
          (_, Inl e) \<Rightarrow> (Inl e, db)
        | (None, Inr _) \<Rightarrow> (Inl ''the watermark is no date'', db)
        | (Some wm, Inr ship) \<Rightarrow>
            let rows = delta_rows cal wm db ship; mx = fold newest (map pd_upd rows) None in
            if commit_ok
            then (Inr (int (length rows)),
                  db\<lparr>sd_plan := merge_plan db rows, sd_marks := (case mx of Some m \<Rightarrow> put_mark d (lagged cal m) (sd_marks db) | None \<Rightarrow> sd_marks db)\<rparr>)
            else (Inl ''upsert live_stow_plan delta'', db)))"

section \<open>Reconciliation\<close>

definition truth_map :: "plan_fetch list \<Rightarrow> (plan_key \<times> int option) list" where
  "truth_map rows = fold (\<lambda>m. AList.update (ms_key m) (ms_planseq m)) (List.map_filter kept_plan rows) []"

definition drift :: "(plan_key \<times> int option) list \<Rightarrow> mirror_row list \<Rightarrow> nat" where
  "drift truth mirror = length (filter (\<lambda>m. map_of truth (ms_key m) \<noteq> Some (ms_planseq m)) mirror)
     + length (filter (\<lambda>k. k \<notin> ms_key ` set mirror) (map fst truth))"

text \<open>The result is the number of rows kept and, for the log, the drift.\<close>

definition reconcile_stowplan :: "bool \<Rightarrow> string + ship_row list \<Rightarrow> stow_db \<Rightarrow> (string + int \<times> nat) \<times> stow_db" where
  "reconcile_stowplan commit_ok src db =
     (if active_voyages (sd_workqueue db) = [] then (Inr (0, 0), db)
      else (case src of
          Inl e \<Rightarrow> (Inl e, db)
        | Inr ship \<Rightarrow>
            let truth = sql_stowplan (used_voyages db) ship;
                n = drift (truth_map truth) (filter (\<lambda>m. ms_voy m \<in> set (used_voyages db)) (sd_plan db)) in
            if commit_ok then (Inr (int (length (List.map_filter kept_plan truth)), n), db\<lparr>sd_plan := land_plan truth\<rparr>)
            else (Inl ''insert live_stow_plan (recon)'', db)))"

definition tick_stowplan ::
  "db_faults \<Rightarrow> calendar \<Rightarrow> string option \<Rightarrow> int \<Rightarrow> date \<Rightarrow> string + ship_row list \<Rightarrow> stow_db \<times> run_db \<Rightarrow> (string + int) \<times> stow_db \<times> run_db" where
  "tick_stowplan f cal mode now d src s =
     (if mode = Some ''snapshot''
      then run_logged (ok_start f ''STOWPLAN'') (ok_finish f ''STOWPLAN'') now ''STOWPLAN'' d (src_stowplan_snapshot (ok_commit f ''STOWPLAN'') src) s
      else run_logged (ok_start f ''STOWPLAN_DELTA'') (ok_finish f ''STOWPLAN_DELTA'') now ''STOWPLAN_DELTA'' d
             (src_stowplan_delta cal (ok_commit f ''STOWPLAN_DELTA'') d src) s)"

end
