(* ===== verification/MoveStream.thy ===== *)
theory MoveStream
  imports StowPlan "HOL-Library.Sublist"
begin

text \<open>
  The incremental logs of completed work: quay moves (\<^verbatim>\<open>src/crates/extractor/src/qc_moves.rs\<close>), yard moves (\<^verbatim>\<open>rtg_moves.rs\<close>) and
  handovers (\<^verbatim>\<open>handover.rs\<close>). The three polls have one shape: read the watermark that is not in the future, fetch a page of rows from it on in the order of their
  keys, add the rows that are not in the log yet, and raise the watermark of the day to the newest key.

  A poll gets an error or the rows of the source table at that moment. A refused transaction changes nothing. Time stamps are written and read by functions
  that are parameters, as in the stow plan.
\<close>

section \<open>A poll\<close>

record 'l stream_db =
  sm_log :: "'l list"
  sm_marks :: "(date \<times> string) list"

definition read_mark :: "string \<Rightarrow> string \<Rightarrow> (date \<times> string) list \<Rightarrow> string" where
  "read_mark until start ms = (case max_text (filter (\<lambda>w. w \<le> until) (map snd ms)) of Some w \<Rightarrow> w | None \<Rightarrow> start)"

definition page :: "nat \<Rightarrow> ('r \<Rightarrow> string option) \<Rightarrow> ('r \<Rightarrow> bool) \<Rightarrow> string \<Rightarrow> string \<Rightarrow> 'r list \<Rightarrow> 'r list" where
  "page cap key sel seek until tbl =
     take cap (sort_key (\<lambda>r. the (key r)) (filter (\<lambda>r. sel r \<and> is_some_and (key r) (\<lambda>k. seek \<le> k \<and> k \<le> until)) tbl))"

definition high_water :: "nat \<Rightarrow> string \<Rightarrow> string option \<Rightarrow> string option" where
  "high_water width sq mx =
     (if length sq = width \<and> list_all is_digit sq \<and> (case mx of None \<Rightarrow> True | Some m \<Rightarrow> m < sq) then Some sq else mx)"

text \<open>A row is skipped when it cannot be landed, and adds nothing when its key is in the log; its stamp counts in either of the latter cases.\<close>

definition land_one :: "nat \<Rightarrow> ('r \<Rightarrow> ('l \<times> string) option) \<Rightarrow> ('l \<Rightarrow> 'k) \<Rightarrow> 'r \<Rightarrow> 'l list \<times> string option \<Rightarrow> 'l list \<times> string option" where
  "land_one width land pk r s = (case land r of
     None \<Rightarrow> s
   | Some (l, sq) \<Rightarrow> (if pk l \<in> pk ` set (fst s) then fst s else fst s @ [l], high_water width sq (snd s)))"

definition poll ::
  "nat \<Rightarrow> nat \<Rightarrow> (string \<Rightarrow> string) \<Rightarrow> ('r \<Rightarrow> string option) \<Rightarrow> ('r \<Rightarrow> bool) \<Rightarrow> ('r \<Rightarrow> ('l \<times> string) option) \<Rightarrow> ('l \<Rightarrow> 'k) \<Rightarrow> string \<Rightarrow> string \<Rightarrow> date
   \<Rightarrow> bool \<Rightarrow> string + 'r list \<Rightarrow> 'l stream_db \<Rightarrow> (string + int) \<times> 'l stream_db" where
  "poll cap width lag key sel land pk until start d commit_ok src db = (case src of
     Inl e \<Rightarrow> (Inl e, db)
   | Inr tbl \<Rightarrow>
       let rows = page cap key sel (lag (read_mark until start (sm_marks db))) until tbl;
           (new_log, mx) = fold (land_one width land pk) rows (sm_log db, None) in
       if commit_ok
       then (Inr (int (length rows)), db\<lparr>sm_log := new_log, sm_marks := (case mx of Some m \<Rightarrow> put_mark d m (sm_marks db) | None \<Rightarrow> sm_marks db)\<rparr>)
       else (Inl ''insert'', db))"

definition FETCH_CAP :: nat where "FETCH_CAP = 5000"
definition FETCH_CAP_LABEL :: nat where "FETCH_CAP_LABEL = 3000"

text \<open>Two minutes before the watermark.\<close>

definition seek_from :: "calendar \<Rightarrow> string \<Rightarrow> string" where
  "seek_from cal wm = (case of_text cal wm of Some t \<Rightarrow> to_char cal (t - 120) | None \<Rightarrow> wm)"

section \<open>Moves of machines\<close>

record mch_operation =
  op_machno :: "string option"
  op_contno :: "string option"
  op_seqno :: "string option"
  op_jobtype :: "string option"
  op_trk_id :: "string option"
  op_st_dt :: "string option"
  op_compdate :: "string option"
  op_comptime :: "string option"
  op_status :: "string option"
  op_queuename :: "string option"
  op_vessel :: "string option"
  op_voyage :: "string option"
  op_pos :: "string option list"
  op_iso :: "string option"

definition comp_dt :: "mch_operation \<Rightarrow> string" where
  "comp_dt r = opt_or [] (op_compdate r) @ opt_or [] (op_comptime r)"

definition has_comptime :: "mch_operation \<Rightarrow> bool" where
  "has_comptime r = is_some_and (op_comptime r) (\<lambda>t. 6 \<le> length t)"

text \<open>How the texts of a move are read: the local times, the dates, and the watermark with its safety lag.\<close>

record stream_cal =
  sc_cal :: calendar
  sc_naive :: "string \<Rightarrow> int option"
  sc_ymd :: "string \<Rightarrow> date option"

record move_log =
  ml_machno :: string
  ml_contno :: string
  ml_seqno :: string
  ml_jobtype :: "string option"
  ml_trk_id :: "string option"
  ml_st_ts :: "instant option"
  ml_comp_ts :: instant
  ml_business_date :: date
  ml_status :: "string option"
  ml_queuename :: "string option"
  ml_vessel :: "string option"
  ml_voyage :: "string option"
  ml_iso :: "string option"

record yard_log = move_log +
  yl_dur_s :: "int option"
  yl_pos :: "string option list"

definition ml_pk :: "'a move_log_scheme \<Rightarrow> string \<times> string \<times> string" where
  "ml_pk m = (ml_machno m, ml_contno m, ml_seqno m)"

definition business_date :: "stream_cal \<Rightarrow> date \<Rightarrow> string \<Rightarrow> date" where
  "business_date sc run_date dt = opt_or run_date (if length dt < 8 then None else sc_ymd sc (take 8 dt))"

text \<open>The first column of time is the dispatch of the truck for a quay move and the start of the work for a yard move.\<close>

definition land_move :: "stream_cal \<Rightarrow> date \<Rightarrow> mch_operation \<Rightarrow> (move_log \<times> string) option" where
  "land_move sc run_date r = (case (op_machno r, op_contno r, op_seqno r, parse_etw (sc_naive sc) (comp_dt r)) of
     (Some machno, Some contno, Some seqno, Some comp_ts) \<Rightarrow>
       Some (\<lparr>ml_machno = trim machno, ml_contno = trim (take 11 contno), ml_seqno = trim seqno, ml_jobtype = map_option trim (op_jobtype r), ml_trk_id = clean (op_trk_id r),
           ml_st_ts = Option.bind (op_st_dt r) (parse_etw (sc_naive sc)), ml_comp_ts = comp_ts, ml_business_date = business_date sc run_date (comp_dt r),
           ml_status = clean (op_status r), ml_queuename = clean (op_queuename r), ml_vessel = clean (op_vessel r), ml_voyage = clean (op_voyage r),
           ml_iso = clean (op_iso r)\<rparr>, trim seqno)
   | _ \<Rightarrow> None)"

definition move_dur :: "instant option \<Rightarrow> instant \<Rightarrow> int option" where
  "move_dur st comp_ts = (case st of
     None \<Rightarrow> None
   | Some t \<Rightarrow> let d = num_seconds (comp_ts - t) in if 0 \<le> d \<and> d \<le> 3600 then Some (as_i32 d) else None)"

definition land_yard_move :: "stream_cal \<Rightarrow> date \<Rightarrow> mch_operation \<Rightarrow> (yard_log \<times> string) option" where
  "land_yard_move sc run_date r =
     map_option (\<lambda>(l, sq). (move_log.extend l \<lparr>yl_dur_s = move_dur (ml_st_ts l) (ml_comp_ts l), yl_pos = map clean (op_pos r)\<rparr>, sq)) (land_move sc run_date r)"

definition is_quay_move :: "string list \<Rightarrow> mch_operation \<Rightarrow> bool" where
  "is_quay_move qcs r \<longleftrightarrow> is_some_and (op_machno r) (\<lambda>x. x \<in> set qcs) \<and> has_comptime r"

definition is_yard_move :: "mch_operation \<Rightarrow> bool" where
  "is_yard_move r \<longleftrightarrow> is_some_and (op_machno r) (\<lambda>x. prefix ''RTG'' x \<or> prefix ''ES'' x \<or> prefix ''RS'' x) \<and> has_comptime r"

definition day_start :: "string \<Rightarrow> string" where
  "day_start until = take 8 until @ ''000000''"

text \<open>The cranes are the codes of the machine master, read in the same query; \<open>now\<close> is the local time of the terminal and \<open>d\<close> its date.\<close>

definition tick_qc_moves ::
  "db_faults \<Rightarrow> stream_cal \<Rightarrow> int \<Rightarrow> date \<Rightarrow> string + string list \<times> mch_operation list \<Rightarrow> move_log stream_db \<times> run_db \<Rightarrow> (string + int) \<times> move_log stream_db \<times> run_db" where
  "tick_qc_moves f sc now d src s =
     (let until = to_char (sc_cal sc) now; qcs = (case src of Inr (qcs, _) \<Rightarrow> qcs | Inl _ \<Rightarrow> [])
      in run_logged (ok_start f ''QC_MOVE'') (ok_finish f ''QC_MOVE'') now ''QC_MOVE'' d
           (poll FETCH_CAP 14 (seek_from (sc_cal sc)) op_seqno (is_quay_move qcs) (land_move sc d) ml_pk until (day_start until) d (ok_commit f ''QC_MOVE'')
             (map_sum id snd src)) s)"

definition tick_rtg_moves ::
  "db_faults \<Rightarrow> stream_cal \<Rightarrow> int \<Rightarrow> date \<Rightarrow> string + mch_operation list \<Rightarrow> yard_log stream_db \<times> run_db \<Rightarrow> (string + int) \<times> yard_log stream_db \<times> run_db" where
  "tick_rtg_moves f sc now d src s =
     (let until = to_char (sc_cal sc) now
      in run_logged (ok_start f ''RTG_MOVE'') (ok_finish f ''RTG_MOVE'') now ''RTG_MOVE'' d
           (poll FETCH_CAP 14 (seek_from (sc_cal sc)) op_seqno is_yard_move (land_yard_move sc d) ml_pk until (day_start until) d (ok_commit f ''RTG_MOVE'') src) s)"

section \<open>Handovers\<close>

record job_history =
  jh_ytno :: "string option"
  jh_armgc :: "string option"
  jh_jobtype :: "string option"
  jh_jobstatus :: "string option"
  jh_contno :: "string option"
  jh_point :: "int option"
  jh_seqno :: "string option"
  jh_date :: "string option"
  jh_time :: "string option"
  jh_actv_dt :: "string option"
  jh_dis_dt :: "string option"
  jh_topos :: "string option"
  jh_vessel :: "string option"
  jh_voyage :: "string option"
  jh_trv_rng :: "real option"
  jh_un_trv_rng :: "real option"

text \<open>The concatenation of two texts is null when it is empty.\<close>

definition jh_evt :: "job_history \<Rightarrow> string option" where
  "jh_evt r = (let e = opt_or [] (jh_date r) @ opt_or [] (jh_time r) in if e = [] then None else Some e)"

record handover_label =
  hl_contno :: string
  hl_point :: int
  hl_seqno :: string
  hl_ytno :: "string option"
  hl_armgc :: "string option"
  hl_jobtype :: "string option"
  hl_topos :: "string option"
  hl_dis_ts :: "instant option"
  hl_actv_ts :: "instant option"
  hl_comp_ts :: instant
  hl_vessel :: "string option"
  hl_voyage :: "string option"
  hl_trv_rng :: "real option"
  hl_un_trv_rng :: "real option"

definition hl_pk :: "handover_label \<Rightarrow> string \<times> int \<times> string" where
  "hl_pk h = (hl_contno h, hl_point h, hl_seqno h)"

definition is_handover :: "job_history \<Rightarrow> bool" where
  "is_handover r \<longleftrightarrow> jh_jobstatus r = Some ''C'' \<and> jh_jobtype r \<in> {Some ''DS'', Some ''LD''}"

definition land_handover :: "stream_cal \<Rightarrow> job_history \<Rightarrow> (handover_label \<times> string) option" where
  "land_handover sc r = (case (jh_contno r, jh_point r, jh_seqno r, jh_evt r) of
     (Some contno, Some point, Some seqno, Some evt) \<Rightarrow>
       map_option (\<lambda>comp_ts.
         (\<lparr>hl_contno = trim contno, hl_point = point, hl_seqno = trim seqno, hl_ytno = map_option trim (jh_ytno r), hl_armgc = map_option trim (jh_armgc r),
           hl_jobtype = jh_jobtype r, hl_topos = map_option (\<lambda>t. trim (take 40 t)) (jh_topos r), hl_dis_ts = Option.bind (jh_dis_dt r) (parse_etw (sc_naive sc)),
           hl_actv_ts = Option.bind (jh_actv_dt r) (parse_etw (sc_naive sc)), hl_comp_ts = comp_ts, hl_vessel = clean (jh_vessel r), hl_voyage = clean (jh_voyage r),
           hl_trv_rng = jh_trv_rng r, hl_un_trv_rng = jh_un_trv_rng r\<rparr>, evt)) (parse_etw (sc_naive sc) evt)
   | _ \<Rightarrow> None)"

definition tick_handover ::
  "db_faults \<Rightarrow> stream_cal \<Rightarrow> int \<Rightarrow> date \<Rightarrow> string + job_history list \<Rightarrow> handover_label stream_db \<times> run_db \<Rightarrow> (string + int) \<times> handover_label stream_db \<times> run_db" where
  "tick_handover f sc now d src s =
     (let until = to_char (sc_cal sc) now @ ''999''
      in run_logged (ok_start f ''HANDOVER_LABEL'') (ok_finish f ''HANDOVER_LABEL'') now ''HANDOVER_LABEL'' d
           (poll FETCH_CAP_LABEL 17 (\<lambda>wm. wm) jh_evt is_handover (land_handover sc) hl_pk until (to_char (sc_cal sc) (now - 600)) d (ok_commit f ''HANDOVER_LABEL'') src) s)"

end
