(* ===== verification/StowFacts.thy ===== *)
theory StowFacts
  imports StowPlan TickFacts
begin

text \<open>
  The delta keeps the mirror equal to the source: what a tick lands is what a snapshot of the source would give, for every voyage that stays
  active, as long as a change becomes visible within the safety lag of its stamp; the watermark never goes back.
\<close>

section \<open>The source\<close>

definition sh_key :: "ship_row \<Rightarrow> plan_key" where
  "sh_key s = (sh_vessel s, sh_voyage s, the (sh_contno s), sh_disload s)"

definition mirror_of :: "ship_row \<Rightarrow> mirror_row" where
  "mirror_of s = \<lparr>ms_vessel = sh_vessel s, ms_voyage = sh_voyage s, ms_queuename = the (sh_queuename s), ms_disload = sh_disload s,
     ms_contno = the (sh_contno s), ms_planseq = map_option as_i32 (sh_planseq s)\<rparr>"

text \<open>A planned row names its box and its queue; a box is planned once per voyage and direction.\<close>

definition row_named :: "ship_row \<Rightarrow> bool" where
  "row_named s \<longleftrightarrow> (\<exists>c q. sh_contno s = Some c \<and> c \<noteq> [] \<and> trim c = c \<and> sh_queuename s = Some q \<and> q \<noteq> [])
     \<and> (\<forall>x. sh_compdate s = Some x \<longrightarrow> trim x \<noteq> [])"

definition ship_ok :: "ship_row list \<Rightarrow> bool" where
  "ship_ok ship \<longleftrightarrow> (\<forall>s \<in> set ship. planned s \<longrightarrow> row_named s)
     \<and> (\<forall>s \<in> set ship. \<forall>s' \<in> set ship. planned s \<and> planned s' \<and> sh_key s = sh_key s' \<longrightarrow> s = s')"

definition open_plan :: "ship_row list \<Rightarrow> voyage \<Rightarrow> mirror_row set" where
  "open_plan ship v = mirror_of ` {s \<in> set ship. planned s \<and> sh_compdate s = None \<and> sh_voy s = v}"

definition agrees :: "mirror_row list \<Rightarrow> ship_row list \<Rightarrow> voyage \<Rightarrow> bool" where
  "agrees tbl ship v \<longleftrightarrow> {m \<in> set tbl. ms_voy m = v} = open_plan ship v"

lemma mirror_keys: "ms_key (mirror_of s) = sh_key s" "ms_voy (mirror_of s) = sh_voy s"
  by (simp_all add: ms_key_def mirror_of_def sh_key_def ms_voy_def sh_voy_def)

lemma key_voy: "ms_key m = sh_key s \<Longrightarrow> ms_voy m = sh_voy s"
  by (simp add: ms_key_def sh_key_def ms_voy_def sh_voy_def)

section \<open>The merge\<close>

lemma put_named: "ms_disload m \<noteq> None \<Longrightarrow> put_plan m tbl = upsert ms_key m tbl"
  by (auto simp: put_plan_def)

lemma merge_named:
  assumes "planned s" "row_named s"
  shows "merge_row (delta_row cal s) tbl = (if sh_compdate s = None then upsert ms_key (mirror_of s) tbl else filter (\<lambda>m. ms_key m \<noteq> sh_key s) tbl)"
proof -
  obtain c q where c: "sh_contno s = Some c" "c \<noteq> []" "trim c = c" "sh_queuename s = Some q" "q \<noteq> []" using assms(2) by (auto simp: row_named_def)
  have "sh_disload s \<noteq> None" using assms(1) by (auto simp: planned_def)
  moreover have "completed (delta_row cal s) \<longleftrightarrow> sh_compdate s \<noteq> None"
    using assms(2) by (auto simp: completed_def delta_row_def row_named_def is_some_and_def split: option.splits)
  ultimately show ?thesis using c by (auto simp: merge_row_def box_of_def delta_row_def put_named mirror_of_def sh_key_def)
qed

lemma merge_effect:
  fixes cal ss tbl
  assumes "\<forall>s \<in> set ss. planned s \<and> row_named s" "\<forall>s \<in> set ss. \<forall>s' \<in> set ss. sh_key s = sh_key s' \<longrightarrow> s = s'" "distinct (map ms_key tbl)"
  defines "tbl' \<equiv> fold (\<lambda>s. merge_row (delta_row cal s)) ss tbl"
  shows "distinct (map ms_key tbl') \<and> (\<forall>m. m \<in> set tbl' \<longleftrightarrow> (\<exists>s \<in> set ss. sh_compdate s = None \<and> m = mirror_of s) \<or> (m \<in> set tbl \<and> ms_key m \<notin> sh_key ` set ss))"
  using assms(1,2) unfolding tbl'_def
proof (induction ss rule: rev_induct)
  case Nil
  then show ?case using assms(3) by simp
next
  case (snoc s ss)
  define t where "t = fold (\<lambda>s. merge_row (delta_row cal s)) ss tbl"
  have IH: "distinct (map ms_key t)" "\<And>m. m \<in> set t \<longleftrightarrow> (\<exists>s \<in> set ss. sh_compdate s = None \<and> m = mirror_of s) \<or> (m \<in> set tbl \<and> ms_key m \<notin> sh_key ` set ss)"
    using snoc unfolding t_def by auto
  have s: "planned s" "row_named s" using snoc.prems(1) by auto
  have same: "s' = s" if "s' \<in> set ss" "sh_key s' = sh_key s" for s' using snoc.prems(2) that by auto
  show ?case
  proof (cases "sh_compdate s = None")
    case True
    then have f: "fold (\<lambda>s. merge_row (delta_row cal s)) (ss @ [s]) tbl = upsert ms_key (mirror_of s) t" using merge_named[OF s] by (simp add: t_def)
    show ?thesis unfolding f using upsert_distinct[OF IH(1), of "mirror_of s"] upsert_last[OF IH(1), of _ "mirror_of s"] IH(2) True
      by (auto simp: mirror_keys dest: same)
  next
    case False
    then have f: "fold (\<lambda>s. merge_row (delta_row cal s)) (ss @ [s]) tbl = filter (\<lambda>m. ms_key m \<noteq> sh_key s) t" using merge_named[OF s] by (auto simp: t_def)
    show ?thesis unfolding f using IH False by (auto simp: mirror_keys distinct_map_filter dest: same)
  qed
qed

text \<open>The rows a tick reads, as rows of the source.\<close>

definition read_rows :: "int \<Rightarrow> stow_db \<Rightarrow> ship_row list \<Rightarrow> ship_row list" where
  "read_rows wm db ship = filter (\<lambda>s. planned s \<and> wm \<le> sh_upd s \<and> sh_voy s \<in> set (used_voyages db)) ship
     @ filter (\<lambda>s. planned s \<and> sh_compdate s = None \<and> sh_voy s \<in> set (seed_voyages db)) ship"

lemma delta_rows_read: "delta_rows cal wm db ship = map (delta_row cal) (read_rows wm db ship)"
  by (simp add: delta_rows_def read_rows_def sql_stowplan_delta_def sql_stowplan_seed_def)

definition cleared :: "stow_db \<Rightarrow> mirror_row list" where
  "cleared db = (if watermark db = None then filter (\<lambda>m. ms_voy m \<notin> set (used_voyages db)) (sd_plan db) else sd_plan db)"

lemma merge_plan_effect:
  fixes ship db cal wm
  assumes "ship_ok ship" "distinct (map ms_key (sd_plan db))"
  defines "tbl' \<equiv> merge_plan db (delta_rows cal wm db ship)"
  shows "distinct (map ms_key tbl') \<and> (\<forall>m. m \<in> set tbl' \<longleftrightarrow>
    (\<exists>s \<in> set (read_rows wm db ship). sh_compdate s = None \<and> m = mirror_of s) \<or> (m \<in> set (cleared db) \<and> ms_key m \<notin> sh_key ` set (read_rows wm db ship)))"
proof -
  have "distinct (map ms_key (cleared db))" using assms(2) by (simp add: cleared_def distinct_map_filter)
  moreover have "\<forall>s \<in> set (read_rows wm db ship). planned s \<and> row_named s" using assms(1) by (auto simp: read_rows_def ship_ok_def)
  moreover have "\<forall>s \<in> set (read_rows wm db ship). \<forall>s' \<in> set (read_rows wm db ship). sh_key s = sh_key s' \<longrightarrow> s = s'"
    using assms(1) unfolding read_rows_def ship_ok_def by auto
  moreover have "tbl' = fold (\<lambda>s. merge_row (delta_row cal s)) (read_rows wm db ship) (cleared db)"
    by (simp add: tbl'_def merge_plan_def delta_rows_read fold_map comp_def cleared_def)
  ultimately show ?thesis using merge_effect[of "read_rows wm db ship" "cleared db" cal] by simp
qed

section \<open>One tick\<close>

text \<open>
  What a tick may rely on for a voyage: it is new to the mirror, or the mirror had it as an earlier state of the source, since which no row went away and every
  new or changed row has a stamp that is not before the watermark.
\<close>

definition caught :: "int \<Rightarrow> mirror_row list \<Rightarrow> ship_row list \<Rightarrow> ship_row list \<Rightarrow> voyage \<Rightarrow> bool" where
  "caught wm tbl old new v \<longleftrightarrow> agrees tbl old v
     \<and> (\<forall>s \<in> set new. planned s \<and> sh_voy s = v \<longrightarrow> s \<in> set old \<or> wm \<le> sh_upd s)
     \<and> (\<forall>s \<in> set old. planned s \<and> sh_voy s = v \<longrightarrow> (\<exists>s' \<in> set new. planned s' \<and> sh_key s' = sh_key s))"

lemma delta_agrees_known:
  assumes "ship_ok old" "ship_ok new" "distinct (map ms_key (sd_plan db))" "caught wm (sd_plan db) old new v" "v \<in> set (used_voyages db)" "watermark db \<noteq> None"
  shows "agrees (merge_plan db (delta_rows cal wm db new)) new v"
proof -
  let ?rd = "set (read_rows wm db new)"
  note eff = merge_plan_effect[OF assms(2,3), of cal wm, THEN conjunct2, rule_format]
  have cl: "cleared db = sd_plan db" using assms(6) by (auto simp: cleared_def)
  have rd: "?rd \<subseteq> {s \<in> set new. planned s}" by (auto simp: read_rows_def)
  have old: "m \<in> set (sd_plan db) \<longleftrightarrow> m \<in> open_plan old v" if "ms_voy m = v" for m using assms(4) that by (auto simp: caught_def agrees_def)
  show ?thesis unfolding agrees_def
  proof (intro set_eqI iffI)
    fix m assume "m \<in> {m \<in> set (merge_plan db (delta_rows cal wm db new)). ms_voy m = v}"
    then have m: "m \<in> set (merge_plan db (delta_rows cal wm db new))" "ms_voy m = v" by auto
    from m(1) eff[of m] consider s where "s \<in> ?rd" "sh_compdate s = None" "m = mirror_of s" | "m \<in> set (sd_plan db)" "ms_key m \<notin> sh_key ` ?rd" by (auto simp: cl)
    then show "m \<in> open_plan new v"
    proof cases
      case 1
      then show ?thesis using rd m(2) by (auto simp: open_plan_def mirror_keys)
    next
      case 2
      then obtain s0 where s0: "s0 \<in> set old" "planned s0" "sh_voy s0 = v" "m = mirror_of s0" "sh_compdate s0 = None" using old[OF m(2)] by (auto simp: open_plan_def)
      then obtain s1 where s1: "s1 \<in> set new" "planned s1" "sh_key s1 = sh_key s0" using assms(4) by (auto simp: caught_def)
      have v: "sh_voy s1 = v" using key_voy[of "mirror_of s0" s1] s0(3) s1(3) by (simp add: mirror_keys)
      have "s1 \<notin> ?rd" using 2(2) s0(4) s1(3) by (metis image_eqI mirror_keys(1))
      then have "\<not> wm \<le> sh_upd s1" using s1 v assms(5) by (auto simp: read_rows_def)
      then have "s1 \<in> set old" using assms(4) s1 v by (auto simp: caught_def)
      then have "s1 = s0" using assms(1) s0 s1 unfolding ship_ok_def by blast
      then show ?thesis using s0 s1 by (auto simp: open_plan_def)
    qed
  next
    fix m assume "m \<in> open_plan new v"
    then obtain s where s: "s \<in> set new" "planned s" "sh_compdate s = None" "sh_voy s = v" "m = mirror_of s" by (auto simp: open_plan_def)
    have mv: "ms_voy m = v" using s by (simp add: mirror_keys)
    have "m \<in> set (merge_plan db (delta_rows cal wm db new))"
    proof (cases "s \<in> ?rd")
      case True
      then show ?thesis using eff[of m] s by blast
    next
      case False
      then have "\<not> wm \<le> sh_upd s" using s assms(5) by (auto simp: read_rows_def)
      then have "s \<in> set old" using assms(4) s by (auto simp: caught_def)
      then have "m \<in> set (sd_plan db)" using old[OF mv] s by (auto simp: open_plan_def)
      moreover have "ms_key m \<notin> sh_key ` ?rd"
      proof
        assume "ms_key m \<in> sh_key ` ?rd"
        then obtain s' where s': "s' \<in> ?rd" "sh_key s' = sh_key s" using s(5) by (auto simp: mirror_keys)
        then have "s' = s" using rd assms(2) s(1,2) unfolding ship_ok_def by blast
        then show False using s' False by blast
      qed
      ultimately show ?thesis using eff[of m] by (simp add: cl)
    qed
    then show "m \<in> {m \<in> set (merge_plan db (delta_rows cal wm db new)). ms_voy m = v}" using mv by simp
  qed
qed

lemma delta_agrees_new:
  assumes "ship_ok new" "distinct (map ms_key (sd_plan db))" "v \<in> set (used_voyages db)"
    and "if watermark db = None then \<forall>s \<in> set new. planned s \<longrightarrow> wm \<le> sh_upd s else v \<notin> ms_voy ` set (sd_plan db)"
  shows "agrees (merge_plan db (delta_rows cal wm db new)) new v"
proof -
  note eff = merge_plan_effect[OF assms(1,2), of cal wm, THEN conjunct2, rule_format]
  have none: "\<not> (m \<in> set (cleared db) \<and> ms_voy m = v)" for m using assms(3,4) by (auto simp: cleared_def split: if_splits)
  have "s \<in> set (read_rows wm db new)" if "s \<in> set new" "planned s" "sh_compdate s = None" "sh_voy s = v" for s
    using assms(3,4) that by (auto simp: read_rows_def seed_voyages_def split: if_splits)
  moreover have "s \<in> set new \<and> planned s" if "s \<in> set (read_rows wm db new)" for s using that by (auto simp: read_rows_def)
  ultimately show ?thesis unfolding agrees_def open_plan_def using eff none by (fastforce simp: mirror_keys)
qed

section \<open>Snapshots\<close>

lemma kept_named:
  assumes "planned s" "row_named s"
  shows "kept_plan \<lparr>pf_vessel = sh_vessel s, pf_voyage = sh_voyage s, pf_queuename = sh_queuename s, pf_disload = sh_disload s, pf_contno = sh_contno s, pf_planseq = sh_planseq s\<rparr> = Some (mirror_of s)"
  using assms by (auto simp: kept_plan_def row_named_def mirror_of_def)

lemma put_all:
  assumes "\<forall>m \<in> set ms. ms_disload m \<noteq> None" "\<forall>m \<in> set ms. \<forall>m' \<in> set ms. ms_key m = ms_key m' \<longrightarrow> m = m'"
  shows "distinct (map ms_key (fold put_plan ms [])) \<and> set (fold put_plan ms []) = set ms"
  using assms
proof (induction ms rule: rev_induct)
  case (snoc m ms)
  let ?t = "fold put_plan ms []"
  have IH: "distinct (map ms_key ?t)" "set ?t = set ms" using snoc by auto
  have f: "fold put_plan (ms @ [m]) [] = upsert ms_key m ?t" using snoc.prems(1) by (simp add: put_named)
  have "m' = m" if "m' \<in> set ms" "ms_key m' = ms_key m" for m' using snoc.prems(2) that by auto
  then show ?case unfolding f using upsert_distinct[OF IH(1), of m] upsert_last[OF IH(1), of _ m] IH(2) by auto
qed simp

lemma snapshot_agrees:
  assumes "ship_ok ship" "v \<in> set vs"
  shows "distinct (map ms_key (land_plan (sql_stowplan vs ship))) \<and> agrees (land_plan (sql_stowplan vs ship)) ship v"
proof -
  let ?ss = "filter (\<lambda>s. planned s \<and> sh_compdate s = None \<and> sh_voy s \<in> set vs) ship"
  have named: "\<forall>s \<in> set ?ss. planned s \<and> row_named s" using assms(1) by (auto simp: ship_ok_def)
  have keep: "List.map_filter kept_plan (map (\<lambda>s. \<lparr>pf_vessel = sh_vessel s, pf_voyage = sh_voyage s, pf_queuename = sh_queuename s, pf_disload = sh_disload s, pf_contno = sh_contno s, pf_planseq = sh_planseq s\<rparr>) ss) = map mirror_of ss"
    if "\<forall>s \<in> set ss. planned s \<and> row_named s" for ss
    using that by (induction ss) (simp_all add: List.map_filter_def kept_named)
  have l: "land_plan (sql_stowplan vs ship) = fold put_plan (map mirror_of ?ss) []" unfolding land_plan_def sql_stowplan_def keep[OF named] ..
  have "\<forall>m \<in> set (map mirror_of ?ss). ms_disload m \<noteq> None" by (auto simp: planned_def mirror_of_def)
  moreover have "\<forall>m \<in> set (map mirror_of ?ss). \<forall>m' \<in> set (map mirror_of ?ss). ms_key m = ms_key m' \<longrightarrow> m = m'"
  proof (intro ballI impI)
    fix m m' assume "m \<in> set (map mirror_of ?ss)" "m' \<in> set (map mirror_of ?ss)" and k: "ms_key m = ms_key m'"
    then obtain s s' where s: "s \<in> set ship" "planned s" "m = mirror_of s" and s': "s' \<in> set ship" "planned s'" "m' = mirror_of s'" by auto
    have "sh_key s = sh_key s'" using k s(3) s'(3) by (simp add: mirror_keys)
    then have "s = s'" using assms(1) s s' unfolding ship_ok_def by blast
    then show "m = m'" using s(3) s'(3) by simp
  qed
  ultimately have "distinct (map ms_key (land_plan (sql_stowplan vs ship))) \<and> set (land_plan (sql_stowplan vs ship)) = mirror_of ` set ?ss"
    using put_all[of "map mirror_of ?ss"] unfolding l by simp
  then show ?thesis using assms(2) by (auto simp: agrees_def open_plan_def mirror_keys)
qed

section \<open>The watermark\<close>

text \<open>Between two bounds the texts of times are fourteen digits, can be read back and are in the order of the times.\<close>

definition calendar_ok :: "int \<Rightarrow> int \<Rightarrow> calendar \<Rightarrow> bool" where
  "calendar_ok lo hi cal \<longleftrightarrow> (\<forall>t. lo \<le> t \<and> t < hi \<longrightarrow> of_text cal (to_char cal t) = Some t \<and> well_formed (to_char cal t))
     \<and> (\<forall>a b. lo \<le> a \<and> a < hi \<and> lo \<le> b \<and> b < hi \<longrightarrow> (to_char cal a < to_char cal b \<longleftrightarrow> a < b))
     \<and> (\<exists>t \<le> lo. of_text cal WM_FLOOR = Some t)"

definition stamps_ok :: "int \<Rightarrow> int \<Rightarrow> int \<Rightarrow> ship_row list \<Rightarrow> bool" where
  "stamps_ok lo hi tau ship \<longleftrightarrow> tau < hi \<and> (\<forall>s \<in> set ship. planned s \<longrightarrow> lo + SAFETY_LAG_S \<le> sh_upd s \<and> sh_upd s \<le> tau)"

definition behind :: "int \<Rightarrow> calendar \<Rightarrow> int \<Rightarrow> string \<Rightarrow> bool" where
  "behind lo cal tau w \<longleftrightarrow> (\<exists>t. w = to_char cal t \<and> lo \<le> t \<and> t \<le> tau - SAFETY_LAG_S)"

lemma max_text_in: "max_text ws = Some w \<Longrightarrow> w \<in> set ws"
  by (induction ws arbitrary: w) (auto simp: max_def split: option.splits if_splits)

lemma max_text_ge: "w \<in> set ws \<Longrightarrow> \<exists>w'. max_text ws = Some w' \<and> w \<le> w'"
proof (induction ws)
  case (Cons x ws)
  show ?case
  proof (cases "max_text ws")
    case None
    then have "ws = []" by (cases ws) auto
    then show ?thesis using Cons.prems None by simp
  next
    case (Some y)
    then show ?thesis using Cons by (auto simp: max_def)
  qed
qed simp

lemma newest_row:
  assumes "calendar_ok lo hi cal" "stamps_ok lo hi tau ship" "set ss \<subseteq> {s \<in> set ship. planned s}"
  shows "fold newest (map pd_upd (map (delta_row cal) ss)) mx = Some w \<Longrightarrow> mx = Some w \<or> (\<exists>s \<in> set ss. w = to_char cal (sh_upd s))"
  using assms(3)
proof (induction ss arbitrary: mx)
  case (Cons s ss)
  have "newest (pd_upd (delta_row cal s)) mx \<in> {mx, Some (to_char cal (sh_upd s))}" by (auto simp: newest_def delta_row_def split: option.splits)
  then show ?case using Cons.IH[of "newest (pd_upd (delta_row cal s)) mx"] Cons.prems by auto
qed simp

lemma lagged_behind:
  assumes "calendar_ok lo hi cal" "stamps_ok lo hi tau ship" "s \<in> set ship" "planned s"
  shows "behind lo cal tau (lagged cal (to_char cal (sh_upd s)))"
proof -
  have u: "lo + SAFETY_LAG_S \<le> sh_upd s" "sh_upd s \<le> tau" "tau < hi" using assms(2-4) by (auto simp: stamps_ok_def)
  then have "of_text cal (to_char cal (sh_upd s)) = Some (sh_upd s)" using assms(1) by (auto simp: calendar_ok_def SAFETY_LAG_S_def)
  then show ?thesis using u by (auto simp: lagged_def behind_def)
qed

lemma put_mark_behind:
  assumes "\<forall>w \<in> snd ` set ms. behind lo cal tau w" "behind lo cal tau new"
  shows "\<forall>w \<in> snd ` set (put_mark d new ms). behind lo cal tau w"
proof -
  have "set (AList.update d x ms) \<subseteq> insert (d, x) (set ms)" for x by (induction ms) auto
  moreover have "behind lo cal tau (max old new)" if "map_of ms d = Some old" for old
    using assms map_of_SomeD[OF that] by (force simp: max_def)
  ultimately show ?thesis using assms by (fastforce simp: put_mark_def split: option.splits)
qed

lemma update_forward:
  assumes "\<forall>old. map_of ms d = Some old \<longrightarrow> old \<le> x" "w \<in> snd ` set ms"
  shows "\<exists>w' \<in> snd ` set (AList.update d x ms). w \<le> (w' :: string)"
  using assms
proof (induction ms)
  case (Cons a ms)
  obtain k y where a: "a = (k, y)" by force
  show ?case
  proof (cases "k = d \<or> w = y")
    case True
    then show ?thesis using Cons.prems a by (auto split: if_splits)
  next
    case False
    then have "\<exists>w' \<in> snd ` set (AList.update d x ms). w \<le> w'" using Cons a by (intro Cons.IH) auto
    then show ?thesis using False a by auto
  qed
qed simp

lemma put_mark_forward:
  assumes "w \<in> snd ` set ms"
  shows "\<exists>w' \<in> snd ` set (put_mark d new ms). w \<le> w'"
proof (cases "map_of ms d")
  case None
  then show ?thesis using update_forward[of ms d new w] assms by (simp add: put_mark_def)
next
  case (Some old)
  then show ?thesis using update_forward[of ms d "max old new" w] assms by (simp add: put_mark_def)
qed

section \<open>A run\<close>

text \<open>A successful delta tick on a state of the source, at a time of the source.\<close>

definition landed_delta :: "calendar \<Rightarrow> int \<Rightarrow> int \<Rightarrow> voyage \<Rightarrow> stow_db \<Rightarrow> ship_row list \<Rightarrow> int \<Rightarrow> date \<Rightarrow> stow_db \<Rightarrow> bool" where
  "landed_delta cal lo hi v db ship tau d db' \<longleftrightarrow> ship_ok ship \<and> stamps_ok lo hi tau ship \<and> v \<in> set (used_voyages db)
     \<and> (\<exists>n. src_stowplan_delta cal True d (Inr ship) db = (Inr n, db'))"

text \<open>
  Between two readings no planned row of the voyage goes away, and a new or changed row has a stamp at most the safety lag before the earlier reading.
\<close>

definition evolves :: "voyage \<Rightarrow> int \<Rightarrow> ship_row list \<Rightarrow> ship_row list \<Rightarrow> bool" where
  "evolves v tau old new \<longleftrightarrow> (\<forall>s \<in> set new. planned s \<and> sh_voy s = v \<longrightarrow> s \<in> set old \<or> tau - SAFETY_LAG_S \<le> sh_upd s)
     \<and> (\<forall>s \<in> set old. planned s \<and> sh_voy s = v \<longrightarrow> (\<exists>s' \<in> set new. planned s' \<and> sh_key s' = sh_key s))"

text \<open>
  The runs in which a voyage stays active: the first tick, later ticks, hourly reconciliations, failed ticks, and the queue table changing in between.
\<close>

inductive plan_run :: "calendar \<Rightarrow> int \<Rightarrow> int \<Rightarrow> voyage \<Rightarrow> stow_db \<Rightarrow> ship_row list \<Rightarrow> int \<Rightarrow> bool" for cal lo hi v where
  first: "\<lbrakk>sd_marks db = []; distinct (map ms_key (sd_plan db)); landed_delta cal lo hi v db ship tau d db'\<rbrakk> \<Longrightarrow> plan_run cal lo hi v db' ship tau"
| delta: "\<lbrakk>plan_run cal lo hi v db ship tau; evolves v tau ship ship'; tau \<le> tau'; landed_delta cal lo hi v db ship' tau' d db'\<rbrakk> \<Longrightarrow> plan_run cal lo hi v db' ship' tau'"
| recon: "\<lbrakk>plan_run cal lo hi v db ship tau; tau \<le> tau'; ship_ok ship'; stamps_ok lo hi tau' ship'; v \<in> set (used_voyages db);
    reconcile_stowplan True (Inr ship') db = (Inr r, db')\<rbrakk> \<Longrightarrow> plan_run cal lo hi v db' ship' tau'"
| failed: "\<lbrakk>plan_run cal lo hi v db ship tau; src_stowplan_delta cal ok d src db = (Inl e, db')\<rbrakk> \<Longrightarrow> plan_run cal lo hi v db' ship tau"
| queues: "plan_run cal lo hi v db ship tau \<Longrightarrow> plan_run cal lo hi v (db\<lparr>sd_workqueue := qs\<rparr>) ship tau"

definition run_inv :: "calendar \<Rightarrow> int \<Rightarrow> voyage \<Rightarrow> stow_db \<Rightarrow> ship_row list \<Rightarrow> int \<Rightarrow> bool" where
  "run_inv cal lo v db ship tau \<longleftrightarrow> agrees (sd_plan db) ship v \<and> distinct (map ms_key (sd_plan db)) \<and> ship_ok ship \<and> (\<forall>w \<in> snd ` set (sd_marks db). behind lo cal tau w)"

lemma used_active: "v \<in> set (used_voyages db) \<Longrightarrow> active_voyages (sd_workqueue db) \<noteq> []"
  by (auto simp: used_voyages_def)

lemma delta_step:
  assumes "calendar_ok lo hi cal" "landed_delta cal lo hi v db ship tau d db'" "distinct (map ms_key (sd_plan db))"
    and marks: "\<forall>w \<in> snd ` set (sd_marks db). behind lo cal tau0 w" "tau0 \<le> tau"
    and known: "watermark db \<noteq> None \<longrightarrow> agrees (sd_plan db) old v \<and> ship_ok old \<and> evolves v tau0 old ship"
  shows "run_inv cal lo v db' ship tau"
proof -
  have l: "ship_ok ship" "stamps_ok lo hi tau ship" "v \<in> set (used_voyages db)" and "\<exists>n. src_stowplan_delta cal True d (Inr ship) db = (Inr n, db')"
    using assms(2) by (auto simp: landed_delta_def)
  then obtain wm where wm: "of_text cal (case watermark db of Some w \<Rightarrow> w | None \<Rightarrow> WM_FLOOR) = Some wm"
    and db': "sd_plan db' = merge_plan db (delta_rows cal wm db ship)"
      "sd_marks db' = (case fold newest (map pd_upd (delta_rows cal wm db ship)) None of Some m \<Rightarrow> put_mark d (lagged cal m) (sd_marks db) | None \<Rightarrow> sd_marks db)"
    using used_active[OF l(3)] by (auto simp: src_stowplan_delta_def Let_def split: option.splits)
  have late: "\<forall>w \<in> snd ` set (sd_marks db). behind lo cal tau w" using marks by (fastforce simp: behind_def)
  have "agrees (sd_plan db') ship v"
  proof (cases "watermark db")
    case None
    then have "wm \<le> lo" using wm assms(1) by (auto simp: calendar_ok_def)
    then have "\<forall>s \<in> set ship. planned s \<longrightarrow> wm \<le> sh_upd s" using l(2) by (auto simp: stamps_ok_def SAFETY_LAG_S_def)
    then show ?thesis unfolding db'(1) using None by (intro delta_agrees_new[OF l(1) assms(3) l(3)]) simp
  next
    case (Some w)
    then have "w \<in> snd ` set (sd_marks db)" using max_text_in by (fastforce simp: watermark_def)
    then obtain t where t: "w = to_char cal t" "lo \<le> t" "t \<le> tau0 - SAFETY_LAG_S" using marks(1) unfolding behind_def by blast
    moreover have "t < hi" using t marks(2) l(2) by (simp add: stamps_ok_def SAFETY_LAG_S_def)
    ultimately have "wm = t" using wm Some assms(1) by (auto simp: calendar_ok_def)
    then have "caught wm (sd_plan db) old ship v" using known Some t(3) unfolding caught_def evolves_def by fastforce
    then show ?thesis unfolding db'(1) using known Some by (intro delta_agrees_known[OF _ l(1) assms(3) _ l(3)]) simp_all
  qed
  moreover have "distinct (map ms_key (sd_plan db'))" unfolding db'(1) using merge_plan_effect[OF l(1) assms(3)] by blast
  moreover have "\<forall>w \<in> snd ` set (sd_marks db'). behind lo cal tau w"
  proof (cases "fold newest (map pd_upd (delta_rows cal wm db ship)) None")
    case None
    then show ?thesis using late by (simp add: db'(2))
  next
    case (Some m)
    have "set (read_rows wm db ship) \<subseteq> {s \<in> set ship. planned s}" by (auto simp: read_rows_def)
    then obtain s where "s \<in> set ship" "planned s" "m = to_char cal (sh_upd s)"
      using newest_row[OF assms(1) l(2), of "read_rows wm db ship" None m] Some unfolding delta_rows_read by auto
    then have "behind lo cal tau (lagged cal m)" using lagged_behind[OF assms(1) l(2)] by blast
    then show ?thesis using put_mark_behind[OF late] Some by (simp add: db'(2))
  qed
  ultimately show ?thesis using l(1) by (simp add: run_inv_def)
qed

lemma run_keeps:
  assumes "plan_run cal lo hi v db ship tau" "calendar_ok lo hi cal"
  shows "run_inv cal lo v db ship tau"
  using assms(1)
proof induction
  case (first db ship tau d db')
  then show ?case by (intro delta_step[OF assms(2) first(3,2)]) (auto simp: watermark_def)
next
  case (delta db ship tau ship' tau' d db')
  then show ?case by (intro delta_step[OF assms(2) delta(4), of tau ship]) (auto simp: run_inv_def)
next
  case (recon db ship tau tau' ship' r db')
  have "db' = db\<lparr>sd_plan := land_plan (sql_stowplan (used_voyages db) ship')\<rparr>"
    using recon.hyps used_active[OF recon.hyps(5)] by (auto simp: reconcile_stowplan_def Let_def)
  moreover have "\<forall>w \<in> snd ` set (sd_marks db). behind lo cal tau' w" using recon.IH recon.hyps(2) by (fastforce simp: run_inv_def behind_def)
  ultimately show ?case using snapshot_agrees[OF recon.hyps(3,5)] recon.hyps(3) by (simp add: run_inv_def)
next
  case (failed db ship tau ok d src e db')
  then have "db' = db" by (auto simp: src_stowplan_delta_def Let_def split: if_splits option.splits sum.splits)
  then show ?case using failed.IH by simp
next
  case (queues db ship tau qs)
  then show ?case by (simp add: run_inv_def)
qed

text \<open>
  C7. The delta keeps the mirror equal to the source. Take a voyage that stays active, over any run of delta ticks, hourly reconciliations and failed ticks, with the plan
  revised in between: as long as a change is visible within 120 seconds of its stamp and no planned row disappears, the rows of the mirror for the voyage are
  after every tick exactly the planned boxes not yet done of the source read by it, with their queues and places, each box once.
\<close>

theorem mirror_follows_plan:
  assumes "plan_run cal lo hi v db ship tau" "calendar_ok lo hi cal"
  shows "{m \<in> set (sd_plan db). ms_voy m = v} = open_plan ship v \<and> distinct (map ms_key (sd_plan db))"
  using run_keeps[OF assms] by (simp add: run_inv_def agrees_def)

section \<open>Examples\<close>

text \<open>Times as numbers of fourteen digits.\<close>

fun pad :: "nat \<Rightarrow> nat \<Rightarrow> string" where
  "pad 0 t = []"
| "pad (Suc n) t = pad n (t div 10) @ [char_of (48 + t mod 10)]"

definition unpad :: "string \<Rightarrow> nat" where
  "unpad s = foldl (\<lambda>a c. a * 10 + (of_char c - 48)) 0 s"

definition digits :: calendar where
  "digits = \<lparr>to_char = (\<lambda>t. pad 14 (nat t)), of_text = (\<lambda>s. Some (int (unpad s)))\<rparr>"

lemma digit_char: "of_char (char_of (48 + t mod 10) :: char) = 48 + t mod (10 :: nat)"
  by (simp add: of_char_of take_bit_eq_mod)

lemma pad_length: "length (pad n t) = n"
  by (induction n arbitrary: t) simp_all

lemma pad_digits: "list_all is_digit (pad n t)"
  by (induction n arbitrary: t) (auto simp: is_digit_def digit_char)

lemma unpad_pad: "t < 10 ^ n \<Longrightarrow> unpad (pad n t) = t"
proof (induction n arbitrary: t)
  case (Suc n)
  then have "unpad (pad n (t div 10)) = t div 10" by (intro Suc.IH) (simp add: less_mult_imp_div_less mult.commute)
  then show ?case by (simp add: unpad_def digit_char)
qed (simp add: unpad_def)

lemma snoc_less: "length xs = length ys \<Longrightarrow> (xs @ [x] < ys @ [y]) \<longleftrightarrow> xs < ys \<or> (xs = ys \<and> x < (y :: char))"
  by (induction xs ys rule: list_induct2) auto

lemma char_less: "(char_of (48 + a mod 10) :: char) < char_of (48 + b mod 10) \<longleftrightarrow> a mod 10 < b mod (10 :: nat)"
  by (simp add: less_char_def digit_char)

lemma pad_less: "\<lbrakk>a < 10 ^ n; b < 10 ^ n\<rbrakk> \<Longrightarrow> pad n a < pad n b \<longleftrightarrow> a < b"
proof (induction n arbitrary: a b)
  case (Suc n)
  have d: "a div 10 < 10 ^ n" "b div 10 < 10 ^ n" using Suc.prems by (simp_all add: less_mult_imp_div_less mult.commute)
  have "pad n (a div 10) = pad n (b div 10) \<longleftrightarrow> a div 10 = b div 10" using unpad_pad[OF d(1)] unpad_pad[OF d(2)] by metis
  then have "pad (Suc n) a < pad (Suc n) b \<longleftrightarrow> a div 10 < b div 10 \<or> (a div 10 = b div 10 \<and> a mod 10 < b mod 10)"
    using Suc.IH[OF d] by (simp add: snoc_less pad_length char_less)
  also have "\<dots> \<longleftrightarrow> a < b" using div_mult_mod_eq[of a 10] div_mult_mod_eq[of b 10] by linarith
  finally show ?case .
qed simp

lemma digits_ok: "calendar_ok 19700101000000 (10 ^ 14) digits"
proof -
  have f: "of_text digits WM_FLOOR = Some 19700101000000" by (simp add: digits_def unpad_def WM_FLOOR_def)
  have "of_text digits (to_char digits t) = Some t \<and> well_formed (to_char digits t)" if "19700101000000 \<le> t" "t < 10 ^ 14" for t
    using that unpad_pad[of "nat t" 14] by (auto simp: digits_def well_formed_def pad_length pad_digits)
  moreover have "to_char digits a < to_char digits b \<longleftrightarrow> a < b" if "19700101000000 \<le> a" "a < 10 ^ 14" "19700101000000 \<le> b" "b < 10 ^ 14" for a b
    using that pad_less[of "nat a" 14 "nat b"] by (auto simp: digits_def)
  ultimately show ?thesis using f unfolding calendar_ok_def by auto
qed

text \<open>One box of a vessel being worked.\<close>

definition one_ship :: ship_row where
  "one_ship = \<lparr>sh_vessel = ''V'', sh_voyage = ''1'', sh_queuename = Some ''38H-D'', sh_disload = Some ''D'', sh_contno = Some ''B1'', sh_planseq = Some 7, sh_planst = ''P'',
     sh_compdate = None, sh_upd = 20260810120000\<rparr>"

definition one_stow :: stow_db where
  "one_stow = \<lparr>sd_workqueue = [\<lparr>qr_qc = ''C1'', qr_vessel = ''V'', qr_voyage = Some ''1'', qr_queuename = ''38H-D'', qr_disload = None, qr_seq = None, qr_total = Some 9, qr_comp = Some 2\<rparr>],
     sd_plan = [], sd_marks = []\<rparr>"

lemma one_used: "used_voyages one_stow = [(''V'', ''1'')]"
  by (simp add: used_voyages_def active_voyages_def one_stow_def queue_voy_def Let_def is_some_and_def MAX_VOYAGES_def List.map_filter_def)

theorem mirror_follows_plan_witness:
  "\<exists>db n. src_stowplan_delta digits True 0 (Inr [one_ship]) one_stow = (Inr n, db) \<and> {m \<in> set (sd_plan db). ms_voy m = (''V'', ''1'')} = {mirror_of one_ship}"
proof -
  have w: "watermark one_stow = None" by (simp add: watermark_def one_stow_def)
  have "\<exists>n db. src_stowplan_delta digits True 0 (Inr [one_ship]) one_stow = (Inr n, db)"
    using used_active[of "(''V'', ''1'')" one_stow] by (simp add: one_used src_stowplan_delta_def w Let_def digits_def)
  then obtain n db where db: "src_stowplan_delta digits True 0 (Inr [one_ship]) one_stow = (Inr n, db)" by blast
  have t: "trim ''B1'' = ''B1''" by (simp add: trim_def is_space_def)
  have p: "planned one_ship" "sh_compdate one_ship = None" "sh_voy one_ship = (''V'', ''1'')" by (simp_all add: planned_def one_ship_def sh_voy_def)
  have "ship_ok [one_ship]" using t by (simp add: ship_ok_def row_named_def one_ship_def)
  moreover have "stamps_ok 19700101000000 (10 ^ 14) 20260810120000 [one_ship]" by (simp add: stamps_ok_def one_ship_def SAFETY_LAG_S_def)
  ultimately have "landed_delta digits 19700101000000 (10 ^ 14) (''V'', ''1'') one_stow [one_ship] 20260810120000 0 db" using db by (auto simp: landed_delta_def one_used)
  then have "plan_run digits 19700101000000 (10 ^ 14) (''V'', ''1'') db [one_ship] 20260810120000" by (intro plan_run.first) (simp_all add: one_stow_def)
  from mirror_follows_plan[OF this digits_ok] show ?thesis using db p by (auto simp: open_plan_def)
qed

text \<open>
  The watermark never goes back: whatever a delta tick reads, refuses or lands, on whatever date, the time from which the next tick reads is not before the
  time from which this one read.
\<close>

theorem watermark_forward:
  assumes "src_stowplan_delta cal ok d src db = (res, db')" "watermark db = Some w"
  shows "\<exists>w'. watermark db' = Some w' \<and> w \<le> w'"
proof -
  have marks: "sd_marks db' = sd_marks db \<or> (\<exists>x. sd_marks db' = put_mark d x (sd_marks db))"
    using assms(1) by (auto simp: src_stowplan_delta_def Let_def split: if_splits option.splits sum.splits)
  have w: "w \<in> snd ` set (sd_marks db)" using max_text_in assms(2) by (fastforce simp: watermark_def)
  have "\<exists>w1 \<in> snd ` set (sd_marks db'). w \<le> w1"
    using marks
  proof
    assume "sd_marks db' = sd_marks db"
    then show ?thesis using w by (intro bexI[of _ w]) simp_all
  next
    assume "\<exists>x. sd_marks db' = put_mark d x (sd_marks db)"
    then show ?thesis using put_mark_forward[OF w, of d] by auto
  qed
  then obtain w1 where w1: "w1 \<in> snd ` set (sd_marks db')" "w \<le> w1" by blast
  then obtain w' where "max_text (map snd (sd_marks db')) = Some w'" "w1 \<le> w'" using max_text_ge[of w1 "map snd (sd_marks db')"] by auto
  then show ?thesis using w1(2) by (auto simp: watermark_def)
qed

theorem watermark_forward_witness: "\<exists>w'. watermark (one_stow\<lparr>sd_marks := [(0, ''20260810115800'')]\<rparr>) = Some w' \<and> ''20260810115800'' \<le> w'"
  using watermark_forward[of digits True 0 "Inl ''down''" "one_stow\<lparr>sd_marks := [(0, ''20260810115800'')]\<rparr>" "Inl ''down''"
    "one_stow\<lparr>sd_marks := [(0, ''20260810115800'')]\<rparr>" "''20260810115800''"] used_active[of "(''V'', ''1'')" one_stow]
  by (simp add: src_stowplan_delta_def one_used watermark_def one_stow_def digits_def)

text \<open>
  The two write paths do not agree on a padded box number: the snapshot lands it as it came, the delta looks for it without the padding, so the row of a box that is
  done stays in the mirror until the next snapshot.
\<close>

theorem padded_box_stays:
  "let r = \<lparr>pf_vessel = ''V'', pf_voyage = ''1'', pf_queuename = Some ''38H-D'', pf_disload = Some ''D'', pf_contno = Some ''B1 '', pf_planseq = Some 7\<rparr>;
       gone = plan_fetch.extend r \<lparr>pd_compdate = Some ''20260810'', pd_upd = None\<rparr>
   in length (merge_row gone (land_plan [r])) = 1"
  by (simp add: Let_def land_plan_def List.map_filter_def kept_plan_def put_plan_def upsert_def merge_row_def box_of_def completed_def trim_def is_space_def is_some_and_def
      plan_fetch.extend_def ms_key_def)

text \<open>
  The reconciliation does not see a box that moved to another queue: it compares the places only, so its drift is none although the mirror names the old queue.
\<close>

theorem drift_misses_moved_queue:
  "let truth = [\<lparr>pf_vessel = ''V'', pf_voyage = ''1'', pf_queuename = Some ''40H-D'', pf_disload = Some ''D'', pf_contno = Some ''B1'', pf_planseq = Some 7\<rparr>]
   in ms_queuename (mirror_of one_ship) = ''38H-D'' \<and> map ms_queuename (land_plan truth) = [''40H-D''] \<and> drift (truth_map truth) [mirror_of one_ship] = 0"
  by (simp add: Let_def land_plan_def List.map_filter_def kept_plan_def put_plan_def upsert_def mirror_of_def one_ship_def truth_map_def drift_def ms_key_def)

end
