(* ===== verification/MoveFacts.thy ===== *)
theory MoveFacts
  imports MoveStream StowFacts
begin

text \<open>
  The logs of completed work are complete: a stream that is behind catches up, page by page. The three streams share the argument, which is given once, in a locale over
  what a stream is made of; the quay moves, the yard moves and the handovers are its instances.
\<close>

section \<open>Watermarks\<close>

lemma read_mark_all:
  assumes "\<forall>w \<in> snd ` set ms. w \<le> until" "ms \<noteq> []"
  shows "read_mark until start ms = the (max_text (map snd ms))"
proof -
  have "filter (\<lambda>w. w \<le> until) (map snd ms) = map snd ms" using assms(1) by (auto simp: filter_id_conv)
  moreover obtain x xs where "ms = x # xs" using assms(2) by (cases ms) auto
  ultimately show ?thesis by (simp add: read_mark_def)
qed

lemma max_text_the:
  assumes "ms \<noteq> []"
  shows "the (max_text (map snd ms)) \<in> snd ` set ms" "w \<in> snd ` set ms \<Longrightarrow> w \<le> the (max_text (map snd ms))"
proof -
  obtain x xs where ms: "ms = x # xs" using assms by (cases ms) auto
  then obtain m where m: "max_text (map snd ms) = Some m" by simp
  then show "the (max_text (map snd ms)) \<in> snd ` set ms" using max_text_in[OF m] by simp
  show "w \<le> the (max_text (map snd ms))" if "w \<in> snd ` set ms"
    using max_text_ge[of w "map snd ms"] that m by auto
qed

lemma put_mark_set: "set (put_mark d new ms) \<subseteq> insert (d, new) (insert (d, max (opt_or new (map_of ms d)) new) (set ms))"
proof -
  have "set (AList.update d x ms) \<subseteq> insert (d, x) (set ms)" for x by (induction ms) auto
  then show ?thesis by (fastforce simp: put_mark_def opt_or_def split: option.splits)
qed

lemma put_mark_raises:
  assumes "ms \<noteq> []" "the (max_text (map snd ms)) < K"
  shows "put_mark d K ms \<noteq> []" "the (max_text (map snd (put_mark d K ms))) = K" "snd ` set (put_mark d K ms) \<subseteq> insert K (snd ` set ms)"
proof -
  have lt: "w < K" if "w \<in> snd ` set ms" for w using max_text_the(2)[OF assms(1) that] assms(2) by (rule order.strict_trans1)
  have old: "max (opt_or K (map_of ms d)) K = K"
  proof (cases "map_of ms d")
    case (Some y)
    then have "y < K" by (intro lt) (force dest: map_of_SomeD)
    then show ?thesis using Some by (simp add: opt_or_def max_def less_imp_le)
  qed (simp add: opt_or_def)
  have up: "put_mark d K ms = AList.update d K ms" using old by (auto simp: put_mark_def opt_or_def split: option.splits)
  show sub: "snd ` set (put_mark d K ms) \<subseteq> insert K (snd ` set ms)" using put_mark_set[of d K ms] by (auto simp: old image_iff)
  have "K \<in> snd ` set (put_mark d K ms)" unfolding up by (induction ms) auto
  moreover from this show ne: "put_mark d K ms \<noteq> []" by auto
  ultimately have "K \<le> the (max_text (map snd (put_mark d K ms)))" using max_text_the(2)[OF ne] by blast
  moreover have "the (max_text (map snd (put_mark d K ms))) \<in> insert K (snd ` set ms)" using max_text_the(1)[OF ne] sub by blast
  then have "the (max_text (map snd (put_mark d K ms))) \<le> K" using lt by (auto simp: less_le)
  ultimately show "the (max_text (map snd (put_mark d K ms))) = K" by simp
qed

section \<open>Landing a page\<close>

definition key_ok :: "nat \<Rightarrow> string \<Rightarrow> bool" where
  "key_ok width k \<longleftrightarrow> length k = width \<and> list_all is_digit k"

lemma land_all:
  assumes "fold (land_one width land pk) rows (lg, mx) = (lg', mx')"
  shows "pk ` set lg' = pk ` set lg \<union> {pk l | l r sq. r \<in> set rows \<and> land r = Some (l, sq)}"
    "\<And>m. mx = Some m \<Longrightarrow> \<exists>m'. mx' = Some m' \<and> m \<le> m'"
    "\<And>r l sq. \<lbrakk>r \<in> set rows; land r = Some (l, sq); key_ok width sq\<rbrakk> \<Longrightarrow> \<exists>m. mx' = Some m \<and> sq \<le> m"
    "\<And>m. mx' = Some m \<Longrightarrow> mx = Some m \<or> (\<exists>r \<in> set rows. \<exists>l. land r = Some (l, m) \<and> key_ok width m)"
  using assms
proof (induction rows arbitrary: lg mx)
  case (Cons r rows)
  case 1
  let ?s = "land_one width land pk r (lg, mx)"
  have "fold (land_one width land pk) rows (fst ?s, snd ?s) = (lg', mx')" using 1 by simp
  note step = this
  from Cons.IH(1)[OF step] show ?case by (auto simp: land_one_def split: option.splits if_splits)
next
  case (Cons r rows)
  case (2 m)
  let ?s = "land_one width land pk r (lg, mx)"
  have step: "fold (land_one width land pk) rows (fst ?s, snd ?s) = (lg', mx')" using 2 by simp
  have "\<exists>m1. snd ?s = Some m1 \<and> m \<le> m1" using 2 by (auto simp: land_one_def high_water_def split: option.splits)
  then obtain m1 where "snd ?s = Some m1" "m \<le> m1" by blast
  then show ?case using Cons.IH(2)[OF \<open>snd ?s = Some m1\<close> step] by (auto intro: order.trans)
next
  case (Cons r rows)
  case (3 r' l sq)
  let ?s = "land_one width land pk r (lg, mx)"
  have step: "fold (land_one width land pk) rows (fst ?s, snd ?s) = (lg', mx')" using 3 by simp
  show ?case
  proof (cases "r' \<in> set rows")
    case True
    then show ?thesis using Cons.IH(3)[OF True 3(2,3) step] by simp
  next
    case False
    then have "r' = r" using 3(1) by simp
    then have "\<exists>m1. snd ?s = Some m1 \<and> sq \<le> m1" using 3 by (auto simp: land_one_def high_water_def key_ok_def split: option.splits)
    then obtain m1 where "snd ?s = Some m1" "sq \<le> m1" by blast
    then show ?thesis using Cons.IH(2)[OF \<open>snd ?s = Some m1\<close> step] by (auto intro: order.trans)
  qed
next
  case (Cons r rows)
  case (4 m)
  let ?s = "land_one width land pk r (lg, mx)"
  have step: "fold (land_one width land pk) rows (fst ?s, snd ?s) = (lg', mx')" using 4 by simp
  have "snd ?s = Some m \<Longrightarrow> mx = Some m \<or> (\<exists>l. land r = Some (l, m) \<and> key_ok width m)"
    by (auto simp: land_one_def high_water_def key_ok_def split: option.splits if_splits)
  then show ?case using Cons.IH(4)[OF 4(1) step] by auto
qed auto

lemma filter_take_le: "length (filter P (take n xs)) \<le> length (filter P xs)"
  using arg_cong[OF append_take_drop_id[of n xs], of "\<lambda>ys. length (filter P ys)"] unfolding filter_append length_append by linarith

lemma filter_sort_length: "length (filter P (sort_key f xs)) = length (filter P xs)"
  unfolding size_mset[symmetric] mset_filter mset_sort by (rule refl)

section \<open>A stream\<close>

text \<open>A list of ticks, and how many of them report success.\<close>

fun ticks :: "('a \<Rightarrow> 's \<Rightarrow> (string + int) \<times> 's) \<Rightarrow> 'a list \<Rightarrow> 's \<Rightarrow> nat \<times> 's" where
  "ticks tick [] s = (0, s)"
| "ticks tick (a # as) s =
     (let (r, s1) = tick a s; (n, s2) = ticks tick as s1 in ((case r of Inr _ \<Rightarrow> n + 1 | Inl _ \<Rightarrow> n), s2))"

text \<open>
  What the argument needs of a stream: the page has room; a stamp of the right shape is the key itself; the date of the run has no part in what a row is.
\<close>

locale move_stream =
  fixes cap width :: nat
    and key :: "'r \<Rightarrow> string option"
    and sel :: "'r \<Rightarrow> bool"
    and land :: "date \<Rightarrow> 'r \<Rightarrow> ('l \<times> string) option"
    and pk :: "'l \<Rightarrow> 'k"
  assumes stamp_is_key: "\<lbrakk>land d r = Some (l, sq); key r = Some k; key_ok width k\<rbrakk> \<Longrightarrow> sq = k"
    and same_row: "map_option (map_prod pk id) (land d r) = map_option (map_prod pk id) (land d' r)"
begin

definition landed :: "'r \<Rightarrow> 'l stream_db \<Rightarrow> bool" where
  "landed r db \<longleftrightarrow> (\<forall>k sq. map_option (map_prod pk id) (land 0 r) = Some (k, sq) \<longrightarrow> k \<in> pk ` set (sm_log db))"

definition mark :: "'l stream_db \<Rightarrow> string" where
  "mark db = the (max_text (map snd (sm_marks db)))"

definition due :: "string \<Rightarrow> 'r list \<Rightarrow> 'r list" where
  "due lo tbl = filter (\<lambda>r. sel r \<and> land 0 r \<noteq> None \<and> lo \<le> the (key r)) tbl"

definition todo :: "'r list \<Rightarrow> 'l stream_db \<Rightarrow> nat" where
  "todo tbl db = length (filter (\<lambda>r. mark db < the (key r)) (filter (\<lambda>r. sel r \<and> land 0 r \<noteq> None) tbl))"

definition behind_ok :: "(string \<Rightarrow> string) \<Rightarrow> string \<Rightarrow> string \<Rightarrow> 'r list \<Rightarrow> 'l stream_db \<Rightarrow> bool" where
  "behind_ok lag U lo tbl db \<longleftrightarrow> sm_marks db \<noteq> [] \<and> (\<forall>w \<in> snd ` set (sm_marks db). w \<le> U)
     \<and> (\<forall>r \<in> set (due lo tbl). the (key r) < lag (mark db) \<longrightarrow> landed r db)"

definition caught_up :: "string \<Rightarrow> 'r list \<Rightarrow> 'l stream_db \<Rightarrow> bool" where
  "caught_up lo tbl db \<longleftrightarrow> (\<forall>r \<in> set (due lo tbl). landed r db)"

definition table_ok :: "string \<Rightarrow> 'r list \<Rightarrow> bool" where
  "table_ok U tbl \<longleftrightarrow> (\<forall>r \<in> set tbl. sel r \<longrightarrow> (\<exists>k. key r = Some k \<and> key_ok width k \<and> k \<le> U))"

definition room :: "(string \<Rightarrow> string) \<Rightarrow> 'r list \<Rightarrow> bool" where
  "room lag tbl \<longleftrightarrow> (\<forall>w. length (filter (\<lambda>r. sel r \<and> lag w \<le> the (key r) \<and> (the (key r) \<le> w \<or> land 0 r = None)) tbl) < cap)"

lemma land_date: "land d r = None \<longleftrightarrow> land d' r = None"
  using same_row[of d r d'] by (cases "land d r"; cases "land d' r") auto

lemma window:
  assumes "table_ok U tbl" "U \<le> until"
  shows "filter (\<lambda>r. sel r \<and> is_some_and (key r) (\<lambda>k. lo \<le> k \<and> k \<le> until)) tbl = filter (\<lambda>r. sel r \<and> lo \<le> the (key r)) tbl"
proof (rule filter_cong[OF refl])
  fix r assume r: "r \<in> set tbl"
  show "(sel r \<and> is_some_and (key r) (\<lambda>k. lo \<le> k \<and> k \<le> until)) = (sel r \<and> lo \<le> the (key r))"
  proof (cases "sel r")
    case True
    then obtain k where "key r = Some k" "k \<le> U" using r assms(1) by (auto simp: table_ok_def)
    then show ?thesis using True assms(2) by (auto simp: is_some_and_def)
  qed simp
qed

text \<open>A poll that lands: what it reads, what it adds, where the watermark goes.\<close>

lemma poll_lands:
  assumes "poll cap width lag key sel (land d) pk until start d True (Inr tbl) db = (res, db')" "table_ok U tbl" "U \<le> until" "behind_ok lag U lo tbl db"
  defines "rows \<equiv> take cap (sort_key (\<lambda>r. the (key r)) (filter (\<lambda>r. sel r \<and> lag (mark db) \<le> the (key r)) tbl))"
  shows "pk ` set (sm_log db) \<subseteq> pk ` set (sm_log db')" "\<And>r. r \<in> set rows \<Longrightarrow> landed r db'"
    "sm_marks db' = sm_marks db \<and> (\<forall>r \<in> set rows. land 0 r = None)
     \<or> (\<exists>r0 \<in> set rows. \<exists>K. land 0 r0 \<noteq> None \<and> key r0 = Some K \<and> sm_marks db' = put_mark d K (sm_marks db) \<and> (\<forall>r \<in> set rows. land 0 r \<noteq> None \<longrightarrow> the (key r) \<le> K))"
proof -
  have "read_mark until start (sm_marks db) = mark db"
    using assms(3,4) read_mark_all[of "sm_marks db" until start] by (auto simp: behind_ok_def mark_def intro: order.trans)
  then have page: "page cap key sel (lag (read_mark until start (sm_marks db))) until tbl = rows"
    unfolding page_def rows_def window[OF assms(2,3)] by simp
  obtain lg mx where f: "fold (land_one width (land d) pk) rows (sm_log db, None) = (lg, mx)" by fastforce
  have db': "db' = db\<lparr>sm_log := lg, sm_marks := (case mx of Some m \<Rightarrow> put_mark d m (sm_marks db) | None \<Rightarrow> sm_marks db)\<rparr>"
    using assms(1) f by (simp add: poll_def page)
  note L = land_all[OF f]
  have rk: "\<exists>k. key r = Some k \<and> key_ok width k" if "r \<in> set rows" for r
    using that assms(2) set_take_subset[of cap] by (fastforce simp: rows_def table_ok_def)
  show "pk ` set (sm_log db) \<subseteq> pk ` set (sm_log db')" using L(1) by (auto simp: db')
  show "landed r db'" if r: "r \<in> set rows" for r
  proof (cases "land d r")
    case None
    then show ?thesis using land_date[of d r 0] by (simp add: landed_def)
  next
    case (Some lsq)
    obtain l sq where l: "land d r = Some (l, sq)" using Some by (cases lsq) auto
    then have "pk l \<in> pk ` set lg" using L(1) r by auto
    then show ?thesis using same_row[of 0 r d] l by (auto simp: landed_def db')
  qed
  show "sm_marks db' = sm_marks db \<and> (\<forall>r \<in> set rows. land 0 r = None)
     \<or> (\<exists>r0 \<in> set rows. \<exists>K. land 0 r0 \<noteq> None \<and> key r0 = Some K \<and> sm_marks db' = put_mark d K (sm_marks db) \<and> (\<forall>r \<in> set rows. land 0 r \<noteq> None \<longrightarrow> the (key r) \<le> K))"
  proof -
    have top: "\<exists>m. mx = Some m \<and> the (key r) \<le> m" if r: "r \<in> set rows" and ok: "land 0 r \<noteq> None" for r
    proof -
      obtain l sq where l: "land d r = Some (l, sq)" using ok land_date[of 0 r d] by (cases "land d r") auto
      obtain k where k: "key r = Some k" "key_ok width k" using rk[OF r] by blast
      have "sq = k" by (rule stamp_is_key[OF l k])
      then show ?thesis using L(3)[OF r l] k by simp
    qed
    show ?thesis
    proof (cases mx)
      case None
      then have "land 0 r = None" if "r \<in> set rows" for r using top[OF that] by (cases "land 0 r") auto
      then show ?thesis using None by (simp add: db')
    next
      case (Some m)
      then obtain r0 l where r0: "r0 \<in> set rows" "land d r0 = Some (l, m)" using L(4)[of m] by auto
      obtain k where k: "key r0 = Some k" "key_ok width k" using rk[OF r0(1)] by blast
      have "m = k" by (rule stamp_is_key[OF r0(2) k])
      then have "land 0 r0 \<noteq> None \<and> key r0 = Some m \<and> sm_marks db' = put_mark d m (sm_marks db) \<and> (\<forall>r \<in> set rows. land 0 r \<noteq> None \<longrightarrow> the (key r) \<le> m)"
        using k r0 Some top land_date[of d r0 0] by (auto simp: db')
      then show ?thesis using r0(1) by blast
    qed
  qed
qed

text \<open>A full page has a row that can be landed beyond the watermark.\<close>

lemma full_page_moves:
  assumes "room lag tbl" "cap < length (filter (\<lambda>r. sel r \<and> lag w \<le> the (key r)) tbl)"
  shows "\<exists>r \<in> set (take cap (sort_key (\<lambda>r. the (key r)) (filter (\<lambda>r. sel r \<and> lag w \<le> the (key r)) tbl))). w < the (key r) \<and> land 0 r \<noteq> None"
proof (rule ccontr)
  let ?F = "filter (\<lambda>r. sel r \<and> lag w \<le> the (key r)) tbl" and ?bad = "\<lambda>r. the (key r) \<le> w \<or> land 0 r = None"
  let ?S = "sort_key (\<lambda>r. the (key r)) ?F"
  assume "\<not> (\<exists>r \<in> set (take cap ?S). w < the (key r) \<and> land 0 r \<noteq> None)"
  then have "filter ?bad (take cap ?S) = take cap ?S" by (intro filter_True) (auto simp: not_less)
  then have "length (filter ?bad (take cap ?S)) = length (take cap ?S)" by (rule arg_cong)
  moreover have "length (take cap ?S) = cap" using assms(2) by simp
  moreover have "length (filter ?bad (take cap ?S)) \<le> length (filter ?bad ?S)" by (rule filter_take_le)
  moreover have "length (filter ?bad ?S) = length (filter ?bad ?F)"
    by (rule filter_sort_length)
  moreover have "length (filter ?bad ?F) = length (filter (\<lambda>r. sel r \<and> lag w \<le> the (key r) \<and> (the (key r) \<le> w \<or> land 0 r = None)) tbl)"
    by (simp add: conj_assoc)
  moreover have "length (filter (\<lambda>r. sel r \<and> lag w \<le> the (key r) \<and> (the (key r) \<le> w \<or> land 0 r = None)) tbl) < cap"
    using assms(1) by (simp add: room_def)
  ultimately show False by linarith
qed

lemma before_in_page:
  assumes "r \<in> set xs" "r0 \<in> set (take n (sort_key f xs))" "f r < (f r0 :: string)"
  shows "r \<in> set (take n (sort_key f xs))"
proof (rule ccontr)
  assume "r \<notin> set (take n (sort_key f xs))"
  moreover have "r \<in> set (take n (sort_key f xs)) \<union> set (drop n (sort_key f xs))" using assms(1) by (metis append_take_drop_id set_append set_sort)
  ultimately have "r \<in> set (drop n (sort_key f xs))" by blast
  moreover have "sorted (map f (take n (sort_key f xs)) @ map f (drop n (sort_key f xs)))" by (metis append_take_drop_id map_append sorted_sort_key)
  ultimately have "f r0 \<le> f r" using assms(2) by (auto simp: sorted_append)
  then show False using assms(3) by simp
qed

lemma todo_less:
  assumes "r \<in> set tbl" "sel r" "land 0 r \<noteq> None" "mark db < the (key r)" "the (key r) \<le> mark db'"
  shows "todo tbl db' < todo tbl db"
proof -
  let ?G = "filter (\<lambda>r. sel r \<and> land 0 r \<noteq> None) tbl"
  have lt: "mark db < mark db'" by (rule order.strict_trans2[OF assms(4,5)])
  have "filter (\<lambda>r. mark db' < the (key r)) ?G = filter (\<lambda>r. mark db' < the (key r)) (filter (\<lambda>r. mark db < the (key r)) ?G)"
    using lt by (auto simp: filter_filter intro!: filter_cong intro: order.strict_trans)
  moreover have "r \<in> set (filter (\<lambda>r. mark db < the (key r)) ?G)" using assms by simp
  ultimately show ?thesis using length_filter_less[of r "filter (\<lambda>r. mark db < the (key r)) ?G" "\<lambda>r. mark db' < the (key r)"] assms(5) by (simp add: todo_def not_less)
qed

lemma poll_progress:
  assumes "poll cap width lag key sel (land d) pk until start d True (Inr tbl) db = (res, db')" "table_ok U tbl" "U \<le> until" "behind_ok lag U lo tbl db"
    "room lag tbl" "\<forall>w. lag w \<le> w"
  shows "behind_ok lag U lo tbl db' \<and> (caught_up lo tbl db' \<or> todo tbl db' < todo tbl db)"
proof -
  let ?F = "filter (\<lambda>r. sel r \<and> lag (mark db) \<le> the (key r)) tbl"
  let ?rows = "take cap (sort_key (\<lambda>r. the (key r)) ?F)"
  note P = poll_lands[OF assms(1-4)]
  have keep: "landed r db \<Longrightarrow> landed r db'" for r using P(1) by (auto simp: landed_def)
  have below: "landed r db'" if "r \<in> set (due lo tbl)" "the (key r) < lag (mark db)" for r using assms(4) that keep by (auto simp: behind_ok_def)
  have inF: "r \<in> set ?F" if "r \<in> set (due lo tbl)" "lag (mark db) \<le> the (key r)" for r
    using that by (auto simp: due_def)
  have U: "K \<le> U" if "r \<in> set ?rows" "key r = Some K" for r K
  proof -
    have "r \<in> set ?F" using set_take_subset[of cap "sort_key (\<lambda>r. the (key r)) ?F"] that(1) by auto
    then show ?thesis using assms(2) that(2) by (auto simp: table_ok_def)
  qed
  have marks: "sm_marks db' \<noteq> [] \<and> (\<forall>w \<in> snd ` set (sm_marks db'). w \<le> U)" using P(3)
  proof (elim disjE)
    assume "sm_marks db' = sm_marks db \<and> (\<forall>r \<in> set ?rows. land 0 r = None)"
    then show ?thesis using assms(4) by (simp add: behind_ok_def)
  next
    assume "\<exists>r0 \<in> set ?rows. \<exists>K. land 0 r0 \<noteq> None \<and> key r0 = Some K \<and> sm_marks db' = put_mark d K (sm_marks db) \<and> (\<forall>r \<in> set ?rows. land 0 r \<noteq> None \<longrightarrow> the (key r) \<le> K)"
    then obtain r0 K where K: "r0 \<in> set ?rows" "key r0 = Some K" "sm_marks db' = put_mark d K (sm_marks db)" by blast
    have "K \<le> U" by (rule U[OF K(1,2)])
    moreover have "opt_or K (map_of (sm_marks db) d) \<le> U"
      using \<open>K \<le> U\<close> assms(4) by (auto simp: opt_or_def behind_ok_def dest!: map_of_SomeD split: option.split)
    ultimately have "\<forall>w \<in> snd ` set (sm_marks db'). w \<le> U"
      using put_mark_set[of d K "sm_marks db"] assms(4) by (fastforce simp: K(3) behind_ok_def)
    moreover obtain w where "w \<in> snd ` set (sm_marks db)" using assms(4) by (cases "sm_marks db") (auto simp: behind_ok_def)
    then have "sm_marks db' \<noteq> []" using put_mark_forward[of w "sm_marks db" d K] by (auto simp: K(3))
    ultimately show ?thesis by blast
  qed
  show ?thesis
  proof (cases "length ?F \<le> cap")
    case True
    then have "set ?rows = set ?F" by simp
    then have "landed r db'" if "r \<in> set (due lo tbl)" for r using below[OF that] inF[OF that] P(2)[of r] by (cases "the (key r) < lag (mark db)") auto
    then have "caught_up lo tbl db'" by (simp add: caught_up_def)
    then show ?thesis using marks by (auto simp: behind_ok_def caught_up_def)
  next
    case False
    then obtain r1 where r1: "r1 \<in> set ?rows" "mark db < the (key r1)" "land 0 r1 \<noteq> None"
      using full_page_moves[OF assms(5), of "mark db"] by auto
    have "\<not> (\<forall>r \<in> set ?rows. land 0 r = None)"
    proof
      assume "\<forall>r \<in> set ?rows. land 0 r = None"
      from bspec[OF this r1(1)] show False using r1(3) by simp
    qed
    then have "\<exists>r0 \<in> set ?rows. \<exists>K. land 0 r0 \<noteq> None \<and> key r0 = Some K \<and> sm_marks db' = put_mark d K (sm_marks db)
      \<and> (\<forall>r \<in> set ?rows. land 0 r \<noteq> None \<longrightarrow> the (key r) \<le> K)" using P(3) by argo
    then obtain r0 K where K: "r0 \<in> set ?rows" "land 0 r0 \<noteq> None" "key r0 = Some K" "sm_marks db' = put_mark d K (sm_marks db)" "the (key r1) \<le> K"
      using r1(1,3) by meson
    have gt: "mark db < K" by (rule order.strict_trans2[OF r1(2) K(5)])
    then have mk: "mark db' = K" using put_mark_raises(2)[of "sm_marks db" K d] assms(4) by (simp add: mark_def K(4) behind_ok_def)
    have "r0 \<in> set ?F" using set_take_subset[of cap "sort_key (\<lambda>r. the (key r)) ?F"] K(1) by auto
    then have "todo tbl db' < todo tbl db" using K(2,3) gt mk by (intro todo_less[of r0]) auto
    moreover have "landed r db'" if r: "r \<in> set (due lo tbl)" "the (key r) < K" for r
    proof (cases "the (key r) < lag (mark db)")
      case False
      then have "r \<in> set ?F" using inF[OF r(1)] by simp
      then show ?thesis using P(2) before_in_page[of r ?F r0 cap "\<lambda>r. the (key r)"] K(1,3) r(2) by auto
    qed (use below[OF r(1)] in simp)
    then have "landed r db'" if "r \<in> set (due lo tbl)" "the (key r) < lag K" for r
      using that order.strict_trans2[OF that(2) spec[OF assms(6), of K]] by simp
    ultimately show ?thesis using marks mk by (auto simp: behind_ok_def)
  qed
qed

text \<open>
  A run of ticks over one state of the source, each of which polls at or after the time \<open>U\<close> or leaves the tables alone and reports an error.
\<close>

lemma catch_up:
  assumes "ticks tick as s = (n, s')" "behind_ok lag U lo tbl (fst s)" "table_ok U tbl" "room lag tbl" "\<forall>w. lag w \<le> w"
    "\<And>a s r s'. \<lbrakk>a \<in> set as; tick a s = (r, s')\<rbrakk> \<Longrightarrow> fst s' = fst s \<and> (\<exists>e. r = Inl e)
       \<or> (\<exists>until start d res. U \<le> until \<and> poll cap width lag key sel (land d) pk until start d True (Inr tbl) (fst s) = (res, fst s'))"
  shows "behind_ok lag U lo tbl (fst s') \<and> (caught_up lo tbl (fst s') \<or> n + todo tbl (fst s') \<le> todo tbl (fst s))
    \<and> (caught_up lo tbl (fst s) \<longrightarrow> caught_up lo tbl (fst s'))"
  using assms(1,2,6)
proof (induction as arbitrary: s n)
  case (Cons a as)
  obtain r s1 where t: "tick a s = (r, s1)" by (cases "tick a s") auto
  obtain n1 where n1: "ticks tick as s1 = (n1, s')" "n \<le> n1 + 1" "(\<exists>e. r = Inl e) \<longrightarrow> n = n1"
    using Cons.prems(1) t by (cases "ticks tick as s1"; cases r) auto
  have step: "behind_ok lag U lo tbl (fst s1) \<and> (caught_up lo tbl (fst s1) \<or> (if \<exists>e. r = Inl e then 0 else 1) + todo tbl (fst s1) \<le> todo tbl (fst s))
      \<and> (caught_up lo tbl (fst s) \<longrightarrow> caught_up lo tbl (fst s1))"
  proof (cases "fst s1 = fst s \<and> (\<exists>e. r = Inl e)")
    case False
    then obtain until start d res where p: "U \<le> until" "poll cap width lag key sel (land d) pk until start d True (Inr tbl) (fst s) = (res, fst s1)"
      using Cons.prems(3)[OF _ t] by auto
    note pr = poll_progress[OF p(2) assms(3) p(1) Cons.prems(2) assms(4,5)]
    have "caught_up lo tbl (fst s) \<longrightarrow> caught_up lo tbl (fst s1)"
      using poll_lands(1)[OF p(2) assms(3) p(1) Cons.prems(2)] by (auto simp: caught_up_def landed_def)
    then show ?thesis using pr by auto
  qed (use Cons.prems(2) in auto)
  have IH: "behind_ok lag U lo tbl (fst s') \<and> (caught_up lo tbl (fst s') \<or> n1 + todo tbl (fst s') \<le> todo tbl (fst s1))
    \<and> (caught_up lo tbl (fst s1) \<longrightarrow> caught_up lo tbl (fst s'))"
  proof (rule Cons.IH[OF n1(1)])
    show "behind_ok lag U lo tbl (fst s1)" using step by simp
    show "fst s' = fst s \<and> (\<exists>e. r = Inl e)
       \<or> (\<exists>until start d res. U \<le> until \<and> poll cap width lag key sel (land d) pk until start d True (Inr tbl) (fst s) = (res, fst s'))"
      if "a \<in> set as" "tick a s = (r, s')" for a s r s' by (rule Cons.prems(3)) (use that in simp_all)
  qed
  show ?case using IH step n1(2,3) by (auto split: if_splits)
qed simp

end

section \<open>The three streams\<close>

lemma trim_key: "key_ok n k \<Longrightarrow> trim k = k"
proof -
  have ns: "dropWhile is_space xs = xs" if "list_all is_digit xs" for xs
    using that by (cases xs) (auto simp: is_digit_def is_space_def)
  assume "key_ok n k"
  then have "list_all is_digit k" "list_all is_digit (rev k)" by (simp_all add: key_ok_def list_all_iff)
  then show ?thesis by (simp add: trim_def ns)
qed

lemma land_move_row:
  "map_option (map_prod ml_pk id) (land_move sc d r) = map_option (map_prod ml_pk id) (land_move sc d' r)"
  by (auto simp: land_move_def ml_pk_def split: option.splits)

interpretation quay: move_stream FETCH_CAP 14 op_seqno "is_quay_move qcs" "land_move sc" "ml_pk :: move_log \<Rightarrow> _" for qcs sc
proof
  show "sq = k" if "land_move sc d r = Some (l, sq)" "op_seqno r = Some k" "key_ok 14 k" for d r l sq k
    using that trim_key[OF that(3)] by (auto simp: land_move_def split: option.splits)
  show "map_option (map_prod ml_pk id) (land_move sc d r) = map_option (map_prod ml_pk id) (land_move sc d' r)" for d r d' by (rule land_move_row)
qed

interpretation yard: move_stream FETCH_CAP 14 op_seqno is_yard_move "land_yard_move sc" "ml_pk :: yard_log \<Rightarrow> _" for sc
proof
  show "sq = k" if "land_yard_move sc d r = Some (l, sq)" "op_seqno r = Some k" "key_ok 14 k" for d r l sq k
    using that trim_key[OF that(3)] by (auto simp: land_yard_move_def land_move_def split: option.splits)
  show "map_option (map_prod ml_pk id) (land_yard_move sc d r) = map_option (map_prod ml_pk id) (land_yard_move sc d' r)" for d r d'
    by (auto simp: land_yard_move_def land_move_def ml_pk_def move_log.extend_def split: option.splits)
qed

interpretation handover: move_stream FETCH_CAP_LABEL 17 jh_evt is_handover "\<lambda>_. land_handover sc" hl_pk for sc
  by unfold_locales (auto simp: land_handover_def split: option.splits)

section \<open>A stream that is behind catches up\<close>

lemma run_logged_work:
  assumes "run_logged so fo now key d work s = (r, s')"
  shows "fst s' = fst s \<and> (\<exists>e. r = Inl e) \<or> (\<exists>res. work (fst s) = (res, fst s') \<and> ((\<exists>n. r = Inr n) \<longrightarrow> (\<exists>n. res = Inr n)))"
proof -
  obtain t db where s: "s = (t, db)" by (cases s)
  obtain run_id db1 where st: "start_run key d db = (run_id, db1)" by (cases "start_run key d db")
  obtain res t1 where w: "work t = (res, t1)" by (cases "work t")
  show ?thesis
  proof (cases so)
    case True
    then show ?thesis using assms w by (cases res) (auto simp: run_logged_def s st split: if_splits)
  qed (use assms in \<open>auto simp: run_logged_def s\<close>)
qed

lemma poll_case:
  assumes "poll cap width lag key sel land pk until start d ok src db = (res, db')"
  shows "db' = db \<and> (\<exists>e. res = Inl e) \<or> (\<exists>tbl. src = Inr tbl \<and> poll cap width lag key sel land pk until start d True (Inr tbl) db = (res, db'))"
proof (cases src)
  case (Inr tbl)
  then show ?thesis using assms by (cases ok) (auto simp: poll_def Let_def case_prod_beta)
qed (use assms in \<open>auto simp: poll_def\<close>)

lemma logged_poll:
  assumes "run_logged so fo now k d (poll cap width lag key sel land pk until start d ok src) s = (r, s')"
  shows "fst s' = fst s \<and> (\<exists>e. r = Inl e)
    \<or> (\<exists>tbl res. src = Inr tbl \<and> poll cap width lag key sel land pk until start d True (Inr tbl) (fst s) = (res, fst s'))"
  using run_logged_work[OF assms]
proof (elim disjE exE conjE)
  fix res assume w: "poll cap width lag key sel land pk until start d ok src (fst s) = (res, fst s')" "(\<exists>n. r = Inr n) \<longrightarrow> (\<exists>n. res = Inr n)"
  show ?thesis using poll_case[OF w(1)] w(2) by (cases r) auto
qed auto

lemma quay_tick_poll:
  assumes "\<forall>(f, now, d, e) \<in> set ts. U \<le> to_char (sc_cal sc) now" "a \<in> set ts"
    "(\<lambda>(f, now, d, e). tick_qc_moves f sc now d (case e of None \<Rightarrow> Inr (qcs, tbl) | Some x \<Rightarrow> Inl x)) a s = (r, s')"
  shows "fst s' = fst s \<and> (\<exists>e. r = Inl e)
    \<or> (\<exists>until start d res. U \<le> until
        \<and> poll FETCH_CAP 14 (seek_from (sc_cal sc)) op_seqno (is_quay_move qcs) (land_move sc d) ml_pk until start d True (Inr tbl) (fst s) = (res, fst s'))"
proof -
  obtain f now d e where a: "a = (f, now, d, e)" by (metis prod_cases4)
  have U: "U \<le> to_char (sc_cal sc) now" using assms(1,2) by (auto simp: a)
  note p = assms(3)[unfolded a prod.case tick_qc_moves_def Let_def]
  show ?thesis
  proof (cases e)
    case None
    have "fst s' = fst s \<and> (\<exists>e. r = Inl e) \<or> (\<exists>tbl' res. Inr tbl = (Inr tbl' :: string + _)
        \<and> poll FETCH_CAP 14 (seek_from (sc_cal sc)) op_seqno (is_quay_move qcs) (land_move sc d) ml_pk (to_char (sc_cal sc) now)
            (day_start (to_char (sc_cal sc) now)) d True (Inr tbl') (fst s) = (res, fst s'))"
      by (rule logged_poll) (use p None in simp)
    then show ?thesis using U by blast
  next
    case (Some x)
    then show ?thesis using logged_poll[OF p] by simp
  qed
qed

text \<open>
  C8. The log of the quay moves catches up. Let the ticks run over one state of the source, some failing to read it, to open the run, to commit or to close the run, and let more of
  them succeed than the source has rows, at times when no key lies in the future; the keys have fourteen digits, and never do as many rows as a page holds lie within the
  safety lag of one key or fail to be read as moves. Then every quay move of the source that can be read, from two minutes before the watermark on, is in the log.
\<close>

theorem quay_log_catches_up:
  assumes "ticks (\<lambda>(f, now, d, e). tick_qc_moves f sc now d (case e of None \<Rightarrow> Inr (qcs, tbl) | Some x \<Rightarrow> Inl x)) ts s = (n, s')" "length tbl < n"
    and "\<forall>(f, now, d, e) \<in> set ts. U \<le> to_char (sc_cal sc) now"
    and "\<forall>r \<in> set tbl. is_quay_move qcs r \<longrightarrow> (\<exists>k. op_seqno r = Some k \<and> key_ok 14 k \<and> k \<le> U)"
    and "max_text (map snd (sm_marks (fst s))) = Some w0" "\<forall>w \<in> snd ` set (sm_marks (fst s)). w \<le> U"
    and "\<forall>w. seek_from (sc_cal sc) w \<le> w"
    and "\<forall>w. length (filter (\<lambda>r. is_quay_move qcs r \<and> seek_from (sc_cal sc) w \<le> the (op_seqno r) \<and> (the (op_seqno r) \<le> w \<or> land_move sc 0 r = None)) tbl) < FETCH_CAP"
    and "r \<in> set tbl" "is_quay_move qcs r" "land_move sc 0 r = Some (l, sq)" "seek_from (sc_cal sc) w0 \<le> the (op_seqno r)"
  shows "ml_pk l \<in> ml_pk ` set (sm_log (fst s'))"
proof -
  let ?lag = "seek_from (sc_cal sc)"
  have ne: "sm_marks (fst s) \<noteq> []" using assms(5) by auto
  have "quay.mark (fst s) = w0" using assms(5) by (simp add: quay.mark_def)
  then have start: "quay.behind_ok qcs sc ?lag U (?lag w0) tbl (fst s)"
    using ne assms(6) by (auto simp: quay.behind_ok_def quay.due_def)
  have tbl: "quay.table_ok qcs U tbl" and room: "quay.room qcs sc ?lag tbl" using assms(4,8) by (simp_all add: quay.table_ok_def quay.room_def)
  have "quay.behind_ok qcs sc ?lag U (?lag w0) tbl (fst s') \<and> (quay.caught_up qcs sc (?lag w0) tbl (fst s') \<or> n + quay.todo qcs sc tbl (fst s') \<le> quay.todo qcs sc tbl (fst s))
      \<and> (quay.caught_up qcs sc (?lag w0) tbl (fst s) \<longrightarrow> quay.caught_up qcs sc (?lag w0) tbl (fst s'))"
    by (rule quay.catch_up[OF assms(1) start tbl room assms(7)]) (rule quay_tick_poll[OF assms(3)])
  then have "quay.caught_up qcs sc (?lag w0) tbl (fst s') \<or> n + quay.todo qcs sc tbl (fst s') \<le> quay.todo qcs sc tbl (fst s)" by blast
  moreover have "quay.todo qcs sc tbl (fst s) \<le> length tbl"
    unfolding quay.todo_def by (rule order.trans[OF length_filter_le length_filter_le])
  ultimately have "quay.caught_up qcs sc (?lag w0) tbl (fst s')" using assms(2) by linarith
  then have "quay.landed sc r (fst s')" using assms(9-12) by (auto simp: quay.caught_up_def quay.due_def)
  then show ?thesis using assms(11) by (simp add: quay.landed_def)
qed

text \<open>A calendar of fourteen digits, one move and two ticks.\<close>

lemma pad_unpad: "key_ok n k \<Longrightarrow> pad n (unpad k) = k \<and> unpad k < 10 ^ n"
proof (induction n arbitrary: k)
  case (Suc n)
  obtain xs c where k: "k = xs @ [c]" using Suc.prems by (cases k rule: rev_cases) (auto simp: key_ok_def)
  then have xs: "key_ok n xs" "is_digit c" using Suc.prems by (auto simp: key_ok_def)
  let ?x = "of_char c - 48 :: nat"
  have c: "?x \<le> 9" "48 + ?x = of_char c" using xs(2) by (auto simp: is_digit_def)
  have u: "unpad k = unpad xs * 10 + ?x" by (simp add: k unpad_def)
  have "(unpad xs * 10 + ?x) div 10 = unpad xs" "(unpad xs * 10 + ?x) mod 10 = ?x" using c(1) by simp_all
  then have "pad (Suc n) (unpad k) = k" unfolding u pad.simps using Suc.IH[OF xs(1)] c(2) by (simp only: k char_of_char)
  moreover have "unpad k < 10 ^ Suc n" using Suc.IH[OF xs(1)] c(1) unfolding u by simp
  ultimately show ?case by blast
qed (simp add: key_ok_def unpad_def)

definition small_cal :: stream_cal where
  "small_cal = \<lparr>sc_cal = \<lparr>to_char = (\<lambda>t. pad 14 (nat t)), of_text = (\<lambda>k. if key_ok 14 k then Some (int (unpad k)) else None)\<rparr>,
     sc_naive = (\<lambda>k. Some (int (unpad k))), sc_ymd = (\<lambda>k. Some (int (unpad k)))\<rparr>"

lemma small_cal_lag: "seek_from (sc_cal small_cal) w \<le> w"
proof (cases "key_ok 14 w")
  case True
  let ?b = "nat (int (unpad w) - 120)"
  have "pad 14 ?b < pad 14 (unpad w) \<longleftrightarrow> ?b < unpad w" by (rule pad_less) (use pad_unpad[OF True] in auto)
  moreover have "?b = unpad w \<or> ?b < unpad w" by auto
  ultimately have "pad 14 ?b \<le> pad 14 (unpad w)" by (auto simp: less_imp_le)
  then show ?thesis using True pad_unpad[OF True] by (simp add: seek_from_def small_cal_def)
qed (simp add: seek_from_def small_cal_def)

lemma small_now: "to_char (sc_cal small_cal) 20260810120100 = ''20260810120100''"
  using pad_unpad[of 14 "''20260810120100''"] by (simp add: small_cal_def key_ok_def is_digit_def unpad_def)

definition small_move :: mch_operation where
  "small_move = \<lparr>op_machno = Some ''QC1'', op_contno = Some ''B1'', op_seqno = Some ''20260810120000'', op_jobtype = Some ''DS'', op_trk_id = None, op_st_dt = None,
     op_compdate = Some ''20260810'', op_comptime = Some ''120000'', op_status = None, op_queuename = None, op_vessel = None, op_voyage = None, op_pos = [], op_iso = None\<rparr>"

definition all_fine :: db_faults where
  "all_fine = \<lparr>ok_start = (\<lambda>_. True), ok_finish = (\<lambda>_. True), ok_commit = (\<lambda>_. True)\<rparr>"

lemma fine_tick: "\<exists>n s'. tick_qc_moves all_fine sc now d (Inr (qcs, tbl)) s = (Inr n, s')"
  by (cases s) (simp add: tick_qc_moves_def run_logged_def all_fine_def poll_def Let_def case_prod_beta)

definition small_state :: "move_log stream_db \<times> run_db" where
  "small_state = (\<lparr>sm_log = [], sm_marks = [(0, ''20260810115959'')]\<rparr>, \<lparr>rb_next = 1, etl_run_log = [], data_freshness = Map.empty\<rparr>)"

definition small_tick :: "db_faults \<times> int \<times> date \<times> string option" where
  "small_tick = (all_fine, 20260810120100, 0, None)"

lemma small_move_facts:
  "is_quay_move [''QC1''] small_move" "key_ok 14 ''20260810120000''" "op_seqno small_move = Some ''20260810120000''"
  "\<exists>l. land_move small_cal 0 small_move = Some (l, ''20260810120000'') \<and> ml_pk l = (''QC1'', ''B1'', ''20260810120000'')"
  by (simp_all add: is_quay_move_def small_move_def is_some_and_def has_comptime_def key_ok_def is_digit_def land_move_def comp_dt_def opt_or_def parse_etw_def trim_def is_space_def
      small_cal_def ml_pk_def)

theorem quay_log_catches_up_witness:
  "\<exists>s'. ticks (\<lambda>(f, now, d, e). tick_qc_moves f small_cal now d (case e of None \<Rightarrow> Inr ([''QC1''], [small_move]) | Some x \<Rightarrow> Inl x)) [small_tick, small_tick] small_state = (2, s')
     \<and> (''QC1'', ''B1'', ''20260810120000'') \<in> ml_pk ` set (sm_log (fst s'))"
proof -
  let ?t = "\<lambda>(f, now, d, e). tick_qc_moves f small_cal now d (case e of None \<Rightarrow> Inr ([''QC1''], [small_move]) | Some x \<Rightarrow> Inl x)"
  have "\<exists>n s'. ?t small_tick s = (Inr n, s')" for s using fine_tick by (simp add: small_tick_def)
  then obtain n1 s1 n2 s2 where t: "?t small_tick small_state = (Inr n1, s1)" "?t small_tick s1 = (Inr n2, s2)" by meson
  then have run: "ticks ?t [small_tick, small_tick] small_state = (2, s2)" by simp
  obtain l where l: "land_move small_cal 0 small_move = Some (l, ''20260810120000'')" "ml_pk l = (''QC1'', ''B1'', ''20260810120000'')" using small_move_facts(4) by blast
  have less: "''20260810115959'' < ''20260810120000''" "''20260810120000'' < ''20260810120100''" by simp_all
  have "ml_pk l \<in> ml_pk ` set (sm_log (fst s2))"
  proof (rule quay_log_catches_up[OF run])
    show "\<forall>(f, now, d, e) \<in> set [small_tick, small_tick]. ''20260810120100'' \<le> to_char (sc_cal small_cal) now" by (simp add: small_tick_def small_now)
    show "\<forall>r \<in> set [small_move]. is_quay_move [''QC1''] r \<longrightarrow> (\<exists>k. op_seqno r = Some k \<and> key_ok 14 k \<and> k \<le> ''20260810120100'')"
      using small_move_facts(2,3) less by (simp add: less_imp_le)
    show "max_text (map snd (sm_marks (fst small_state))) = Some ''20260810115959''" by (simp add: small_state_def)
    show "\<forall>w \<in> snd ` set (sm_marks (fst small_state)). w \<le> ''20260810120100''" by (simp add: small_state_def)
    show "\<forall>w. seek_from (sc_cal small_cal) w \<le> w" using small_cal_lag by simp
    show "seek_from (sc_cal small_cal) ''20260810115959'' \<le> the (op_seqno small_move)"
      using order.trans[OF small_cal_lag less_imp_le[OF less(1)]] by (simp add: small_move_facts(3))
    show "\<forall>w. length (filter (\<lambda>r. is_quay_move [''QC1''] r \<and> seek_from (sc_cal small_cal) w \<le> the (op_seqno r) \<and> (the (op_seqno r) \<le> w \<or> land_move small_cal 0 r = None)) [small_move])
        < FETCH_CAP"
      by (intro allI order.strict_trans1[OF length_filter_le]) (simp add: FETCH_CAP_def)
  qed (use small_move_facts(1) l(1) in simp_all)
  then show ?thesis using run l(2) by auto
qed

section \<open>A watermark in the future\<close>

lemma update_future:
  assumes "map_of ms d = Some p" "until < p" "until < (x :: string)"
  shows "filter (\<lambda>w. w \<le> until) (map snd (AList.update d x ms)) = filter (\<lambda>w. w \<le> until) (map snd ms)"
  using assms by (induction ms) (auto split: if_splits)

lemma poll_marks:
  assumes "poll cap width lag key sel land pk until start d True (Inr tbl) db = (res, db')"
  shows "sm_marks db' = sm_marks db \<or> (\<exists>m. sm_marks db' = put_mark d m (sm_marks db))"
proof -
  define rows where "rows = page cap key sel (lag (read_mark until start (sm_marks db))) until tbl"
  obtain lg mx where f: "fold (land_one width land pk) rows (sm_log db, None) = (lg, mx)" by fastforce
  have "db' = db\<lparr>sm_log := lg, sm_marks := (case mx of Some m \<Rightarrow> put_mark d m (sm_marks db) | None \<Rightarrow> sm_marks db)\<rparr>"
    using assms f unfolding poll_def rows_def by auto
  then show ?thesis by (cases mx) auto
qed

lemma put_mark_future:
  assumes "map_of ms d = Some p" "until < p"
  shows "read_mark until start (put_mark d m ms) = read_mark until start ms"
proof -
  have "until < max p m" using assms(2) by (simp add: max_def less_le_trans)
  from update_future[OF assms this] show ?thesis by (simp add: read_mark_def put_mark_def assms(1))
qed


definition poisoned_state :: "move_log stream_db \<times> run_db" where
  "poisoned_state = (\<lparr>sm_log = [], sm_marks = [(1, ''20270101120000''), (0, ''20260809120000'')]\<rparr>, \<lparr>rb_next = 1, etl_run_log = [], data_freshness = Map.empty\<rparr>)"


end
