(* ===== verification/Spec2Isabelle.thy ===== *)
theory Spec2Isabelle
  imports Dispatch TosTable WakeGate Shortest CostModel Kpi Flush TickFacts TruckFacts MapMatchFacts LearnedFacts MoveFacts
begin

section \<open>The program\<close>

text \<open>
  The platform steers the terminal trucks of a container port. Two Rust programs share one Postgres database.

  The \<^emph>\<open>extractor\<close> (\<^verbatim>\<open>src/crates/extractor\<close>) copies the state of the terminal operating system into it: the work pool and the crane queues, the list of
  dispatchable trucks, the stow plan, the logs of completed moves and handovers, each as a tick under a run log. The \<^emph>\<open>service\<close> (\<^verbatim>\<open>src/crates/api\<close>) follows the trucks
  over a live feed, learns points and lanes, logs cycles, computes the demand of the cranes and, once a minute, matches free trucks to work: it selects the work that is due, covers
  the deadlines, assigns the trucks at least cost over the road network, and holds what it has sent until there is evidence that the order has ended. \<^verbatim>\<open>src/crates/core\<close>
  holds shifts, KPIs and statistics for both.
\<close>

section \<open>Theories and sources\<close>

text \<open>
  \<^descr> \<open>Prelude\<close>: collections of rewrite rules and the lemmas on lists, options and folds that the rest shares.

  Matching (\<^verbatim>\<open>api/src/livemap.rs\<close>):
  \<^descr> \<open>Hungarian\<close>: \<^verbatim>\<open>hungarian\<close>, loop by loop with its potentials; the answer is an assignment of least cost.
  \<^descr> \<open>Cover\<close>: \<^verbatim>\<open>deadline_cover\<close>; greedy by deadline and of greatest size, by augmenting paths.
  \<^descr> \<open>AssignSlots\<close>, \<open>MatchRound\<close>: \<^verbatim>\<open>assign_slots\<close> and the composition of cover and assignment in \<^verbatim>\<open>spawn_stage2_shadow\<close>.
  \<^descr> \<open>Select\<close>: due slots, \<^verbatim>\<open>allocate_due\<close>, \<^verbatim>\<open>pick_swaps\<close>.
  \<^descr> \<open>Holds\<close>, \<open>HoldSystem\<close>: \<^verbatim>\<open>release_held\<close>, \<^verbatim>\<open>apply_written\<close>, \<^verbatim>\<open>restore_holds\<close>, the rows of \<^verbatim>\<open>dispatch_sent\<close>, and the system of ticks, failures and
    restarts as a step relation.
  \<^descr> \<open>Dispatch\<close>: the tick from the candidate trucks to the orders, with the greedy baseline.
  \<^descr> \<open>WakeGate\<close>: the wait between two ticks and the freshness gate.

  Roads and costs (\<^verbatim>\<open>api/src/roadgraph.rs\<close>):
  \<^descr> \<open>Router\<close>, \<open>Shortest\<close>: the graph, its search with a heap and the routes; the fields and routes are shortest.
  \<^descr> \<open>CostModel\<close>: the cost curves and the cache in front of them, a locale for the cache.

  Live feed (\<^verbatim>\<open>api/src/livemap.rs\<close>):
  \<^descr> \<open>LiveTypes\<close>, \<open>Ingest\<close>, \<open>FeedRun\<close>: the state of the live map, every message that changes it, and its runs.
  \<^descr> \<open>Casts\<close>, \<open>Flush\<close>: the numeric casts and \<^verbatim>\<open>spawn_cycle_flush\<close>.
  \<^descr> \<open>MapMatch\<close>, \<open>MapMatchFacts\<close>: \<^verbatim>\<open>spawn_mapmatch_shadow\<close>.
  \<^descr> \<open>Learned\<close>, \<open>LearnedFacts\<close>: \<^verbatim>\<open>spawn_learn_persist\<close>, \<^verbatim>\<open>load_centroids\<close>, \<^verbatim>\<open>load_lanes\<close>, \<^verbatim>\<open>spawn_density_sampler\<close>.
  \<^descr> \<open>TruckState\<close>, \<open>TruckFacts\<close>: \<^verbatim>\<open>classify_tt\<close>, the live page, the health page and the logger of soon idle trucks.

  Demand (\<^verbatim>\<open>api/src/workpool.rs\<close>):
  \<^descr> \<open>WorkPool\<close>, \<open>CraneTime\<close>, \<open>WorkDemand\<close>, \<open>DemandFacts\<close>: the pool page, the timelines of the cranes and the items offered to the matcher.

  Extractor (\<^verbatim>\<open>extractor/src\<close>):
  \<^descr> \<open>TosAvail\<close>, \<open>TosReplay\<close>, \<open>TosTable\<close>: \<^verbatim>\<open>tos_avail.rs\<close>.
  \<^descr> \<open>RunLog\<close>: \<^verbatim>\<open>db.rs\<close> and \<^verbatim>\<open>kpis/common.rs\<close>.
  \<^descr> \<open>PoolTick\<close>, \<open>TickFacts\<close>: \<^verbatim>\<open>workpool.rs\<close>.
  \<^descr> \<open>StowPlan\<close>, \<open>StowFacts\<close>: \<^verbatim>\<open>stowplan.rs\<close> and its queries.
  \<^descr> \<open>MoveStream\<close>, \<open>MoveFacts\<close>: \<^verbatim>\<open>qc_moves.rs\<close>, \<^verbatim>\<open>rtg_moves.rs\<close>, \<^verbatim>\<open>handover.rs\<close>; one locale, three interpretations.

  Shared (\<^verbatim>\<open>core/src\<close>, \<^verbatim>\<open>api/src/periods.rs\<close>, \<^verbatim>\<open>api/src/agg.rs\<close>):
  \<^descr> \<open>Periods\<close>, \<open>Kpi\<close>: shifts, ranges, the aggregation of the KPIs and the two tests.
\<close>

section \<open>What is shown\<close>

text \<open>
  \<^item> Optimality and equivalence: the solver, the cover, the assignment, the router and the cost cache compute what their specifications say.
  \<^item> Invariants of the running system: no truck or work item that is held is ordered again, across restarts and failed writes; the cycle of a truck is in order; the live map
    stays bounded; the map matcher stays on its route.
  \<^item> Refinement: the mirror of the stow plan equals the plan after every tick; the interval table equals the list of dispatchable trucks; the freshness table is the summary of
    the finished runs; replaying the events reaches the snapshot.
  \<^item> Liveness: a stream that is behind catches up; a truck that becomes soon idle is logged; the wait of the gate ends with a reason.
  \<^item> Errors: a landing that fails leaves the tables of the last good tick and does not stop the other steps.
  \<^item> Across components: what the extractor lands is what the matcher is offered, once.
  \<^item> Behaviour that does not meet the intention is stated as a theorem too: the extension of the cost curves, the departure after the drop, the watermark in the future.
\<close>

section \<open>How the code is read\<close>

text \<open>
  Floating-point numbers are reals; integers are integers, with the casts of Rust where a width matters. A hash map is a function or a list without a
  repeated key, and a theorem never depends on the order of its entries. A table is a list of rows or a function from its key; a statement is a function on it; a transaction
  happens at once or not at all, and whether the database accepts it is an argument. A task is a function of its state and of what it reads; the steps of different tasks
  interleave, each step as a whole. Code outside of the repository appears as an argument: the Oracle queries by the rows they return, the reading of dates, the distribution
  functions, the gateway. Time is an argument of every step.

  Loops are recursions with a measure. The searches that the code runs until a heap is empty are given fuel: the number of edges and nodes bounds the pushes, and that it is
  enough is proved. The search of the solver and the augmenting paths end by their own measures.
\<close>

section \<open>Not modelled\<close>

text \<open>
  Pages that return the rows of one query (\<^verbatim>\<open>learn.rs\<close>, \<^verbatim>\<open>routes.rs\<close>, \<^verbatim>\<open>cycles.rs\<close>, \<^verbatim>\<open>live.rs\<close>); the start of the programs and the child process that runs Oracle queries;
  the nightly extracts, which copy the rows of one query each; weather, baselines and the crane guard; the quality figures computed inside the database; log messages; the web
  frontend, the migrations, the scripts. They hold no logic of their own, or logic in SQL over tables that only SQL touches.
\<close>

end
